(* ===== verification/Prelude.thy ===== *)
theory Prelude
  imports Main "HOL-Library.List_Lexorder" "HOL-Library.Char_ord" "HOL-Library.Sublist"
begin

text \<open>
  What the component theories share.
  \<^item> Fixed-width counters. A Rust \<^verbatim>\<open>u64\<close> that is only counted, compared and added is a
    \<^typ>\<open>nat\<close> with the width written out at every operation that can leave it
    (\<^verbatim>\<open>checked_add\<close>, \<^verbatim>\<open>saturating_add\<close>, \<^verbatim>\<open>Iterator::sum\<close>, casts).
    Bit-level code uses words and imports them itself.
  \<^item> Fallible code. \<^verbatim>\<open>Result<T, E>\<close> is \<open>'e + 'a\<close>; the question mark operator is
    \<open>bind_res\<close>, a loop with early returns is \<open>fold_res\<close> or \<open>each_res\<close>.
  \<^item> The collection \<open>res_simps\<close> of facts about these combinators.
\<close>

named_theorems res_simps "when a fallible computation returns, and what it returns"

named_theorems rust_arith "the fixed-width operations on counters"

named_theorems rust_eval "unfolds the executable definitions on concrete arguments"

section \<open>Fixed-width counters\<close>

type_synonym u64 = nat
type_synonym u32 = nat
type_synonym usize = nat

definition u64_max :: u64 where
  "u64_max = 2 ^ 64 - 1"

definition u64_checked_add :: "u64 \<Rightarrow> u64 \<Rightarrow> u64 option" where
  "u64_checked_add a b = (if a + b \<le> u64_max then Some (a + b) else None)"

definition u64_saturating_add :: "u64 \<Rightarrow> u64 \<Rightarrow> u64" where
  "u64_saturating_add a b = min (a + b) u64_max"

definition u64_wrapping_add :: "u64 \<Rightarrow> u64 \<Rightarrow> u64" where
  "u64_wrapping_add a b = (a + b) mod (u64_max + 1)"

text \<open>
  \<^verbatim>\<open>Iterator::sum\<close> of \<^verbatim>\<open>u64\<close> values in the release profile: every addition wraps.
\<close>

definition u64_sum :: "u64 list \<Rightarrow> u64" where
  "u64_sum xs = foldl u64_wrapping_add 0 xs"

definition as_u32 :: "nat \<Rightarrow> u32" where
  "as_u32 n = n mod 2 ^ 32"

lemma u64_max_Suc [rust_arith]: "u64_max + 1 = 2 ^ 64"
  by (simp add: u64_max_def)

lemma u64_checked_add_iff [rust_arith]:
  "u64_checked_add a b = Some c \<longleftrightarrow> c = a + b \<and> c \<le> u64_max"
  by (auto simp: u64_checked_add_def)

lemma foldl_wrapping_add:
  "foldl u64_wrapping_add a xs = (if xs = [] then a else (a + sum_list xs) mod (u64_max + 1))"
proof (induction xs arbitrary: a)
  case Nil
  then show ?case by simp
next
  case (Cons x xs)
  then show ?case
    by (auto simp: u64_wrapping_add_def mod_simps add.assoc)
qed

lemma u64_sum_eq [rust_arith]: "u64_sum xs = sum_list xs mod (u64_max + 1)"
  by (simp add: u64_sum_def foldl_wrapping_add)

lemma u64_sum_exact [rust_arith]: "sum_list xs \<le> u64_max \<Longrightarrow> u64_sum xs = sum_list xs"
  by (simp add: u64_sum_eq)

lemma u64_sum_le_max: "u64_sum xs \<le> u64_max"
  by (metis Suc_eq_plus1 less_Suc_eq_le mod_less_divisor u64_sum_eq zero_less_Suc)

section \<open>Fallible computations\<close>

definition bind_res :: "'e + 'a \<Rightarrow> ('a \<Rightarrow> 'e + 'b) \<Rightarrow> 'e + 'b" where
  "bind_res r f = (case r of Inl e \<Rightarrow> Inl e | Inr a \<Rightarrow> f a)"

definition map_err :: "('e \<Rightarrow> 'f) \<Rightarrow> 'e + 'a \<Rightarrow> 'f + 'a" where
  "map_err g r = (case r of Inl e \<Rightarrow> Inl (g e) | Inr a \<Rightarrow> Inr a)"

text \<open>\<open>require b e\<close> is \<^verbatim>\<open>if !b { return Err(e) }\<close>.\<close>

definition require :: "bool \<Rightarrow> 'e \<Rightarrow> 'e + unit" where
  "require b e = (if b then Inr () else Inl e)"

fun fold_res :: "('s \<Rightarrow> 'a \<Rightarrow> 'e + 's) \<Rightarrow> 's \<Rightarrow> 'a list \<Rightarrow> 'e + 's" where
  "fold_res f s [] = Inr s"
| "fold_res f s (x # xs) = bind_res (f s x) (\<lambda>s'. fold_res f s' xs)"

definition each_res :: "('a \<Rightarrow> 'e + unit) \<Rightarrow> 'a list \<Rightarrow> 'e + unit" where
  "each_res f xs = fold_res (\<lambda>_ x. f x) () xs"

text \<open>\<^verbatim>\<open>iter().map(f).collect::<Result<Vec<_>, _>>()\<close>, and a loop that pushes \<open>f(x)?\<close>.\<close>

fun map_res :: "('a \<Rightarrow> 'e + 'b) \<Rightarrow> 'a list \<Rightarrow> 'e + 'b list" where
  "map_res f [] = Inr []"
| "map_res f (x # xs) = bind_res (f x) (\<lambda>y. bind_res (map_res f xs) (\<lambda>ys. Inr (y # ys)))"

lemma bind_res_simps [simp]:
  "bind_res (Inl e) f = Inl e" "bind_res (Inr a) f = f a"
  by (simp_all add: bind_res_def)

lemma bind_res_Inr_iff [res_simps]:
  "bind_res r f = Inr b \<longleftrightarrow> (\<exists>a. r = Inr a \<and> f a = Inr b)"
  by (cases r) auto

lemma bind_res_Inl_iff:
  "bind_res r f = Inl e \<longleftrightarrow> r = Inl e \<or> (\<exists>a. r = Inr a \<and> f a = Inl e)"
  by (cases r) auto

lemma map_err_simps [simp]: "map_err g (Inl e) = Inl (g e)" "map_err g (Inr a) = Inr a"
  by (simp_all add: map_err_def)

lemma map_err_Inr_iff [res_simps]: "map_err g r = Inr a \<longleftrightarrow> r = Inr a"
  by (cases r) auto

lemma require_Inr_iff [res_simps]: "require b e = Inr u \<longleftrightarrow> b"
  by (simp add: require_def)

lemma require_simps [simp]: "require True e = Inr ()" "require False e = Inl e"
  by (simp_all add: require_def)

lemma fold_res_append [simp]:
  "fold_res f s (xs @ ys) = bind_res (fold_res f s xs) (\<lambda>s'. fold_res f s' ys)"
proof (induction xs arbitrary: s)
  case Nil
  then show ?case by simp
next
  case (Cons x xs)
  then show ?case by (cases "f s x") auto
qed

lemma each_res_simps [simp]:
  "each_res f [] = Inr ()"
  "each_res f (x # xs) = bind_res (f x) (\<lambda>_. each_res f xs)"
  by (simp_all add: each_res_def)

lemma each_res_Inr_iff [res_simps]:
  "each_res f xs = Inr u \<longleftrightarrow> list_all (\<lambda>x. f x = Inr ()) xs"
  by (induction xs) (auto simp: res_simps)

text \<open>
  A loop whose body returns the first error: it succeeds with the folded state exactly when
  every step succeeds, and an invariant of the steps is an invariant of the loop.
\<close>

lemma fold_res_invariant:
  assumes "fold_res f s xs = Inr s'" and "P s"
    and "\<And>s x s'. x \<in> set xs \<Longrightarrow> P s \<Longrightarrow> f s x = Inr s' \<Longrightarrow> P s'"
  shows "P s'"
  using assms
proof (induction xs arbitrary: s)
  case Nil
  then show ?case by simp
next
  case (Cons x xs)
  from Cons.prems(1) obtain t where "f s x = Inr t" and rest: "fold_res f t xs = Inr s'"
    by (auto simp: res_simps)
  with Cons.prems(2,3) have "P t" by auto
  with rest show ?case using Cons.IH Cons.prems(3) by (meson list.set_intros(2))
qed

section \<open>Sets that refuse a second copy\<close>

text \<open>\<^verbatim>\<open>if !set.insert(x) { return Err(e) }\<close>.\<close>

definition insert_new :: "'e \<Rightarrow> 'a \<Rightarrow> 'a set \<Rightarrow> 'e + 'a set" where
  "insert_new e x s = (if x \<in> s then Inl e else Inr (insert x s))"

lemma insert_new_Inr_iff [res_simps]:
  "insert_new e x s = Inr s' \<longleftrightarrow> x \<notin> s \<and> s' = insert x s"
  by (auto simp: insert_new_def)

lemma insert_new_loop [res_simps]:
  "fold_res (\<lambda>s a. insert_new (e a) (key a) s) s xs = Inr s' \<longleftrightarrow>
     distinct (map key xs) \<and> s \<inter> key ` set xs = {} \<and> s' = s \<union> key ` set xs"
proof (induction xs arbitrary: s)
  case Nil
  then show ?case by auto
next
  case (Cons x xs)
  show ?case by (auto simp: Cons.IH insert_new_Inr_iff bind_res_Inr_iff)
qed

text \<open>A loop that inserts two keys of every element into two such sets.\<close>

lemma insert_pair_loop:
  assumes "\<And>s x s'. step s x = Inr s' \<longleftrightarrow>
    good x \<and> k1 x \<notin> fst s \<and> k2 x \<notin> snd s \<and> s' = (insert (k1 x) (fst s), insert (k2 x) (snd s))"
  shows "fold_res step s xs = Inr s' \<longleftrightarrow>
    list_all good xs \<and> distinct (map k1 xs) \<and> distinct (map k2 xs)
    \<and> fst s \<inter> k1 ` set xs = {} \<and> snd s \<inter> k2 ` set xs = {}
    \<and> s' = (fst s \<union> k1 ` set xs, snd s \<union> k2 ` set xs)"
proof (induction xs arbitrary: s)
  case Nil
  then show ?case by (cases s) auto
next
  case (Cons x xs)
  show ?case by (auto simp: Cons.IH assms bind_res_Inr_iff)
qed


lemma list_all_labels: "list_all (\<lambda>x. f x = a) xs \<longleftrightarrow> map f xs = replicate (length xs) a"
  by (induction xs) auto


lemma find_found: "List.find P xs = Some x \<Longrightarrow> x \<in> set xs \<and> P x"
  by (induction xs) (auto split: if_splits)


end
