(* ===== verification/Rust_Text.thy ===== *)
theory Rust_Text
  imports Prelude
begin

text \<open>
  Rust strings and byte strings. A Rust \<^verbatim>\<open>String\<close> is its UTF-8 byte sequence, an Isabelle
  \<^typ>\<open>string\<close> (a list of 8-bit characters): \<^verbatim>\<open>len()\<close> is \<^term>\<open>length\<close>,
  equality and ordering are bytewise, as in Rust, and \<^verbatim>\<open>chars()\<close> cuts the bytes before every
  byte that is not a continuation byte. The Unicode tables the code reaches through the standard
  library are written out where they are small (white space, control characters); the table of
  printable characters used by the debug format is a parameter.
\<close>

section \<open>Characters of a UTF-8 string\<close>

definition byte_of :: "char \<Rightarrow> nat" where
  "byte_of c = of_char c"

definition utf8_cont :: "char \<Rightarrow> bool" where
  "utf8_cont c \<longleftrightarrow> 128 \<le> byte_of c \<and> byte_of c < 192"

function utf8_chars :: "string \<Rightarrow> string list" where
  "utf8_chars [] = []"
| "utf8_chars (c # cs) = (c # takeWhile utf8_cont cs) # utf8_chars (dropWhile utf8_cont cs)"
  by pat_completeness auto
termination
  by (relation "measure length") (auto simp: le_imp_less_Suc length_dropWhile_le)

definition chars_count :: "string \<Rightarrow> nat" where
  "chars_count s = length (utf8_chars s)"

fun code_point :: "string \<Rightarrow> nat" where
  "code_point [a] = byte_of a"
| "code_point [a, b] = (byte_of a mod 32) * 64 + byte_of b mod 64"
| "code_point [a, b, c] = (byte_of a mod 16) * 4096 + (byte_of b mod 64) * 64 + byte_of c mod 64"
| "code_point [a, b, c, d] =
     (byte_of a mod 8) * 262144 + (byte_of b mod 64) * 4096 + (byte_of c mod 64) * 64
     + byte_of d mod 64"
| "code_point _ = 0"

text \<open>\<^verbatim>\<open>char::is_control\<close> is the general category Cc.\<close>

definition char_is_control :: "string \<Rightarrow> bool" where
  "char_is_control ch \<longleftrightarrow>
     (let p = code_point ch in p < 32 \<or> (127 \<le> p \<and> p < 160))"

text \<open>\<^verbatim>\<open>char::is_whitespace\<close> is the property White\_Space.\<close>

definition char_is_whitespace :: "string \<Rightarrow> bool" where
  "char_is_whitespace ch \<longleftrightarrow>
     (let p = code_point ch in
        (9 \<le> p \<and> p \<le> 13) \<or> p = 32 \<or> p = 133 \<or> p = 160 \<or> p = 5760
        \<or> (8192 \<le> p \<and> p \<le> 8202) \<or> p = 8232 \<or> p = 8233 \<or> p = 8239 \<or> p = 8287 \<or> p = 12288)"

definition str_trim_start :: "string \<Rightarrow> string" where
  "str_trim_start s = concat (dropWhile char_is_whitespace (utf8_chars s))"

definition str_trim :: "string \<Rightarrow> string" where
  "str_trim s =
     concat (rev (dropWhile char_is_whitespace
       (rev (dropWhile char_is_whitespace (utf8_chars s)))))"

lemma concat_utf8_chars [simp]: "concat (utf8_chars s) = s"
  by (induction s rule: utf8_chars.induct) auto

lemma utf8_chars_eq_Nil [simp]: "utf8_chars s = [] \<longleftrightarrow> s = []"
  by (cases s) auto

lemma chars_count_le: "chars_count s \<le> length s"
proof (induction s rule: utf8_chars.induct)
  case 1
  then show ?case by (simp add: chars_count_def)
next
  case (2 c cs)
  have "length (dropWhile utf8_cont cs) \<le> length cs"
    by (simp add: length_dropWhile_le)
  with 2 show ?case by (simp add: chars_count_def)
qed

text \<open>A character that does not continue another ends the text before it.\<close>

lemma utf8_chars_snoc: "\<not> utf8_cont q \<Longrightarrow> utf8_chars (s @ [q]) = utf8_chars s @ [[q]]"
proof (induction s rule: utf8_chars.induct)
  case 1
  then show ?case by simp
next
  case (2 c cs)
  have "takeWhile utf8_cont (cs @ [q]) = takeWhile utf8_cont cs"
    using 2 by (induction cs) auto
  moreover have "dropWhile utf8_cont (cs @ [q]) = dropWhile utf8_cont cs @ [q]"
    using 2(2) by (induction cs) auto
  ultimately show ?case using 2 by simp
qed

lemma utf8_chars_Cons:
  "\<not> utf8_cont d \<Longrightarrow> utf8_chars (c # d # s) = [c] # utf8_chars (d # s)"
  by simp

text \<open>Trimming keeps a text whose first and last characters are visible.\<close>

lemma str_trim_visible:
  assumes "\<not> utf8_cont q" "\<not> char_is_whitespace [q]" "\<not> utf8_cont d" "\<not> char_is_whitespace [c]"
  shows "str_trim (c # d # s @ [q]) = c # d # s @ [q]"
proof -
  have "utf8_chars (c # d # s @ [q]) = [c] # utf8_chars (d # s) @ [[q]]"
    using utf8_chars_snoc [OF assms(1), of "c # d # s"] utf8_chars_Cons [OF assms(3), of c s] by simp
  then show ?thesis
    using assms(2,4) by (simp add: str_trim_def del: utf8_chars.simps)
qed

section \<open>Queries and edits on bytes\<close>

definition ascii_lower :: "char \<Rightarrow> char" where
  "ascii_lower c = (let b = byte_of c in if 65 \<le> b \<and> b \<le> 90 then ''abcdefghijklmnopqrstuvwxyz'' ! (b - 65) else c)"

definition to_ascii_lowercase :: "string \<Rightarrow> string" where
  "to_ascii_lowercase s = map ascii_lower s"

definition is_ascii_digit :: "char \<Rightarrow> bool" where
  "is_ascii_digit c \<longleftrightarrow> 48 \<le> byte_of c \<and> byte_of c \<le> 57"

definition is_ascii_hexdigit :: "char \<Rightarrow> bool" where
  "is_ascii_hexdigit c \<longleftrightarrow>
     (let b = byte_of c in
        (48 \<le> b \<and> b \<le> 57) \<or> (65 \<le> b \<and> b \<le> 70) \<or> (97 \<le> b \<and> b \<le> 102))"

definition starts_with :: "string \<Rightarrow> string \<Rightarrow> bool" where
  "starts_with s p \<longleftrightarrow> prefix p s"

definition ends_with :: "string \<Rightarrow> string \<Rightarrow> bool" where
  "ends_with s p \<longleftrightarrow> suffix p s"

definition strip_prefix :: "string \<Rightarrow> string \<Rightarrow> string option" where
  "strip_prefix s p = (if prefix p s then Some (drop (length p) s) else None)"

text \<open>\<^verbatim>\<open>get(..n)\<close>: none past the end or inside a character.\<close>

definition str_get_prefix :: "nat \<Rightarrow> string \<Rightarrow> string option" where
  "str_get_prefix n s =
     (if n = length s \<or> (n < length s \<and> \<not> utf8_cont (s ! n)) then Some (take n s) else None)"

fun str_contains :: "string \<Rightarrow> string \<Rightarrow> bool" where
  "str_contains [] p = (p = [])"
| "str_contains (c # s) p = (prefix p (c # s) \<or> str_contains s p)"

text \<open>\<^verbatim>\<open>contains(['/', '\\'])\<close>: a path separator of either kind.\<close>

definition has_separator :: "string \<Rightarrow> bool" where
  "has_separator s \<longleftrightarrow> CHR 0x2F \<in> set s \<or> CHR 0x5C \<in> set s"

definition has_control :: "string \<Rightarrow> bool" where
  "has_control s \<longleftrightarrow> list_ex char_is_control (utf8_chars s)"

lemma str_contains_iff: "str_contains s p \<longleftrightarrow> (\<exists>a b. s = a @ p @ b)"
proof (induction s)
  case Nil
  then show ?case by auto
next
  case (Cons c s)
  show ?case
  proof
    assume "str_contains (c # s) p"
    then consider "prefix p (c # s)" | "str_contains s p" by auto
    then show "\<exists>a b. c # s = a @ p @ b"
    proof cases
      case 1
      then show ?thesis by (auto simp: prefix_def intro: exI [of _ "[]"])
    next
      case 2
      with Cons.IH obtain a b where "c # s = (c # a) @ p @ b" by auto
      then show ?thesis by blast
    qed
  next
    assume "\<exists>a b. c # s = a @ p @ b"
    then obtain a b where ab: "c # s = a @ p @ b" by blast
    show "str_contains (c # s) p"
    proof (cases a)
      case Nil
      with ab have "prefix p (c # s)" by (metis append_Nil prefixI)
      then show ?thesis by simp
    next
      case (Cons d a')
      with ab have "s = a' @ p @ b" by simp
      with Cons.IH show ?thesis by auto
    qed
  qed
qed

section \<open>Lines\<close>

definition lf :: char where
  "lf = CHR 0x0A"

text \<open>\<^verbatim>\<open>str::lines\<close>: without their line feeds, nor a carriage return before one.\<close>

definition strip_cr :: "string \<Rightarrow> string" where
  "strip_cr s = (if s \<noteq> [] \<and> last s = CHR 0x0D then butlast s else s)"

function str_lines :: "string \<Rightarrow> string list" where
  "str_lines s =
     (if s = [] then []
      else (case dropWhile (\<lambda>c. c \<noteq> lf) s of
              [] \<Rightarrow> [s]
            | c # rest \<Rightarrow> strip_cr (takeWhile (\<lambda>c. c \<noteq> lf) s) # str_lines rest))"
  by pat_completeness auto
termination
proof (relation "measure length")
  fix s c rest assume "dropWhile (\<lambda>c. c \<noteq> lf) s = c # rest"
  then have "length (c # rest) \<le> length s" by (metis length_dropWhile_le)
  then show "(rest, s) \<in> measure length" by simp
qed simp

declare str_lines.simps [simp del]

lemma str_lines_line:
  assumes "lf \<notin> set l" "CHR 0x0D \<notin> set l"
  shows "str_lines (l @ lf # rest) = l # str_lines rest"
proof -
  have "takeWhile (\<lambda>c. c \<noteq> lf) (l @ lf # rest) = l" "dropWhile (\<lambda>c. c \<noteq> lf) (l @ lf # rest) = lf # rest"
    using assms(1) by (induction l) auto
  moreover have "strip_cr l = l" using assms(2) unfolding strip_cr_def by (metis last_in_set)
  ultimately show ?thesis by (subst str_lines.simps) simp
qed

lemma str_lines_Nil [simp]: "str_lines [] = []"
  by (simp add: str_lines.simps)

lemma str_lines_unlines:
  "list_all (\<lambda>l. lf \<notin> set l \<and> CHR 0x0D \<notin> set l) ls \<Longrightarrow> str_lines (concat (map (\<lambda>l. l @ [lf]) ls)) = ls"
  by (induction ls) (simp_all add: str_lines_line)

section \<open>Numbers in text\<close>

definition hex_digit :: "nat \<Rightarrow> char" where
  "hex_digit d = ''0123456789abcdef'' ! d"

fun show_nat :: "nat \<Rightarrow> string" where
  "show_nat n =
     (if n < 10 then [hex_digit n] else show_nat (n div 10) @ [hex_digit (n mod 10)])"

declare show_nat.simps [simp del]

text \<open>The format \<^verbatim>\<open>{:06}\<close>.\<close>

definition show_nat_pad6 :: "nat \<Rightarrow> string" where
  "show_nat_pad6 n = (let s = show_nat n in replicate (6 - length s) (CHR 0x30) @ s)"

fun show_hex :: "nat \<Rightarrow> string" where
  "show_hex n = (if n < 16 then [hex_digit n] else show_hex (n div 16) @ [hex_digit (n mod 16)])"

declare show_hex.simps [simp del]

text \<open>The format \<^verbatim>\<open>{:02x}\<close> of a byte.\<close>

definition hex_byte :: "nat \<Rightarrow> string" where
  "hex_byte b = [hex_digit (b div 16), hex_digit (b mod 16)]"

fun join :: "string \<Rightarrow> string list \<Rightarrow> string" where
  "join sep [] = []"
| "join sep [s] = s"
| "join sep (s # t # ss) = s @ sep @ join sep (t # ss)"

section \<open>The debug format of a string\<close>

text \<open>
  \<^verbatim>\<open>{:?}\<close> of a \<^verbatim>\<open>str\<close>: double quotes around the characters, each escaped as the standard
  library does. \<open>printable\<close> says which characters outside ASCII are written as they are.
\<close>

definition char_debug :: "(string \<Rightarrow> bool) \<Rightarrow> string \<Rightarrow> string" where
  "char_debug printable ch =
     (let p = code_point ch; bs = CHR 0x5C in
      if p = 0 then [bs, CHR 0x30]
      else if p = 9 then [bs, CHR 0x74]
      else if p = 13 then [bs, CHR 0x72]
      else if p = 10 then [bs, CHR 0x6E]
      else if p = 34 then [bs, CHR 0x22]
      else if p = 92 then [bs, bs]
      else if (32 \<le> p \<and> p < 127) \<or> (128 \<le> p \<and> printable ch) then ch
      else [bs, CHR 0x75, CHR 0x7B] @ show_hex p @ [CHR 0x7D])"

definition str_debug :: "(string \<Rightarrow> bool) \<Rightarrow> string \<Rightarrow> string" where
  "str_debug printable s = [CHR 0x22] @ concat (map (char_debug printable) (utf8_chars s)) @ [CHR 0x22]"

section \<open>Facts the components share\<close>

lemma byte_of_lt [simp]: "byte_of c < 256"
  by (simp add: byte_of_def)

lemma show_nat_nonempty [simp]: "show_nat n \<noteq> []"
  by (subst show_nat.simps) simp

lemma less_16_cases: "(d::nat) < 16 \<Longrightarrow> d \<in> {0, 1, 2, 3, 4, 5, 6, 7, 8, 9, 10, 11, 12, 13, 14, 15}"
  by simp presburger

lemma hex_digit_is_hex: "d < 16 \<Longrightarrow> is_ascii_hexdigit (hex_digit d)"
  by (drule less_16_cases, elim insertE emptyE)
     (simp_all add: hex_digit_def is_ascii_hexdigit_def byte_of_def)

lemma hex_byte_hex:
  assumes "b < 256"
  shows "list_all is_ascii_hexdigit (hex_byte b)"
proof -
  from assms have "b div 16 < 16" "b mod 16 < 16" by auto
  then show ?thesis by (simp add: hex_byte_def hex_digit_is_hex)
qed

lemmas [rust_eval] =
  byte_of_def utf8_cont_def char_is_control_def char_is_whitespace_def str_trim_def
  str_trim_start_def chars_count_def ascii_lower_def to_ascii_lowercase_def is_ascii_hexdigit_def
  str_get_prefix_def starts_with_def ends_with_def suffix_to_prefix strip_prefix_def has_separator_def has_control_def show_nat.simps
  show_nat_pad6_def hex_digit_def show_hex.simps hex_byte_def char_debug_def str_debug_def Let_def

end
