(* ===== verification/Source.thy ===== *)
theory Source
  imports Rust_Text
begin

text \<open>
  \<^verbatim>\<open>crates/aicx-parser/src/engine/source.rs\<close>: the agents the parser knows, the named
  artifacts of a source, and the sealed source handle. Opening a path is the file system's
  (\<open>validate_path\<close>, \<open>is_file\<close> are parameters); everything else is the code's.
\<close>

section \<open>Agents\<close>

datatype agent_kind =
  Codex | Claude | Gemini | Grok | Junie | Kimi | Cursor | Copilot | Omp | Agy

definition agent_parse :: "string \<Rightarrow> agent_kind option" where
  "agent_parse value =
     (let v = to_ascii_lowercase (str_trim value) in
      if v = ''claude'' then Some Claude
      else if v = ''codex'' then Some Codex
      else if v = ''cursor'' \<or> v = ''cursor-agent'' then Some Cursor
      else if v = ''gemini'' \<or> v = ''gemini-antigravity'' then Some Gemini
      else if v = ''agy'' \<or> v = ''antigravity'' \<or> v = ''antigravity-cli'' then Some Agy
      else if v = ''junie'' then Some Junie
      else if v = ''grok'' then Some Grok
      else if v = ''kimi'' then Some Kimi
      else if v = ''copilot'' \<or> v = ''copilot-cli'' \<or> v = ''github-copilot''
              \<or> v = ''github-copilot-cli'' then Some Copilot
      else if v = ''omp'' \<or> v = ''pi'' \<or> v = ''oh-my-pi'' then Some Omp
      else None)"

fun agent_as_str :: "agent_kind \<Rightarrow> string" where
  "agent_as_str Codex = ''codex''"
| "agent_as_str Claude = ''claude''"
| "agent_as_str Gemini = ''gemini''"
| "agent_as_str Grok = ''grok''"
| "agent_as_str Junie = ''junie''"
| "agent_as_str Kimi = ''kimi''"
| "agent_as_str Cursor = ''cursor''"
| "agent_as_str Copilot = ''copilot''"
| "agent_as_str Omp = ''omp''"
| "agent_as_str Agy = ''agy''"

text \<open>The upper-case spelling of an ASCII name, which \<^verbatim>\<open>parse\<close> must read as well.\<close>

definition ascii_upper :: "char \<Rightarrow> char" where
  "ascii_upper c =
     (let b = byte_of c in
      if 97 \<le> b \<and> b \<le> 122 then ''ABCDEFGHIJKLMNOPQRSTUVWXYZ'' ! (b - 97) else c)"

section \<open>Artifacts\<close>

datatype source_framing = JsonLines | WholeDocument | Opaque

type_synonym path = string
type_synonym bytes = string

datatype artifact_input = ValidatedFile path | Memory bytes

record source_artifact =
  art_name :: string
  art_framing :: source_framing
  art_input :: artifact_input

datatype source_error =
    EmptyArtifacts
  | DuplicateArtifact string
  | InvalidComponent string string
  | InvalidPath path string

definition component_invalid :: "string \<Rightarrow> bool" where
  "component_invalid value \<longleftrightarrow>
     value = [] \<or> 512 < length value \<or> starts_with value ''.''
     \<or> has_separator value \<or> has_control value"

definition validate_component :: "string \<Rightarrow> string \<Rightarrow> source_error + string" where
  "validate_component label value =
     (if component_invalid value then Inl (InvalidComponent label value) else Inr value)"

definition artifact_validated_file ::
  "(path \<Rightarrow> string + path) \<Rightarrow> (path \<Rightarrow> bool) \<Rightarrow> string \<Rightarrow> path \<Rightarrow> source_framing
    \<Rightarrow> source_error + source_artifact" where
  "artifact_validated_file validate_path is_file name p framing =
     bind_res (validate_component ''artifact name'' name) (\<lambda>name.
     bind_res (map_err (InvalidPath p) (validate_path p)) (\<lambda>p'.
     if \<not> is_file p' then Inl (InvalidPath p' ''selected artifact is not a regular file'')
     else Inr \<lparr>art_name = name, art_framing = framing, art_input = ValidatedFile p'\<rparr>))"

definition artifact_memory ::
  "string \<Rightarrow> bytes \<Rightarrow> source_framing \<Rightarrow> source_error + source_artifact" where
  "artifact_memory name bs framing =
     bind_res (validate_component ''artifact name'' name) (\<lambda>name.
     Inr \<lparr>art_name = name, art_framing = framing, art_input = Memory bs\<rparr>)"

fun validated_path :: "artifact_input \<Rightarrow> path option" where
  "validated_path (ValidatedFile p) = Some p"
| "validated_path (Memory _) = None"

fun memory_bytes :: "artifact_input \<Rightarrow> bytes option" where
  "memory_bytes (ValidatedFile _) = None"
| "memory_bytes (Memory bs) = Some bs"

section \<open>The source handle\<close>

record source_handle =
  sh_agent :: agent_kind
  source_id :: string
  logical_session_id :: "string option"
  artifacts :: "source_artifact list"

definition source_handle_new ::
  "agent_kind \<Rightarrow> string \<Rightarrow> string option \<Rightarrow> source_artifact list
    \<Rightarrow> source_error + source_handle" where
  "source_handle_new agent sid logical arts =
     bind_res (validate_component ''source id'' sid) (\<lambda>sid.
     bind_res (case logical of None \<Rightarrow> Inr None
               | Some l \<Rightarrow> bind_res (validate_component ''logical session id'' l) (\<lambda>l. Inr (Some l)))
       (\<lambda>logical.
     if arts = [] then Inl EmptyArtifacts
     else bind_res (fold_res (\<lambda>names a. insert_new (DuplicateArtifact (art_name a)) (art_name a) names)
         {} arts) (\<lambda>_.
       Inr \<lparr>sh_agent = agent, source_id = sid, logical_session_id = logical, artifacts = arts\<rparr>)))"

text \<open>\<^verbatim>\<open>logical_session_id().unwrap_or_else(|| source_id())\<close>.\<close>

definition session_id_of :: "source_handle \<Rightarrow> string" where
  "session_id_of sh = (case logical_session_id sh of None \<Rightarrow> source_id sh | Some l \<Rightarrow> l)"

fun source_error_display :: "(string \<Rightarrow> bool) \<Rightarrow> source_error \<Rightarrow> string" where
  "source_error_display printable EmptyArtifacts = ''source handle requires at least one artifact''"
| "source_error_display printable (DuplicateArtifact name) = ''duplicate source artifact: '' @ name"
| "source_error_display printable (InvalidComponent label value) =
     ''invalid '' @ label @ '': '' @ str_debug printable value"
| "source_error_display printable (InvalidPath p message) =
     ''invalid source path '' @ [CHR 0x27] @ p @ [CHR 0x27] @ '': '' @ message"

section \<open>What the constructors promise\<close>

lemma agent_as_str_inject: "agent_as_str a = agent_as_str b \<longleftrightarrow> a = b"
  by (cases a; cases b) simp_all

definition component_ok :: "string \<Rightarrow> bool" where
  "component_ok s \<longleftrightarrow> \<not> component_invalid s"

definition source_handle_wf :: "source_handle \<Rightarrow> bool" where
  "source_handle_wf sh \<longleftrightarrow>
     component_ok (source_id sh)
     \<and> (case logical_session_id sh of None \<Rightarrow> True | Some l \<Rightarrow> component_ok l)
     \<and> artifacts sh \<noteq> [] \<and> distinct (map art_name (artifacts sh))"

lemma validate_component_Inr_iff [res_simps]:
  "validate_component l v = Inr w \<longleftrightarrow> w = v \<and> component_ok v"
  by (auto simp: validate_component_def component_ok_def)

lemma source_handle_new_Inr_iff:
  "source_handle_new agent sid logical arts = Inr sh \<longleftrightarrow>
     sh = \<lparr>sh_agent = agent, source_id = sid, logical_session_id = logical, artifacts = arts\<rparr>
     \<and> source_handle_wf sh"
  by (auto simp: source_handle_new_def source_handle_wf_def res_simps
      split: option.splits)

lemma session_id_of_ok: "source_handle_wf sh \<Longrightarrow> component_ok (session_id_of sh)"
  by (auto simp: source_handle_wf_def session_id_of_def split: option.splits)

lemmas [rust_eval] = agent_parse_def component_invalid_def validate_component_def
  source_handle_new_def insert_new_def session_id_of_def artifact_memory_def

section \<open>Properties\<close>

text \<open>The name an agent is written with parses back to the same agent, in any case of its
  ASCII letters, and no two agents share a name.\<close>

theorem agent_name_roundtrip:
  "agent_parse (agent_as_str a) = Some a \<and> agent_parse (map ascii_upper (agent_as_str a)) = Some a
    \<and> (agent_as_str a = agent_as_str b \<longleftrightarrow> a = b)"
  using agent_as_str_inject [of a b] by (cases a) (simp_all add: rust_eval ascii_upper_def)

text \<open>A source handle is built exactly when the source id and the optional logical session id
  are valid components, there is at least one artifact and no two artifacts share a name; it holds
  its arguments unchanged, and every handle so built names its session by a valid component.\<close>

theorem source_handle_new_iff:
  "(source_handle_new agent sid logical arts = Inr sh \<longleftrightarrow>
     sh = \<lparr>sh_agent = agent, source_id = sid, logical_session_id = logical, artifacts = arts\<rparr>
     \<and> source_handle_wf sh)
   \<and> (case source_handle_new agent sid logical arts of
        Inl _ \<Rightarrow> True | Inr h \<Rightarrow> component_ok (session_id_of h))"
  using source_handle_new_Inr_iff [of agent sid logical arts] session_id_of_ok
  by (auto split: sum.split)

end
