(* ===== verification/Sha256.thy ===== *)
theory Sha256
  imports Rust_Text "HOL-Library.Word"
begin

text \<open>
  The self-contained SHA-256 of \<^verbatim>\<open>crates/aicx-parser/src/engine/identity.rs\<close>: the
  compression function on an array of 64 schedule words, and the incremental
  \<^verbatim>\<open>Sha256Stream\<close> with its 64-byte buffer. Arrays are lists updated by index.
  The second half states the standard's function (FIPS 180-4: padding, message schedule by
  recursion, rounds) and the interface \<open>chunked_digest\<close> of a digest that may be fed in pieces.
\<close>

unbundle bit_operations_syntax

type_synonym word8 = "8 word"
type_synonym word32 = "32 word"
type_synonym word64 = "64 word"

section \<open>Constants and byte order\<close>

text \<open>The constants of the source, which writes them in hexadecimal, in decimal.\<close>

definition sha256_initial :: "word32 list" where
  "sha256_initial =
     [1779033703, 3144134277, 1013904242, 2773480762, 1359893119, 2600822924, 528734635, 1541459225]"

definition sha256_k :: "word32 list" where
  "sha256_k =
     [1116352408, 1899447441, 3049323471, 3921009573, 961987163, 1508970993, 2453635748, 2870763221,
      3624381080, 310598401, 607225278, 1426881987, 1925078388, 2162078206, 2614888103, 3248222580,
      3835390401, 4022224774, 264347078, 604807628, 770255983, 1249150122, 1555081692, 1996064986,
      2554220882, 2821834349, 2952996808, 3210313671, 3336571891, 3584528711, 113926993, 338241895,
      666307205, 773529912, 1294757372, 1396182291, 1695183700, 1986661051, 2177026350, 2456956037,
      2730485921, 2820302411, 3259730800, 3345764771, 3516065817, 3600352804, 4094571909, 275423344,
      430227734, 506948616, 659060556, 883997877, 958139571, 1322822218, 1537002063, 1747873779,
      1955562222, 2024104815, 2227730452, 2361852424, 2428436474, 2756734187, 3204031479, 3329325298]"

text \<open>\<^verbatim>\<open>u32::from_be_bytes\<close>, \<^verbatim>\<open>u32::to_be_bytes\<close>, \<^verbatim>\<open>u64::to_be_bytes\<close>.\<close>

definition be32 :: "word8 \<Rightarrow> word8 \<Rightarrow> word8 \<Rightarrow> word8 \<Rightarrow> word32" where
  "be32 a b c d = push_bit 24 (ucast a) OR push_bit 16 (ucast b) OR push_bit 8 (ucast c) OR ucast d"

definition to_be32 :: "word32 \<Rightarrow> word8 list" where
  "to_be32 w = [ucast (drop_bit 24 w), ucast (drop_bit 16 w), ucast (drop_bit 8 w), ucast w]"

definition to_be64 :: "word64 \<Rightarrow> word8 list" where
  "to_be64 w =
     [ucast (drop_bit 56 w), ucast (drop_bit 48 w), ucast (drop_bit 40 w), ucast (drop_bit 32 w),
      ucast (drop_bit 24 w), ucast (drop_bit 16 w), ucast (drop_bit 8 w), ucast w]"

fun words_of :: "word8 list \<Rightarrow> word32 list" where
  "words_of (a # b # c # d # bs) = be32 a b c d # words_of bs"
| "words_of _ = []"

section \<open>The compression function\<close>

definition schedule_step :: "word32 list \<Rightarrow> nat \<Rightarrow> word32 list" where
  "schedule_step schedule index =
     (let x = schedule ! (index - 15);
          s0 = word_rotr 7 x XOR word_rotr 18 x XOR drop_bit 3 x;
          y = schedule ! (index - 2);
          s1 = word_rotr 17 y XOR word_rotr 19 y XOR drop_bit 10 y
      in schedule[index := schedule ! (index - 16) + s0 + schedule ! (index - 7) + s1])"

definition message_schedule :: "word8 list \<Rightarrow> word32 list" where
  "message_schedule chunk = foldl schedule_step (words_of chunk @ replicate 48 0) [16..<64]"

type_synonym working = "word32 \<times> word32 \<times> word32 \<times> word32 \<times> word32 \<times> word32 \<times> word32 \<times> word32"

definition sha256_round :: "word32 list \<Rightarrow> working \<Rightarrow> nat \<Rightarrow> working" where
  "sha256_round schedule s index = (case s of (a, b, c, d, e, f, g, h) \<Rightarrow>
     let sigma1 = word_rotr 6 e XOR word_rotr 11 e XOR word_rotr 25 e;
         choice = (e AND f) XOR (NOT e AND g);
         temp1 = h + sigma1 + choice + sha256_k ! index + schedule ! index;
         sigma0 = word_rotr 2 a XOR word_rotr 13 a XOR word_rotr 22 a;
         majority = (a AND b) XOR (a AND c) XOR (b AND c);
         temp2 = sigma0 + majority
     in (temp1 + temp2, a, b, c, d + temp1, e, f, g))"

definition load_state :: "word32 list \<Rightarrow> working" where
  "load_state s = (s ! 0, s ! 1, s ! 2, s ! 3, s ! 4, s ! 5, s ! 6, s ! 7)"

definition add_working :: "word32 list \<Rightarrow> working \<Rightarrow> word32 list" where
  "add_working s v = (case v of (a, b, c, d, e, f, g, h) \<Rightarrow>
     map2 (+) s [a, b, c, d, e, f, g, h])"

definition sha256_compress :: "word32 list \<Rightarrow> word8 list \<Rightarrow> word32 list" where
  "sha256_compress state chunk =
     add_working state (foldl (sha256_round (message_schedule chunk)) (load_state state) [0..<64])"

section \<open>The stream\<close>

record sha256_stream =
  ss_state :: "word32 list"
  ss_block :: "word8 list"
  ss_buffered :: nat
  ss_total :: word64

definition stream_new :: sha256_stream where
  "stream_new = \<lparr>ss_state = sha256_initial, ss_block = replicate 64 0, ss_buffered = 0, ss_total = 0\<rparr>"

text \<open>\<^verbatim>\<open>dst[at..at + src.len()].copy_from_slice(src)\<close>.\<close>

definition copy_at :: "nat \<Rightarrow> 'a list \<Rightarrow> 'a list \<Rightarrow> 'a list" where
  "copy_at at src dst = take at dst @ src @ drop (at + length src) dst"

text \<open>\<^verbatim>\<open>chunks_exact(64)\<close> and its remainder.\<close>

function chunks_exact :: "'a list \<Rightarrow> 'a list list" where
  "chunks_exact xs = (if length xs < 64 then [] else take 64 xs # chunks_exact (drop 64 xs))"
  by pat_completeness auto
termination
  by (relation "measure length") auto

declare chunks_exact.simps [simp del]

definition chunks_rest :: "'a list \<Rightarrow> 'a list" where
  "chunks_rest xs = drop (64 * (length xs div 64)) xs"

definition stream_absorb :: "sha256_stream \<Rightarrow> word8 list \<Rightarrow> sha256_stream" where
  "stream_absorb s input =
     (let rest = chunks_rest input in
      s\<lparr>ss_state := foldl sha256_compress (ss_state s) (chunks_exact input),
        ss_block := copy_at 0 rest (ss_block s),
        ss_buffered := length rest\<rparr>)"

definition stream_update :: "sha256_stream \<Rightarrow> word8 list \<Rightarrow> sha256_stream" where
  "stream_update s input =
     (let s = s\<lparr>ss_total := ss_total s + of_nat (length input)\<rparr> in
      if 0 < ss_buffered s then
        let n = min (64 - ss_buffered s) (length input);
            s = s\<lparr>ss_block := copy_at (ss_buffered s) (take n input) (ss_block s),
                  ss_buffered := ss_buffered s + n\<rparr>;
            input = drop n input
        in if ss_buffered s < 64 then s
           else stream_absorb
             (s\<lparr>ss_state := sha256_compress (ss_state s) (ss_block s), ss_buffered := 0\<rparr>) input
      else stream_absorb s input)"

definition padded_len :: "nat \<Rightarrow> nat" where
  "padded_len buffered = ((buffered + 9 + 63) div 64) * 64"

definition stream_tail :: "sha256_stream \<Rightarrow> word8 list" where
  "stream_tail s =
     (let bit_len = ss_total s * 8;
          tail = copy_at 0 (take (ss_buffered s) (ss_block s)) (replicate 128 0);
          tail = tail[ss_buffered s := 0x80];
          n = padded_len (ss_buffered s)
      in take n (copy_at (n - 8) (to_be64 bit_len) tail))"

definition stream_finalize :: "sha256_stream \<Rightarrow> word8 list" where
  "stream_finalize s =
     concat (map to_be32 (foldl sha256_compress (ss_state s) (chunks_exact (stream_tail s))))"

definition hex_of_digest :: "word8 list \<Rightarrow> string" where
  "hex_of_digest digest = concat (map (\<lambda>b. hex_byte (unat b)) digest)"

definition stream_finalize_hex :: "sha256_stream \<Rightarrow> string" where
  "stream_finalize_hex s = hex_of_digest (stream_finalize s)"

definition sha256 :: "word8 list \<Rightarrow> word8 list" where
  "sha256 input = stream_finalize (stream_update stream_new input)"

text \<open>\<^verbatim>\<open>as_bytes()\<close> of a string.\<close>

definition as_bytes :: "string \<Rightarrow> word8 list" where
  "as_bytes s = map (\<lambda>c. of_nat (byte_of c)) s"

definition sha256_hex :: "string \<Rightarrow> string" where
  "sha256_hex bs = hex_of_digest (sha256 (as_bytes bs))"

section \<open>The standard\<close>

definition pad_zeros :: "nat \<Rightarrow> nat" where
  "pad_zeros len = (if len mod 64 < 56 then 55 - len mod 64 else 119 - len mod 64)"

definition fips_pad :: "word8 list \<Rightarrow> word8 list" where
  "fips_pad m =
     m @ [0x80] @ replicate (pad_zeros (length m)) 0 @ to_be64 (of_nat (8 * length m))"

fun fips_w :: "word32 list \<Rightarrow> nat \<Rightarrow> word32" where
  "fips_w m t =
     (if t < 16 then m ! t
      else (let y = fips_w m (t - 2); x = fips_w m (t - 15) in
        (word_rotr 17 y XOR word_rotr 19 y XOR drop_bit 10 y) + fips_w m (t - 7)
        + (word_rotr 7 x XOR word_rotr 18 x XOR drop_bit 3 x) + fips_w m (t - 16)))"

declare fips_w.simps [simp del]

definition fips_round :: "(nat \<Rightarrow> word32) \<Rightarrow> working \<Rightarrow> nat \<Rightarrow> working" where
  "fips_round w s t = (case s of (a, b, c, d, e, f, g, h) \<Rightarrow>
     let t1 = h + (word_rotr 6 e XOR word_rotr 11 e XOR word_rotr 25 e)
              + ((e AND f) XOR (NOT e AND g)) + sha256_k ! t + w t;
         t2 = (word_rotr 2 a XOR word_rotr 13 a XOR word_rotr 22 a)
              + ((a AND b) XOR (a AND c) XOR (b AND c))
     in (t1 + t2, a, b, c, d + t1, e, f, g))"

definition fips_compress :: "word32 list \<Rightarrow> word8 list \<Rightarrow> word32 list" where
  "fips_compress h m = add_working h (foldl (fips_round (fips_w (words_of m))) (load_state h) [0..<64])"

definition fips_sha256 :: "word8 list \<Rightarrow> word8 list" where
  "fips_sha256 m = concat (map to_be32 (foldl fips_compress sha256_initial (chunks_exact (fips_pad m))))"

section \<open>Cutting into blocks\<close>

lemma chunks_exact_short [simp]: "length xs < 64 \<Longrightarrow> chunks_exact xs = []"
  by (subst chunks_exact.simps) simp

lemma chunks_rest_short [simp]: "length xs < 64 \<Longrightarrow> chunks_rest xs = xs"
  by (simp add: chunks_rest_def)

lemma chunks_exact_block: "length b = 64 \<Longrightarrow> chunks_exact (b @ xs) = b # chunks_exact xs"
  by (subst chunks_exact.simps) simp

lemma chunks_rest_block: "length b = 64 \<Longrightarrow> chunks_rest (b @ xs) = chunks_rest xs"
proof -
  assume b: "length b = 64"
  have "(64 + length xs) div 64 = Suc (length xs div 64)" by simp
  with b show ?thesis by (simp add: chunks_rest_def del: div_add_self1)
qed

lemma length_chunks_rest [simp]: "length (chunks_rest xs) = length xs mod 64"
  by (simp add: chunks_rest_def minus_mult_div_eq_mod)

lemma block_induct [case_names short block]:
  assumes "\<And>xs. length xs < 64 \<Longrightarrow> P xs"
    and "\<And>b xs. length b = 64 \<Longrightarrow> P xs \<Longrightarrow> P (b @ xs)"
  shows "P xs"
proof (induction xs rule: chunks_exact.induct)
  case (1 xs)
  show ?case
  proof (cases "length xs < 64")
    case True
    then show ?thesis by (rule assms(1))
  next
    case False
    then have "P (take 64 xs @ drop 64 xs)"
      using 1 by (intro assms(2)) auto
    then show ?thesis by simp
  qed
qed

lemma chunks_exact_append: "chunks_exact (xs @ ys) = chunks_exact xs @ chunks_exact (chunks_rest xs @ ys)"
  by (induction xs rule: block_induct) (simp_all add: chunks_exact_block chunks_rest_block)

lemma chunks_rest_append: "chunks_rest (xs @ ys) = chunks_rest (chunks_rest xs @ ys)"
  by (induction xs rule: block_induct) (simp_all add: chunks_rest_block)

lemma chunks_exact_lengths: "list_all (\<lambda>b. length b = 64) (chunks_exact xs)"
  by (induction xs rule: block_induct) (simp_all add: chunks_exact_block)

lemma chunks_concat: "concat (chunks_exact xs) @ chunks_rest xs = xs"
  by (induction xs rule: block_induct) (simp_all add: chunks_exact_block chunks_rest_block)

section \<open>A digest fed in pieces\<close>

locale chunked_digest =
  fixes init :: "'s"
    and feed :: "'s \<Rightarrow> 'b list \<Rightarrow> 's"
    and finish :: "'s \<Rightarrow> 'd"
    and absorbed :: "'s \<Rightarrow> 'b list \<Rightarrow> bool"
  assumes absorbed_init: "absorbed init []"
    and absorbed_feed: "absorbed s m \<Longrightarrow> absorbed (feed s x) (m @ x)"
    and finish_absorbed: "absorbed s m \<Longrightarrow> absorbed s' m \<Longrightarrow> finish s = finish s'"
begin

lemma absorbed_pieces: "absorbed s m \<Longrightarrow> absorbed (foldl feed s xs) (m @ concat xs)"
proof (induction xs arbitrary: s m)
  case Nil
  then show ?case by simp
next
  case (Cons x xs)
  then have "absorbed (foldl feed (feed s x) xs) ((m @ x) @ concat xs)"
    using absorbed_feed by blast
  then show ?case by simp
qed

lemma finish_pieces: "finish (foldl feed init xs) = finish (feed init (concat xs))"
proof (rule finish_absorbed)
  show "absorbed (foldl feed init xs) (concat xs)"
    using absorbed_pieces [OF absorbed_init] by simp
  show "absorbed (feed init (concat xs)) (concat xs)"
    using absorbed_feed [OF absorbed_init] by simp
qed

end

section \<open>The stream absorbs what it is fed\<close>

definition stream_absorbed :: "sha256_stream \<Rightarrow> word8 list \<Rightarrow> bool" where
  "stream_absorbed s m \<longleftrightarrow>
     ss_state s = foldl sha256_compress sha256_initial (chunks_exact m)
     \<and> length (ss_block s) = 64
     \<and> ss_buffered s = length m mod 64
     \<and> take (ss_buffered s) (ss_block s) = chunks_rest m
     \<and> ss_total s = of_nat (length m)"

lemma stream_new_absorbed: "stream_absorbed stream_new []"
  by (simp add: stream_absorbed_def stream_new_def)

lemma length_copy_at [simp]:
  "at + length src \<le> length dst \<Longrightarrow> length (copy_at at src dst) = length dst"
  by (simp add: copy_at_def)

lemma absorb_absorbed:
  assumes "ss_state s = foldl sha256_compress sha256_initial (chunks_exact m)"
    and "length (ss_block s) = 64" and "chunks_rest m = []"
    and "ss_total s = of_nat (length (m @ input))"
  shows "stream_absorbed (stream_absorb s input) (m @ input)"
proof -
  have cut: "chunks_exact (m @ input) = chunks_exact m @ chunks_exact input"
    "chunks_rest (m @ input) = chunks_rest input"
    using chunks_exact_append [of m input] chunks_rest_append [of m input] assms(3) by simp_all
  have len: "length (m @ input) mod 64 = length input mod 64"
    using arg_cong [OF cut(2), of length] by simp
  have "length input mod 64 \<le> 64" by (simp add: less_imp_le)
  then show ?thesis
    using assms(1,2,4) cut len
    by (simp add: stream_absorbed_def stream_absorb_def Let_def copy_at_def)
qed

lemma update_absorbed:
  assumes "stream_absorbed s m"
  shows "stream_absorbed (stream_update s x) (m @ x)"
proof -
  let ?r = "chunks_rest m"
  note inv = assms [unfolded stream_absorbed_def]
  have b: "ss_buffered s = length ?r" "length ?r < 64" using inv by simp_all
  have total: "ss_total s + of_nat (length x) = of_nat (length (m @ x))" using inv by simp
  consider (aligned) "?r = []" | (within) "?r \<noteq> []" "length ?r + length x < 64"
    | (across) "?r \<noteq> []" "64 \<le> length ?r + length x" by fastforce
  then show ?thesis
  proof cases
    case aligned
    with b have "ss_buffered s = 0" by simp
    with aligned inv total show ?thesis
      by (auto simp: stream_update_def intro!: absorb_absorbed)
  next
    case within
    let ?b = "ss_buffered s"
    have new: "chunks_exact (m @ x) = chunks_exact m" "chunks_rest (m @ x) = ?r @ x"
      using within chunks_exact_append [of m x] chunks_rest_append [of m x] by simp_all
    have len: "length (m @ x) mod 64 = ?b + length x"
      using arg_cong [OF new(2), of length] b by simp
    have blk: "take (?b + length x) (copy_at ?b x (ss_block s)) = ?r @ x"
      using inv b within by (simp add: copy_at_def)
    have "length m mod 64 \<noteq> 0" using within(1) by (metis length_0_conv length_chunks_rest)
    then show ?thesis
      using within b inv total new len blk
      by (simp add: stream_update_def stream_absorbed_def Let_def min_absorb2)
  next
    case across
    let ?b = "ss_buffered s" and ?n = "64 - ss_buffered s"
    have n: "min ?n (length x) = ?n" "?n \<le> length x" using across b by auto
    have blk: "copy_at ?b (take ?n x) (ss_block s) = ?r @ take ?n x"
      using inv b n across by (simp add: copy_at_def)
    have full: "length (?r @ take ?n x) = 64" using b n by simp
    have new: "chunks_exact (m @ take ?n x) = chunks_exact m @ [?r @ take ?n x]"
      "chunks_rest (m @ take ?n x) = []"
      using chunks_exact_append [of m "take ?n x"] chunks_rest_append [of m "take ?n x"]
        chunks_exact_block [OF full, of "[]"] chunks_rest_block [OF full, of "[]"] by simp_all
    have split: "(m @ take ?n x) @ drop ?n x = m @ x" by simp
    let ?s = "s\<lparr>ss_total := ss_total s + of_nat (length x), ss_block := ?r @ take ?n x,
      ss_state := sha256_compress (ss_state s) (?r @ take ?n x), ss_buffered := 0\<rparr>"
    have "stream_absorbed (stream_absorb ?s (drop ?n x)) ((m @ take ?n x) @ drop ?n x)"
    proof (rule absorb_absorbed)
      show "ss_total ?s = of_nat (length ((m @ take ?n x) @ drop ?n x))"
        unfolding split using total by simp
    qed (use inv new full in auto)
    moreover have "0 < ?b" unfolding b(1) using across(1) by (rule length_greater_0_conv [THEN iffD2])
    then have "stream_update s x = stream_absorb ?s (drop ?n x)"
      using b n blk by (simp add: stream_update_def Let_def)
    ultimately show ?thesis by (simp only: split)
  qed
qed

section \<open>Padding and digest\<close>

lemma length_to_be64 [simp]: "length (to_be64 w) = 8"
  by (simp add: to_be64_def)

lemma length_to_be32 [simp]: "length (to_be32 w) = 4"
  by (simp add: to_be32_def)

lemma padded_len_eq: "b < 64 \<Longrightarrow> padded_len b = (if b < 56 then 64 else 128)"
proof -
  assume "b < 64"
  then have "(72 + b) div 64 = (if b < 56 then 1 else 2)" by (simp add: div_nat_eqI)
  then show ?thesis by (simp add: padded_len_def)
qed

text \<open>The number of zero bytes is the least that makes the padded message a whole number of blocks.\<close>

lemma pad_zeros_least:
  "pad_zeros len < 64 \<and> (len + 1 + pad_zeros len + 8) mod 64 = 0"
proof -
  define q r where "q = len div 64" and "r = len mod 64"
  then have len: "len = 64 * q + r" and r: "r < 64" by simp_all
  show ?thesis
  proof (cases "r < 56")
    case True
    then have "len + 1 + (55 - r) + 8 = 64 * (q + 1)" using len by simp
    with True show ?thesis by (simp add: pad_zeros_def r_def [symmetric])
  next
    case False
    then have "len + 1 + (119 - r) + 8 = 64 * (q + 2)" using len r by simp
    with False show ?thesis by (simp add: pad_zeros_def r_def [symmetric])
  qed
qed

lemma take_two: "length xs + length ys = n \<Longrightarrow> take n (xs @ ys @ zs) = xs @ ys"
  by auto

lemma stream_tail_eq:
  assumes "stream_absorbed s m"
  shows "stream_tail s =
    chunks_rest m @ [0x80] @ replicate (pad_zeros (length m)) 0 @ to_be64 (of_nat (8 * length m))"
proof -
  let ?b = "length m mod 64" and ?r = "chunks_rest m"
  have b: "?b < 64" by simp
  have total: "ss_total s * 8 = of_nat (8 * length m)"
    using assms by (simp add: stream_absorbed_def mult.commute)
  have r: "ss_buffered s = ?b" "take ?b (ss_block s) = ?r"
    using assms by (auto simp: stream_absorbed_def)
  have start: "(copy_at 0 ?r (replicate 128 0))[?b := 0x80] = ?r @ [0x80] @ replicate (127 - ?b) (0::word8)"
  proof -
    have "(128::nat) - ?b = Suc (127 - ?b)" using b by linarith
    then have "copy_at 0 ?r (replicate 128 (0::word8)) = ?r @ 0 # replicate (127 - ?b) 0"
      by (simp add: copy_at_def)
    then show ?thesis by (simp add: list_update_append)
  qed
  let ?n = "padded_len ?b"
  have n: "?b + 9 \<le> ?n" "?n \<le> 128" "pad_zeros (length m) = ?n - 9 - ?b"
    using b by (auto simp: padded_len_eq pad_zeros_def)
  have cut: "take (?n - 8) (?r @ 0x80 # replicate (127 - ?b) (0::word8)) =
      ?r @ 0x80 # replicate (pad_zeros (length m)) 0"
  proof -
    have "?n - 8 - ?b = Suc (?n - 9 - ?b)" "min (?n - 9 - ?b) (127 - ?b) = ?n - 9 - ?b"
      "?b \<le> ?n - 8"
      using n by linarith+
    with n show ?thesis by simp
  qed
  have "stream_tail s = take ?n ((?r @ 0x80 # replicate (pad_zeros (length m)) 0)
      @ to_be64 (of_nat (8 * length m)) @ drop (?n - 8 + 8) (?r @ 0x80 # replicate (127 - ?b) 0))"
    unfolding stream_tail_def Let_def r total start copy_at_def [of "?n - 8"]
    by (simp only: cut length_to_be64 append_Cons append_Nil)
  also have "\<dots> = (?r @ 0x80 # replicate (pad_zeros (length m)) 0) @ to_be64 (of_nat (8 * length m))"
    by (rule take_two) (use n in simp)
  finally show ?thesis by simp
qed

lemma sha256_finalize_spec_compress:
  assumes "stream_absorbed s m"
  shows "stream_finalize s =
    concat (map to_be32 (foldl sha256_compress sha256_initial (chunks_exact (fips_pad m))))"
proof -
  have "ss_state s = foldl sha256_compress sha256_initial (chunks_exact m)"
    using assms by (simp add: stream_absorbed_def)
  then show ?thesis
    unfolding stream_finalize_def stream_tail_eq [OF assms] fips_pad_def
    by (subst chunks_exact_append) simp
qed

interpretation sha: chunked_digest stream_new stream_update stream_finalize stream_absorbed
  by unfold_locales
     (simp_all add: stream_new_absorbed update_absorbed sha256_finalize_spec_compress)

section \<open>The schedule and the rounds are the standard's\<close>

lemma length_words_of: "length (words_of bs) = length bs div 4"
  by (induction bs rule: words_of.induct) auto

lemma length_schedule_step [simp]: "length (schedule_step s i) = length s"
  by (simp add: schedule_step_def Let_def)

lemma schedule_step_frame: "t \<noteq> i \<Longrightarrow> schedule_step s i ! t = s ! t"
  by (simp add: schedule_step_def Let_def)

lemma schedule_prefix:
  assumes "length ws = 16"
  shows "length (foldl schedule_step (ws @ replicate 48 0) [16..<16 + n]) = 64
    \<and> (\<forall>t < 16 + n. n \<le> 48 \<longrightarrow>
      foldl schedule_step (ws @ replicate 48 0) [16..<16 + n] ! t = fips_w ws t)"
proof (induction n)
  case 0
  then show ?case using assms by (simp add: nth_append fips_w.simps)
next
  case (Suc n)
  let ?s = "foldl schedule_step (ws @ replicate 48 0) [16..<16 + n]"
  have len: "length ?s = 64" using Suc by simp
  have step: "foldl schedule_step (ws @ replicate 48 0) [16..<16 + Suc n] = schedule_step ?s (16 + n)"
    by (simp only: add_Suc_right upt_Suc_append le_add1 foldl_append foldl.simps)
  have "schedule_step ?s (16 + n) ! t = fips_w ws t" if "t < 16 + Suc n" "Suc n \<le> 48" for t
  proof (cases "t = 16 + n")
    case True
    have old: "?s ! u = fips_w ws u" if "u < 16 + n" for u using Suc that \<open>Suc n \<le> 48\<close> by simp
    have "schedule_step ?s (16 + n) ! (16 + n) = fips_w ws (16 + n)"
      using len \<open>Suc n \<le> 48\<close>
      by (subst fips_w.simps) (simp add: schedule_step_def Let_def old)
    with True show ?thesis by simp
  next
    case False
    with that Suc show ?thesis by (simp add: schedule_step_frame)
  qed
  with len step show ?case by simp
qed

lemma message_schedule_fips:
  assumes "length chunk = 64" and "t < 64"
  shows "message_schedule chunk ! t = fips_w (words_of chunk) t"
  using schedule_prefix [of "words_of chunk" 48] assms
  by (simp add: message_schedule_def length_words_of)

lemma compress_fips:
  assumes "length chunk = 64"
  shows "sha256_compress state chunk = fips_compress state chunk"
proof -
  have "foldl (sha256_round (message_schedule chunk)) v [0..<64] =
      foldl (fips_round (fips_w (words_of chunk))) v [0..<64]" for v
    by (rule foldl_cong)
       (simp_all add: sha256_round_def fips_round_def message_schedule_fips [OF assms])
  then show ?thesis by (simp add: sha256_compress_def fips_compress_def)
qed

lemma compress_blocks_fips:
  "list_all (\<lambda>b. length b = 64) bs \<Longrightarrow> foldl sha256_compress s bs = foldl fips_compress s bs"
  by (induction bs arbitrary: s) (simp_all add: compress_fips)

lemma finalize_fips: "stream_absorbed s m \<Longrightarrow> stream_finalize s = fips_sha256 m"
  by (simp add: sha256_finalize_spec_compress fips_sha256_def compress_blocks_fips
      chunks_exact_lengths)

section \<open>Shape of the digest\<close>

lemma length_compress: "length s = 8 \<Longrightarrow> length (sha256_compress s chunk) = 8"
  by (simp add: sha256_compress_def add_working_def split: prod.split)

lemma length_compress_blocks: "length s = 8 \<Longrightarrow> length (foldl sha256_compress s bs) = 8"
  by (induction bs arbitrary: s) (simp_all add: length_compress)

lemma length_concat_be32: "length (concat (map to_be32 ws)) = 4 * length ws"
  by (induction ws) simp_all

lemma length_sha256: "length (sha256 input) = 32"
proof -
  have "stream_absorbed (stream_update stream_new input) ([] @ input)"
    by (intro update_absorbed stream_new_absorbed)
  then show ?thesis
    by (simp add: sha256_def sha256_finalize_spec_compress length_concat_be32
        length_compress_blocks sha256_initial_def)
qed

lemma hex_of_digest_shape:
  "length (hex_of_digest d) = 2 * length d \<and> list_all is_ascii_hexdigit (hex_of_digest d)"
proof (induction d)
  case Nil
  then show ?case by (simp add: hex_of_digest_def)
next
  case (Cons b d)
  have "unat b < 256" using unsigned_less [of b] by simp
  with Cons show ?case by (simp add: hex_of_digest_def hex_byte_hex) (simp add: hex_byte_def)
qed

lemma sha256_hex_shape:
  "length (sha256_hex bs) = 64" "list_all is_ascii_hexdigit (sha256_hex bs)"
  using hex_of_digest_shape by (simp_all add: sha256_hex_def length_sha256)

section \<open>Properties\<close>

text \<open>C38: the streaming digest depends only on the bytes fed: fed in any pieces, it is the
  SHA-256 (padding, message schedule and compression of FIPS 180-4) of their concatenation, and the
  byte counter is their length modulo two to the 64.\<close>

theorem sha256_any_chunking:
  "stream_finalize (foldl stream_update stream_new pieces) = fips_sha256 (concat pieces)
    \<and> ss_total (foldl stream_update stream_new pieces) = of_nat (length (concat pieces))"
proof -
  have "stream_absorbed (foldl stream_update stream_new pieces) ([] @ concat pieces)"
    by (rule sha.absorbed_pieces [OF stream_new_absorbed])
  then show ?thesis by (simp add: finalize_fips) (simp add: stream_absorbed_def)
qed

text \<open>The one-shot digest is the SHA-256 of its input, and its rendering is 64 hexadecimal
  digits, the shape every identity of the crate checks.\<close>

theorem sha256_hex_correct:
  "sha256_hex bs = hex_of_digest (fips_sha256 (as_bytes bs))
    \<and> length (sha256_hex bs) = 64 \<and> list_all is_ascii_hexdigit (sha256_hex bs)
    \<and> sha256_hex bs = stream_finalize_hex (stream_update stream_new (as_bytes bs))"
proof -
  have "sha256 (as_bytes bs) = fips_sha256 ([] @ as_bytes bs)"
    unfolding sha256_def by (intro finalize_fips update_absorbed stream_new_absorbed)
  then show ?thesis
    by (simp add: sha256_hex_shape) (simp add: sha256_hex_def stream_finalize_hex_def sha256_def)
qed

end
