(* ===== verification/Identity.thy ===== *)
theory Identity
  imports Source Sha256
begin

text \<open>
  \<^verbatim>\<open>crates/aicx-parser/src/engine/identity.rs\<close>, the identities built on the digest:
  the package (store id and content hash), the frame (body hash first), and the derivation of
  evidence event ids. The debug format inside one error message needs the table of printable
  characters, the parameter \<open>printable\<close>.
\<close>

section \<open>Tokens and hashes\<close>

datatype evidence_id_error = InvalidToken string string | InvalidHash

definition hash_ok :: "string \<Rightarrow> bool" where
  "hash_ok h \<longleftrightarrow> length h = 64 \<and> list_all is_ascii_hexdigit h"

definition id_validate_hash :: "string \<Rightarrow> evidence_id_error + unit" where
  "id_validate_hash content_hash =
     (if length content_hash \<noteq> 64 \<or> \<not> list_all is_ascii_hexdigit content_hash then Inl InvalidHash
      else Inr ())"

definition token_ok :: "string \<Rightarrow> bool" where
  "token_ok t \<longleftrightarrow> t \<noteq> [] \<and> length t \<le> 512 \<and> \<not> has_separator t \<and> \<not> has_control t"

definition validate_token :: "string \<Rightarrow> string \<Rightarrow> evidence_id_error + unit" where
  "validate_token label token =
     (if token = [] \<or> 512 < length token \<or> has_separator token \<or> has_control token
      then Inl (InvalidToken label token) else Inr ())"

fun evidence_id_error_display :: "(string \<Rightarrow> bool) \<Rightarrow> evidence_id_error \<Rightarrow> string" where
  "evidence_id_error_display printable (InvalidToken label value) =
     ''invalid '' @ label @ '': '' @ str_debug printable value"
| "evidence_id_error_display printable InvalidHash = ''content hash must be 64 hexadecimal bytes''"

section \<open>Packages and frames\<close>

record package_identity =
  store_id :: string
  pkg_content_hash :: string

definition package_identity_new :: "string \<Rightarrow> string \<Rightarrow> evidence_id_error + package_identity" where
  "package_identity_new sid h =
     bind_res (validate_token ''store_id'' sid) (\<lambda>_.
     bind_res (id_validate_hash h) (\<lambda>_.
     Inr \<lparr>store_id = sid, pkg_content_hash = h\<rparr>))"

definition package_short :: "package_identity \<Rightarrow> string" where
  "package_short p =
     store_id p @ ''@'' @
     (case str_get_prefix 16 (pkg_content_hash p) of None \<Rightarrow> pkg_content_hash p | Some q \<Rightarrow> q)"

definition same_content :: "package_identity \<Rightarrow> package_identity \<Rightarrow> bool" where
  "same_content p q \<longleftrightarrow> pkg_content_hash p = pkg_content_hash q"

definition package_display :: "package_identity \<Rightarrow> string" where
  "package_display p = store_id p @ ''@'' @ pkg_content_hash p"

record frame_identity =
  fi_package :: package_identity
  fi_body_hash :: string
  fi_transport_id :: "string option"

definition frame_from_body :: "package_identity \<Rightarrow> bytes \<Rightarrow> string option \<Rightarrow> frame_identity" where
  "frame_from_body p body tid =
     \<lparr>fi_package = p, fi_body_hash = sha256_hex body, fi_transport_id = tid\<rparr>"

definition same_utterance :: "frame_identity \<Rightarrow> frame_identity \<Rightarrow> bool" where
  "same_utterance f g \<longleftrightarrow> fi_package f = fi_package g \<and> fi_body_hash f = fi_body_hash g"

section \<open>Evidence event ids\<close>

definition evidence_event_id_from_hash ::
  "agent_kind \<Rightarrow> string \<Rightarrow> string \<Rightarrow> string \<Rightarrow> string \<Rightarrow> evidence_id_error + string" where
  "evidence_event_id_from_hash agent session_id locator unit_kind content_hash =
     bind_res (validate_token ''session_id'' session_id) (\<lambda>_.
     bind_res (validate_token ''locator'' locator) (\<lambda>_.
     bind_res (validate_token ''unit_kind'' unit_kind) (\<lambda>_.
     bind_res (id_validate_hash content_hash) (\<lambda>_.
     Inr (''ev1'' @ '':'' @ agent_as_str agent @ '':'' @ session_id @ '':'' @ locator @ '':''
          @ unit_kind @ '':'' @ take 16 content_hash)))))"

definition evidence_event_id ::
  "agent_kind \<Rightarrow> string \<Rightarrow> string \<Rightarrow> string \<Rightarrow> bytes \<Rightarrow> evidence_id_error + string" where
  "evidence_event_id agent session_id locator unit_kind raw_unit_bytes =
     evidence_event_id_from_hash agent session_id locator unit_kind (sha256_hex raw_unit_bytes)"

definition ordinal_locator :: "u64 \<Rightarrow> string" where
  "ordinal_locator ordinal = show_nat_pad6 ordinal"

section \<open>When a derivation succeeds\<close>

lemma id_validate_hash_Inr_iff [res_simps]: "id_validate_hash h = Inr u \<longleftrightarrow> hash_ok h"
  by (auto simp: id_validate_hash_def hash_ok_def)

lemma validate_token_Inr_iff [res_simps]: "validate_token l t = Inr u \<longleftrightarrow> token_ok t"
  by (auto simp: validate_token_def token_ok_def)

lemma sha256_hex_ok [simp]: "hash_ok (sha256_hex bs)"
  by (simp add: hash_ok_def sha256_hex_shape)

lemma evidence_id_Inr_iff:
  "evidence_event_id_from_hash agent sid loc kind h = Inr e \<longleftrightarrow>
     token_ok sid \<and> token_ok loc \<and> token_ok kind \<and> hash_ok h
     \<and> e = ''ev1:'' @ agent_as_str agent @ '':'' @ sid @ '':'' @ loc @ '':'' @ kind @ '':'' @ take 16 h"
  by (auto simp: evidence_event_id_from_hash_def res_simps)

lemma package_identity_new_Inr_iff:
  "package_identity_new sid h = Inr p \<longleftrightarrow>
     token_ok sid \<and> hash_ok h \<and> p = \<lparr>store_id = sid, pkg_content_hash = h\<rparr>"
  by (auto simp: package_identity_new_def res_simps)

section \<open>Reading an id back\<close>

text \<open>Two texts cut at their first colon.\<close>

lemma colon_cut:
  "CHR 0x3A \<notin> set a \<Longrightarrow> CHR 0x3A \<notin> set b \<Longrightarrow>
     a @ CHR 0x3A # x = b @ CHR 0x3A # y \<longleftrightarrow> a = b \<and> x = y"
proof (induction a arbitrary: b)
  case Nil
  then show ?case by (cases b) auto
next
  case (Cons c a)
  then show ?case by (cases b) auto
qed

lemma agent_as_str_no_colon: "CHR 0x3A \<notin> set (agent_as_str a)"
  by (cases a) simp_all

lemmas [rust_eval] = id_validate_hash_def validate_token_def package_identity_new_def
  evidence_event_id_from_hash_def ordinal_locator_def package_short_def hash_ok_def token_ok_def

section \<open>Properties\<close>

text \<open>An evidence event id is derived exactly from three valid tokens and a valid hash, and it
  is the version, the agent, the tokens and the first sixteen digits of the hash between colons;
  derived from raw bytes it cannot fail on the hash.\<close>

theorem evidence_event_id_iff:
  "(evidence_event_id_from_hash agent sid loc kind h = Inr e \<longleftrightarrow>
     token_ok sid \<and> token_ok loc \<and> token_ok kind \<and> hash_ok h
     \<and> e = ''ev1:'' @ agent_as_str agent @ '':'' @ sid @ '':'' @ loc @ '':'' @ kind @ '':'' @ take 16 h)
   \<and> (evidence_event_id agent sid loc kind raw = Inr e \<longleftrightarrow>
     token_ok sid \<and> token_ok loc \<and> token_ok kind
     \<and> e = ''ev1:'' @ agent_as_str agent @ '':'' @ sid @ '':'' @ loc @ '':'' @ kind @ '':''
           @ take 16 (sha256_hex raw))"
  by (simp add: evidence_id_Inr_iff evidence_event_id_def)

text \<open>Where session ids and locators hold no colon, equal evidence ids come from equal agents,
  sessions, locators and unit kinds, and from hashes that agree in the retained digits.\<close>

theorem evidence_event_id_inject:
  assumes "evidence_event_id_from_hash a s l k h = Inr e"
    and "evidence_event_id_from_hash a' s' l' k' h' = Inr e"
    and "CHR 0x3A \<notin> set s \<union> set s' \<union> set l \<union> set l'"
  shows "a = a' \<and> s = s' \<and> l = l' \<and> k = k' \<and> take 16 h = take 16 h'"
proof -
  have h: "length (take 16 h) = 16" "length (take 16 h') = 16"
    using assms(1,2) by (auto simp: evidence_id_Inr_iff hash_ok_def)
  have eq: "agent_as_str a @ CHR 0x3A # s @ CHR 0x3A # l @ CHR 0x3A # k @ '':'' @ take 16 h
      = agent_as_str a' @ CHR 0x3A # s' @ CHR 0x3A # l' @ CHR 0x3A # k' @ '':'' @ take 16 h'"
    using assms(1,2) by (simp add: evidence_id_Inr_iff)
  then have "a = a'" "s = s'" "l = l'" and rest: "k @ '':'' @ take 16 h = k' @ '':'' @ take 16 h'"
    using assms(3) by (simp_all add: colon_cut agent_as_str_no_colon agent_as_str_inject)
  moreover have "k = k'" "take 16 h = take 16 h'"
    using rest h append_eq_append_conv [of "k @ '':''" "k' @ '':''" "take 16 h" "take 16 h'"]
      arg_cong [OF rest, of length] by auto
  ultimately show ?thesis by simp
qed

theorem evidence_event_id_inject_witness:
  "evidence_event_id_from_hash Codex ''s1'' ''000001'' ''user'' (sha256_hex ''x'')
     \<noteq> evidence_event_id_from_hash Codex ''s1'' ''000002'' ''user'' (sha256_hex ''x'')
   \<and> (\<exists>e. evidence_event_id_from_hash Codex ''s1'' ''000001'' ''user'' (sha256_hex ''x'') = Inr e)"
proof -
  let ?id = "\<lambda>l. evidence_event_id_from_hash Codex ''s1'' l ''user'' (sha256_hex ''x'')"
  have ok: "\<exists>e. ?id ''000001'' = Inr e" "\<exists>e. ?id ''000002'' = Inr e"
    by (simp_all add: evidence_id_Inr_iff rust_eval sha256_hex_shape)
  with evidence_event_id_inject [of Codex "''s1''" "''000001''" "''user''" "sha256_hex ''x''" _
      Codex "''s1''" "''000002''" "''user''" "sha256_hex ''x''"]
  show ?thesis by force
qed

text \<open>With colons the fields run together: a token is allowed to hold one, so two different
  pairs of session id and locator derive one evidence id.\<close>

theorem evidence_event_id_collision:
  "evidence_event_id agent ''a:b'' ''c'' ''user'' raw = evidence_event_id agent ''a'' ''b:c'' ''user'' raw
    \<and> (\<exists>e. evidence_event_id agent ''a'' ''b:c'' ''user'' raw = Inr e)"
  by (simp add: evidence_event_id_def evidence_event_id_from_hash_def validate_token_def
      id_validate_hash_def rust_eval sha256_hex_shape)

text \<open>A package is built exactly from a valid store id and a valid hash; two frames of one
  package are the same utterance exactly when their bodies digest alike, whatever their transport
  ids, and frames of different packages never are.\<close>

theorem same_utterance_iff:
  "(package_identity_new sid h = Inr p \<longleftrightarrow>
     token_ok sid \<and> hash_ok h \<and> p = \<lparr>store_id = sid, pkg_content_hash = h\<rparr>)
   \<and> (same_utterance (frame_from_body p body t) (frame_from_body q body' t') \<longleftrightarrow>
     p = q \<and> sha256_hex body = sha256_hex body')"
  by (simp add: package_identity_new_Inr_iff same_utterance_def frame_from_body_def)

end
