(* ===== verification/Evidence.thy ===== *)
theory Evidence
  imports Identity
begin

text \<open>
  The parts of \<^verbatim>\<open>engine/model.rs\<close> and \<^verbatim>\<open>adapters/mod.rs\<close> that the coverage
  ledger and the frame taxonomy are stated over: known values, speaker lanes, the reference to one
  raw unit, and the record an adapter returns for each unit.
\<close>

datatype 'a known = Unknown | Value 'a

fun known_value :: "'a known \<Rightarrow> 'a option" where
  "known_value Unknown = None"
| "known_value (Value v) = Some v"

datatype turn_role = RoleUser | RoleAssistant | RoleSystem | RoleTool

datatype turn_kind = UserMsg | AgentReply | InternalThought | ToolCall | ToolResult | SystemNote

record raw_unit_ref =
  ru_evidence_event_id :: string
  ru_coverage_ordinal :: u64
  ru_physical_ordinal :: u64
  ru_locator :: string
  ru_unit_kind :: string
  ru_artifact :: string
  ru_content_hash :: string
  ru_original_bytes :: u64

end
