(* ===== verification/Reader.thy ===== *)
theory Reader
  imports Evidence
begin

text \<open>
  \<^verbatim>\<open>engine/reader.rs\<close>: the bounded reader that cuts a source's artifacts into physical
  units. Opening and reading a file is the operating system's; it is the parameter \<open>fs\<close>
  (validated open, metadata length, bounded read). A memory artifact needs none of it.
\<close>

section \<open>Policy and units\<close>

definition default_max_source_bytes :: usize where
  "default_max_source_bytes = 2 * 1024 * 1024 * 1024"

definition default_max_unit_bytes :: usize where
  "default_max_unit_bytes = 8 * 1024 * 1024"

definition default_max_document_bytes :: usize where
  "default_max_document_bytes = 1024 * 1024 * 1024"

record reader_policy =
  max_source_bytes :: usize
  max_unit_bytes :: usize
  max_document_bytes :: usize

definition default_policy :: reader_policy where
  "default_policy =
     \<lparr>max_source_bytes = default_max_source_bytes, max_unit_bytes = default_max_unit_bytes,
      max_document_bytes = default_max_document_bytes\<rparr>"

datatype unit_boundary = Complete | UnterminatedTail | BoundaryOversized

record raw_unit =
  un_coverage_ordinal :: u64
  un_physical_ordinal :: u64
  un_artifact :: string
  un_framing :: source_framing
  un_bytes :: bytes
  un_original_bytes :: u64
  un_content_hash :: string
  un_boundary :: unit_boundary

record source_read =
  sr_units :: "raw_unit list"
  sr_source_bytes :: u64
  sr_source_hash :: string

datatype reader_error =
    InvalidPolicy
  | SourceTooLarge u64 usize
  | ArtifactTooLarge string u64 usize
  | OpenError string string
  | ReadError string string

fun reader_error_display :: "(string \<Rightarrow> bool) \<Rightarrow> reader_error \<Rightarrow> string" where
  "reader_error_display printable InvalidPolicy = ''reader byte caps must be non-zero''"
| "reader_error_display printable (SourceTooLarge actual cap) =
     ''source exceeds cap: '' @ show_nat actual @ '' > '' @ show_nat cap @ '' bytes''"
| "reader_error_display printable (ArtifactTooLarge artifact actual cap) =
     ''artifact '' @ str_debug printable artifact @ '' exceeds cap: '' @ show_nat actual @ '' > ''
     @ show_nat cap @ '' bytes''"
| "reader_error_display printable (OpenError artifact message) =
     ''cannot validated-open artifact '' @ str_debug printable artifact @ '': '' @ message"
| "reader_error_display printable (ReadError artifact message) =
     ''cannot read artifact '' @ str_debug printable artifact @ '': '' @ message"

section \<open>Cutting an artifact\<close>

fun split_on :: "char \<Rightarrow> bytes \<Rightarrow> bytes list" where
  "split_on c [] = [[]]"
| "split_on c (x # xs) =
     (if x = c then [] # split_on c xs
      else case split_on c xs of [] \<Rightarrow> [[x]] | p # ps \<Rightarrow> (x # p) # ps)"

definition newline :: char where
  "newline = CHR 0x0A"

definition strip_cr :: "bytes \<Rightarrow> bytes" where
  "strip_cr raw = (if suffix [CHR 0x0D] raw then butlast raw else raw)"

definition push_unit ::
  "source_artifact \<Rightarrow> bytes \<Rightarrow> usize \<Rightarrow> u64 \<Rightarrow> bool \<Rightarrow> usize \<Rightarrow> raw_unit list \<Rightarrow> raw_unit list" where
  "push_unit artifact raw original_len ordinal unterminated_tail cap output =
     (let oversized = cap < original_len in
      output @
      [\<lparr>un_coverage_ordinal = length output + 1, un_physical_ordinal = ordinal,
        un_artifact = art_name artifact, un_framing = art_framing artifact,
        un_bytes = (if oversized then take cap raw else raw),
        un_original_bytes = original_len, un_content_hash = sha256_hex raw,
        un_boundary = (if oversized then BoundaryOversized
                       else if unterminated_tail then UnterminatedTail else Complete)\<rparr>])"

fun lines_loop ::
  "source_artifact \<Rightarrow> reader_policy \<Rightarrow> bool \<Rightarrow> u64 \<Rightarrow> bytes list \<Rightarrow> raw_unit list \<Rightarrow> raw_unit list" where
  "lines_loop artifact policy terminated index [] output = output"
| "lines_loop artifact policy terminated index (raw # rest) output =
     (let is_last = (rest = []) in
      if raw = [] \<and> is_last \<and> terminated
      then lines_loop artifact policy terminated index rest output
      else let index = index + 1; raw = strip_cr raw; tail = (\<not> terminated \<and> is_last) in
        lines_loop artifact policy terminated index rest
          (push_unit artifact raw (length raw) index tail (max_unit_bytes policy) output))"

definition append_units ::
  "source_artifact \<Rightarrow> bytes \<Rightarrow> reader_policy \<Rightarrow> raw_unit list \<Rightarrow> raw_unit list" where
  "append_units artifact bs policy output =
     (case art_framing artifact of
        JsonLines \<Rightarrow>
          lines_loop artifact policy (ends_with bs [newline]) 0 (split_on newline bs) output
      | WholeDocument \<Rightarrow>
          push_unit artifact bs (length bs) 1 False (max_document_bytes policy) output
      | Opaque \<Rightarrow>
          push_unit artifact bs (length bs) 1 False (max_document_bytes policy) output)"

section \<open>Reading a source\<close>

text \<open>
  \<open>fs_open\<close> is the validated open with the text of its error, \<open>fs_len\<close> the metadata
  length when it is known, and \<open>fs_read f n\<close> the result of reading at most \<open>n\<close> bytes to the end.
\<close>

record 'f file_system =
  fs_open :: "path \<Rightarrow> string + 'f"
  fs_len :: "'f \<Rightarrow> u64 option"
  fs_read :: "'f \<Rightarrow> u64 \<Rightarrow> string + bytes"

definition read_artifact ::
  "'f file_system \<Rightarrow> source_artifact \<Rightarrow> usize \<Rightarrow> reader_error + bytes" where
  "read_artifact fs artifact cap =
     (case art_input artifact of
        Memory bs \<Rightarrow>
          if cap < length bs then Inl (ArtifactTooLarge (art_name artifact) (length bs) cap)
          else Inr bs
      | ValidatedFile p \<Rightarrow>
          bind_res (map_err (OpenError (art_name artifact)) (fs_open fs p)) (\<lambda>f.
          let metadata_len = (case fs_len fs f of None \<Rightarrow> 0 | Some n \<Rightarrow> n) in
          if cap < metadata_len
          then Inl (ArtifactTooLarge (art_name artifact) metadata_len cap)
          else
            bind_res (map_err (ReadError (art_name artifact))
                (fs_read fs f (u64_wrapping_add cap 1))) (\<lambda>bs.
            if cap < length bs then Inl (ArtifactTooLarge (art_name artifact) (length bs) cap)
            else Inr bs)))"

text \<open>\<^verbatim>\<open>u64::to_be_bytes\<close>.\<close>

definition be64_bytes :: "u64 \<Rightarrow> bytes" where
  "be64_bytes n = map (\<lambda>i. char_of (n div 256 ^ (7 - i) mod 256)) [0..<8]"

definition artifact_material :: "source_artifact \<Rightarrow> bytes \<Rightarrow> bytes" where
  "artifact_material artifact bs =
     be64_bytes (length (art_name artifact)) @ art_name artifact
     @ be64_bytes (length bs) @ sha256_hex bs"

record read_state =
  rs_units :: "raw_unit list"
  rs_material :: bytes
  rs_single_hash :: "string option"
  rs_source_bytes :: u64

definition read_step ::
  "'f file_system \<Rightarrow> reader_policy \<Rightarrow> bool \<Rightarrow> read_state \<Rightarrow> source_artifact
    \<Rightarrow> reader_error + read_state" where
  "read_step fs policy single s artifact =
     bind_res (read_artifact fs artifact (max_source_bytes policy)) (\<lambda>bs.
     case u64_checked_add (rs_source_bytes s) (length bs) of
       None \<Rightarrow> Inl (SourceTooLarge u64_max (max_source_bytes policy))
     | Some new_total \<Rightarrow>
         if max_source_bytes policy < new_total
         then Inl (SourceTooLarge new_total (max_source_bytes policy))
         else Inr
           \<lparr>rs_units = append_units artifact bs policy (rs_units s),
            rs_material = (if single then rs_material s
                           else rs_material s @ artifact_material artifact bs),
            rs_single_hash = (if single then Some (sha256_hex bs) else rs_single_hash s),
            rs_source_bytes = new_total\<rparr>)"

definition read_start :: read_state where
  "read_start = \<lparr>rs_units = [], rs_material = [], rs_single_hash = None, rs_source_bytes = 0\<rparr>"

definition reader_read ::
  "'f file_system \<Rightarrow> reader_policy \<Rightarrow> source_handle \<Rightarrow> reader_error + source_read" where
  "reader_read fs policy src =
     (if max_source_bytes policy = 0 \<or> max_unit_bytes policy = 0 \<or> max_document_bytes policy = 0
      then Inl InvalidPolicy
      else
        bind_res (fold_res (read_step fs policy (length (artifacts src) = 1)) read_start
            (artifacts src)) (\<lambda>s.
        Inr \<lparr>sr_units = rs_units s, sr_source_bytes = rs_source_bytes s,
             sr_source_hash = (case rs_single_hash s of
                                 None \<Rightarrow> sha256_hex (rs_material s) | Some h \<Rightarrow> h)\<rparr>))"

lemmas [rust_eval] = newline_def strip_cr_def push_unit_def append_units_def read_artifact_def
  read_step_def read_start_def reader_read_def

section \<open>Lines\<close>

definition raw_lines :: "bytes \<Rightarrow> bytes list" where
  "raw_lines bs =
     (if ends_with bs [newline] then butlast (split_on newline bs) else split_on newline bs)"

lemma split_on_nonempty [simp]: "split_on c bs \<noteq> []"
  by (induction bs) (auto split: list.splits)

lemma split_on_join: "concat (map (\<lambda>l. l @ [c]) (split_on c bs)) = bs @ [c]"
proof (induction bs)
  case Nil
  then show ?case by simp
next
  case (Cons x xs)
  obtain p ps where "split_on c xs = p # ps" by (cases "split_on c xs") auto
  with Cons show ?case by auto
qed

lemma split_on_snoc: "split_on c (bs @ [c]) = split_on c bs @ [[]]"
proof (induction bs)
  case Nil
  then show ?case by simp
next
  case (Cons x xs)
  obtain p ps where "split_on c xs = p # ps" by (cases "split_on c xs") auto
  with Cons show ?case by auto
qed

lemma split_on_clean: "l \<in> set (split_on c bs) \<Longrightarrow> c \<notin> set l"
proof (induction bs arbitrary: l)
  case Nil
  then show ?case by simp
next
  case (Cons x xs)
  obtain p ps where "split_on c xs = p # ps" by (cases "split_on c xs") auto
  with Cons show ?case by (auto split: if_splits)
qed

lemma raw_lines_join:
  "concat (map (\<lambda>l. l @ [newline]) (raw_lines bs)) =
     (if ends_with bs [newline] then bs else bs @ [newline])"
proof (cases "ends_with bs [newline]")
  case True
  then obtain b where "bs = b @ [newline]" by (auto simp: ends_with_def suffix_def)
  with True show ?thesis by (simp add: raw_lines_def split_on_snoc split_on_join)
next
  case False
  then show ?thesis by (simp add: raw_lines_def split_on_join)
qed

lemma raw_lines_clean: "newline \<notin> \<Union> (set ` set (raw_lines bs))"
  by (auto simp: raw_lines_def split_on_clean dest: in_set_butlastD split: if_splits)

text \<open>The units the loop appends, as a function of the lines.\<close>

fun line_units :: "source_artifact \<Rightarrow> usize \<Rightarrow> bool \<Rightarrow> u64 \<Rightarrow> u64 \<Rightarrow> bytes list \<Rightarrow> raw_unit list" where
  "line_units a cap terminated cov ord [] = []"
| "line_units a cap terminated cov ord (l # ls) =
     \<lparr>un_coverage_ordinal = Suc cov, un_physical_ordinal = Suc ord, un_artifact = art_name a,
      un_framing = art_framing a, un_bytes = take cap (strip_cr l),
      un_original_bytes = length (strip_cr l), un_content_hash = sha256_hex (strip_cr l),
      un_boundary = (if cap < length (strip_cr l) then BoundaryOversized
                     else if \<not> terminated \<and> ls = [] then UnterminatedTail else Complete)\<rparr>
     # line_units a cap terminated (Suc cov) (Suc ord) ls"

lemma lines_loop_units:
  assumes "terminated \<Longrightarrow> ps \<noteq> [] \<and> last ps = []"
  shows "lines_loop a pol terminated idx ps out =
    out @ line_units a (max_unit_bytes pol) terminated (length out) idx
      (if terminated then butlast ps else ps)"
  using assms
proof (induction ps arbitrary: idx out)
  case Nil
  then show ?case by simp
next
  case (Cons l ls)
  show ?case
  proof (cases "l = [] \<and> ls = [] \<and> terminated")
    case True
    then show ?thesis by simp
  next
    case False
    with Cons.prems have "terminated \<Longrightarrow> ls \<noteq> [] \<and> last ls = []" by (auto split: if_splits)
    with False Cons.IH show ?thesis by (auto simp: Let_def push_unit_def)
  qed
qed

lemma append_units_lines:
  assumes "art_framing a = JsonLines"
  shows "append_units a bs pol out =
    out @ line_units a (max_unit_bytes pol) (ends_with bs [newline]) (length out) 0 (raw_lines bs)"
proof -
  have "last (split_on newline bs) = []" if "ends_with bs [newline]"
    using that by (auto simp: ends_with_def suffix_def split_on_snoc)
  then show ?thesis
    by (simp add: append_units_def assms raw_lines_def lines_loop_units)
qed

lemma line_units_maps:
  "map un_content_hash (line_units a cap t cov ord ls) = map (\<lambda>l. sha256_hex (strip_cr l)) ls"
  "map un_bytes (line_units a cap t cov ord ls) = map (\<lambda>l. take cap (strip_cr l)) ls"
  "map un_original_bytes (line_units a cap t cov ord ls) = map (\<lambda>l. length (strip_cr l)) ls"
  "map un_physical_ordinal (line_units a cap t cov ord ls) = [Suc ord..<Suc (ord + length ls)]"
  "map un_coverage_ordinal (line_units a cap t cov ord ls) = [Suc cov..<Suc (cov + length ls)]"
  "length (line_units a cap t cov ord ls) = length ls"
  by (induction ls arbitrary: cov ord) (auto simp: upt_rec)

text \<open>An unterminated tail can only be the last line of an artifact that does not end in a newline.\<close>

lemma line_units_boundaries:
  "map un_boundary (line_units a cap t cov ord ls) =
     (let full = map (\<lambda>l. if cap < length (strip_cr l) then BoundaryOversized else Complete) ls in
      if t \<or> ls = [] \<or> last full = BoundaryOversized then full
      else butlast full @ [UnterminatedTail])"
  by (induction ls arbitrary: cov ord) (auto simp: Let_def)

section \<open>Units in bounds\<close>

text \<open>What every appended unit satisfies: kept bytes within its cap, the rest recorded.\<close>

definition unit_ok :: "reader_policy \<Rightarrow> raw_unit \<Rightarrow> bool" where
  "unit_ok pol u \<longleftrightarrow>
     (let cap = (if un_framing u = JsonLines then max_unit_bytes pol else max_document_bytes pol) in
      length (un_bytes u) \<le> cap
      \<and> length (un_bytes u) = min cap (un_original_bytes u)
      \<and> (un_boundary u = BoundaryOversized \<longleftrightarrow> cap < un_original_bytes u)
      \<and> hash_ok (un_content_hash u)
      \<and> (un_boundary u = BoundaryOversized \<or> un_content_hash u = sha256_hex (un_bytes u)))"

definition ordinals_consecutive :: "raw_unit list \<Rightarrow> bool" where
  "ordinals_consecutive us \<longleftrightarrow> map un_coverage_ordinal us = [1..<Suc (length us)]"

lemma line_units_ok:
  "art_framing a = JsonLines \<Longrightarrow> cap = max_unit_bytes pol \<Longrightarrow>
     list_all (unit_ok pol) (line_units a cap t cov ord ls)"
  by (induction ls arbitrary: cov ord) (auto simp: unit_ok_def Let_def)

lemma ordinals_consecutive_append:
  assumes "ordinals_consecutive out"
    and "map un_coverage_ordinal us = [Suc (length out)..<Suc (length out + length us)]"
  shows "ordinals_consecutive (out @ us)"
proof -
  have "[1..<Suc (length out) + length us] =
      [1..<Suc (length out)] @ [Suc (length out)..<Suc (length out) + length us]"
    by (rule upt_add_eq_append) simp
  with assms show ?thesis by (simp add: ordinals_consecutive_def del: upt_Suc)
qed

lemma append_units_ok:
  assumes "list_all (unit_ok pol) out" and "ordinals_consecutive out"
  shows "list_all (unit_ok pol) (append_units a bs pol out)
    \<and> ordinals_consecutive (append_units a bs pol out)"
proof (cases "art_framing a = JsonLines")
  case True
  then show ?thesis
    using assms line_units_ok [OF True refl, of pol]
    by (simp add: append_units_lines ordinals_consecutive_append line_units_maps del: upt_Suc)
next
  case False
  have "append_units a bs pol out = push_unit a bs (length bs) 1 False (max_document_bytes pol) out"
    using False by (cases "art_framing a") (simp_all add: append_units_def)
  then show ?thesis
    using assms False
    by (simp add: push_unit_def Let_def unit_ok_def ordinals_consecutive_def)
qed

lemma read_step_Inr:
  assumes "read_step fs pol single s a = Inr s'"
  obtains bs where "read_artifact fs a (max_source_bytes pol) = Inr bs"
    "rs_units s' = append_units a bs pol (rs_units s)"
    "rs_source_bytes s' = rs_source_bytes s + length bs"
    "rs_source_bytes s' \<le> max_source_bytes pol"
    "rs_single_hash s' = (if single then Some (sha256_hex bs) else rs_single_hash s)"
    "rs_material s' = (if single then rs_material s else rs_material s @ artifact_material a bs)"
  using assms
  by (auto simp: read_step_def res_simps rust_arith split: option.splits if_splits)

lemma reader_read_units:
  assumes "reader_read fs pol src = Inr r"
  shows "list_all (unit_ok pol) (sr_units r) \<and> ordinals_consecutive (sr_units r)
    \<and> sr_source_bytes r \<le> max_source_bytes pol"
proof -
  from assms obtain s where
    loop: "fold_res (read_step fs pol (length (artifacts src) = 1)) read_start (artifacts src) = Inr s"
    and r: "sr_units r = rs_units s" "sr_source_bytes r = rs_source_bytes s"
    by (auto simp: reader_read_def res_simps split: if_splits)
  let ?P = "\<lambda>s. list_all (unit_ok pol) (rs_units s) \<and> ordinals_consecutive (rs_units s)
    \<and> rs_source_bytes s \<le> max_source_bytes pol"
  have "?P s"
  proof (rule fold_res_invariant [OF loop])
    show "?P read_start" by (simp add: read_start_def ordinals_consecutive_def)
  next
    fix s x s'
    assume "?P s" "read_step fs pol (length (artifacts src) = 1) s x = Inr s'"
    then show "?P s'" by (auto elim!: read_step_Inr simp: append_units_ok)
  qed
  with r show ?thesis by simp
qed

section \<open>Memory sources\<close>

definition memory_length :: "source_artifact \<Rightarrow> nat" where
  "memory_length a = (case memory_bytes (art_input a) of None \<Rightarrow> 0 | Some bs \<Rightarrow> length bs)"

definition in_memory :: "source_artifact list \<Rightarrow> bool" where
  "in_memory arts \<longleftrightarrow> list_all (\<lambda>a. memory_bytes (art_input a) \<noteq> None) arts"

lemma read_step_memory:
  fixes s :: read_state
  assumes "memory_bytes (art_input a) \<noteq> None" and "max_source_bytes pol \<le> u64_max"
  shows "case read_step fs pol single s a of
      Inl e \<Rightarrow> max_source_bytes pol < rs_source_bytes s + memory_length a
    | Inr s' \<Rightarrow> rs_source_bytes s' = rs_source_bytes s + memory_length a
        \<and> rs_source_bytes s' \<le> max_source_bytes pol"
  using assms
  by (cases "art_input a")
     (auto simp: read_step_def read_artifact_def memory_length_def u64_checked_add_def)

lemma read_loop_memory:
  fixes s :: read_state
  assumes "in_memory arts" and "max_source_bytes pol \<le> u64_max"
    and "rs_source_bytes s \<le> max_source_bytes pol"
  shows "case fold_res (read_step fs pol single) s arts of
      Inl e \<Rightarrow> max_source_bytes pol < rs_source_bytes s + sum_list (map memory_length arts)
    | Inr s' \<Rightarrow> rs_source_bytes s' = rs_source_bytes s + sum_list (map memory_length arts)
        \<and> rs_source_bytes s' \<le> max_source_bytes pol"
  using assms
proof (induction arts arbitrary: s)
  case Nil
  then show ?case by simp
next
  case (Cons a arts)
  then have mem: "memory_bytes (art_input a) \<noteq> None" "in_memory arts" by (simp_all add: in_memory_def)
  have step: "case read_step fs pol single s a of
      Inl e \<Rightarrow> max_source_bytes pol < rs_source_bytes s + memory_length a
    | Inr s' \<Rightarrow> rs_source_bytes s' = rs_source_bytes s + memory_length a
        \<and> rs_source_bytes s' \<le> max_source_bytes pol" for s
    by (rule read_step_memory [OF mem(1) Cons.prems(2)])
  show ?case
  proof (cases "read_step fs pol single s a")
    case (Inl e)
    with step [of s] show ?thesis by simp
  next
    case (Inr t)
    with step [of s] Cons.IH [OF mem(2) Cons.prems(2), of t] show ?thesis
      by (simp add: add.assoc split: sum.splits)
  qed
qed

section \<open>The digest input of several artifacts\<close>

lemma digits_eq:
  fixes m n b :: nat
  assumes "\<forall>i < k. m div b ^ i mod b = n div b ^ i mod b" and "m div b ^ k = n div b ^ k"
  shows "m = n"
  using assms
proof (induction k)
  case 0
  then show ?case by simp
next
  case (Suc k)
  have split: "x div b ^ k = b * (x div b ^ Suc k) + x div b ^ k mod b" for x
    by (simp add: div_mult2_eq [symmetric] mult.commute)
       (metis div_mult2_eq mult.commute mult_div_mod_eq)
  have "m div b ^ k = n div b ^ k"
    using Suc.prems by (subst (1 2) split) simp
  then show ?case using Suc.IH Suc.prems(1) by simp
qed

lemma be64_inject:
  assumes "be64_bytes m = be64_bytes n" and "m < 2 ^ 64" and "n < 2 ^ 64"
  shows "m = n"
proof (rule digits_eq [where b = 256 and k = 8])
  show "m div 256 ^ 8 = n div 256 ^ 8" using assms(2,3) by simp
  show "\<forall>i < 8. m div 256 ^ i mod 256 = n div 256 ^ i mod 256"
  proof (intro allI impI)
    fix i :: nat
    assume i: "i < 8"
    have "be64_bytes m ! (7 - i) = be64_bytes n ! (7 - i)" using assms(1) by simp
    moreover have "[0..<8] ! (7 - i) = 7 - i" "7 - (7 - i) = i" using i by (simp_all add: nth_upt del: upt_Suc)
    ultimately have "(char_of (m div 256 ^ i mod 256) :: char) = char_of (n div 256 ^ i mod 256)"
      using i by (simp add: be64_bytes_def)
    then show "m div 256 ^ i mod 256 = n div 256 ^ i mod 256"
      by (simp add: char_of_eq_iff take_bit_eq_mod)
  qed
qed

lemma length_be64 [simp]: "length (be64_bytes n) = 8"
  by (simp add: be64_bytes_def)

definition artifact_key :: "source_artifact \<times> bytes \<Rightarrow> string \<times> nat \<times> string" where
  "artifact_key x = (art_name (fst x), length (snd x), sha256_hex (snd x))"

definition source_material :: "(source_artifact \<times> bytes) list \<Rightarrow> bytes" where
  "source_material xs = concat (map (\<lambda>(a, bs). artifact_material a bs) xs)"

definition fits_u64 :: "(source_artifact \<times> bytes) list \<Rightarrow> bool" where
  "fits_u64 xs \<longleftrightarrow> list_all (\<lambda>(a, bs). length (art_name a) < 2 ^ 64 \<and> length bs < 2 ^ 64) xs"

lemma material_cut:
  assumes "artifact_material a bs @ r = artifact_material a' bs' @ r'"
    and "length (art_name a) < 2 ^ 64" "length bs < 2 ^ 64"
    and "length (art_name a') < 2 ^ 64" "length bs' < 2 ^ 64"
  shows "artifact_key (a, bs) = artifact_key (a', bs') \<and> r = r'"
proof -
  have "be64_bytes (length (art_name a)) = be64_bytes (length (art_name a'))"
    using assms(1) by (simp add: artifact_material_def)
  then have len: "length (art_name a) = length (art_name a')" using be64_inject assms(2,4) by blast
  then have eq: "art_name a = art_name a'"
    "be64_bytes (length bs) = be64_bytes (length bs')" "sha256_hex bs = sha256_hex bs'" "r = r'"
    using assms(1) by (auto simp: artifact_material_def sha256_hex_shape)
  then show ?thesis using be64_inject assms(3,5) by (auto simp: artifact_key_def)
qed

lemma artifact_material_nonempty [simp]: "artifact_material a bs \<noteq> []"
  using length_be64 by (metis append_is_Nil_conv artifact_material_def length_0_conv zero_neq_numeral)


section \<open>Properties\<close>

text \<open>A line-framed artifact is cut into its lines. Each line becomes one unit holding the line
  without a trailing carriage return, kept up to the cap, hashed and measured before it is cut; the
  ordinals count up from one in the artifact and go on from the units before it in the source; a
  unit is an unterminated tail only if it is the last and the artifact does not end in a newline;
  and the lines put together again, newline after each, are the artifact.\<close>

theorem append_units_json_lines:
  assumes "art_framing a = JsonLines"
  shows "\<exists>us. append_units a bs pol out = out @ us
    \<and> map un_content_hash us = map (\<lambda>l. sha256_hex (strip_cr l)) (raw_lines bs)
    \<and> map un_bytes us = map (\<lambda>l. take (max_unit_bytes pol) (strip_cr l)) (raw_lines bs)
    \<and> map un_original_bytes us = map (\<lambda>l. length (strip_cr l)) (raw_lines bs)
    \<and> map un_physical_ordinal us = [1..<Suc (length us)]
    \<and> map un_coverage_ordinal us = [Suc (length out)..<Suc (length out + length us)]
    \<and> map un_boundary us =
        (let full = map (\<lambda>l. if max_unit_bytes pol < length (strip_cr l) then BoundaryOversized
                             else Complete) (raw_lines bs) in
         if ends_with bs [newline] \<or> raw_lines bs = [] \<or> last full = BoundaryOversized then full
         else butlast full @ [UnterminatedTail])
    \<and> concat (map (\<lambda>l. l @ [newline]) (raw_lines bs)) =
        (if ends_with bs [newline] then bs else bs @ [newline])
    \<and> newline \<notin> \<Union> (set ` set (raw_lines bs))"
  by (intro exI conjI) (rule append_units_lines [OF assms],
      simp_all add: line_units_maps line_units_boundaries raw_lines_join
        raw_lines_clean [simplified] del: upt_Suc)

definition jsonl_artifact :: "string \<Rightarrow> bytes \<Rightarrow> source_artifact" where
  "jsonl_artifact name bs = \<lparr>art_name = name, art_framing = JsonLines, art_input = Memory bs\<rparr>"

definition small_policy :: reader_policy where
  "small_policy = \<lparr>max_source_bytes = 100, max_unit_bytes = 10, max_document_bytes = 100\<rparr>"

theorem append_units_json_lines_witness:
  "\<exists>us. append_units (jsonl_artifact ''a'' []) (''{}'' @ [newline] @ ''x'') small_policy [] = us
    \<and> map un_bytes us = [''{}'', ''x''] \<and> map un_boundary us = [Complete, UnterminatedTail]"
proof -
  have lines: "raw_lines (''{}'' @ [newline] @ ''x'') = [''{}'', ''x'']"
    "\<not> ends_with (''{}'' @ [newline] @ ''x'') [newline]"
    by (simp_all add: raw_lines_def rust_eval)
  have json: "art_framing (jsonl_artifact ''a'' []) = JsonLines" by (simp add: jsonl_artifact_def)
  obtain us where us: "append_units (jsonl_artifact ''a'' []) (''{}'' @ [newline] @ ''x'') small_policy [] = us"
    "map un_bytes us = map (\<lambda>l. take 10 (strip_cr l)) [''{}'', ''x'']"
    "map un_boundary us = (let full = map (\<lambda>l. if 10 < length (strip_cr l) then BoundaryOversized
        else Complete) [''{}'', ''x''] in if last full = BoundaryOversized then full
        else butlast full @ [UnterminatedTail])"
    using append_units_json_lines [OF json, of "''{}'' @ [newline] @ ''x''" small_policy "[]"] lines
    by (auto simp: small_policy_def)
  then show ?thesis by (auto simp: strip_cr_def suffix_to_prefix Let_def)
qed

text \<open>C39: whatever the artifacts and the file system, a read that returns has numbered its units
  one, two, three and so on across artifacts; no unit holds more bytes than the cap of its framing,
  the recorded length and hash are those of the whole unit, a unit is marked oversized exactly when
  it was cut, and the source is within its cap.\<close>

theorem reader_read_bounded:
  assumes "reader_read fs pol src = Inr r"
  shows "map un_coverage_ordinal (sr_units r) = [1..<Suc (length (sr_units r))]
    \<and> list_all (\<lambda>u. let cap = (if un_framing u = JsonLines then max_unit_bytes pol
                                 else max_document_bytes pol) in
         length (un_bytes u) \<le> cap
         \<and> length (un_bytes u) = min cap (un_original_bytes u)
         \<and> (un_boundary u = BoundaryOversized \<longleftrightarrow> cap < un_original_bytes u)
         \<and> hash_ok (un_content_hash u)
         \<and> (un_boundary u = BoundaryOversized \<or> un_content_hash u = sha256_hex (un_bytes u)))
       (sr_units r)
    \<and> sr_source_bytes r \<le> max_source_bytes pol"
  using reader_read_units [OF assms]
  by (simp add: ordinals_consecutive_def unit_ok_def [abs_def] del: upt_Suc)

definition sample_source :: source_handle where
  "sample_source =
     \<lparr>sh_agent = Codex, source_id = ''s1'', logical_session_id = None,
      artifacts = [jsonl_artifact ''a'' (''{}'' @ [newline]), jsonl_artifact ''b'' ''x'']\<rparr>"

definition no_files :: "unit file_system" where
  "no_files = \<lparr>fs_open = (\<lambda>_. Inl ''no such file''), fs_len = (\<lambda>_. None), fs_read = (\<lambda>_ _. Inl [])\<rparr>"

lemma sample_read: "\<exists>r. reader_read no_files small_policy sample_source = Inr r \<and> length (sr_units r) = 2"
  by (simp add: sample_source_def jsonl_artifact_def small_policy_def rust_eval u64_checked_add_def
      u64_max_def)

theorem reader_read_bounded_witness:
  "\<exists>r. reader_read no_files small_policy sample_source = Inr r
     \<and> map un_coverage_ordinal (sr_units r) = [1, 2]"
proof -
  obtain r where r: "reader_read no_files small_policy sample_source = Inr r" "length (sr_units r) = 2"
    using sample_read by blast
  with reader_read_bounded [OF r(1)] show ?thesis by (auto simp: upt_rec)
qed

text \<open>A source held in memory is read exactly when the three caps are positive and the bytes of
  all artifacts together are within the source cap; no file is touched, and the byte count returned
  is that sum.\<close>

theorem reader_read_memory_iff:
  assumes "in_memory (artifacts src)" and "max_source_bytes pol \<le> u64_max"
  shows "(\<exists>r. reader_read fs pol src = Inr r
      \<and> sr_source_bytes r = sum_list (map memory_length (artifacts src))) \<longleftrightarrow>
    0 < max_source_bytes pol \<and> 0 < max_unit_bytes pol \<and> 0 < max_document_bytes pol
    \<and> sum_list (map memory_length (artifacts src)) \<le> max_source_bytes pol"
proof -
  have loop: "case fold_res (read_step fs pol (length (artifacts src) = 1)) read_start (artifacts src) of
      Inl e \<Rightarrow> max_source_bytes pol < rs_source_bytes read_start + sum_list (map memory_length (artifacts src))
    | Inr s' \<Rightarrow> rs_source_bytes s' = rs_source_bytes read_start + sum_list (map memory_length (artifacts src))
        \<and> rs_source_bytes s' \<le> max_source_bytes pol"
    by (rule read_loop_memory [OF assms]) (simp add: read_start_def)
  show ?thesis
  proof (cases "fold_res (read_step fs pol (length (artifacts src) = 1)) read_start (artifacts src)")
    case (Inl e)
    with loop show ?thesis by (auto simp: reader_read_def read_start_def)
  next
    case (Inr s)
    with loop show ?thesis by (auto simp: reader_read_def read_start_def)
  qed
qed

theorem reader_read_memory_iff_witness:
  "(\<exists>r. reader_read no_files small_policy sample_source = Inr r \<and> sr_source_bytes r = 4)
    \<and> \<not> (\<exists>r. reader_read no_files (small_policy\<lparr>max_source_bytes := 3\<rparr>) sample_source = Inr r
           \<and> sr_source_bytes r = 4)"
proof -
  have mem: "in_memory (artifacts sample_source)"
    and len: "sum_list (map memory_length (artifacts sample_source)) = 4"
    by (simp_all add: sample_source_def in_memory_def jsonl_artifact_def memory_length_def)
  have cap: "max_source_bytes small_policy \<le> u64_max"
    "max_source_bytes (small_policy\<lparr>max_source_bytes := 3\<rparr>) \<le> u64_max"
    by (simp_all add: small_policy_def u64_max_def)
  show ?thesis
    using reader_read_memory_iff [OF mem cap(1), of no_files]
      reader_read_memory_iff [OF mem cap(2), of no_files]
    unfolding len by (simp add: small_policy_def)
qed

text \<open>What is digested for a source of several artifacts determines, in order, every artifact's
  name, length and hash: the length prefixes keep adjacent fields apart, so a byte moved from one
  artifact to another, or from a name to a body, changes the digest's input.\<close>

theorem source_material_inject:
  assumes "source_material xs = source_material ys" and "fits_u64 xs" and "fits_u64 ys"
  shows "map artifact_key xs = map artifact_key ys"
  using assms
proof (induction xs arbitrary: ys)
  case Nil
  then show ?case by (cases ys) (auto simp: source_material_def)
next
  case (Cons x xs)
  obtain a bs where x: "x = (a, bs)" by (cases x)
  from Cons.prems x obtain a' bs' ys' where ys: "ys = (a', bs') # ys'"
    by (cases ys) (auto simp: source_material_def)
  have "artifact_material a bs @ source_material xs = artifact_material a' bs' @ source_material ys'"
    using Cons.prems(1) by (simp add: x ys source_material_def)
  then have "artifact_key (a, bs) = artifact_key (a', bs') \<and> source_material xs = source_material ys'"
    using Cons.prems(2,3) by (intro material_cut) (auto simp: x ys fits_u64_def)
  then show ?case using Cons by (simp add: x ys fits_u64_def)
qed

theorem source_material_inject_witness:
  "source_material [(jsonl_artifact ''a'' [], ''bc''), (jsonl_artifact ''d'' [], [])]
    \<noteq> source_material [(jsonl_artifact ''a'' [], ''b''), (jsonl_artifact ''d'' [], ''c'')]"
  using source_material_inject [of "[(jsonl_artifact ''a'' [], ''bc''), (jsonl_artifact ''d'' [], [])]"
      "[(jsonl_artifact ''a'' [], ''b''), (jsonl_artifact ''d'' [], ''c'')]"]
  by (auto simp: fits_u64_def jsonl_artifact_def artifact_key_def)

end
