(* ===== verification/Ordered_Map.thy ===== *)
theory Ordered_Map
  imports Prelude
begin

text \<open>
  \<^verbatim>\<open>BTreeMap\<close> as the list of its entries in ascending key order, so that equality,
  iteration order and \<^verbatim>\<open>values().sum()\<close> are those of the Rust map. The locale
  \<open>tally_store\<close> is the interface the coverage ledgers rely on: counting keys one at a time
  into any store with these laws gives the multiplicities, and the values add up to the number of
  keys counted. The ordered list implements it.
\<close>

section \<open>The map\<close>

type_synonym ('k, 'v) btree_map = "('k \<times> 'v) list"

definition bt_wf :: "('k::linorder, 'v) btree_map \<Rightarrow> bool" where
  "bt_wf m \<longleftrightarrow> sorted_wrt (<) (map fst m)"

definition bt_get :: "('k, 'v) btree_map \<Rightarrow> 'k \<Rightarrow> 'v option" where
  "bt_get m k = map_of m k"

fun bt_insert :: "'k::linorder \<Rightarrow> 'v \<Rightarrow> ('k, 'v) btree_map \<Rightarrow> ('k, 'v) btree_map" where
  "bt_insert k v [] = [(k, v)]"
| "bt_insert k v ((k', v') # m) =
     (if k < k' then (k, v) # (k', v') # m
      else if k = k' then (k, v) # m
      else (k', v') # bt_insert k v m)"

definition bt_keys :: "('k, 'v) btree_map \<Rightarrow> 'k list" where
  "bt_keys m = map fst m"

definition bt_values :: "('k, 'v) btree_map \<Rightarrow> 'v list" where
  "bt_values m = map snd m"

text \<open>\<^verbatim>\<open>*map.entry(key).or_insert(0) += 1\<close>, and a loop of it from the empty map.\<close>

definition bt_bump :: "('k::linorder, nat) btree_map \<Rightarrow> 'k \<Rightarrow> ('k, nat) btree_map" where
  "bt_bump m k = bt_insert k (case bt_get m k of None \<Rightarrow> 1 | Some n \<Rightarrow> n + 1) m"

definition bt_tally :: "'k::linorder list \<Rightarrow> ('k, nat) btree_map" where
  "bt_tally ks = foldl bt_bump [] ks"

section \<open>Laws of the map\<close>

lemma set_keys_insert: "set (map fst (bt_insert k v m)) = insert k (set (map fst m))"
proof (induction m)
  case Nil
  then show ?case by simp
next
  case (Cons kv m)
  then show ?case by (cases kv) (simp add: insert_commute del: set_map)
qed

lemma bt_wf_empty [simp]: "bt_wf []"
  by (simp add: bt_wf_def)

lemma bt_wf_insert: "bt_wf m \<Longrightarrow> bt_wf (bt_insert k v m)"
proof (induction m)
  case Nil
  then show ?case by (simp add: bt_wf_def)
next
  case (Cons kv m)
  obtain k' v' where kv: "kv = (k', v')" by (cases kv)
  have keys: "set (map fst (bt_insert k v m)) = insert k (set (map fst m))"
    by (rule set_keys_insert)
  from Cons kv keys show ?case
    by (auto simp: bt_wf_def simp del: set_map)
qed

lemma bt_get_empty [simp]: "bt_get [] = Map.empty"
  by (simp add: bt_get_def fun_eq_iff)

lemma bt_get_insert: "bt_wf m \<Longrightarrow> bt_get (bt_insert k v m) = (bt_get m)(k \<mapsto> v)"
proof (induction m)
  case Nil
  then show ?case by (auto simp: bt_get_def)
next
  case (Cons kv m)
  then show ?case
    by (cases kv) (auto simp: bt_get_def bt_wf_def fun_eq_iff)
qed

lemma bt_get_fresh: "bt_wf ((k', v') # m) \<Longrightarrow> k < k' \<Longrightarrow> bt_get ((k', v') # m) k = None"
  by (auto simp: bt_get_def bt_wf_def map_of_eq_None_iff)

lemma bt_total_insert:
  "bt_wf m \<Longrightarrow>
     sum_list (bt_values (bt_insert k v m)) + (case bt_get m k of None \<Rightarrow> 0 | Some n \<Rightarrow> n)
     = sum_list (bt_values m) + (v::nat)"
proof (induction m)
  case Nil
  then show ?case by (simp add: bt_values_def)
next
  case (Cons kv m)
  obtain k' v' where kv: "kv = (k', v')" by (cases kv)
  with Cons.prems have wf: "bt_wf m" by (simp add: bt_wf_def)
  have less: "k < k' \<Longrightarrow> bt_get (kv # m) k = None"
    using Cons.prems kv bt_get_fresh by simp
  show ?case
    using Cons.IH [OF wf] less kv by (auto simp: bt_values_def bt_get_def)
qed

text \<open>Two maps in order with the same lookups are the same list of entries.\<close>

lemma bt_values_insert: "set (bt_values (bt_insert k v m)) \<subseteq> insert v (set (bt_values m))"
proof (induction m)
  case (Cons kv m)
  then show ?case by (cases kv) (auto simp: bt_values_def split: if_splits)
qed (simp add: bt_values_def)

lemma bt_ext:
  assumes "bt_wf m" and "bt_wf n" and "bt_get m = bt_get n"
  shows "m = n"
proof -
  have dist: "distinct (map fst x)" "sorted (map fst x)" if "bt_wf x" for x :: "('a, 'b) btree_map"
    using that by (simp_all add: bt_wf_def strict_sorted_iff)
  have mem: "(k, v) \<in> set x \<longleftrightarrow> bt_get x k = Some v" if "bt_wf x" for k v and x :: "('a, 'b) btree_map"
    using dist(1) [OF that] by (simp add: bt_get_def)
  have same: "set m = set n"
    using assms mem by (auto simp: set_eq_iff)
  then have "inj_on fst (set m \<union> set n)"
    using dist(1) [OF assms(1)] by (simp add: distinct_map)
  then show ?thesis
    using same dist assms(1,2) by (blast intro: map_sorted_distinct_set_unique)
qed

section \<open>Counting into a store\<close>

locale tally_store =
  fixes empty :: "'m"
    and get :: "'m \<Rightarrow> 'k \<Rightarrow> nat option"
    and put :: "'k \<Rightarrow> nat \<Rightarrow> 'm \<Rightarrow> 'm"
    and total :: "'m \<Rightarrow> nat"
    and invar :: "'m \<Rightarrow> bool"
  assumes get_empty: "get empty = Map.empty"
    and get_put: "invar m \<Longrightarrow> get (put k v m) = (get m)(k \<mapsto> v)"
    and invar_empty: "invar empty"
    and invar_put: "invar m \<Longrightarrow> invar (put k v m)"
    and total_empty: "total empty = 0"
    and total_put: "invar m \<Longrightarrow>
      total (put k v m) + (case get m k of None \<Rightarrow> 0 | Some n \<Rightarrow> n) = total m + v"
begin

definition bump :: "'m \<Rightarrow> 'k \<Rightarrow> 'm" where
  "bump m k = put k (case get m k of None \<Rightarrow> 1 | Some n \<Rightarrow> n + 1) m"

lemma bump_invar: "invar m \<Longrightarrow> invar (bump m k)"
  by (simp add: bump_def invar_put)

lemma bump_total: "invar m \<Longrightarrow> total (bump m k) = Suc (total m)"
  using total_put [of m k "case get m k of None \<Rightarrow> 1 | Some n \<Rightarrow> n + 1"]
  by (auto simp: bump_def split: option.splits)

lemma bump_get:
  "invar m \<Longrightarrow> get (bump m k) = (get m)(k \<mapsto> (case get m k of None \<Rightarrow> 1 | Some n \<Rightarrow> n + 1))"
  by (simp add: bump_def get_put)

lemma tally_invar: "invar m \<Longrightarrow> invar (foldl bump m ks)"
  by (induction ks arbitrary: m) (auto simp: bump_invar)

lemma tally_total: "invar m \<Longrightarrow> total (foldl bump m ks) = total m + length ks"
  by (induction ks arbitrary: m) (auto simp: bump_invar bump_total)

lemma tally_get:
  "invar m \<Longrightarrow>
     get (foldl bump m ks) k =
       (if k \<in> set ks
        then Some (count_list ks k + (case get m k of None \<Rightarrow> 0 | Some n \<Rightarrow> n))
        else get m k)"
proof (induction ks arbitrary: m)
  case Nil
  then show ?case by simp
next
  case (Cons x ks)
  then show ?case
    by (auto simp: bump_invar bump_get split: option.splits)
qed

end

interpretation bt: tally_store "[]" bt_get bt_insert "\<lambda>m. sum_list (bt_values m)" bt_wf
  by unfold_locales
     (simp_all add: bt_get_insert bt_wf_insert bt_total_insert, simp add: bt_values_def)

lemma bt_bump_eq: "bt.bump = bt_bump"
  by (simp add: fun_eq_iff bt.bump_def bt_bump_def)

lemma bt_tally_wf [simp]: "bt_wf (bt_tally ks)"
  unfolding bt_tally_def bt_bump_eq [symmetric] by (rule bt.tally_invar) simp

lemma bt_tally_get:
  "bt_get (bt_tally ks) k = (if k \<in> set ks then Some (count_list ks k) else None)"
  unfolding bt_tally_def bt_bump_eq [symmetric] by (simp add: bt.tally_get)

lemma bt_tally_total: "sum_list (bt_values (bt_tally ks)) = length ks"
  unfolding bt_tally_def bt_bump_eq [symmetric] by (subst bt.tally_total) (simp_all add: bt_values_def)

lemma bt_tally_keys: "set (bt_keys (bt_tally ks)) = set ks"
proof -
  have "k \<in> set (bt_keys (bt_tally ks)) \<longleftrightarrow> bt_get (bt_tally ks) k \<noteq> None" for k
    by (simp add: bt_keys_def bt_get_def map_of_eq_None_iff)
  then show ?thesis by (auto simp: bt_tally_get split: if_splits)
qed

lemmas tally_facts = bt_tally_wf bt_tally_get bt_tally_total bt_tally_keys

lemmas [rust_eval] = bt_tally_def bt_bump_def bt_get_def bt_keys_def bt_values_def

end
