(* ===== verification/Coverage.thy ===== *)
theory Coverage
  imports Evidence Ordered_Map
begin

text \<open>
  \<^verbatim>\<open>crates/aicx-parser/src/engine/coverage.rs\<close>: what was consumed and what was knowingly
  skipped, per kind and per reason, and the totality check of that ledger. The two ledgers are
  \<open>bt_tally\<close> of the records' keys, so their laws come from the interface \<open>tally_store\<close>.
\<close>

section \<open>Data\<close>

datatype visible_completeness = CompleteVisible | PartialVisible | Fatal

record boundary_flags =
  opaque_reasoning_present :: bool
  unsupported_visible_event :: bool
  compaction_boundary_present :: bool

record parse_status =
  st_completeness :: visible_completeness
  st_flags :: boundary_flags
  st_malformed_tail :: bool
  st_event_lost :: bool

record ordinal_range =
  rg_start :: u64
  rg_end :: u64

record consumed_unit =
  cu_ordinal :: u64
  cu_kind :: string
  cu_evidence :: raw_unit_ref

datatype skipped_reason =
    UnknownPayloadType | Malformed | Oversized | EncryptedOpaque | Unsupported
  | CompactionReplay | DuplicateBody

fun reason_as_str :: "skipped_reason \<Rightarrow> string" where
  "reason_as_str UnknownPayloadType = ''unknown_payload_type''"
| "reason_as_str Malformed = ''malformed''"
| "reason_as_str Oversized = ''oversized''"
| "reason_as_str EncryptedOpaque = ''encrypted_opaque''"
| "reason_as_str Unsupported = ''unsupported''"
| "reason_as_str CompactionReplay = ''compaction_replay''"
| "reason_as_str DuplicateBody = ''duplicate_body''"

definition is_known_content :: "skipped_reason \<Rightarrow> bool" where
  "is_known_content r \<longleftrightarrow> r = CompactionReplay \<or> r = DuplicateBody"

text \<open>\<^verbatim>\<open>derive(Ord)\<close>: the order of the constructors, which orders the ledger's keys.\<close>

fun reason_index :: "skipped_reason \<Rightarrow> nat" where
  "reason_index UnknownPayloadType = 0"
| "reason_index Malformed = 1"
| "reason_index Oversized = 2"
| "reason_index EncryptedOpaque = 3"
| "reason_index Unsupported = 4"
| "reason_index CompactionReplay = 5"
| "reason_index DuplicateBody = 6"

lemma reason_index_inject: "reason_index r = reason_index s \<longleftrightarrow> r = s"
  by (cases r; cases s) simp_all

instantiation skipped_reason :: linorder
begin

definition less_eq_skipped_reason :: "skipped_reason \<Rightarrow> skipped_reason \<Rightarrow> bool" where
  "r \<le> s \<longleftrightarrow> reason_index r \<le> reason_index s"

definition less_skipped_reason :: "skipped_reason \<Rightarrow> skipped_reason \<Rightarrow> bool" where
  "r < s \<longleftrightarrow> reason_index r < reason_index s"

instance
  by standard
     (auto simp: less_eq_skipped_reason_def less_skipped_reason_def reason_index_inject)

end

record skipped_unit =
  su_ordinal :: u64
  su_reason :: skipped_reason
  su_bytes :: u64
  su_visible :: bool
  su_evidence :: raw_unit_ref

datatype warning_kind =
    WarnUnknownPayloadType | WarnMalformedUnit | WarnOversizedUnit | WarnOpaqueReasoning
  | WarnUnsupportedVisibleEvent | WarnUnterminatedTail

record coverage_warning =
  cw_kind :: warning_kind
  cw_count :: u64
  cw_first_ordinal :: u64

record coverage_report =
  raw_line_count :: u64
  raw_unit_count :: u64
  consumed_count :: u64
  skipped_count :: u64
  consumed_ranges :: "ordinal_range list"
  consumed :: "consumed_unit list"
  skipped :: "skipped_unit list"
  warnings :: "coverage_warning list"
  status :: parse_status
  consumed_by_kind :: "(string, u64) btree_map"
  known_skipped :: "(skipped_reason, u64) btree_map"

datatype totality_error =
    ConsumedByKind u64 u64
  | KnownSkipped u64 u64
  | Partition u64 u64 u64
  | LedgerDrift string

fun totality_display :: "totality_error \<Rightarrow> string" where
  "totality_display (ConsumedByKind ledger records) =
     ''consumed_by_kind sums to '' @ show_nat ledger @ '' but consumed_count is '' @ show_nat records"
| "totality_display (KnownSkipped ledger records) =
     ''known_skipped sums to '' @ show_nat ledger @ '' but skipped_count is '' @ show_nat records"
| "totality_display (Partition c s raw) =
     ''consumed '' @ show_nat c @ '' + skipped '' @ show_nat s @ '' != raw_unit_count '' @ show_nat raw"
| "totality_display (LedgerDrift field) = field @ '' differs from a recount of the records''"

section \<open>Operations\<close>

fun ranges_loop :: "ordinal_range list \<Rightarrow> u64 list \<Rightarrow> ordinal_range list" where
  "ranges_loop ranges [] = ranges"
| "ranges_loop ranges (ordinal # rest) =
     ranges_loop
       (if ranges \<noteq> [] \<and> u64_saturating_add (rg_end (last ranges)) 1 = ordinal
        then butlast ranges @ [(last ranges)\<lparr>rg_end := ordinal\<rparr>]
        else ranges @ [\<lparr>rg_start = ordinal, rg_end = ordinal\<rparr>])
       rest"

definition ranges_for :: "u64 list \<Rightarrow> ordinal_range list" where
  "ranges_for ordinals = ranges_loop [] (sort ordinals)"

definition consumed_by_kind_of :: "consumed_unit list \<Rightarrow> (string, u64) btree_map" where
  "consumed_by_kind_of units = bt_tally (map cu_kind units)"

definition known_skipped_of :: "skipped_unit list \<Rightarrow> (skipped_reason, u64) btree_map" where
  "known_skipped_of units = bt_tally (map su_reason units)"

definition coverage_with_raw_line_count ::
  "u64 \<Rightarrow> u64 \<Rightarrow> consumed_unit list \<Rightarrow> skipped_unit list \<Rightarrow> coverage_warning list
    \<Rightarrow> parse_status \<Rightarrow> coverage_report" where
  "coverage_with_raw_line_count line_count unit_count cs ss ws stat =
     \<lparr>raw_line_count = line_count, raw_unit_count = unit_count,
      consumed_count = length cs, skipped_count = length ss,
      consumed_ranges = ranges_for (map cu_ordinal cs),
      consumed = cs, skipped = ss, warnings = ws, status = stat,
      consumed_by_kind = consumed_by_kind_of cs, known_skipped = known_skipped_of ss\<rparr>"

definition coverage_new ::
  "u64 \<Rightarrow> consumed_unit list \<Rightarrow> skipped_unit list \<Rightarrow> coverage_warning list
    \<Rightarrow> parse_status \<Rightarrow> coverage_report" where
  "coverage_new unit_count cs ss ws stat =
     coverage_with_raw_line_count unit_count unit_count cs ss ws stat"

definition rebuild_ledger :: "coverage_report \<Rightarrow> coverage_report" where
  "rebuild_ledger c =
     c\<lparr>consumed_by_kind := consumed_by_kind_of (consumed c),
       known_skipped := known_skipped_of (skipped c)\<rparr>"

definition consumed_of_kind :: "coverage_report \<Rightarrow> string \<Rightarrow> u64" where
  "consumed_of_kind c kind = (case bt_get (consumed_by_kind c) kind of None \<Rightarrow> 0 | Some n \<Rightarrow> n)"

definition skipped_for :: "coverage_report \<Rightarrow> skipped_reason \<Rightarrow> u64" where
  "skipped_for c reason = (case bt_get (known_skipped c) reason of None \<Rightarrow> 0 | Some n \<Rightarrow> n)"

definition replayed_total :: "coverage_report \<Rightarrow> u64" where
  "replayed_total c =
     u64_wrapping_add (skipped_for c CompactionReplay) (skipped_for c DuplicateBody)"

definition check_totality :: "coverage_report \<Rightarrow> totality_error + unit" where
  "check_totality c =
     (let consumed_ledger = u64_sum (bt_values (consumed_by_kind c));
          skipped_ledger = u64_sum (bt_values (known_skipped c)) in
      if consumed_ledger \<noteq> consumed_count c
      then Inl (ConsumedByKind consumed_ledger (consumed_count c))
      else if skipped_ledger \<noteq> skipped_count c
      then Inl (KnownSkipped skipped_ledger (skipped_count c))
      else if u64_checked_add (consumed_count c) (skipped_count c) \<noteq> Some (raw_unit_count c)
      then Inl (Partition (consumed_count c) (skipped_count c) (raw_unit_count c))
      else if consumed_by_kind c \<noteq> consumed_by_kind_of (consumed c)
      then Inl (LedgerDrift ''consumed_by_kind'')
      else if known_skipped c \<noteq> known_skipped_of (skipped c)
      then Inl (LedgerDrift ''known_skipped'')
      else Inr ())"

fun duplicate_loop :: "string set \<Rightarrow> u64 \<Rightarrow> raw_unit_ref list \<Rightarrow> u64" where
  "duplicate_loop seen duplicates [] = duplicates"
| "duplicate_loop seen duplicates (u # us) =
     (if ru_content_hash u \<in> seen then duplicate_loop seen (duplicates + 1) us
      else duplicate_loop (insert (ru_content_hash u) seen) duplicates us)"

definition duplicate_bodies :: "raw_unit_ref list \<Rightarrow> u64" where
  "duplicate_bodies evidence = duplicate_loop {} 0 evidence"

lemmas [rust_eval] = consumed_by_kind_of_def known_skipped_of_def coverage_new_def
  coverage_with_raw_line_count_def consumed_of_kind_def skipped_for_def check_totality_def
  ranges_for_def u64_sum_def u64_wrapping_add_def u64_checked_add_def u64_saturating_add_def
  u64_max_def less_skipped_reason_def less_eq_skipped_reason_def duplicate_bodies_def

section \<open>The ledgers\<close>

definition ledger_of_records :: "coverage_report \<Rightarrow> bool" where
  "ledger_of_records c \<longleftrightarrow>
     consumed_by_kind c = consumed_by_kind_of (consumed c)
     \<and> known_skipped c = known_skipped_of (skipped c)"

text \<open>Every unit counted once: the partition the totality contract states.\<close>

definition total_partition :: "coverage_report \<Rightarrow> bool" where
  "total_partition c \<longleftrightarrow>
     consumed_count c = length (consumed c) \<and> skipped_count c = length (skipped c)
     \<and> raw_unit_count c = length (consumed c) + length (skipped c)
     \<and> raw_unit_count c \<le> u64_max"

lemma ledger_sums:
  "length (consumed c) \<le> u64_max \<Longrightarrow>
     u64_sum (bt_values (consumed_by_kind_of (consumed c))) = length (consumed c)"
  "length (skipped c) \<le> u64_max \<Longrightarrow>
     u64_sum (bt_values (known_skipped_of (skipped c))) = length (skipped c)"
  by (simp_all add: consumed_by_kind_of_def known_skipped_of_def tally_facts rust_arith)

lemma ledger_counts:
  assumes "ledger_of_records c"
  shows "consumed_of_kind c k = count_list (map cu_kind (consumed c)) k"
    and "skipped_for c r = count_list (map su_reason (skipped c)) r"
  using assms
  by (auto simp: ledger_of_records_def consumed_of_kind_def skipped_for_def consumed_by_kind_of_def
      known_skipped_of_def tally_facts count_list_0_iff)

lemma check_totality_Inr:
  assumes "length (consumed c) \<le> u64_max" and "length (skipped c) \<le> u64_max"
  shows "check_totality c = Inr u \<longleftrightarrow> ledger_of_records c \<and> total_partition c"
  using ledger_sums(1) [OF assms(1)] ledger_sums(2) [OF assms(2)]
  by (auto simp: check_totality_def ledger_of_records_def total_partition_def Let_def rust_arith)

lemma built_ledger_of_records [simp]:
  "ledger_of_records (coverage_with_raw_line_count l n cs ss ws st)"
  "ledger_of_records (rebuild_ledger c)"
  by (simp_all add: ledger_of_records_def coverage_with_raw_line_count_def rebuild_ledger_def)

section \<open>Ranges\<close>

definition range_ordinals :: "ordinal_range list \<Rightarrow> u64 list" where
  "range_ordinals rs = concat (map (\<lambda>r. [rg_start r..<Suc (rg_end r)]) rs)"

text \<open>In order, non-empty, and with a gap after each: as few ranges as the ordinals allow.\<close>

definition ranges_canonical :: "ordinal_range list \<Rightarrow> bool" where
  "ranges_canonical rs \<longleftrightarrow>
     list_all (\<lambda>r. rg_start r \<le> rg_end r) rs
     \<and> sorted_wrt (\<lambda>r r'. rg_end r + 1 < rg_start r') rs"

lemma ranges_loop_correct:
  assumes "sorted_wrt (<) xs" and "\<forall>x \<in> set xs. x \<le> u64_max"
    and "ranges_canonical rs" and "rs \<noteq> [] \<Longrightarrow> \<forall>x \<in> set xs. rg_end (last rs) < x"
  shows "range_ordinals (ranges_loop rs xs) = range_ordinals rs @ xs
    \<and> ranges_canonical (ranges_loop rs xs)"
  using assms
proof (induction xs arbitrary: rs)
  case Nil
  then show ?case by simp
next
  case (Cons x xs)
  show ?case
  proof (cases "rs \<noteq> [] \<and> u64_saturating_add (rg_end (last rs)) 1 = x")
    case True
    then obtain rs' r where rs: "rs = rs' @ [r]" by (metis append_butlast_last_id)
    have end_lt: "rg_end r < x" using Cons.prems(4) rs by simp
    then have x: "x = Suc (rg_end r)"
      using True rs Cons.prems(2) by (auto simp: u64_saturating_add_def)
    let ?rs = "rs' @ [r\<lparr>rg_end := x\<rparr>]"
    have start: "rg_start r \<le> rg_end r"
      using Cons.prems(3) rs by (simp add: ranges_canonical_def)
    have "range_ordinals ?rs = range_ordinals rs @ [x]"
      using start rs x by (simp add: range_ordinals_def)
    moreover have "ranges_canonical ?rs"
      using Cons.prems(3) rs x by (simp add: ranges_canonical_def sorted_wrt_append)
    moreover have "ranges_loop rs (x # xs) = ranges_loop ?rs xs"
      using True rs by simp
    moreover have "\<forall>y \<in> set xs. rg_end (last ?rs) < y"
      using Cons.prems(1) by simp
    ultimately show ?thesis
      using Cons.IH [of ?rs] Cons.prems(1,2) by simp
  next
    case False
    let ?rs = "rs @ [\<lparr>rg_start = x, rg_end = x\<rparr>]"
    have gap: "rg_end r + 1 < x" if "r \<in> set rs" for r
    proof -
      from that obtain rs' l where rs: "rs = rs' @ [l]" by (metis append_butlast_last_id empty_iff list.set(1))
      have l: "rg_end l < x" using Cons.prems(4) rs by simp
      then have "rg_end l + 1 < x"
        using False rs Cons.prems(2) by (auto simp: u64_saturating_add_def min_def split: if_splits)
      moreover have "rg_end r \<le> rg_end l"
        using that rs Cons.prems(3)
        by (auto simp: ranges_canonical_def sorted_wrt_append list_all_iff)
      ultimately show ?thesis by simp
    qed
    have "range_ordinals ?rs = range_ordinals rs @ [x]" by (simp add: range_ordinals_def)
    moreover have "ranges_canonical ?rs"
      using Cons.prems(3) gap by (simp add: ranges_canonical_def sorted_wrt_append)
    moreover have "ranges_loop rs (x # xs) = ranges_loop ?rs xs"
      using False by (simp only: ranges_loop.simps if_False)
    moreover have "\<forall>y \<in> set xs. rg_end (last ?rs) < y"
      using Cons.prems(1) by simp
    ultimately show ?thesis
      using Cons.IH [of ?rs] Cons.prems(1,2) by simp
  qed
qed

section \<open>Duplicate bodies\<close>

lemma duplicate_loop_count:
  "finite seen \<Longrightarrow>
     duplicate_loop seen d us + card (ru_content_hash ` set us \<union> seen) = d + length us + card seen"
proof (induction us arbitrary: seen d)
  case Nil
  then show ?case by simp
next
  case (Cons u us)
  show ?case
  proof (cases "ru_content_hash u \<in> seen")
    case True
    then have "ru_content_hash ` set (u # us) \<union> seen = ru_content_hash ` set us \<union> seen" by auto
    with True Cons show ?thesis by simp
  next
    case False
    have "ru_content_hash ` set (u # us) \<union> seen
        = ru_content_hash ` set us \<union> insert (ru_content_hash u) seen" by auto
    with False Cons.IH [of "insert (ru_content_hash u) seen" d] Cons.prems show ?thesis by simp
  qed
qed

section \<open>Properties\<close>

text \<open>The totality check of a coverage report succeeds exactly when the two ledgers are a
  recount of the records and the counts partition the raw units: consumed plus skipped is the raw
  unit count, with no overflow. The lengths are those of lists that fit in memory.\<close>

theorem check_totality_iff:
  assumes "length (consumed c) \<le> u64_max" and "length (skipped c) \<le> u64_max"
  shows "check_totality c = Inr () \<longleftrightarrow>
    consumed_by_kind c = consumed_by_kind_of (consumed c)
    \<and> known_skipped c = known_skipped_of (skipped c)
    \<and> consumed_count c = length (consumed c) \<and> skipped_count c = length (skipped c)
    \<and> raw_unit_count c = length (consumed c) + length (skipped c)
    \<and> raw_unit_count c \<le> u64_max"
  using check_totality_Inr [OF assms] by (simp add: ledger_of_records_def total_partition_def)

definition sample_ref :: "nat \<Rightarrow> raw_unit_ref" where
  "sample_ref n =
     \<lparr>ru_evidence_event_id = ''ev1:'' @ show_nat n, ru_coverage_ordinal = n, ru_physical_ordinal = n,
      ru_locator = show_nat_pad6 n, ru_unit_kind = ''user'', ru_artifact = ''a.jsonl'',
      ru_content_hash = replicate 64 (hex_digit (n mod 16)), ru_original_bytes = 10\<rparr>"

definition sample_status :: parse_status where
  "sample_status =
     \<lparr>st_completeness = CompleteVisible,
      st_flags = \<lparr>opaque_reasoning_present = False, unsupported_visible_event = False,
                  compaction_boundary_present = True\<rparr>,
      st_malformed_tail = False, st_event_lost = False\<rparr>"

definition sample_consumed :: "nat \<Rightarrow> consumed_unit" where
  "sample_consumed n = \<lparr>cu_ordinal = n, cu_kind = ''user'', cu_evidence = sample_ref n\<rparr>"

definition sample_skipped :: "nat \<Rightarrow> skipped_unit" where
  "sample_skipped n =
     \<lparr>su_ordinal = n, su_reason = CompactionReplay, su_bytes = 10, su_visible = False,
      su_evidence = sample_ref n\<rparr>"

definition sample_coverage :: coverage_report where
  "sample_coverage =
     coverage_new 3 [sample_consumed 1, sample_consumed 2] [sample_skipped 3] [] sample_status"

lemmas sample_defs = sample_ref_def sample_status_def sample_consumed_def sample_skipped_def
  sample_coverage_def

lemma sample_coverage_total: "check_totality sample_coverage = Inr ()"
proof -
  have "ledger_of_records sample_coverage"
    by (simp add: sample_coverage_def coverage_new_def)
  moreover have "total_partition sample_coverage"
    by (simp add: total_partition_def sample_coverage_def coverage_new_def
        coverage_with_raw_line_count_def u64_max_def)
  moreover have "length (consumed sample_coverage) \<le> u64_max" "length (skipped sample_coverage) \<le> u64_max"
    by (simp_all add: sample_coverage_def coverage_new_def coverage_with_raw_line_count_def u64_max_def)
  ultimately show ?thesis by (simp add: check_totality_Inr)
qed

theorem check_totality_iff_witness:
  "check_totality sample_coverage = Inr () \<and> raw_unit_count sample_coverage = 3
    \<and> check_totality (sample_coverage\<lparr>raw_unit_count := 4\<rparr>) \<noteq> Inr ()"
  using check_totality_iff [of sample_coverage]
    check_totality_iff [of "sample_coverage\<lparr>raw_unit_count := 4\<rparr>"]
  by (simp add: sample_coverage_def coverage_new_def coverage_with_raw_line_count_def u64_max_def)

text \<open>The ranges of distinct ordinals encode exactly those ordinals, in ascending order, with
  the fewest ranges: each is non-empty and separated from the next by a gap.\<close>

theorem ranges_for_roundtrip:
  assumes "distinct ordinals" and "\<forall>x \<in> set ordinals. x \<le> u64_max"
  shows "range_ordinals (ranges_for ordinals) = sort ordinals
    \<and> ranges_canonical (ranges_for ordinals)"
proof -
  have "sorted_wrt (<) (sort ordinals)" using assms(1) by (simp add: strict_sorted_iff)
  moreover have "ranges_canonical []" by (simp add: ranges_canonical_def)
  ultimately show ?thesis
    using ranges_loop_correct [of "sort ordinals" "[]"] assms(2)
    by (simp add: ranges_for_def range_ordinals_def)
qed

theorem ranges_for_roundtrip_witness:
  "range_ordinals (ranges_for [4, 1, 2, 9]) = [1, 2, 4, 9]
    \<and> ranges_for [4, 1, 2, 9] =
      [\<lparr>rg_start = 1, rg_end = 2\<rparr>, \<lparr>rg_start = 4, rg_end = 4\<rparr>, \<lparr>rg_start = 9, rg_end = 9\<rparr>]"
  using ranges_for_roundtrip [of "[4, 1, 2, 9]"]
  by (simp add: ranges_for_def u64_saturating_add_def u64_max_def)

text \<open>The number of duplicate bodies is the number of evidence records less the number of
  distinct content hashes, so it does not depend on transport ids or on the order of the records.\<close>

theorem duplicate_bodies_by_hash:
  "duplicate_bodies evidence = length evidence - card (ru_content_hash ` set evidence)"
  using duplicate_loop_count [of "{}" 0 evidence] by (simp add: duplicate_bodies_def)

end
