(* ===== verification/Frames.thy ===== *)
theory Frames
  imports Evidence
begin

text \<open>
  \<^verbatim>\<open>engine/frames_rules.rs\<close> and \<^verbatim>\<open>engine/frames.rs\<close>: the transport idioms of each
  agent as a table, and the one classifier that decides what a transport frame means (human
  speech, shell action, injected context, lineage, inter-agent message). \<^verbatim>\<open>rules_for\<close>
  panics on an agent without a row, so the model's lookup is optional and \<open>classify\<close> with it;
  the properties show that it never is \<open>None\<close>. Beside it stand the two ways on which the
  Codex adapter comes to a shell action.
\<close>

section \<open>Rules as data\<close>

datatype inject_rule_kind =
  RuleCodexInternalContext | RuleAgentInstructions | RuleCompactionReplay | RuleTransportControl

record inject_tag_rule =
  itr_tag :: string
  itr_kind :: inject_rule_kind

record agent_frame_rules =
  fr_agent :: agent_kind
  fr_echo_promotion :: bool
  fr_klops_guard :: "string list"
  fr_queue_seal :: bool
  fr_inject_tags :: "inject_tag_rule list"

definition tag_rule :: "string \<Rightarrow> inject_rule_kind \<Rightarrow> inject_tag_rule" where
  "tag_rule t k = \<lparr>itr_tag = t, itr_kind = k\<rparr>"

definition codex_inject_tags :: "inject_tag_rule list" where
  "codex_inject_tags =
     [tag_rule ''codex_internal_context'' RuleCodexInternalContext,
      tag_rule ''AGENTS.md'' RuleAgentInstructions,
      tag_rule ''INSTRUCTIONS'' RuleAgentInstructions,
      tag_rule ''instructions'' RuleAgentInstructions,
      tag_rule ''user_instructions'' RuleAgentInstructions,
      tag_rule ''compacted.replacement_history'' RuleCompactionReplay,
      tag_rule ''environment_context'' RuleTransportControl,
      tag_rule ''permissions instructions'' RuleTransportControl]"

definition claude_inject_tags :: "inject_tag_rule list" where
  "claude_inject_tags =
     [tag_rule ''system'' RuleTransportControl,
      tag_rule ''compact_boundary'' RuleCompactionReplay,
      tag_rule ''compact_summary'' RuleCompactionReplay,
      tag_rule ''task-notification'' RuleTransportControl,
      tag_rule ''system-reminder'' RuleTransportControl]"

definition gemini_inject_tags :: "inject_tag_rule list" where
  "gemini_inject_tags =
     [tag_rule ''system'' RuleTransportControl,
      tag_rule ''system_instruction'' RuleAgentInstructions,
      tag_rule ''environment_context'' RuleTransportControl,
      tag_rule ''context'' RuleTransportControl]"

definition generic_inject_tags :: "inject_tag_rule list" where
  "generic_inject_tags = [tag_rule ''system'' RuleTransportControl]"

definition copilot_inject_tags :: "inject_tag_rule list" where
  "copilot_inject_tags =
     [tag_rule ''system'' RuleTransportControl,
      tag_rule ''developer'' RuleAgentInstructions,
      tag_rule ''skill.invoked'' RuleAgentInstructions,
      tag_rule ''session.compaction_complete'' RuleCompactionReplay]"

definition cursor_inject_tags :: "inject_tag_rule list" where
  "cursor_inject_tags =
     [tag_rule ''system'' RuleTransportControl,
      tag_rule ''system_notification'' RuleTransportControl,
      tag_rule ''manually_attached_skills'' RuleAgentInstructions]"

definition agy_inject_tags :: "inject_tag_rule list" where
  "agy_inject_tags =
     [tag_rule ''system'' RuleTransportControl,
      tag_rule ''dispatch_brief'' RuleTransportControl,
      tag_rule ''synthetic_user'' RuleTransportControl,
      tag_rule ''agent_authored'' RuleTransportControl,
      tag_rule ''steering'' RuleTransportControl,
      tag_rule ''user_unattributed'' RuleTransportControl]"

definition omp_inject_tags :: "inject_tag_rule list" where
  "omp_inject_tags =
     [tag_rule ''system'' RuleTransportControl,
      tag_rule ''dispatch_brief'' RuleTransportControl,
      tag_rule ''synthetic_user'' RuleTransportControl,
      tag_rule ''agent_authored'' RuleTransportControl,
      tag_rule ''steering'' RuleTransportControl,
      tag_rule ''user_unattributed'' RuleTransportControl,
      tag_rule ''ttsr_injection'' RuleTransportControl,
      tag_rule ''developer'' RuleAgentInstructions,
      tag_rule ''session_init'' RuleAgentInstructions,
      tag_rule ''skill-prompt'' RuleAgentInstructions,
      tag_rule ''compaction'' RuleCompactionReplay,
      tag_rule ''branch_summary'' RuleCompactionReplay]"

definition kimi_inject_tags :: "inject_tag_rule list" where
  "kimi_inject_tags =
     [tag_rule ''system'' RuleTransportControl,
      tag_rule ''context.apply_compaction.summary'' RuleCompactionReplay]"

definition grok_inject_tags :: "inject_tag_rule list" where
  "grok_inject_tags =
     [tag_rule ''system'' RuleTransportControl,
      tag_rule ''system_reminder'' RuleTransportControl,
      tag_rule ''project_instructions'' RuleAgentInstructions]"

definition plain_rules :: "agent_kind \<Rightarrow> inject_tag_rule list \<Rightarrow> agent_frame_rules" where
  "plain_rules a tags =
     \<lparr>fr_agent = a, fr_echo_promotion = False, fr_klops_guard = [], fr_queue_seal = False,
      fr_inject_tags = tags\<rparr>"

definition all_frame_rules :: "agent_frame_rules list" where
  "all_frame_rules =
     [plain_rules Copilot copilot_inject_tags,
      \<lparr>fr_agent = Codex, fr_echo_promotion = True, fr_klops_guard = [''| tee'', ''>>''],
       fr_queue_seal = False, fr_inject_tags = codex_inject_tags\<rparr>,
      \<lparr>fr_agent = Claude, fr_echo_promotion = False, fr_klops_guard = [],
       fr_queue_seal = True, fr_inject_tags = claude_inject_tags\<rparr>,
      plain_rules Gemini gemini_inject_tags,
      plain_rules Grok grok_inject_tags,
      plain_rules Junie generic_inject_tags,
      plain_rules Kimi kimi_inject_tags,
      plain_rules Cursor cursor_inject_tags,
      plain_rules Omp omp_inject_tags,
      plain_rules Agy agy_inject_tags]"

definition rules_for :: "agent_kind \<Rightarrow> agent_frame_rules option" where
  "rules_for agent = List.find (\<lambda>rules. fr_agent rules = agent) all_frame_rules"

section \<open>Transport frames\<close>

datatype transport_kind =
    DirectMessage | UserShellCommand | AgentToolCall | QueueOperation | InjectedContext
  | AssistantMessage | LineageRecord | AgentMessage

datatype transport_role = TrUser | TrAssistant | TrSystem | TrTool

datatype transport_payload =
    TextPayload transport_role string
  | ShellPayload string string
  | InjectPayload string string
  | LineagePayload string "string option"
  | InterAgentPayload string string string string

record transport_frame =
  tf_agent :: agent_kind
  tf_kind :: transport_kind
  tf_timestamp :: "string known"
  tf_payload :: transport_payload
  tf_evidence :: raw_unit_ref

section \<open>Classes\<close>

datatype human_channel = ChDirect | ChEchoBus | ChQueue

datatype shell_executor = ExHuman | ExAgent

fun executor_as_str :: "shell_executor \<Rightarrow> string" where
  "executor_as_str ExHuman = ''human''"
| "executor_as_str ExAgent = ''agent''"

fun executor_from_transport :: "transport_kind \<Rightarrow> shell_executor" where
  "executor_from_transport UserShellCommand = ExHuman"
| "executor_from_transport AgentToolCall = ExAgent"
| "executor_from_transport DirectMessage = ExAgent"
| "executor_from_transport QueueOperation = ExAgent"
| "executor_from_transport InjectedContext = ExAgent"
| "executor_from_transport AssistantMessage = ExAgent"
| "executor_from_transport LineageRecord = ExAgent"
| "executor_from_transport AgentMessage = ExAgent"

record retained =
  rt_text :: string
  rt_chars :: u64
  rt_hash :: string

definition retained_new :: "string \<Rightarrow> retained" where
  "retained_new t = \<lparr>rt_text = t, rt_chars = chars_count t, rt_hash = sha256_hex t\<rparr>"

datatype inject_kind =
    InjCodexInternalContext | InjAgentInstructions | InjCompactionReplay | InjTransportControl
  | InjOther string

datatype frame_class =
    Human human_channel
  | EchoSeal "string known" human_channel
  | ShellAction string retained shell_executor
  | Inject inject_kind
  | AssistantFinal
  | LineageMeta string "string option"
  | InterAgent string string string

fun class_turn_kind :: "frame_class \<Rightarrow> turn_kind option" where
  "class_turn_kind (Human _) = Some UserMsg"
| "class_turn_kind (EchoSeal _ _) = Some UserMsg"
| "class_turn_kind (ShellAction _ _ _) = Some ToolCall"
| "class_turn_kind (Inject _) = Some SystemNote"
| "class_turn_kind (LineageMeta _ _) = Some SystemNote"
| "class_turn_kind (InterAgent _ _ _) = Some SystemNote"
| "class_turn_kind AssistantFinal = Some AgentReply"

fun class_turn_role :: "frame_class \<Rightarrow> turn_role" where
  "class_turn_role (Human _) = RoleUser"
| "class_turn_role (EchoSeal _ _) = RoleUser"
| "class_turn_role AssistantFinal = RoleAssistant"
| "class_turn_role (ShellAction _ _ _) = RoleTool"
| "class_turn_role (Inject _) = RoleSystem"
| "class_turn_role (LineageMeta _ _) = RoleSystem"
| "class_turn_role (InterAgent _ _ _) = RoleSystem"

fun class_tag :: "frame_class \<Rightarrow> string" where
  "class_tag (Human _) = ''human''"
| "class_tag (EchoSeal _ _) = ''echo_seal''"
| "class_tag (ShellAction _ _ _) = ''shell_action''"
| "class_tag (Inject _) = ''inject''"
| "class_tag AssistantFinal = ''assistant_final''"
| "class_tag (LineageMeta _ _) = ''lineage_meta''"
| "class_tag (InterAgent _ _ _) = ''inter_agent''"

fun class_shell_executor :: "frame_class \<Rightarrow> shell_executor option" where
  "class_shell_executor (ShellAction _ _ executor) = Some executor"
| "class_shell_executor _ = None"

fun class_human_channel :: "frame_class \<Rightarrow> human_channel option" where
  "class_human_channel (Human channel) = Some channel"
| "class_human_channel (EchoSeal _ channel) = Some channel"
| "class_human_channel _ = None"

section \<open>The classifier\<close>

record classified_frame =
  cf_schema :: string
  cf_class :: frame_class
  cf_content :: string
  cf_content_hash :: string
  cf_seal_ts :: "string known"
  cf_seal_hash :: string
  cf_origin_agent :: agent_kind
  cf_origin_kind :: transport_kind
  cf_origin_evidence :: raw_unit_ref
  cf_turn_kind :: "turn_kind option"

definition quoted_by :: "char \<Rightarrow> string \<Rightarrow> bool" where
  "quoted_by q s \<longleftrightarrow> starts_with s [q] \<and> ends_with s [q]"

definition echo_payload :: "string \<Rightarrow> bool \<Rightarrow> string list \<Rightarrow> string option" where
  "echo_payload command enabled guards =
     (if \<not> enabled \<or> list_ex (str_contains command) guards then None
      else case strip_prefix (str_trim command) ''echo'' of
        None \<Rightarrow> None
      | Some payload \<Rightarrow>
          (case utf8_chars payload of
             [] \<Rightarrow> None
           | ch # _ \<Rightarrow>
               if \<not> char_is_whitespace ch then None
               else let payload = str_trim payload in
                 if payload = [] then None
                 else Some (if 2 \<le> length payload
                              \<and> (quoted_by (CHR 0x27) payload \<or> quoted_by (CHR 0x22) payload)
                            then take (length payload - 2) (drop 1 payload)
                            else payload)))"

fun rule_inject_kind :: "inject_rule_kind \<Rightarrow> inject_kind" where
  "rule_inject_kind RuleCodexInternalContext = InjCodexInternalContext"
| "rule_inject_kind RuleAgentInstructions = InjAgentInstructions"
| "rule_inject_kind RuleCompactionReplay = InjCompactionReplay"
| "rule_inject_kind RuleTransportControl = InjTransportControl"

definition inject_kind_of :: "string \<Rightarrow> inject_tag_rule list \<Rightarrow> inject_kind" where
  "inject_kind_of tag rules =
     (case List.find (\<lambda>rule. itr_tag rule = tag) rules of
        None \<Rightarrow> InjOther tag
      | Some rule \<Rightarrow> rule_inject_kind (itr_kind rule))"

definition classify_payload ::
  "agent_frame_rules \<Rightarrow> transport_frame \<Rightarrow> frame_class \<times> string" where
  "classify_payload rules frame =
     (case tf_payload frame of
        ShellPayload command result \<Rightarrow>
          (case echo_payload command (fr_echo_promotion rules) (fr_klops_guard rules) of
             Some content \<Rightarrow> (EchoSeal (tf_timestamp frame) ChEchoBus, content)
           | None \<Rightarrow>
               (ShellAction command (retained_new result) (executor_from_transport (tf_kind frame)),
                command))
      | InjectPayload tag content \<Rightarrow> (Inject (inject_kind_of tag (fr_inject_tags rules)), content)
      | LineagePayload session_id forked_from_id \<Rightarrow>
          (LineageMeta session_id forked_from_id, session_id)
      | InterAgentPayload sender task message_type content \<Rightarrow>
          (InterAgent sender task message_type, content)
      | TextPayload role content \<Rightarrow>
          (case role of
             TrUser \<Rightarrow>
               if tf_kind frame = QueueOperation
               then (if fr_queue_seal rules then EchoSeal (tf_timestamp frame) ChQueue
                     else Human ChQueue, content)
               else (Human ChDirect, content)
           | TrAssistant \<Rightarrow> (AssistantFinal, content)
           | TrSystem \<Rightarrow> (Inject InjTransportControl, content)
           | TrTool \<Rightarrow> (ShellAction content (retained_new []) ExAgent, content)))"

definition frame_taxonomy_schema :: string where
  "frame_taxonomy_schema = ''aicx.parser.frame_taxonomy.v1''"

definition classify :: "transport_frame \<Rightarrow> classified_frame option" where
  "classify frame =
     (case rules_for (tf_agent frame) of
        None \<Rightarrow> None
      | Some rules \<Rightarrow>
          let (cls, content) = classify_payload rules frame; content_hash = sha256_hex content in
          Some \<lparr>cf_schema = frame_taxonomy_schema, cf_class = cls, cf_content = content,
                cf_content_hash = content_hash, cf_seal_ts = tf_timestamp frame,
                cf_seal_hash = content_hash, cf_origin_agent = tf_agent frame,
                cf_origin_kind = tf_kind frame, cf_origin_evidence = tf_evidence frame,
                cf_turn_kind = class_turn_kind cls\<rparr>)"

lemmas [rust_eval] = echo_payload_def quoted_by_def

section \<open>The shell records of Codex\<close>

text \<open>
  \<^verbatim>\<open>adapters/codex.rs\<close> has two ways to a shell action. What stands in a
  \<^verbatim>\<open><user_shell_command>\<close> envelope of a user message becomes a frame for the classifier; a
  function or custom tool call gets its class directly, because the classifier promotes echoes per
  agent, not per transport.
\<close>

fun str_split_once :: "string \<Rightarrow> string \<Rightarrow> (string \<times> string) option" where
  "str_split_once pat [] = (if pat = [] then Some ([], []) else None)"
| "str_split_once pat (c # s) =
     (if starts_with (c # s) pat then Some ([], drop (length pat) (c # s))
      else map_option (\<lambda>(before, after). (c # before, after)) (str_split_once pat s))"

definition user_shell_command :: "string \<Rightarrow> string option" where
  "user_shell_command body =
     (case str_split_once ''<command>'' body of
        None \<Rightarrow> None
      | Some (_, command) \<Rightarrow>
          (case str_split_once ''</command>'' command of
             None \<Rightarrow> None
           | Some (command, _) \<Rightarrow>
               let command = str_trim command in if command = [] then None else Some command))"

definition envelope_frame ::
  "string \<Rightarrow> bool \<Rightarrow> string \<Rightarrow> string known \<Rightarrow> raw_unit_ref \<Rightarrow> transport_frame" where
  "envelope_frame tag is_shell body timestamp evidence =
     \<lparr>tf_agent = Codex, tf_kind = (if is_shell then UserShellCommand else InjectedContext),
      tf_timestamp = timestamp,
      tf_payload =
        (if is_shell
         then ShellPayload (case user_shell_command body of None \<Rightarrow> ''user_shell_command (malformed)''
                            | Some command \<Rightarrow> command) body
         else InjectPayload tag body),
      tf_evidence = evidence\<rparr>"

definition agent_shell_action :: "string \<Rightarrow> string \<Rightarrow> frame_class" where
  "agent_shell_action cmd result = ShellAction cmd (retained_new result) ExAgent"

section \<open>The rules are total\<close>

lemma rules_for_total: "\<exists>rules. rules_for a = Some rules \<and> fr_agent rules = a"
  by (cases a) (simp_all add: rules_for_def all_frame_rules_def plain_rules_def)

lemma rules_for_echo:
  "rules_for a = Some rules \<Longrightarrow> fr_echo_promotion rules \<longleftrightarrow> a = Codex"
  "rules_for a = Some rules \<Longrightarrow> a = Codex \<Longrightarrow> fr_klops_guard rules = [''| tee'', ''>>'']"
  "rules_for a = Some rules \<Longrightarrow> fr_queue_seal rules \<longleftrightarrow> a = Claude"
  by (cases a; auto simp: rules_for_def all_frame_rules_def plain_rules_def)+

lemma echo_disabled [simp]: "echo_payload command False guards = None"
  by (simp add: echo_payload_def)

lemma classify_Some:
  obtains rules f where "rules_for (tf_agent frame) = Some rules" "classify frame = Some f"
    "(cf_class f, cf_content f) = classify_payload rules frame"
    "cf_content_hash f = sha256_hex (cf_content f)"
    "cf_turn_kind f = class_turn_kind (cf_class f)"
    "cf_seal_hash f = cf_content_hash f" "cf_seal_ts f = tf_timestamp frame"
proof -
  obtain rules where r: "rules_for (tf_agent frame) = Some rules" using rules_for_total by blast
  obtain c t where ct: "classify_payload rules frame = (c, t)" by (cases "classify_payload rules frame")
  show ?thesis by (rule that [OF r, of "the (classify frame)"]) (simp_all add: classify_def r ct Let_def)
qed

section \<open>What counts as human speech\<close>

text \<open>
  The intended reading of a frame: the operator speaks in a user text frame, or, for Codex only, in
  an echo, not a write to a file, among the shell commands the operator submitted. A command the
  agent ran is never speech.
\<close>

definition echo_promoted :: "string \<Rightarrow> bool" where
  "echo_promoted command \<longleftrightarrow> echo_payload command True [''| tee'', ''>>''] \<noteq> None"

definition spoken_by_human :: "transport_frame \<Rightarrow> human_channel option" where
  "spoken_by_human frame =
     (case tf_payload frame of
        TextPayload TrUser _ \<Rightarrow>
          Some (if tf_kind frame = QueueOperation then ChQueue else ChDirect)
      | ShellPayload command _ \<Rightarrow>
          if tf_agent frame = Codex \<and> tf_kind frame = UserShellCommand \<and> echo_promoted command
          then Some ChEchoBus else None
      | _ \<Rightarrow> None)"

text \<open>An echo of Codex that did not come from the operator's shell command.\<close>

definition agent_echo :: "transport_frame \<Rightarrow> bool" where
  "agent_echo frame \<longleftrightarrow> tf_agent frame = Codex \<and> tf_kind frame \<noteq> UserShellCommand
     \<and> (case tf_payload frame of ShellPayload command _ \<Rightarrow> echo_promoted command | _ \<Rightarrow> False)"

lemma classify_payload_human:
  "rules_for (tf_agent frame) = Some rules \<Longrightarrow>
     class_human_channel (fst (classify_payload rules frame))
       = (if agent_echo frame then Some ChEchoBus else spoken_by_human frame)"
  using rules_for_echo [of "tf_agent frame" rules]
  by (cases "tf_agent frame = Codex")
     (auto simp: classify_payload_def spoken_by_human_def agent_echo_def echo_promoted_def split: transport_payload.splits
       transport_role.splits option.splits)

lemma class_lanes:
  "class_turn_role c = RoleUser \<longleftrightarrow> class_human_channel c \<noteq> None"
  "class_turn_kind c = Some UserMsg \<longleftrightarrow> class_human_channel c \<noteq> None"
  "class_turn_kind c = Some ToolCall \<longleftrightarrow> class_shell_executor c \<noteq> None"
  "class_turn_kind c \<noteq> None"
  by (cases c; simp)+

section \<open>Properties\<close>

text \<open>
  C40: classification never panics, and a frame reaches the human lane (its channel, the user
  role, the user-message kind) exactly when it is operator speech, with one exception: a Codex echo
  of another transport than the operator's shell command is promoted as well. The Codex adapter
  never classifies such a frame: its shell frames have the operator's transport, and the class it
  gives an agent's shell call itself is the agent's, outside the human lane.
\<close>

theorem classify_human_lane:
  "\<exists>f. classify frame = Some f
     \<and> class_human_channel (cf_class f) = (if agent_echo frame then Some ChEchoBus else spoken_by_human frame)
     \<and> (class_turn_role (cf_class f) = RoleUser \<longleftrightarrow> class_human_channel (cf_class f) \<noteq> None)
     \<and> (cf_turn_kind f = Some UserMsg \<longleftrightarrow> class_human_channel (cf_class f) \<noteq> None)
     \<and> \<not> agent_echo (envelope_frame tag is_shell body timestamp evidence)
     \<and> class_human_channel (agent_shell_action cmd result) = None
     \<and> class_shell_executor (agent_shell_action cmd result) = Some ExAgent"
proof -
  obtain rules f where f: "rules_for (tf_agent frame) = Some rules" "classify frame = Some f"
    "(cf_class f, cf_content f) = classify_payload rules frame"
    "cf_turn_kind f = class_turn_kind (cf_class f)"
    by (rule classify_Some [of frame])
  then have "class_human_channel (cf_class f) = (if agent_echo frame then Some ChEchoBus else spoken_by_human frame)"
    by (metis classify_payload_human fst_conv)
  with f show ?thesis
    by (simp add: class_lanes) (simp add: agent_echo_def envelope_frame_def agent_shell_action_def)
qed

text \<open>
  The classifier alone makes operator speech of an agent's run: an \<^verbatim>\<open>echo\<close> that Codex ran as
  a tool call comes back as an echo seal of the user role.
\<close>

lemma agent_echo_promoted:
  assumes "tf_agent frame = Codex" and "tf_kind frame = AgentToolCall"
    and "tf_payload frame = ShellPayload ''echo done'' result"
  shows "spoken_by_human frame = None
    \<and> map_option (\<lambda>f. (cf_class f, cf_content f)) (classify frame)
        = Some (EchoSeal (tf_timestamp frame) ChEchoBus, ''done'')"
proof -
  obtain rules where r: "rules_for Codex = Some rules" "fr_echo_promotion rules"
    "fr_klops_guard rules = [''| tee'', ''>>'']"
    using rules_for_total [of Codex] rules_for_echo [of Codex] by auto
  have "echo_payload ''echo done'' True [''| tee'', ''>>''] = Some ''done''"
    by (simp add: rust_eval)
  with r assms show ?thesis
    by (simp add: classify_def classify_payload_def spoken_by_human_def Let_def)
qed

text \<open>A shell action is attributed to the human executor exactly when the transport is a
  user shell command carrying a shell payload that is not promoted to speech; every other
  execution is the agent's.\<close>

theorem classify_executor:
  "\<exists>f. classify frame = Some f
     \<and> (class_shell_executor (cf_class f) = Some ExHuman \<longleftrightarrow>
          tf_kind frame = UserShellCommand \<and> (\<exists>command result. tf_payload frame = ShellPayload command result)
          \<and> spoken_by_human frame = None)
     \<and> (class_shell_executor (cf_class f) \<noteq> None \<longleftrightarrow> cf_turn_kind f = Some ToolCall)"
proof -
  obtain rules f where f: "rules_for (tf_agent frame) = Some rules" "classify frame = Some f"
    "(cf_class f, cf_content f) = classify_payload rules frame"
    "cf_turn_kind f = class_turn_kind (cf_class f)"
    by (rule classify_Some [of frame])
  have kind: "executor_from_transport (tf_kind frame) = ExHuman \<longleftrightarrow> tf_kind frame = UserShellCommand"
    by (cases "tf_kind frame") simp_all
  have "cf_class f = fst (classify_payload rules frame)" using f(3) by (metis fst_conv)
  then have "class_shell_executor (cf_class f) = Some ExHuman \<longleftrightarrow>
      tf_kind frame = UserShellCommand \<and> (\<exists>command result. tf_payload frame = ShellPayload command result)
      \<and> spoken_by_human frame = None"
    using kind rules_for_echo [OF f(1)]
    by (cases "tf_agent frame = Codex")
      (auto simp: classify_payload_def spoken_by_human_def echo_promoted_def split: transport_payload.splits
        transport_role.splits option.splits)
  with f show ?thesis by (simp add: class_lanes)
qed

text \<open>A frame's content hash and seal are those of the retained text, and two frames that
  differ only in their transport evidence and timestamp get the same class up to the seal, the
  same text and the same content hash.\<close>

theorem classify_seal_stable:
  "\<exists>f g. classify frame = Some f
     \<and> classify (frame\<lparr>tf_timestamp := ts, tf_evidence := ev\<rparr>) = Some g
     \<and> cf_content_hash f = sha256_hex (cf_content f) \<and> cf_seal_hash f = cf_content_hash f
     \<and> cf_content g = cf_content f \<and> cf_content_hash g = cf_content_hash f
     \<and> class_tag (cf_class g) = class_tag (cf_class f) \<and> cf_turn_kind g = cf_turn_kind f
     \<and> cf_seal_ts g = ts \<and> cf_origin_evidence g = ev"
proof -
  obtain rules where r: "rules_for (tf_agent frame) = Some rules" using rules_for_total by blast
  then show ?thesis
    by (auto simp: classify_def classify_payload_def Let_def split: transport_payload.splits
        transport_role.splits option.splits)
qed

text \<open>A quoted text between spaces is trimmed to the quotes.\<close>

lemma trim_quoted:
  assumes "\<not> utf8_cont q" "\<not> char_is_whitespace [q]" "t = [] \<or> \<not> utf8_cont (hd t)"
  shows "str_trim (CHR '' '' # q # t @ [q]) = q # t @ [q]"
proof -
  have "\<exists>cs. utf8_chars (q # t @ [q]) = [q] # cs @ [[q]]"
  proof (cases t)
    case Nil
    then show ?thesis using assms(1) by (auto intro: exI [of _ "[]"])
  next
    case (Cons d t')
    then have "utf8_chars ((q # t) @ [q]) = ([q] # utf8_chars t) @ [[q]]"
      using assms(3) utf8_chars_Cons [of d q t'] utf8_chars_snoc [OF assms(1), of "q # t"] by simp
    then show ?thesis by auto
  qed
  then obtain cs where cs: "utf8_chars (q # t @ [q]) = [q] # cs @ [[q]]" by blast
  have all: "utf8_chars (CHR '' '' # q # t @ [q]) = [CHR '' ''] # [q] # cs @ [[q]]"
    using utf8_chars_Cons [OF assms(1), of "CHR '' ''" "t @ [q]"] cs by simp
  have "concat (utf8_chars (q # t @ [q])) = q # t @ [q]" by (rule concat_utf8_chars)
  then have "concat ([q] # cs @ [[q]]) = q # t @ [q]" by (simp only: cs)
  moreover have "char_is_whitespace [CHR '' '']"
    by (simp add: char_is_whitespace_def byte_of_def)
  ultimately show ?thesis
    using assms(2) by (simp add: str_trim_def all del: utf8_chars.simps)
qed

text \<open>What the operator quotes is what is retained: an echo of a quoted text, with no
  redirection in the command, is promoted to exactly the text between the quotes. (The text is
  UTF-8: it does not begin inside a character.)\<close>

theorem echo_quoted_roundtrip:
  assumes "q = CHR 0x27 \<or> q = CHR 0x22" and "t = [] \<or> \<not> utf8_cont (hd t)"
    and "\<not> list_ex (str_contains (''echo '' @ [q] @ t @ [q])) guards"
  shows "echo_payload (''echo '' @ [q] @ t @ [q]) True guards = Some t"
proof -
  have q: "\<not> utf8_cont q" "\<not> char_is_whitespace [q]"
    using assms(1) by (auto simp: rust_eval)
  have e: "\<not> utf8_cont (CHR ''c'')" "\<not> char_is_whitespace [CHR ''e'']"
    by (simp_all add: rust_eval)
  define cmd where "cmd = ''echo '' @ [q] @ t @ [q]"
  define p where "p = CHR '' '' # q # t @ [q]"
  have trim: "str_trim cmd = cmd"
    using str_trim_visible [OF q e, of "''ho '' @ [q] @ t"] by (simp add: cmd_def)
  have strip: "strip_prefix cmd ''echo'' = Some p"
    by (simp add: strip_prefix_def cmd_def p_def)
  have chars: "utf8_chars p = [CHR '' ''] # utf8_chars (q # t @ [q])"
    unfolding p_def by (rule utf8_chars_Cons [OF q(1)])
  have quoted: "quoted_by q (q # t @ [q])"
    by (simp add: quoted_by_def starts_with_def ends_with_def suffix_def)
  have space: "char_is_whitespace [CHR '' '']"
    by (simp add: char_is_whitespace_def byte_of_def)
  have inner: "str_trim p = q # t @ [q]" unfolding p_def by (rule trim_quoted [OF q assms(2)])
  have "\<not> list_ex (str_contains cmd) guards" using assms(3) by (simp only: cmd_def not_False_eq_True)
  then have "echo_payload cmd True guards = Some t"
    using assms(1) quoted
    by (auto simp: echo_payload_def trim strip chars space inner Let_def simp del: utf8_chars.simps)
  then show ?thesis by (simp only: cmd_def)
qed

theorem echo_quoted_roundtrip_witness:
  "echo_payload (''echo '' @ [CHR 0x27] @ ''ship it'' @ [CHR 0x27]) True [''| tee'', ''>>'']
      = Some ''ship it''"
  using echo_quoted_roundtrip [of "CHR 0x27" "''ship it''" "[''| tee'', ''>>'']"]
  by (simp add: rust_eval)

text \<open>An echo is speech only when it is enabled, no guard occurs in the command, the trimmed
  command is the word echo, white space and something more; what is kept is a part of the command.\<close>

theorem echo_payload_sound:
  assumes "echo_payload command enabled guards = Some content"
  shows "enabled \<and> (\<forall>g. g \<in> set guards \<longrightarrow> \<not> (\<exists>a b. command = a @ g @ b))
    \<and> prefix ''echo'' (str_trim command) \<and> (\<exists>a b. str_trim (drop 4 (str_trim command)) = a @ content @ b)
    \<and> str_trim (drop 4 (str_trim command)) \<noteq> []"
proof -
  have guards: "enabled" "\<not> list_ex (str_contains command) guards"
    using assms by (auto simp: echo_payload_def split: if_splits)
  obtain p where p: "strip_prefix (str_trim command) ''echo'' = Some p"
    using assms guards by (auto simp: echo_payload_def split: option.splits)
  then have pre: "prefix ''echo'' (str_trim command)" "p = drop 4 (str_trim command)"
    by (auto simp: strip_prefix_def numeral_eq_Suc split: if_splits)
  have rest: "str_trim p \<noteq> []"
    "content = str_trim p \<or> content = take (length (str_trim p) - 2) (drop 1 (str_trim p))"
    using assms guards p
    by (auto simp: echo_payload_def Let_def split: list.splits if_splits)
  have "\<exists>a b. str_trim p = a @ content @ b"
    using rest(2) by (metis append_Nil append_Nil2 append_take_drop_id append.assoc)
  then show ?thesis
    using guards pre rest(1) by (auto simp: str_contains_iff list_ex_iff)
qed

theorem echo_payload_sound_witness:
  "echo_payload ''echo hi'' True [''>>''] = Some ''hi'' \<and> prefix ''echo'' (str_trim ''echo hi'')"
proof -
  have "echo_payload ''echo hi'' True [''>>''] = Some ''hi''" by (simp add: rust_eval)
  with echo_payload_sound [of "''echo hi''" True "[''>>'']" "''hi''"] show ?thesis by simp
qed

text \<open>The emptiness test runs before the quotes are stripped, so echoing an empty quoted text
  is promoted to a human utterance with no content, although a bare echo is not.\<close>

theorem echo_empty_quotes:
  "echo_payload (''echo '' @ [CHR 0x22, CHR 0x22]) True [''| tee'', ''>>''] = Some []
    \<and> echo_payload ''echo '' True [''| tee'', ''>>''] = None"
  by (simp add: rust_eval)

end
