(* ===== verification/Model.thy ===== *)
theory Model
  imports Coverage Frames
begin

text \<open>
  \<^verbatim>\<open>engine/model.rs\<close>: the typed session model every adapter produces and every consumer
  reads. Scope verdicts form a join semilattice with \<^verbatim>\<open>Unknown\<close> as its least element; the
  interface \<open>join_fold\<close> states what a fold of such verdicts may be relied on for, and it is
  interpreted on \<open>scope_join\<close>. Costs are \<^verbatim>\<open>f64\<close>; the model keeps what the code can observe of
  one (finite with its sign and value, infinite, not a number).
\<close>

section \<open>Scope verdicts\<close>

datatype scope_status = NoDriftObserved | MixedCandidate | Unattributed | ScopeUnknown

definition scope_all :: "scope_status list" where
  "scope_all = [NoDriftObserved, MixedCandidate, Unattributed, ScopeUnknown]"

fun scope_as_str :: "scope_status \<Rightarrow> string" where
  "scope_as_str NoDriftObserved = ''no_drift_observed''"
| "scope_as_str MixedCandidate = ''mixed_candidate''"
| "scope_as_str Unattributed = ''unattributed''"
| "scope_as_str ScopeUnknown = ''unknown''"

fun scope_join :: "scope_status \<Rightarrow> scope_status \<Rightarrow> scope_status" where
  "scope_join Unattributed _ = Unattributed"
| "scope_join _ Unattributed = Unattributed"
| "scope_join MixedCandidate _ = MixedCandidate"
| "scope_join _ MixedCandidate = MixedCandidate"
| "scope_join NoDriftObserved _ = NoDriftObserved"
| "scope_join _ NoDriftObserved = NoDriftObserved"
| "scope_join ScopeUnknown ScopeUnknown = ScopeUnknown"

text \<open>The distinct trimmed non-empty strings of an iterator: \<^verbatim>\<open>BTreeSet::insert\<close> in a loop.\<close>

definition seen_trimmed :: "string list \<Rightarrow> string set" where
  "seen_trimmed xs =
     foldl (\<lambda>seen x. if str_trim x = [] then seen else insert (str_trim x) seen) {} xs"

definition scope_from_evidence :: "string list \<Rightarrow> string list \<Rightarrow> scope_status" where
  "scope_from_evidence cwds branches =
     (if 1 < card (seen_trimmed cwds) \<or> 1 < card (seen_trimmed branches) then MixedCandidate
      else if card (seen_trimmed cwds) = 1 then NoDriftObserved
      else ScopeUnknown)"

section \<open>Provenance, segments and turns\<close>

record provenance =
  pv_agent :: agent_kind
  pv_model :: "string known"
  pv_cli_version :: "string known"
  pv_cwd :: "string known"
  pv_branch :: "string known"
  pv_started_at :: "string known"
  pv_ended_at :: "string known"
  pv_source_hash :: string
  pv_source_bytes :: u64

record turn_range =
  tr_start :: u64
  tr_end :: u64

record segment =
  sg_id :: u32
  sg_cwd :: "string known"
  sg_branch :: "string known"
  sg_started_at :: "string known"
  sg_ended_at :: "string known"
  sg_range :: turn_range
  sg_scope_status :: scope_status
  sg_scope_conflict :: bool
  sg_scope_root :: "string option"
  sg_scope_workdirs :: "string list"

record skill_invocation =
  sk_turn_idx :: u64
  sk_skill_name :: string
  sk_payload_hash :: string
  sk_payload_bytes :: u64
  sk_first_invoked_at :: "string known"

record turn =
  tn_turn_idx :: u64
  tn_role :: turn_role
  tn_timestamp :: "string known"
  tn_kind :: turn_kind
  tn_text :: string
  tn_text_hash :: string
  tn_text_chars :: u64
  tn_tool_name :: "string known"
  tn_segment_id :: u32
  tn_refs :: "raw_unit_ref list"
  tn_frame_class :: "frame_class option"

datatype tool_event_kind = TeCall | TeResult

record tool_event =
  te_kind :: tool_event_kind
  te_turn_idx :: u64
  te_tool_name :: string
  te_correlation_id :: "string known"
  te_payload_hash :: string
  te_payload_bytes :: u64
  te_refs :: "raw_unit_ref list"

section \<open>Usage\<close>

datatype counter_semantics = CounterSnapshot | CounterDelta | CounterCumulative

record token_components =
  tk_input :: "u64 known"
  tk_output :: "u64 known"
  tk_reasoning :: "u64 known"
  tk_cache_read :: "u64 known"
  tk_cache_creation :: "u64 known"

text \<open>An \<^verbatim>\<open>f64\<close>: \<open>F64Finite negative mantissa exponent\<close>, an infinity with its sign, or NaN.\<close>

datatype f64 = F64Finite bool nat int | F64Infinite bool | F64NaN

fun f64_is_finite :: "f64 \<Rightarrow> bool" where
  "f64_is_finite (F64Finite _ _ _) = True"
| "f64_is_finite (F64Infinite _) = False"
| "f64_is_finite F64NaN = False"

text \<open>\<^verbatim>\<open>x < 0.0\<close>: false of a negative zero and of NaN.\<close>

fun f64_lt_zero :: "f64 \<Rightarrow> bool" where
  "f64_lt_zero (F64Finite neg m _) = (neg \<and> m \<noteq> 0)"
| "f64_lt_zero (F64Infinite neg) = neg"
| "f64_lt_zero F64NaN = False"

record reported_cost =
  rc_amount :: f64
  rc_currency :: string

record usage_span =
  us_start :: string
  us_end :: string

record usage_event =
  ue_provider :: string
  ue_model :: "string known"
  ue_tokens :: token_components
  ue_cost :: "reported_cost known"
  ue_timestamp :: "string known"
  ue_span :: "usage_span known"
  ue_counter_semantics :: counter_semantics
  ue_evidence :: raw_unit_ref

section \<open>Conversation identity\<close>

datatype provider_ref =
    ClaudeRef string "string option" "string list"
  | CodexRef string "string option" "string option" "string option" "string option" "string list"
  | GeminiRef string "string list"
  | GrokRef string "string list"
  | JunieRef string "string list"
  | KimiRef string "string option" "string list"
  | CursorRef string "string option" "string list"
  | CopilotRef string "string option" "string list"
  | OmpRef string "string option" "string list"
  | AgyRef string "string option" "string list"

fun from_store_id :: "agent_kind \<Rightarrow> string \<Rightarrow> provider_ref" where
  "from_store_id Claude sid = ClaudeRef sid None [''agent_id'']"
| "from_store_id Codex sid =
     CodexRef sid None None None None
       [''thread_id'', ''forked_from_id'', ''parent_thread_id'', ''window_id'']"
| "from_store_id Gemini sid = GeminiRef sid []"
| "from_store_id Grok sid = GrokRef sid []"
| "from_store_id Junie sid = JunieRef sid []"
| "from_store_id Kimi sid = KimiRef sid None [''agent_id'']"
| "from_store_id Cursor sid = CursorRef sid None [''worker_id'']"
| "from_store_id Copilot sid = CopilotRef sid None [''parent_session_id'']"
| "from_store_id Omp sid = OmpRef sid None [''parent_session_id'']"
| "from_store_id Agy sid = AgyRef sid None [''trajectory_id'']"

fun ref_agent :: "provider_ref \<Rightarrow> agent_kind" where
  "ref_agent (ClaudeRef _ _ _) = Claude"
| "ref_agent (CodexRef _ _ _ _ _ _) = Codex"
| "ref_agent (GeminiRef _ _) = Gemini"
| "ref_agent (GrokRef _ _) = Grok"
| "ref_agent (JunieRef _ _) = Junie"
| "ref_agent (KimiRef _ _ _) = Kimi"
| "ref_agent (CursorRef _ _ _) = Cursor"
| "ref_agent (CopilotRef _ _ _) = Copilot"
| "ref_agent (OmpRef _ _ _) = Omp"
| "ref_agent (AgyRef _ _ _) = Agy"

fun ref_node_id :: "provider_ref \<Rightarrow> string" where
  "ref_node_id (ClaudeRef sid _ _) = sid"
| "ref_node_id (GeminiRef sid _) = sid"
| "ref_node_id (GrokRef sid _) = sid"
| "ref_node_id (JunieRef sid _) = sid"
| "ref_node_id (KimiRef sid _ _) = sid"
| "ref_node_id (CursorRef sid _ _) = sid"
| "ref_node_id (CopilotRef sid _ _) = sid"
| "ref_node_id (OmpRef sid _ _) = sid"
| "ref_node_id (AgyRef sid _ _) = sid"
| "ref_node_id (CodexRef tree thread _ _ _ _) = (case thread of None \<Rightarrow> tree | Some t \<Rightarrow> t)"

definition named_parent :: "string \<Rightarrow> string option \<Rightarrow> (string \<times> string) list" where
  "named_parent name p = (case p of None \<Rightarrow> [] | Some i \<Rightarrow> [(name, i)])"

fun ref_declared_parents :: "provider_ref \<Rightarrow> (string \<times> string) list" where
  "ref_declared_parents (CopilotRef _ (Some i) _) =
     [(''detached_from_spawning_parent_session_id'', i)]"
| "ref_declared_parents (OmpRef _ (Some i) _) = [(''parentSession'', i)]"
| "ref_declared_parents (CodexRef _ _ forked parent _ _) =
     named_parent ''forked_from_id'' forked @ named_parent ''parent_thread_id'' parent"
| "ref_declared_parents _ = []"

fun ref_unobserved :: "provider_ref \<Rightarrow> string list" where
  "ref_unobserved (ClaudeRef _ _ u) = u"
| "ref_unobserved (CodexRef _ _ _ _ _ u) = u"
| "ref_unobserved (GeminiRef _ u) = u"
| "ref_unobserved (GrokRef _ u) = u"
| "ref_unobserved (JunieRef _ u) = u"
| "ref_unobserved (KimiRef _ _ u) = u"
| "ref_unobserved (CursorRef _ _ u) = u"
| "ref_unobserved (CopilotRef _ _ u) = u"
| "ref_unobserved (OmpRef _ _ u) = u"
| "ref_unobserved (AgyRef _ _ u) = u"

record source_snapshot =
  sn_path :: "string known"
  sn_content_hash :: string
  sn_bytes :: u64
  sn_observed_at :: "string known"
  sn_cutoff :: "string known"

definition snapshot_from_provenance :: "provenance \<Rightarrow> string known \<Rightarrow> source_snapshot" where
  "snapshot_from_provenance p path =
     \<lparr>sn_path = path, sn_content_hash = pv_source_hash p, sn_bytes = pv_source_bytes p,
      sn_observed_at = Unknown, sn_cutoff = pv_ended_at p\<rparr>"

definition same_bytes :: "source_snapshot \<Rightarrow> source_snapshot \<Rightarrow> bool" where
  "same_bytes a b \<longleftrightarrow> sn_content_hash a = sn_content_hash b"

record context_epoch =
  ep_index :: u32
  ep_summary_provenance :: string
  ep_replacement_refs :: "string list"
  ep_trigger :: "string known"
  ep_first_turn_after :: "u64 option"

datatype entry_origin = Own | InheritedFrom provider_ref string | ParentOnly provider_ref

section \<open>The session model\<close>

definition session_model_schema :: string where
  "session_model_schema = ''aicx.parser.session_model.v2''"

record session_model =
  sm_schema :: string
  sm_session_id :: string
  sm_conversation :: provider_ref
  sm_snapshot :: source_snapshot
  sm_epochs :: "context_epoch list"
  sm_provenance :: provenance
  sm_segments :: "segment list"
  sm_skills :: "skill_invocation list"
  sm_turns :: "turn list"
  sm_tool_events :: "tool_event list"
  sm_usage_events :: "usage_event list"
  sm_coverage :: coverage_report

definition unset_conversation_ref :: provider_ref where
  "unset_conversation_ref = CodexRef [] None None None None [''deserialized_without_conversation_ref'']"

definition unset_snapshot_ref :: source_snapshot where
  "unset_snapshot_ref =
     \<lparr>sn_path = Unknown, sn_content_hash = [], sn_bytes = 0, sn_observed_at = Unknown,
      sn_cutoff = Unknown\<rparr>"

definition session_model_new :: "string \<Rightarrow> provenance \<Rightarrow> coverage_report \<Rightarrow> session_model" where
  "session_model_new sid p cov =
     \<lparr>sm_schema = session_model_schema, sm_session_id = sid,
      sm_conversation = from_store_id (pv_agent p) sid,
      sm_snapshot = snapshot_from_provenance p Unknown, sm_epochs = [], sm_provenance = p,
      sm_segments = [], sm_skills = [], sm_turns = [], sm_tool_events = [], sm_usage_events = [],
      sm_coverage = cov\<rparr>"

fun known_list :: "'a known \<Rightarrow> 'a list" where
  "known_list Unknown = []"
| "known_list (Value v) = [v]"

fun option_list :: "'a option \<Rightarrow> 'a list" where
  "option_list None = []"
| "option_list (Some v) = [v]"

definition segment_cwds :: "segment list \<Rightarrow> string list" where
  "segment_cwds segs = concat (map (\<lambda>s. known_list (sg_cwd s) @ option_list (sg_scope_root s)) segs)"

definition segment_branches :: "segment list \<Rightarrow> string list" where
  "segment_branches segs = concat (map (\<lambda>s. known_list (sg_branch s)) segs)"

definition model_scope_status :: "session_model \<Rightarrow> scope_status" where
  "model_scope_status m =
     scope_join (foldl (\<lambda>acc s. scope_join acc (sg_scope_status s)) ScopeUnknown (sm_segments m))
       (scope_from_evidence (segment_cwds (sm_segments m)) (segment_branches (sm_segments m)))"

lemmas [rust_eval] = seen_trimmed_def scope_from_evidence_def segment_cwds_def segment_branches_def
  model_scope_status_def named_parent_def

section \<open>Folding verdicts\<close>

text \<open>
  The contract a fold of verdicts relies on: a join with a neutral element. The fold then is the
  least upper bound of the set of verdicts, so neither order nor repetition of the spans matters.
\<close>

locale join_fold =
  fixes join :: "'a \<Rightarrow> 'a \<Rightarrow> 'a"
    and bot :: "'a"
  assumes join_assoc: "join (join a b) c = join a (join b c)"
    and join_commute: "join a b = join b a"
    and join_idem: "join a a = a"
    and join_bot: "join bot a = a"
begin

definition below :: "'a \<Rightarrow> 'a \<Rightarrow> bool" where
  "below a b \<longleftrightarrow> join a b = b"

lemma below_join: "below a (join a b)" "below b (join a b)"
  by (metis below_def join_assoc join_idem join_commute)+

lemma below_least: "below a c \<Longrightarrow> below b c \<Longrightarrow> below (join a b) c"
  by (simp add: below_def join_assoc)

lemma below_trans: "below a b \<Longrightarrow> below b c \<Longrightarrow> below a c"
  by (metis below_def join_assoc)

lemma below_antisym: "below a b \<Longrightarrow> below b a \<Longrightarrow> a = b"
  by (metis below_def join_commute)

lemma fold_upper: "below acc (foldl join acc xs)" "x \<in> set xs \<Longrightarrow> below x (foldl join acc xs)"
proof (induction xs arbitrary: acc)
  case Nil
  case 1
  then show ?case by (simp add: below_def join_idem)
next
  case Nil
  case 2
  then show ?case by simp
next
  case (Cons y ys)
  case 1
  show ?case using below_trans [OF below_join(1) Cons.IH(1)] by simp
next
  case (Cons y ys)
  case 2
  then show ?case using below_trans [OF below_join(2) Cons.IH(1)] Cons.IH(2) by auto
qed

lemma fold_least: "below acc c \<Longrightarrow> (\<And>x. x \<in> set xs \<Longrightarrow> below x c) \<Longrightarrow> below (foldl join acc xs) c"
  by (induction xs arbitrary: acc) (auto intro: below_least)

lemma below_bot: "below bot a"
  by (simp add: below_def join_bot)

lemma fold_set_cong: "set xs = set ys \<Longrightarrow> foldl join bot xs = foldl join bot ys"
  by (rule below_antisym) (auto intro!: fold_least below_bot intro: fold_upper(2))

end

interpretation scope: join_fold scope_join ScopeUnknown
proof unfold_locales
  fix a b c
  show "scope_join (scope_join a b) c = scope_join a (scope_join b c)"
    by (cases a; cases b; cases c) simp_all
  show "scope_join a b = scope_join b a" "scope_join a a = a" "scope_join ScopeUnknown a = a"
    by (cases a; cases b; simp)+
qed

lemma segment_fold_eq:
  "foldl (\<lambda>acc s. scope_join acc (sg_scope_status s)) acc segs
   = foldl scope_join acc (map sg_scope_status segs)"
  by (induction segs arbitrary: acc) simp_all

lemma scope_fold_value:
  "foldl scope_join acc xs =
     (if Unattributed \<in> insert acc (set xs) then Unattributed
      else if MixedCandidate \<in> insert acc (set xs) then MixedCandidate
      else if NoDriftObserved \<in> insert acc (set xs) then NoDriftObserved
      else ScopeUnknown)"
proof (induction xs arbitrary: acc)
  case Nil
  then show ?case by (cases acc) simp_all
next
  case (Cons x xs)
  have "foldl scope_join acc (x # xs) = foldl scope_join (scope_join acc x) xs" by simp
  then show ?case
    unfolding Cons.IH by (cases acc; cases x) auto
qed

text \<open>The distinct trimmed texts, as a set.\<close>

definition distinct_texts :: "string list \<Rightarrow> string set" where
  "distinct_texts xs = str_trim ` set xs - {[]}"

lemma seen_trimmed_eq: "seen_trimmed xs = distinct_texts xs"
proof -
  have "foldl (\<lambda>seen x. if str_trim x = [] then seen else insert (str_trim x) seen) s xs
      = s \<union> distinct_texts xs" for s
    by (induction xs arbitrary: s) (auto simp: distinct_texts_def)
  then show ?thesis by (simp add: seen_trimmed_def)
qed

lemma finite_distinct_texts [simp]: "finite (distinct_texts xs)"
  by (simp add: distinct_texts_def)

lemma segment_texts_cong:
  assumes "set segs = set segs'"
  shows "distinct_texts (segment_cwds segs) = distinct_texts (segment_cwds segs')"
    and "distinct_texts (segment_branches segs) = distinct_texts (segment_branches segs')"
  using assms by (simp_all add: distinct_texts_def segment_cwds_def segment_branches_def)

section \<open>Properties\<close>

text \<open>The verdict on a whole conversation. It is unattributed exactly when some segment is;
  mixed exactly when none is unattributed and some segment is mixed or the segments name two
  working directories (recorded or resolved) or two branches; unknown exactly when no segment
  knows anything, no directory is named and at most one branch is.\<close>

theorem model_scope_status_spec:
  "(model_scope_status m = Unattributed \<longleftrightarrow> Unattributed \<in> sg_scope_status ` set (sm_segments m))
   \<and> (model_scope_status m = MixedCandidate \<longleftrightarrow>
        Unattributed \<notin> sg_scope_status ` set (sm_segments m)
        \<and> (MixedCandidate \<in> sg_scope_status ` set (sm_segments m)
           \<or> 1 < card (distinct_texts (segment_cwds (sm_segments m)))
           \<or> 1 < card (distinct_texts (segment_branches (sm_segments m)))))
   \<and> (model_scope_status m = ScopeUnknown \<longleftrightarrow>
        sg_scope_status ` set (sm_segments m) \<subseteq> {ScopeUnknown}
        \<and> distinct_texts (segment_cwds (sm_segments m)) = {}
        \<and> card (distinct_texts (segment_branches (sm_segments m))) \<le> 1)"
proof -
  let ?S = "sg_scope_status ` set (sm_segments m)"
  have "s = ScopeUnknown \<longleftrightarrow> s \<noteq> NoDriftObserved \<and> s \<noteq> MixedCandidate \<and> s \<noteq> Unattributed" for s
    by (cases s) simp_all
  then have unknown: "?S \<subseteq> {ScopeUnknown} \<longleftrightarrow>
      NoDriftObserved \<notin> ?S \<and> MixedCandidate \<notin> ?S \<and> Unattributed \<notin> ?S"
    by (auto simp: subset_iff) (metis image_eqI)+
  have card: "card (distinct_texts (segment_cwds (sm_segments m))) = 0 \<longleftrightarrow>
      distinct_texts (segment_cwds (sm_segments m)) = {}" by simp
  show ?thesis
    unfolding unknown card [symmetric]
    by (simp add: model_scope_status_def segment_fold_eq scope_fold_value scope_from_evidence_def
        seen_trimmed_eq del: card_0_eq)
qed

text \<open>The verdict is that of the set of segments: reordering or repeating segments does not
  change it.\<close>

theorem model_scope_status_order_free:
  assumes "set (sm_segments m) = set (sm_segments m')"
  shows "model_scope_status m = model_scope_status m'"
proof -
  have "foldl scope_join ScopeUnknown (map sg_scope_status (sm_segments m))
      = foldl scope_join ScopeUnknown (map sg_scope_status (sm_segments m'))"
    by (rule scope.fold_set_cong) (simp add: assms)
  then show ?thesis
    using segment_texts_cong [OF assms]
    by (simp add: model_scope_status_def segment_fold_eq scope_from_evidence_def seen_trimmed_eq)
qed

theorem model_scope_status_order_free_witness:
  "\<exists>m m'. sm_segments m \<noteq> sm_segments m' \<and> model_scope_status m = model_scope_status m'
    \<and> model_scope_status m = MixedCandidate"
proof -
  define sg where "sg st = \<lparr>sg_id = 0, sg_cwd = Unknown, sg_branch = Unknown, sg_started_at = Unknown,
    sg_ended_at = Unknown, sg_range = \<lparr>tr_start = 0, tr_end = 0\<rparr>, sg_scope_status = st,
    sg_scope_conflict = False, sg_scope_root = None, sg_scope_workdirs = []\<rparr>" for st
  define p where "p = \<lparr>pv_agent = Codex, pv_model = Unknown, pv_cli_version = Unknown, pv_cwd = Unknown,
    pv_branch = Unknown, pv_started_at = Unknown, pv_ended_at = Unknown, pv_source_hash = [],
    pv_source_bytes = 0\<rparr>"
  define m where "m = (session_model_new [] p sample_coverage)
    \<lparr>sm_segments := [sg MixedCandidate, sg NoDriftObserved]\<rparr>"
  define m' where "m' = m\<lparr>sm_segments := [sg NoDriftObserved, sg MixedCandidate, sg NoDriftObserved]\<rparr>"
  have "model_scope_status m = model_scope_status m'"
    by (rule model_scope_status_order_free) (auto simp: m_def m'_def)
  moreover have "model_scope_status m = MixedCandidate"
    by (simp add: m_def sg_def model_scope_status_def scope_from_evidence_def segment_cwds_def
        segment_branches_def seen_trimmed_def)
  moreover have "sm_segments m \<noteq> sm_segments m'" by (simp add: m_def m'_def)
  ultimately show ?thesis by blast
qed

text \<open>A reference built from a store id names exactly that conversation for that agent, guesses
  no parent and no lane, and books every field it has not seen as unobserved.\<close>

theorem from_store_id_observes_only_the_id:
  "ref_agent (from_store_id a sid) = a \<and> ref_node_id (from_store_id a sid) = sid
    \<and> ref_declared_parents (from_store_id a sid) = []
    \<and> (ref_unobserved (from_store_id a sid) = [] \<longleftrightarrow> a \<in> {Gemini, Grok, Junie})
    \<and> (from_store_id a sid = from_store_id b sid' \<longleftrightarrow> a = b \<and> sid = sid')"
  by (cases a; cases b) (simp_all add: named_parent_def)

text \<open>A Codex reference is keyed by its thread when it has one, and its declared parents are
  the fork origin first and the spawning thread second, each only if the provider wrote it.\<close>

theorem codex_lineage:
  "ref_node_id (CodexRef tree (Some thread) forked parent win u) = thread
   \<and> ref_node_id (CodexRef tree None forked parent win u) = tree
   \<and> ref_declared_parents (CodexRef tree t forked parent win u) =
       map (Pair ''forked_from_id'') (option_list forked) @ map (Pair ''parent_thread_id'') (option_list parent)"
  by (cases forked; cases parent) (simp_all add: named_parent_def)

end
