(* ===== verification/Refusal.thy ===== *)
theory Refusal
  imports Coverage
begin

text \<open>
  \<^verbatim>\<open>engine/refusal.rs\<close>: refusals as values, each with the evidence it was drawn from, the
  detection gate, and the substitution rule of the resolver. The ledger sums of a piece of evidence
  wrap at 64 bits as \<^verbatim>\<open>Iterator::sum\<close> does.
\<close>

definition refusal_schema :: string where
  "refusal_schema = ''aicx.parser.refusal.v1''"

definition min_visible_turns :: u64 where
  "min_visible_turns = 1"

definition min_human_utterances :: u64 where
  "min_human_utterances = 1"

section \<open>Evidence\<close>

record refusal_evidence =
  re_raw_unit_count :: u64
  re_consumed_by_kind :: "(string, u64) btree_map"
  re_known_skipped :: "(skipped_reason, u64) btree_map"
  re_threshold :: u64
  re_found :: u64
  re_examined :: "string list"

definition evidence_from_coverage ::
  "coverage_report \<Rightarrow> u64 \<Rightarrow> u64 \<Rightarrow> string list \<Rightarrow> refusal_evidence" where
  "evidence_from_coverage c threshold found examined =
     \<lparr>re_raw_unit_count = raw_unit_count c, re_consumed_by_kind = consumed_by_kind c,
      re_known_skipped = known_skipped c, re_threshold = threshold, re_found = found,
      re_examined = examined\<rparr>"

definition consumed_total :: "refusal_evidence \<Rightarrow> u64" where
  "consumed_total e = u64_sum (bt_values (re_consumed_by_kind e))"

definition skipped_total :: "refusal_evidence \<Rightarrow> u64" where
  "skipped_total e = u64_sum (bt_values (re_known_skipped e))"

definition is_total :: "refusal_evidence \<Rightarrow> bool" where
  "is_total e \<longleftrightarrow>
     (case u64_checked_add (consumed_total e) (skipped_total e) of
        None \<Rightarrow> False | Some n \<Rightarrow> n = re_raw_unit_count e)"

section \<open>Detection\<close>

record detection_probe =
  dp_name :: string
  dp_matched :: bool
  dp_first_ordinal :: "u64 option"

record adapter_detection =
  ad_agent :: agent_kind
  ad_probes :: "detection_probe list"
  ad_score :: u64
  ad_threshold :: u64

definition detection_new :: "agent_kind \<Rightarrow> detection_probe list \<Rightarrow> u64 \<Rightarrow> adapter_detection" where
  "detection_new agent probes threshold =
     \<lparr>ad_agent = agent, ad_probes = probes, ad_score = length (filter dp_matched probes),
      ad_threshold = threshold\<rparr>"

definition detection_holds :: "adapter_detection \<Rightarrow> bool" where
  "detection_holds d \<longleftrightarrow> 0 < ad_threshold d \<and> ad_threshold d \<le> ad_score d"

section \<open>Substitution\<close>

datatype substitution_kind = ExactSourceId | ExactAlias | UniquePrefix | CatalogPrefix

record substitution_error =
  se_requested :: string
  se_kind :: substitution_kind
  se_resolved :: package_identity
  se_allowed :: "substitution_kind list"
  se_candidates :: "package_identity list"

definition is_substitution :: "substitution_error \<Rightarrow> bool" where
  "is_substitution e \<longleftrightarrow> se_kind e \<noteq> ExactSourceId \<and> \<not> List.member (se_allowed e) (se_kind e)"

fun substitution_kind_debug :: "substitution_kind \<Rightarrow> string" where
  "substitution_kind_debug ExactSourceId = ''ExactSourceId''"
| "substitution_kind_debug ExactAlias = ''ExactAlias''"
| "substitution_kind_debug UniquePrefix = ''UniquePrefix''"
| "substitution_kind_debug CatalogPrefix = ''CatalogPrefix''"

definition substitution_display :: "substitution_error \<Rightarrow> string" where
  "substitution_display e =
     ''resolver would substitute `'' @ se_requested e @ ''` -> '' @ package_display (se_resolved e)
     @ '' via '' @ substitution_kind_debug (se_kind e) @ '' ('' @ show_nat (length (se_candidates e))
     @ '' candidate(s); allowed: ['' @ join '', '' (map substitution_kind_debug (se_allowed e)) @ ''])''"

section \<open>Reasons\<close>

datatype refusal_reason =
    EmptyConversation agent_kind string refusal_evidence
  | NoHumanUtterance agent_kind string refusal_evidence
  | HumanRecordsDropped agent_kind string u64 u64 refusal_evidence
  | OnlyReplayedContent agent_kind string u64 u64 refusal_evidence
  | ProjectionFilteredAll agent_kind string u64 string refusal_evidence
  | DetectionBelowThreshold agent_kind "detection_probe list" u64 u64
  | DetectionAmbiguous "adapter_detection list"
  | Substitution substitution_error
  | LedgerNotTotal agent_kind string u64 u64 u64
  | MixedWorkstream agent_kind string "string list" "string list" refusal_evidence

definition detection_refuse :: "adapter_detection \<Rightarrow> refusal_reason" where
  "detection_refuse d =
     DetectionBelowThreshold (ad_agent d) (ad_probes d) (ad_score d) (ad_threshold d)"

fun refusal_tag :: "refusal_reason \<Rightarrow> string" where
  "refusal_tag (EmptyConversation _ _ _) = ''empty_conversation''"
| "refusal_tag (NoHumanUtterance _ _ _) = ''no_human_utterance''"
| "refusal_tag (HumanRecordsDropped _ _ _ _ _) = ''human_records_dropped''"
| "refusal_tag (OnlyReplayedContent _ _ _ _ _) = ''only_replayed_content''"
| "refusal_tag (ProjectionFilteredAll _ _ _ _ _) = ''projection_filtered_all''"
| "refusal_tag (DetectionBelowThreshold _ _ _ _) = ''detection_below_threshold''"
| "refusal_tag (DetectionAmbiguous _) = ''detection_ambiguous''"
| "refusal_tag (Substitution _) = ''substitution''"
| "refusal_tag (LedgerNotTotal _ _ _ _ _) = ''ledger_not_total''"
| "refusal_tag (MixedWorkstream _ _ _ _ _) = ''mixed_workstream''"

fun refusal_evidence_of :: "refusal_reason \<Rightarrow> refusal_evidence option" where
  "refusal_evidence_of (EmptyConversation _ _ e) = Some e"
| "refusal_evidence_of (NoHumanUtterance _ _ e) = Some e"
| "refusal_evidence_of (HumanRecordsDropped _ _ _ _ e) = Some e"
| "refusal_evidence_of (OnlyReplayedContent _ _ _ _ e) = Some e"
| "refusal_evidence_of (ProjectionFilteredAll _ _ _ _ e) = Some e"
| "refusal_evidence_of (MixedWorkstream _ _ _ _ e) = Some e"
| "refusal_evidence_of (DetectionBelowThreshold _ _ _ _) = None"
| "refusal_evidence_of (DetectionAmbiguous _) = None"
| "refusal_evidence_of (Substitution _) = None"
| "refusal_evidence_of (LedgerNotTotal _ _ _ _ _) = None"

fun completeness_debug :: "visible_completeness \<Rightarrow> string" where
  "completeness_debug CompleteVisible = ''CompleteVisible''"
| "completeness_debug PartialVisible = ''PartialVisible''"
| "completeness_debug Fatal = ''Fatal''"

definition empty_conversation :: "agent_kind \<Rightarrow> string \<Rightarrow> coverage_report \<Rightarrow> refusal_reason" where
  "empty_conversation agent sid c =
     EmptyConversation agent sid
       (evidence_from_coverage c min_visible_turns 0
         [''raw_unit_count='' @ show_nat (raw_unit_count c),
          ''consumed_count='' @ show_nat (consumed_count c),
          ''skipped_count='' @ show_nat (skipped_count c),
          ''consumed_kinds='' @ join '','' (bt_keys (consumed_by_kind c)),
          ''visible_completeness='' @ completeness_debug (st_completeness (status c))])"

text \<open>The bytes of an em dash.\<close>

definition em_dash :: string where
  "em_dash = [CHR 0xE2, CHR 0x80, CHR 0x94]"

fun refusal_display :: "refusal_reason \<Rightarrow> string" where
  "refusal_display (EmptyConversation agent sid e) =
     ''refused: '' @ agent_as_str agent @ '' session '' @ sid @ '' projected '' @ show_nat (re_found e)
     @ '' turn(s); threshold '' @ show_nat (re_threshold e) @ '' (raw ''
     @ show_nat (re_raw_unit_count e) @ '' units, consumed '' @ show_nat (consumed_total e)
     @ '', skipped '' @ show_nat (skipped_total e) @ '')''"
| "refusal_display (NoHumanUtterance agent sid e) =
     ''refused: '' @ agent_as_str agent @ '' session '' @ sid @ '' has '' @ show_nat (re_found e)
     @ '' turn(s) but no human utterance (threshold '' @ show_nat (re_threshold e) @ '')''"
| "refusal_display (HumanRecordsDropped agent sid raw projected _) =
     ''refused: '' @ agent_as_str agent @ '' session '' @ sid @ '' has '' @ show_nat raw
     @ '' raw human record(s) but projected '' @ show_nat projected"
| "refusal_display (OnlyReplayedContent agent sid replay dup _) =
     ''refused: '' @ agent_as_str agent @ '' session '' @ sid
     @ '' carries only replayed content (compaction_replay='' @ show_nat replay
     @ '', duplicate_body='' @ show_nat dup @ '')''"
| "refusal_display (ProjectionFilteredAll agent sid before filt _) =
     ''refused: '' @ agent_as_str agent @ '' session '' @ sid @ '' had '' @ show_nat before
     @ '' turn(s); filter `'' @ filt @ ''` removed all of them''"
| "refusal_display (DetectionBelowThreshold agent probes score threshold) =
     ''refused: adapter '' @ agent_as_str agent @ '' scored '' @ show_nat score @ ''/''
     @ show_nat threshold @ '' over '' @ show_nat (length probes) @ '' probe(s)''"
| "refusal_display (DetectionAmbiguous claims) =
     ''refused: '' @ show_nat (length claims) @ '' adapters claim the source: ''
     @ join '','' (map (\<lambda>c. agent_as_str (ad_agent c)) claims)"
| "refusal_display (Substitution e) = ''refused: '' @ substitution_display e"
| "refusal_display (MixedWorkstream agent sid cwds branches e) =
     ''refused: '' @ agent_as_str agent @ '' session '' @ sid @ '' is a mixed-workstream candidate (''
     @ show_nat (length cwds) @ '' cwd(s), '' @ show_nat (length branches)
     @ '' branch(es)); one distilled history would braid them '' @ em_dash @ '' ''
     @ (if re_raw_unit_count e = 0
        then ''none of it reached this gate, so --distill-mixed (MCP: distill_mixed) would add nothing''
        else ''pass --distill-mixed (MCP: distill_mixed) to override'')"
| "refusal_display (LedgerNotTotal agent sid raw cons skip) =
     ''refused: '' @ agent_as_str agent @ '' session '' @ sid @ '' ledger not total: consumed ''
     @ show_nat cons @ '' + skipped '' @ show_nat skip @ '' != raw '' @ show_nat raw"

section \<open>Properties\<close>

text \<open>Evidence taken from a coverage report that passes the totality check is itself total, and
  it is total only if consumed and skipped add up, without overflow, to the raw units; so a refusal
  and the report it quotes cannot disagree.\<close>

theorem evidence_total_of_coverage:
  assumes "check_totality c = Inr ()"
  shows "is_total (evidence_from_coverage c threshold found examined)
    \<and> consumed_total (evidence_from_coverage c threshold found examined) = consumed_count c
    \<and> skipped_total (evidence_from_coverage c threshold found examined) = skipped_count c"
  using assms
  by (auto simp: check_totality_def is_total_def evidence_from_coverage_def consumed_total_def
      skipped_total_def Let_def split: if_splits)

theorem evidence_total_of_coverage_witness:
  "is_total (evidence_from_coverage sample_coverage 1 0 [''raw_unit_count=3''])
    \<and> skipped_total (evidence_from_coverage sample_coverage 1 0 [''raw_unit_count=3'']) = 1"
  using evidence_total_of_coverage [OF sample_coverage_total, of 1 0 "[''raw_unit_count=3'']"]
  by (simp add: sample_coverage_def coverage_new_def coverage_with_raw_line_count_def)

text \<open>A detection claim holds exactly when its threshold is positive and at least that many
  probes matched, so a zero threshold never claims a source; otherwise its refusal carries the
  whole probe trail, the score and the threshold.\<close>

theorem detection_gate:
  "(detection_holds (detection_new agent probes threshold) \<longleftrightarrow>
      1 \<le> threshold \<and> threshold \<le> length (filter dp_matched probes))
   \<and> detection_refuse (detection_new agent probes threshold) =
      DetectionBelowThreshold agent probes (length (filter dp_matched probes)) threshold
   \<and> ad_score (detection_new agent probes threshold) \<le> length probes"
  by (auto simp: detection_holds_def detection_new_def detection_refuse_def)

text \<open>The empty-conversation refusal quotes the report: its evidence has the report's counts
  and ledgers, nothing found against a threshold of one, and a trail of what was examined.\<close>

theorem empty_conversation_evidence:
  "\<exists>e. refusal_evidence_of (empty_conversation agent sid c) = Some e
     \<and> re_raw_unit_count e = raw_unit_count c \<and> re_consumed_by_kind e = consumed_by_kind c
     \<and> re_known_skipped e = known_skipped c \<and> re_found e < re_threshold e
     \<and> re_examined e \<noteq> [] \<and> refusal_tag (empty_conversation agent sid c) = ''empty_conversation''"
  by (simp add: empty_conversation_def evidence_from_coverage_def min_visible_turns_def)

end
