(* ===== verification/Validate.thy ===== *)
theory Validate
  imports Model Refusal
begin

text \<open>
  \<^verbatim>\<open>engine/validate.rs\<close>: the invariants a parse must meet before anything is projected
  from it. Every early return is an \<open>Inl\<close> with the invariant's name. Timestamps are read by
  chrono; its RFC 3339 parser is the parameter \<open>rfc3339\<close>, giving the instant.
\<close>

section \<open>Errors and small checks\<close>

record validation_error =
  ve_invariant :: string
  ve_detail :: string
  ve_refusal :: "refusal_reason option"

definition verr :: "string \<Rightarrow> string \<Rightarrow> validation_error" where
  "verr invariant detail = \<lparr>ve_invariant = invariant, ve_detail = detail, ve_refusal = None\<rparr>"

definition validation_refusal :: "string \<Rightarrow> refusal_reason \<Rightarrow> validation_error" where
  "validation_refusal invariant r =
     \<lparr>ve_invariant = invariant, ve_detail = refusal_display r, ve_refusal = Some r\<rparr>"

definition is_refusal :: "validation_error \<Rightarrow> bool" where
  "is_refusal e \<longleftrightarrow> ve_refusal e \<noteq> None"

definition validation_error_display :: "validation_error \<Rightarrow> string" where
  "validation_error_display e = ve_invariant e @ '': '' @ ve_detail e"

definition validate_hash :: "string \<Rightarrow> string \<Rightarrow> validation_error + unit" where
  "validate_hash label h =
     require (length h = 64 \<and> list_all is_ascii_hexdigit h)
       (verr label ''expected a 64-character hexadecimal SHA-256'')"

definition parse_timestamp :: "(string \<Rightarrow> int option) \<Rightarrow> string \<Rightarrow> validation_error + int" where
  "parse_timestamp rfc3339 t =
     (case rfc3339 t of
        None \<Rightarrow> Inl (verr ''timestamp'' ''known timestamp must be RFC3339'')
      | Some i \<Rightarrow> Inr i)"

definition validate_known_timestamp ::
  "(string \<Rightarrow> int option) \<Rightarrow> string known \<Rightarrow> validation_error + unit" where
  "validate_known_timestamp rfc3339 t =
     (case t of Unknown \<Rightarrow> Inr () | Value v \<Rightarrow> bind_res (parse_timestamp rfc3339 v) (\<lambda>_. Inr ()))"

definition validate_evidence :: "raw_unit_ref \<Rightarrow> validation_error + unit" where
  "validate_evidence e =
     (if \<not> starts_with (ru_evidence_event_id e) ''ev1:'' \<or> ru_locator e = [] \<or> ru_unit_kind e = []
         \<or> ru_artifact e = [] \<or> has_separator (ru_artifact e)
      then Inl (verr ''evidence_shape'' ''evidence identity/locator/kind/artifact shape is invalid'')
      else validate_hash ''evidence_content_hash'' (ru_content_hash e))"

definition validate_evidence_reference ::
  "string set \<Rightarrow> raw_unit_ref \<Rightarrow> validation_error + unit" where
  "validate_evidence_reference known_ids e =
     bind_res (validate_evidence e) (\<lambda>_.
     require (ru_evidence_event_id e \<in> known_ids)
       (verr ''evidence_reference'' ''model references evidence absent from coverage''))"

definition validate_usage ::
  "(string \<Rightarrow> int option) \<Rightarrow> usage_event \<Rightarrow> validation_error + unit" where
  "validate_usage rfc3339 u =
     bind_res (require (ue_provider u \<noteq> []) (verr ''usage_provider'' ''usage provider cannot be empty'')) (\<lambda>_.
     bind_res (require (ue_model u \<noteq> Value [])
       (verr ''usage_model'' ''known usage model cannot be empty'')) (\<lambda>_.
     bind_res (case ue_cost u of
         Unknown \<Rightarrow> Inr ()
       | Value cost \<Rightarrow>
           require (\<not> (\<not> f64_is_finite (rc_amount cost) \<or> f64_lt_zero (rc_amount cost)
                       \<or> rc_currency cost = []))
             (verr ''usage_cost'' ''reported cost requires finite non-negative amount and currency'')) (\<lambda>_.
     bind_res (validate_known_timestamp rfc3339 (ue_timestamp u)) (\<lambda>_.
     case ue_span u of
       Unknown \<Rightarrow> Inr ()
     | Value span \<Rightarrow>
         bind_res (parse_timestamp rfc3339 (us_start span)) (\<lambda>start.
         bind_res (parse_timestamp rfc3339 (us_end span)) (\<lambda>end.
         require (\<not> end < start) (verr ''usage_span'' ''usage span ends before it starts'')))))))"

definition totality_error_of :: "coverage_report \<Rightarrow> totality_error \<Rightarrow> validation_error" where
  "totality_error_of c t =
     verr (case t of ConsumedByKind _ _ \<Rightarrow> ''ledger_consumed_by_kind''
           | KnownSkipped _ _ \<Rightarrow> ''ledger_known_skipped''
           | Partition _ _ _ \<Rightarrow> ''coverage_partition_count''
           | LedgerDrift _ \<Rightarrow> ''ledger_drift'')
       (totality_display t @ '' (raw '' @ show_nat (raw_unit_count c) @ '' / consumed ''
        @ show_nat (consumed_count c) @ '' / skipped '' @ show_nat (skipped_count c) @ '')'')"

section \<open>Coverage\<close>

definition validate_coverage_unit ::
  "u64 \<Rightarrow> u64 \<Rightarrow> raw_unit_ref \<Rightarrow> u64 set \<times> string set \<Rightarrow> validation_error + (u64 set \<times> string set)" where
  "validate_coverage_unit max_ordinal ordinal e seen =
     (case seen of (ordinals, ids) \<Rightarrow>
      if ordinal = 0 \<or> max_ordinal < ordinal \<or> ru_coverage_ordinal e \<noteq> ordinal
      then Inl (verr ''coverage_ordinal'' ''coverage ordinal is out of range or differs from evidence'')
      else
        bind_res (insert_new (verr ''coverage_overlap'' ''a raw unit cannot be both consumed and skipped'')
          ordinal ordinals) (\<lambda>ordinals.
        bind_res (validate_evidence e) (\<lambda>_.
        bind_res (insert_new (verr ''evidence_uniqueness'' ''duplicate evidence_event_id is fatal'')
          (ru_evidence_event_id e) ids) (\<lambda>ids. Inr (ordinals, ids)))))"

definition consumed_step ::
  "u64 \<Rightarrow> u64 set \<times> string set \<Rightarrow> consumed_unit \<Rightarrow> validation_error + (u64 set \<times> string set)" where
  "consumed_step raw seen u =
     bind_res (validate_coverage_unit raw (cu_ordinal u) (cu_evidence u) seen) (\<lambda>seen.
     if cu_kind u = [] then Inl (verr ''consumed_kind'' ''consumed unit kind cannot be empty'')
     else Inr seen)"

definition skipped_step ::
  "u64 \<Rightarrow> u64 set \<times> string set \<Rightarrow> skipped_unit \<Rightarrow> validation_error + (u64 set \<times> string set)" where
  "skipped_step raw seen u =
     bind_res (validate_coverage_unit raw (su_ordinal u) (su_evidence u) seen) (\<lambda>seen.
     if su_bytes u \<noteq> ru_original_bytes (su_evidence u)
     then Inl (verr ''skipped_byte_count'' ''skipped-unit bytes differ from evidence bytes'')
     else Inr seen)"

definition warning_count :: "coverage_report \<Rightarrow> warning_kind \<Rightarrow> u64" where
  "warning_count c kind = u64_sum (map cw_count (filter (\<lambda>w. cw_kind w = kind) (warnings c)))"

definition skipped_count_of :: "coverage_report \<Rightarrow> skipped_reason \<Rightarrow> u64" where
  "skipped_count_of c reason = length (filter (\<lambda>u. su_reason u = reason) (skipped c))"

definition unsupported_visible :: "coverage_report \<Rightarrow> bool" where
  "unsupported_visible c \<longleftrightarrow>
     list_ex (\<lambda>u. su_visible u \<and> (su_reason u = Unsupported \<or> su_reason u = UnknownPayloadType)) (skipped c)"

text \<open>The checks on records and ranges, then those on warnings, flags and status.\<close>

definition validate_records :: "coverage_report \<Rightarrow> validation_error + unit" where
  "validate_records c =
     bind_res (require (consumed_count c = length (consumed c) \<and> skipped_count c = length (skipped c))
       (verr ''coverage_counts'' ''reported coverage counts differ from record lengths'')) (\<lambda>_.
     bind_res (require (u64_checked_add (consumed_count c) (skipped_count c) = Some (raw_unit_count c))
       (verr ''coverage_partition_count'' ''consumed + skipped must equal raw_unit_count'')) (\<lambda>_.
     bind_res (require (\<not> raw_unit_count c < raw_line_count c)
       (verr ''physical_logical_counts'' ''raw_line_count cannot exceed raw_unit_count'')) (\<lambda>_.
     bind_res (fold_res (consumed_step (raw_unit_count c)) ({}, {}) (consumed c)) (\<lambda>seen.
     bind_res (fold_res (skipped_step (raw_unit_count c)) seen (skipped c)) (\<lambda>(ordinals, _).
     bind_res (require (card ordinals = raw_unit_count c \<and> {1..raw_unit_count c} \<subseteq> ordinals)
       (verr ''coverage_gap'' ''coverage ordinals must be gap-free from 1 through raw_unit_count'')) (\<lambda>_.
     require (consumed_ranges c = ranges_for (map cu_ordinal (consumed c)))
       (verr ''consumed_ranges'' ''consumed_ranges do not exactly encode consumed ordinals'')))))))"

definition validate_warnings :: "coverage_report \<Rightarrow> validation_error + unit" where
  "validate_warnings c =
     bind_res (each_res (\<lambda>w.
       require (\<not> (cw_count w = 0 \<or> cw_first_ordinal w = 0 \<or> raw_unit_count c < cw_first_ordinal w))
         (verr ''warning_accounting'' ''warning count and first ordinal must reference covered units''))
       (warnings c)) (\<lambda>_.
     bind_res (require (\<not> warning_count c WarnUnknownPayloadType < skipped_count_of c UnknownPayloadType)
       (verr ''silent_unknown'' ''every unknown payload must emit a typed warning'')) (\<lambda>_.
     require (\<not> warning_count c WarnOversizedUnit < skipped_count_of c Oversized)
       (verr ''silent_oversized'' ''every oversized unit must emit a typed warning'')))"

definition validate_boundaries :: "coverage_report \<Rightarrow> validation_error + unit" where
  "validate_boundaries c =
     bind_res (require (\<not> (0 < skipped_count_of c EncryptedOpaque
         \<and> \<not> opaque_reasoning_present (st_flags (status c))))
       (verr ''opaque_boundary'' ''encrypted opaque units require opaque_reasoning_present'')) (\<lambda>_.
     bind_res (require (\<not> (0 < skipped_count_of c CompactionReplay
         \<and> \<not> compaction_boundary_present (st_flags (status c))))
       (verr ''compaction_boundary'' ''compaction_replay skips require compaction_boundary_present'')) (\<lambda>_.
     require (\<not> (unsupported_visible c \<and> \<not> unsupported_visible_event (st_flags (status c))))
       (verr ''unsupported_boundary'' ''preserved unsupported visible units require the boundary flag'')))"

definition validate_status :: "coverage_report \<Rightarrow> bool \<Rightarrow> validation_error + unit" where
  "validate_status c projected =
     (let st = status c in
      bind_res (require (\<not> (st_malformed_tail st \<and> st_completeness st = CompleteVisible))
        (verr ''malformed_complete'' ''malformed tail forbids complete_visible'')) (\<lambda>_.
      bind_res (require (\<not> (st_completeness st = PartialVisible \<and> \<not> st_malformed_tail st
          \<and> \<not> st_event_lost st))
        (verr ''partial_without_loss'' ''partial_visible requires concrete visible loss'')) (\<lambda>_.
      bind_res (require (\<not> (unsupported_visible_event (st_flags st)
          \<and> u64_sum (map cw_count (warnings c)) = 0))
        (verr ''unsupported_without_warning'' ''unsupported visible boundary requires a warning'')) (\<lambda>_.
      bind_res (require (\<not> (st_completeness st = Fatal \<and> projected))
        (verr ''fatal_projection'' ''fatal parse cannot project or ingest a model'')) (\<lambda>_.
      require (\<not> (st_completeness st \<noteq> Fatal \<and> \<not> projected))
        (verr ''missing_nonfatal_model'' ''non-fatal parse must preserve its valid model''))))))"

definition validate_coverage :: "coverage_report \<Rightarrow> bool \<Rightarrow> validation_error + unit" where
  "validate_coverage c projected =
     bind_res (validate_records c) (\<lambda>_.
     bind_res (validate_warnings c) (\<lambda>_.
     bind_res (validate_boundaries c) (\<lambda>_.
     bind_res (validate_status c projected) (\<lambda>_.
     map_err (totality_error_of c) (check_totality c)))))"

section \<open>Models\<close>

definition coverage_evidence :: "coverage_report \<Rightarrow> raw_unit_ref list" where
  "coverage_evidence c = map cu_evidence (consumed c) @ map su_evidence (skipped c)"

definition validate_derivation ::
  "(string \<Rightarrow> bool) \<Rightarrow> session_model \<Rightarrow> raw_unit_ref \<Rightarrow> validation_error + unit" where
  "validate_derivation printable m e =
     bind_res (map_err (\<lambda>err. verr ''evidence_derivation'' (evidence_id_error_display printable err))
         (evidence_event_id_from_hash (pv_agent (sm_provenance m)) (sm_session_id m) (ru_locator e)
           (ru_unit_kind e) (ru_content_hash e))) (\<lambda>expected.
     require (ru_evidence_event_id e = expected)
       (verr ''evidence_derivation'' ''evidence_event_id does not match derivation v1''))"

definition validate_turn ::
  "(string \<Rightarrow> int option) \<Rightarrow> string set \<Rightarrow> nat \<times> turn \<Rightarrow> validation_error + unit" where
  "validate_turn rfc3339 known_ids it =
     (case it of (index, t) \<Rightarrow>
      bind_res (require (tn_turn_idx t = index)
        (verr ''turn_order'' ''turn indexes must be contiguous from zero'')) (\<lambda>_.
      bind_res (require (tn_text_chars t = chars_count (tn_text t)
          \<and> tn_text_hash t = sha256_hex (tn_text t))
        (verr ''turn_text_integrity'' ''turn text hash or character count is invalid'')) (\<lambda>_.
      bind_res (validate_known_timestamp rfc3339 (tn_timestamp t)) (\<lambda>_.
      each_res (validate_evidence_reference known_ids) (tn_refs t)))))"

text \<open>The state of the loop over segments: the ids seen and the next turn to cover.\<close>

definition segment_step ::
  "turn list \<Rightarrow> u32 set \<times> u64 \<Rightarrow> segment \<Rightarrow> validation_error + (u32 set \<times> u64)" where
  "segment_step turns st s =
     (case st of (ids, next_turn) \<Rightarrow>
      if sg_id s \<in> ids \<or> tr_start (sg_range s) \<noteq> next_turn
         \<or> tr_end (sg_range s) < tr_start (sg_range s) \<or> length turns \<le> tr_end (sg_range s)
      then Inl (verr ''segment_ranges''
                  ''segment turn ranges must be unique, ordered, gap-free, and in range'')
      else
        bind_res (each_res (\<lambda>t.
            require (tn_segment_id t = sg_id s)
              (verr ''segment_binding'' ''turn segment_id differs from its covering segment''))
          (take (tr_end (sg_range s) + 1 - tr_start (sg_range s))
            (drop (tr_start (sg_range s)) turns))) (\<lambda>_.
        Inr (insert (sg_id s) ids, tr_end (sg_range s) + 1)))"

definition validate_segments :: "session_model \<Rightarrow> validation_error + unit" where
  "validate_segments m =
     bind_res (fold_res (segment_step (sm_turns m)) ({}, 0) (sm_segments m)) (\<lambda>(_, next_turn).
     require (next_turn = length (sm_turns m))
       (verr ''segment_coverage'' ''segments must cover every turn exactly once''))"

definition validate_skill ::
  "(string \<Rightarrow> int option) \<Rightarrow> session_model \<Rightarrow> skill_invocation \<Rightarrow> validation_error + unit" where
  "validate_skill rfc3339 m k =
     bind_res (require (\<not> (length (sm_turns m) \<le> sk_turn_idx k \<or> sk_skill_name k = []))
       (verr ''skill_invocation'' ''skill invocation must reference an existing turn and named skill'')) (\<lambda>_.
     bind_res (validate_hash ''skill_payload_hash'' (sk_payload_hash k)) (\<lambda>_.
     validate_known_timestamp rfc3339 (sk_first_invoked_at k)))"

definition validate_tool ::
  "string set \<Rightarrow> session_model \<Rightarrow> tool_event \<Rightarrow> validation_error + unit" where
  "validate_tool known_ids m t =
     bind_res (require (\<not> (length (sm_turns m) \<le> te_turn_idx t \<or> te_tool_name t = []))
       (verr ''tool_event'' ''tool event must reference an existing turn and named tool'')) (\<lambda>_.
     bind_res (validate_hash ''tool_payload_hash'' (te_payload_hash t)) (\<lambda>_.
     each_res (validate_evidence_reference known_ids) (te_refs t)))"

definition validate_usage_event ::
  "(string \<Rightarrow> int option) \<Rightarrow> string set \<Rightarrow> usage_event \<Rightarrow> validation_error + unit" where
  "validate_usage_event rfc3339 known_ids u =
     bind_res (validate_usage rfc3339 u) (\<lambda>_. validate_evidence_reference known_ids (ue_evidence u))"

definition validate_model ::
  "(string \<Rightarrow> bool) \<Rightarrow> (string \<Rightarrow> int option) \<Rightarrow> session_model \<Rightarrow> validation_error + unit" where
  "validate_model printable rfc3339 m =
     bind_res (require (sm_schema m = session_model_schema)
       (verr ''model_schema'' ''unknown SessionModel schema'')) (\<lambda>_.
     bind_res (require (sm_session_id m \<noteq> []) (verr ''session_id'' ''session id cannot be empty'')) (\<lambda>_.
     bind_res (validate_hash ''source_hash'' (pv_source_hash (sm_provenance m))) (\<lambda>_.
     bind_res (validate_known_timestamp rfc3339 (pv_started_at (sm_provenance m))) (\<lambda>_.
     bind_res (validate_known_timestamp rfc3339 (pv_ended_at (sm_provenance m))) (\<lambda>_.
     bind_res (each_res (validate_derivation printable m) (coverage_evidence (sm_coverage m))) (\<lambda>_.
     let known_ids = ru_evidence_event_id ` set (coverage_evidence (sm_coverage m)) in
     bind_res (each_res (validate_turn rfc3339 known_ids) (List.enumerate 0 (sm_turns m))) (\<lambda>_.
     bind_res (validate_segments m) (\<lambda>_.
     bind_res (each_res (validate_skill rfc3339 m) (sm_skills m)) (\<lambda>_.
     bind_res (each_res (validate_tool known_ids m) (sm_tool_events m)) (\<lambda>_.
     each_res (validate_usage_event rfc3339 known_ids) (sm_usage_events m)))))))))))"

section \<open>Parses\<close>

record unvalidated_parse =
  up_model :: "session_model option"
  up_coverage :: coverage_report

definition unvalidated_from_model :: "session_model \<Rightarrow> unvalidated_parse" where
  "unvalidated_from_model m = \<lparr>up_model = Some m, up_coverage = sm_coverage m\<rparr>"

definition unvalidated_fatal :: "coverage_report \<Rightarrow> unvalidated_parse" where
  "unvalidated_fatal c = \<lparr>up_model = None, up_coverage = c\<rparr>"

text \<open>A \<^verbatim>\<open>ValidatedSession\<close> holds its model, a \<^verbatim>\<open>FatalParse\<close> its coverage.\<close>

datatype validated_parse = ValidSession session_model | FatalParse coverage_report

definition validated_identity :: "session_model \<Rightarrow> package_identity" where
  "validated_identity m =
     \<lparr>store_id = sm_session_id m, pkg_content_hash = pv_source_hash (sm_provenance m)\<rparr>"

definition validate_parse ::
  "(string \<Rightarrow> bool) \<Rightarrow> (string \<Rightarrow> int option) \<Rightarrow> unvalidated_parse
    \<Rightarrow> validation_error + validated_parse" where
  "validate_parse printable rfc3339 p =
     bind_res (validate_coverage (up_coverage p) (up_model p \<noteq> None)) (\<lambda>_.
     case up_model p of
       Some m \<Rightarrow>
         if sm_coverage m \<noteq> up_coverage p
         then Inl (verr ''coverage_single_source'' ''model coverage differs from parse-envelope coverage'')
         else bind_res (validate_model printable rfc3339 m) (\<lambda>_. Inr (ValidSession m))
     | None \<Rightarrow> Inr (FatalParse (up_coverage p)))"

lemmas [rust_eval] = validate_hash_def parse_timestamp_def validate_known_timestamp_def
  validate_evidence_def validate_evidence_reference_def validate_usage_def
  validate_coverage_unit_def consumed_step_def skipped_step_def warning_count_def
  skipped_count_of_def unsupported_visible_def validate_records_def validate_warnings_def
  validate_boundaries_def validate_status_def validate_coverage_def coverage_evidence_def
  validate_derivation_def validate_turn_def segment_step_def validate_segments_def
  validate_skill_def validate_tool_def validate_usage_event_def validate_model_def
  validate_parse_def

section \<open>What the small checks accept\<close>

lemma validate_hash_ok [res_simps]: "validate_hash l h = Inr u \<longleftrightarrow> hash_ok h"
  by (simp add: validate_hash_def hash_ok_def res_simps)

definition known_instant :: "(string \<Rightarrow> int option) \<Rightarrow> string known \<Rightarrow> bool" where
  "known_instant rfc3339 t \<longleftrightarrow> (case t of Unknown \<Rightarrow> True | Value v \<Rightarrow> rfc3339 v \<noteq> None)"

lemma validate_known_timestamp_ok [res_simps]:
  "validate_known_timestamp rfc3339 t = Inr u \<longleftrightarrow> known_instant rfc3339 t"
  by (auto simp: validate_known_timestamp_def known_instant_def parse_timestamp_def res_simps
      split: known.splits option.splits)

definition evidence_ok :: "raw_unit_ref \<Rightarrow> bool" where
  "evidence_ok e \<longleftrightarrow>
     starts_with (ru_evidence_event_id e) ''ev1:'' \<and> ru_locator e \<noteq> [] \<and> ru_unit_kind e \<noteq> []
     \<and> ru_artifact e \<noteq> [] \<and> \<not> has_separator (ru_artifact e) \<and> hash_ok (ru_content_hash e)"

lemma validate_evidence_ok [res_simps]: "validate_evidence e = Inr u \<longleftrightarrow> evidence_ok e"
  by (auto simp: validate_evidence_def evidence_ok_def res_simps)

lemma validate_evidence_reference_ok [res_simps]:
  "validate_evidence_reference ids e = Inr u \<longleftrightarrow> evidence_ok e \<and> ru_evidence_event_id e \<in> ids"
  by (simp add: validate_evidence_reference_def res_simps)

section \<open>What a valid coverage report is\<close>

definition unit_accounted :: "u64 \<Rightarrow> u64 \<Rightarrow> raw_unit_ref \<Rightarrow> bool" where
  "unit_accounted raw ordinal e \<longleftrightarrow>
     1 \<le> ordinal \<and> ordinal \<le> raw \<and> ru_coverage_ordinal e = ordinal \<and> evidence_ok e"

lemma consumed_step_ok:
  "consumed_step raw s u = Inr s' \<longleftrightarrow>
     (unit_accounted raw (cu_ordinal u) (cu_evidence u) \<and> cu_kind u \<noteq> [])
     \<and> cu_ordinal u \<notin> fst s \<and> ru_evidence_event_id (cu_evidence u) \<notin> snd s
     \<and> s' = (insert (cu_ordinal u) (fst s), insert (ru_evidence_event_id (cu_evidence u)) (snd s))"
  by (auto simp: consumed_step_def validate_coverage_unit_def unit_accounted_def res_simps
      split: prod.splits if_splits)

lemma skipped_step_ok:
  "skipped_step raw s u = Inr s' \<longleftrightarrow>
     (unit_accounted raw (su_ordinal u) (su_evidence u) \<and> su_bytes u = ru_original_bytes (su_evidence u))
     \<and> su_ordinal u \<notin> fst s \<and> ru_evidence_event_id (su_evidence u) \<notin> snd s
     \<and> s' = (insert (su_ordinal u) (fst s), insert (ru_evidence_event_id (su_evidence u)) (snd s))"
  by (auto simp: skipped_step_def validate_coverage_unit_def unit_accounted_def res_simps
      split: prod.splits if_splits)

definition all_ordinals :: "coverage_report \<Rightarrow> u64 list" where
  "all_ordinals c = map cu_ordinal (consumed c) @ map su_ordinal (skipped c)"

text \<open>Every raw unit once, each with an identified piece of evidence of its own.\<close>

definition units_partition :: "coverage_report \<Rightarrow> bool" where
  "units_partition c \<longleftrightarrow>
     distinct (all_ordinals c) \<and> set (all_ordinals c) = {1..raw_unit_count c}
     \<and> map ru_coverage_ordinal (coverage_evidence c) = all_ordinals c"

definition evidence_identified :: "coverage_report \<Rightarrow> bool" where
  "evidence_identified c \<longleftrightarrow>
     list_all evidence_ok (coverage_evidence c)
     \<and> distinct (map ru_evidence_event_id (coverage_evidence c))
     \<and> list_all (\<lambda>u. cu_kind u \<noteq> []) (consumed c)
     \<and> list_all (\<lambda>u. su_bytes u = ru_original_bytes (su_evidence u)) (skipped c)"

definition warnings_loud :: "coverage_report \<Rightarrow> bool" where
  "warnings_loud c \<longleftrightarrow>
     list_all (\<lambda>w. 1 \<le> cw_count w \<and> 1 \<le> cw_first_ordinal w \<and> cw_first_ordinal w \<le> raw_unit_count c)
       (warnings c)
     \<and> skipped_count_of c UnknownPayloadType \<le> warning_count c WarnUnknownPayloadType
     \<and> skipped_count_of c Oversized \<le> warning_count c WarnOversizedUnit"

definition flags_raised :: "coverage_report \<Rightarrow> bool" where
  "flags_raised c \<longleftrightarrow>
     (EncryptedOpaque \<in> su_reason ` set (skipped c) \<longrightarrow> opaque_reasoning_present (st_flags (status c)))
     \<and> (CompactionReplay \<in> su_reason ` set (skipped c) \<longrightarrow>
          compaction_boundary_present (st_flags (status c)))
     \<and> (unsupported_visible c \<longrightarrow> unsupported_visible_event (st_flags (status c)))"

definition status_honest :: "coverage_report \<Rightarrow> bool \<Rightarrow> bool" where
  "status_honest c projected \<longleftrightarrow>
     (st_malformed_tail (status c) \<longrightarrow> st_completeness (status c) \<noteq> CompleteVisible)
     \<and> (st_completeness (status c) = PartialVisible \<longrightarrow>
          st_malformed_tail (status c) \<or> st_event_lost (status c))
     \<and> (unsupported_visible_event (st_flags (status c)) \<longrightarrow> u64_sum (map cw_count (warnings c)) \<noteq> 0)
     \<and> (projected \<longleftrightarrow> st_completeness (status c) \<noteq> Fatal)"

lemma accounted_consumed:
  "list_all (\<lambda>u. unit_accounted raw (cu_ordinal u) (cu_evidence u) \<and> cu_kind u \<noteq> []) us \<longleftrightarrow>
     set (map cu_ordinal us) \<subseteq> {1..raw} \<and> map ru_coverage_ordinal (map cu_evidence us) = map cu_ordinal us
     \<and> list_all evidence_ok (map cu_evidence us) \<and> list_all (\<lambda>u. cu_kind u \<noteq> []) us"
  by (induction us) (auto simp: unit_accounted_def)

lemma accounted_skipped:
  "list_all (\<lambda>u. unit_accounted raw (su_ordinal u) (su_evidence u)
       \<and> su_bytes u = ru_original_bytes (su_evidence u)) us \<longleftrightarrow>
     set (map su_ordinal us) \<subseteq> {1..raw} \<and> map ru_coverage_ordinal (map su_evidence us) = map su_ordinal us
     \<and> list_all evidence_ok (map su_evidence us)
     \<and> list_all (\<lambda>u. su_bytes u = ru_original_bytes (su_evidence u)) us"
  by (induction us) (auto simp: unit_accounted_def)

lemma record_loops:
  "bind_res (fold_res (consumed_step raw) ({}, {}) (consumed c)) (\<lambda>seen.
     fold_res (skipped_step raw) seen (skipped c)) = Inr (ords, ids) \<longleftrightarrow>
   list_all (\<lambda>u. unit_accounted raw (cu_ordinal u) (cu_evidence u) \<and> cu_kind u \<noteq> []) (consumed c)
   \<and> list_all (\<lambda>u. unit_accounted raw (su_ordinal u) (su_evidence u)
       \<and> su_bytes u = ru_original_bytes (su_evidence u)) (skipped c)
   \<and> distinct (all_ordinals c) \<and> distinct (map ru_evidence_event_id (coverage_evidence c))
   \<and> ords = set (all_ordinals c) \<and> ids = ru_evidence_event_id ` set (coverage_evidence c)"
  unfolding bind_res_Inr_iff insert_pair_loop [OF consumed_step_ok] insert_pair_loop [OF skipped_step_ok]
  by (auto simp: all_ordinals_def coverage_evidence_def comp_def image_image)

lemma bind_res_assoc: "bind_res (bind_res r f) g = bind_res r (\<lambda>a. bind_res (f a) g)"
  by (cases r) auto

lemma validate_records_ok:
  "validate_records c = Inr u \<longleftrightarrow>
     total_partition c \<and> raw_line_count c \<le> raw_unit_count c
     \<and> units_partition c \<and> evidence_identified c
     \<and> consumed_ranges c = ranges_for (map cu_ordinal (consumed c))"
proof -
  let ?loop = "bind_res (fold_res (consumed_step (raw_unit_count c)) ({}, {}) (consumed c)) (\<lambda>seen.
     fold_res (skipped_step (raw_unit_count c)) seen (skipped c))"
  have split: "validate_records c = Inr u \<longleftrightarrow>
      total_partition c \<and> raw_line_count c \<le> raw_unit_count c
      \<and> (\<exists>ords ids. ?loop = Inr (ords, ids) \<and> card ords = raw_unit_count c
           \<and> {1..raw_unit_count c} \<subseteq> ords)
      \<and> consumed_ranges c = ranges_for (map cu_ordinal (consumed c))"
    unfolding bind_res_Inr_iff [of ?loop]
    by (auto simp: validate_records_def total_partition_def res_simps rust_arith not_less)
  have card: "card (set (all_ordinals c)) = raw_unit_count c"
    if "set (all_ordinals c) = {1..raw_unit_count c}" using that by simp
  have sub: "set (all_ordinals c) = {1..raw_unit_count c}"
    if "set (all_ordinals c) \<subseteq> {1..raw_unit_count c}" "{1..raw_unit_count c} \<subseteq> set (all_ordinals c)"
    using that by blast
  show ?thesis
    unfolding split record_loops accounted_consumed accounted_skipped units_partition_def
      evidence_identified_def
    using card sub by (auto simp: all_ordinals_def coverage_evidence_def)
qed

lemma validate_warnings_ok: "validate_warnings c = Inr u \<longleftrightarrow> warnings_loud c"
  by (auto simp: validate_warnings_def warnings_loud_def res_simps list_all_iff)

lemma skipped_count_pos: "0 < skipped_count_of c r \<longleftrightarrow> r \<in> su_reason ` set (skipped c)"
  by (auto simp: skipped_count_of_def filter_empty_conv)

lemma validate_boundaries_ok: "validate_boundaries c = Inr u \<longleftrightarrow> flags_raised c"
  by (auto simp: validate_boundaries_def flags_raised_def skipped_count_pos res_simps)

lemma validate_status_ok: "validate_status c projected = Inr u \<longleftrightarrow> status_honest c projected"
  by (auto simp: validate_status_def status_honest_def res_simps Let_def)

lemma validate_coverage_ok:
  "validate_coverage c projected = Inr u \<longleftrightarrow>
     total_partition c \<and> raw_line_count c \<le> raw_unit_count c \<and> units_partition c \<and> evidence_identified c
     \<and> consumed_ranges c = ranges_for (map cu_ordinal (consumed c))
     \<and> warnings_loud c \<and> flags_raised c \<and> status_honest c projected \<and> ledger_of_records c"
proof -
  have "check_totality c = Inr () \<longleftrightarrow> ledger_of_records c" if "total_partition c"
    using that by (subst check_totality_Inr) (auto simp: total_partition_def)
  then show ?thesis
    by (auto simp: validate_coverage_def validate_records_ok validate_warnings_ok validate_boundaries_ok
        validate_status_ok res_simps)
qed

section \<open>What valid segments are\<close>

definition segment_turns :: "segment \<Rightarrow> nat list" where
  "segment_turns s = [tr_start (sg_range s)..<Suc (tr_end (sg_range s))]"

definition segment_labels :: "segment \<Rightarrow> u32 list" where
  "segment_labels s = replicate (Suc (tr_end (sg_range s)) - tr_start (sg_range s)) (sg_id s)"

definition segment_nonempty :: "segment \<Rightarrow> bool" where
  "segment_nonempty s \<longleftrightarrow> tr_start (sg_range s) \<le> tr_end (sg_range s)"

lemma segment_step_ok:
  "segment_step turns (ids, k) s = Inr st \<longleftrightarrow>
     sg_id s \<notin> ids \<and> tr_start (sg_range s) = k \<and> segment_nonempty s \<and> tr_end (sg_range s) < length turns
     \<and> map tn_segment_id (take (Suc (tr_end (sg_range s)) - k) (drop k turns)) = segment_labels s
     \<and> st = (insert (sg_id s) ids, Suc (tr_end (sg_range s)))"
proof -
  let ?n = "Suc (tr_end (sg_range s)) - k"
  have "list_all (\<lambda>t. tn_segment_id t = sg_id s) (take ?n (drop k turns)) \<longleftrightarrow>
      map tn_segment_id (take ?n (drop k turns)) = replicate ?n (sg_id s)"
    if "tr_end (sg_range s) < length turns" "k \<le> tr_end (sg_range s)"
    using that by (simp add: list_all_labels)
  then show ?thesis
    by (auto simp: segment_step_def segment_nonempty_def segment_labels_def res_simps not_le not_less)
qed

lemma segment_loop_ok:
  assumes "k \<le> length turns"
  shows "(\<exists>ids'. fold_res (segment_step turns) (ids, k) segs = Inr (ids', length turns)) \<longleftrightarrow>
    distinct (map sg_id segs) \<and> ids \<inter> sg_id ` set segs = {} \<and> list_all segment_nonempty segs
    \<and> concat (map segment_turns segs) = [k..<length turns]
    \<and> map tn_segment_id (drop k turns) = concat (map segment_labels segs)"
  using assms
proof (induction segs arbitrary: ids k)
  case Nil
  then show ?case by auto
next
  case (Cons s segs)
  let ?e = "Suc (tr_end (sg_range s))"
  show ?case
  proof (cases "tr_start (sg_range s) = k \<and> segment_nonempty s \<and> tr_end (sg_range s) < length turns")
    case False
    have "tr_start (sg_range s) = k \<and> tr_end (sg_range s) < length turns"
      if ne: "segment_nonempty s" and eq: "segment_turns s @ r = [k..<length turns]" for r
    proof -
      have seg: "segment_turns s = tr_start (sg_range s) # [Suc (tr_start (sg_range s))..<?e]"
        using ne by (simp add: segment_turns_def segment_nonempty_def upt_rec)
      have "tr_end (sg_range s) \<in> set (segment_turns s)"
        using ne by (simp add: segment_turns_def segment_nonempty_def)
      then have "tr_end (sg_range s) \<in> set [k..<length turns]" using eq by (metis UnI1 set_append)
      then have lt: "k < length turns" "tr_end (sg_range s) < length turns" by auto
      then have "[k..<length turns] = k # [Suc k..<length turns]" by (simp add: upt_rec)
      with eq seg lt(2) show ?thesis by simp
    qed
    with False show ?thesis by (auto simp: segment_step_ok res_simps)
  next
    case True
    have "k \<le> ?e" "?e + (length turns - ?e) = length turns"
      using True by (auto simp: segment_nonempty_def)
    then have cut: "[k..<length turns] = segment_turns s @ [?e..<length turns]"
      using True upt_add_eq_append [of k ?e "length turns - ?e"]
      by (simp only: segment_turns_def)
    have len: "length (segment_labels s) = ?e - k" using True by (simp add: segment_labels_def)
    have "drop k turns = take (?e - k) (drop k turns) @ drop ?e turns"
    proof -
      have "drop (?e - k) (drop k turns) = drop ?e turns"
        using True by (simp add: segment_nonempty_def)
      then show ?thesis using append_take_drop_id [of "?e - k" "drop k turns"] by simp
    qed
    then have labels: "map tn_segment_id (drop k turns) =
        map tn_segment_id (take (?e - k) (drop k turns)) @ map tn_segment_id (drop ?e turns)"
      by (metis map_append)
    have lens: "length (map tn_segment_id (take (?e - k) (drop k turns))) = length (segment_labels s)"
      using True len by (auto simp: segment_nonempty_def min_def)
    have both: "map tn_segment_id (drop k turns) = segment_labels s @ r \<longleftrightarrow>
        map tn_segment_id (take (?e - k) (drop k turns)) = segment_labels s
        \<and> map tn_segment_id (drop ?e turns) = r" for r
      unfolding labels by (rule append_eq_append_conv) (use lens in simp)
    show ?thesis
      using True Cons.IH [of ?e "insert (sg_id s) ids"]
      by (auto simp: segment_step_ok res_simps cut both)
  qed
qed

lemma segment_loop_bound:
  assumes "fold_res (segment_step turns) (ids, k) segs = Inr (ids', k')" and "k \<le> length turns"
  shows "k' \<le> length turns"
proof -
  have "snd (ids', k') \<le> length turns"
    by (rule fold_res_invariant [OF assms(1), where P = "\<lambda>st. snd st \<le> length turns"])
       (use assms(2) in \<open>auto simp: segment_step_ok\<close>)
  then show ?thesis by simp
qed

text \<open>The segments are the turns cut into consecutive non-empty runs, each run labelled with its
  segment's own id.\<close>

definition segments_cover :: "session_model \<Rightarrow> bool" where
  "segments_cover m \<longleftrightarrow>
     distinct (map sg_id (sm_segments m)) \<and> list_all segment_nonempty (sm_segments m)
     \<and> concat (map segment_turns (sm_segments m)) = [0..<length (sm_turns m)]
     \<and> map tn_segment_id (sm_turns m) = concat (map segment_labels (sm_segments m))"

lemma validate_segments_ok: "validate_segments m = Inr u \<longleftrightarrow> segments_cover m"
proof -
  have "validate_segments m = Inr u \<longleftrightarrow>
      (\<exists>ids. fold_res (segment_step (sm_turns m)) ({}, 0) (sm_segments m) = Inr (ids, length (sm_turns m)))"
    by (auto simp: validate_segments_def res_simps)
  then show ?thesis by (simp add: segment_loop_ok segments_cover_def)
qed

section \<open>What a valid model is\<close>

definition turn_intact :: "(string \<Rightarrow> int option) \<Rightarrow> string set \<Rightarrow> turn \<Rightarrow> bool" where
  "turn_intact rfc3339 ids t \<longleftrightarrow>
     tn_text_chars t = chars_count (tn_text t) \<and> tn_text_hash t = sha256_hex (tn_text t)
     \<and> known_instant rfc3339 (tn_timestamp t)
     \<and> list_all (\<lambda>e. evidence_ok e \<and> ru_evidence_event_id e \<in> ids) (tn_refs t)"

definition turns_intact :: "(string \<Rightarrow> int option) \<Rightarrow> session_model \<Rightarrow> bool" where
  "turns_intact rfc3339 m \<longleftrightarrow>
     map tn_turn_idx (sm_turns m) = [0..<length (sm_turns m)]
     \<and> list_all (turn_intact rfc3339 (ru_evidence_event_id ` set (coverage_evidence (sm_coverage m))))
         (sm_turns m)"

definition evidence_derived :: "session_model \<Rightarrow> bool" where
  "evidence_derived m \<longleftrightarrow>
     list_all (\<lambda>e. evidence_event_id_from_hash (pv_agent (sm_provenance m)) (sm_session_id m)
         (ru_locator e) (ru_unit_kind e) (ru_content_hash e) = Inr (ru_evidence_event_id e))
       (coverage_evidence (sm_coverage m))"

definition skill_bound :: "(string \<Rightarrow> int option) \<Rightarrow> session_model \<Rightarrow> skill_invocation \<Rightarrow> bool" where
  "skill_bound rfc3339 m k \<longleftrightarrow>
     sk_turn_idx k < length (sm_turns m) \<and> sk_skill_name k \<noteq> [] \<and> hash_ok (sk_payload_hash k)
     \<and> known_instant rfc3339 (sk_first_invoked_at k)"

definition tool_bound :: "session_model \<Rightarrow> tool_event \<Rightarrow> bool" where
  "tool_bound m t \<longleftrightarrow>
     te_turn_idx t < length (sm_turns m) \<and> te_tool_name t \<noteq> [] \<and> hash_ok (te_payload_hash t)
     \<and> list_all (\<lambda>e. evidence_ok e
          \<and> ru_evidence_event_id e \<in> ru_evidence_event_id ` set (coverage_evidence (sm_coverage m))) (te_refs t)"

definition cost_ok :: "reported_cost \<Rightarrow> bool" where
  "cost_ok c \<longleftrightarrow> f64_is_finite (rc_amount c) \<and> \<not> f64_lt_zero (rc_amount c) \<and> rc_currency c \<noteq> []"

definition span_ok :: "(string \<Rightarrow> int option) \<Rightarrow> usage_span \<Rightarrow> bool" where
  "span_ok rfc3339 s \<longleftrightarrow>
     (case (rfc3339 (us_start s), rfc3339 (us_end s)) of
        (Some a, Some b) \<Rightarrow> a \<le> b | _ \<Rightarrow> False)"

definition usage_ok :: "(string \<Rightarrow> int option) \<Rightarrow> session_model \<Rightarrow> usage_event \<Rightarrow> bool" where
  "usage_ok rfc3339 m u \<longleftrightarrow>
     ue_provider u \<noteq> [] \<and> ue_model u \<noteq> Value []
     \<and> (case ue_cost u of Unknown \<Rightarrow> True | Value c \<Rightarrow> cost_ok c)
     \<and> known_instant rfc3339 (ue_timestamp u)
     \<and> (case ue_span u of Unknown \<Rightarrow> True | Value s \<Rightarrow> span_ok rfc3339 s)
     \<and> evidence_ok (ue_evidence u)
     \<and> ru_evidence_event_id (ue_evidence u) \<in>
         ru_evidence_event_id ` set (coverage_evidence (sm_coverage m))"

lemma parse_timestamp_ok [res_simps]: "parse_timestamp rfc3339 t = Inr i \<longleftrightarrow> rfc3339 t = Some i"
  by (auto simp: parse_timestamp_def split: option.splits)

lemma validate_derivation_ok [res_simps]:
  "validate_derivation printable m e = Inr u \<longleftrightarrow>
     evidence_event_id_from_hash (pv_agent (sm_provenance m)) (sm_session_id m)
       (ru_locator e) (ru_unit_kind e) (ru_content_hash e) = Inr (ru_evidence_event_id e)"
  by (auto simp: validate_derivation_def res_simps)

lemma validate_turn_ok:
  "validate_turn rfc3339 ids (i, t) = Inr u \<longleftrightarrow> tn_turn_idx t = i \<and> turn_intact rfc3339 ids t"
  by (auto simp: validate_turn_def turn_intact_def res_simps)

lemma validate_turns_ok:
  "list_all (\<lambda>x. validate_turn rfc3339 ids x = Inr ()) (List.enumerate n ts) \<longleftrightarrow>
     map tn_turn_idx ts = [n..<n + length ts] \<and> list_all (turn_intact rfc3339 ids) ts"
proof (induction ts arbitrary: n)
  case Nil
  then show ?case by simp
next
  case (Cons t ts)
  have upt: "[n..<n + length (t # ts)] = n # [Suc n..<Suc n + length ts]" by (simp add: upt_rec)
  show ?case
    unfolding upt by (auto simp: validate_turn_ok Cons.IH simp del: upt_Suc)
qed

lemma validate_skill_ok [res_simps]: "validate_skill rfc3339 m k = Inr u \<longleftrightarrow> skill_bound rfc3339 m k"
  by (auto simp: validate_skill_def skill_bound_def res_simps)

lemma validate_tool_ok [res_simps]:
  "validate_tool (ru_evidence_event_id ` set (coverage_evidence (sm_coverage m))) m t = Inr u
    \<longleftrightarrow> tool_bound m t"
  by (auto simp: validate_tool_def tool_bound_def res_simps)

lemma validate_usage_ok [res_simps]:
  "validate_usage_event rfc3339 (ru_evidence_event_id ` set (coverage_evidence (sm_coverage m))) u = Inr v
    \<longleftrightarrow> usage_ok rfc3339 m u"
  by (auto simp: validate_usage_event_def validate_usage_def usage_ok_def cost_ok_def span_ok_def res_simps
      split: known.splits option.splits)

lemma validate_model_ok:
  "validate_model printable rfc3339 m = Inr u \<longleftrightarrow>
     sm_schema m = session_model_schema \<and> sm_session_id m \<noteq> []
     \<and> hash_ok (pv_source_hash (sm_provenance m))
     \<and> known_instant rfc3339 (pv_started_at (sm_provenance m))
     \<and> known_instant rfc3339 (pv_ended_at (sm_provenance m))
     \<and> evidence_derived m \<and> turns_intact rfc3339 m \<and> segments_cover m
     \<and> list_all (skill_bound rfc3339 m) (sm_skills m) \<and> list_all (tool_bound m) (sm_tool_events m)
     \<and> list_all (usage_ok rfc3339 m) (sm_usage_events m)"
  by (auto simp: validate_model_def evidence_derived_def turns_intact_def validate_turns_ok
      validate_segments_ok res_simps Let_def)

section \<open>No validation error is a refusal\<close>

definition plain_failure :: "validation_error + 'a \<Rightarrow> bool" where
  "plain_failure r \<longleftrightarrow> (case r of Inl e \<Rightarrow> ve_refusal e = None | Inr _ \<Rightarrow> True)"

named_theorems plain_intro "computations whose errors carry no refusal"

lemma plain_Inr [plain_intro]: "plain_failure (Inr a)"
  and plain_verr [plain_intro]: "plain_failure (Inl (verr i d))"
  and plain_require [plain_intro]: "plain_failure (require b (verr i d))"
  and plain_insert [plain_intro]: "plain_failure (insert_new (verr i d) x s)"
  by (simp_all add: plain_failure_def verr_def require_def insert_new_def)

lemma plain_bind [plain_intro]:
  "plain_failure r \<Longrightarrow> (\<And>a. plain_failure (f a)) \<Longrightarrow> plain_failure (bind_res r f)"
  by (cases r) (auto simp: plain_failure_def)

lemma plain_map_err [plain_intro]: "(\<And>e. ve_refusal (g e) = None) \<Longrightarrow> plain_failure (map_err g r)"
  by (cases r) (auto simp: plain_failure_def)

lemma plain_fold [plain_intro]: "(\<And>s x. plain_failure (f s x)) \<Longrightarrow> plain_failure (fold_res f s xs)"
  by (induction xs arbitrary: s) (auto intro: plain_intro)

lemma plain_each [plain_intro]: "(\<And>x. plain_failure (f x)) \<Longrightarrow> plain_failure (each_res f xs)"
  by (simp add: each_res_def plain_fold)

lemma plain_if [plain_intro]:
  "plain_failure a \<Longrightarrow> plain_failure b \<Longrightarrow> plain_failure (if c then a else b)"
  by simp

lemma plain_leaves [plain_intro]:
  "plain_failure (validate_hash l h)" "plain_failure (parse_timestamp rfc3339 t)"
  "plain_failure (validate_evidence e)"
  by (auto simp: validate_hash_def parse_timestamp_def validate_evidence_def intro!: plain_intro
      split: option.splits)

lemma plain_known [plain_intro]: "plain_failure (validate_known_timestamp rfc3339 t)"
  by (cases t) (auto simp: validate_known_timestamp_def intro!: plain_intro)

lemma plain_reference [plain_intro]: "plain_failure (validate_evidence_reference ids e)"
  by (auto simp: validate_evidence_reference_def intro!: plain_intro)

lemma plain_steps [plain_intro]:
  "plain_failure (consumed_step raw s c)" "plain_failure (skipped_step raw s k)"
  "plain_failure (segment_step turns st g)"
  by (cases s; cases st; auto simp: consumed_step_def skipped_step_def validate_coverage_unit_def
      segment_step_def intro!: plain_intro)+

lemma plain_coverage [plain_intro]: "plain_failure (validate_coverage c p)"
  unfolding validate_coverage_def validate_records_def validate_warnings_def validate_boundaries_def
    validate_status_def Let_def case_prod_beta
  by (intro plain_intro) (simp add: totality_error_of_def verr_def)

lemma plain_usage [plain_intro]: "plain_failure (validate_usage rfc3339 u)"
  unfolding validate_usage_def by (auto intro!: plain_intro split: known.splits)

lemma plain_model [plain_intro]: "plain_failure (validate_model printable rfc3339 m)"
  unfolding validate_model_def validate_derivation_def validate_turn_def validate_segments_def
    validate_skill_def validate_tool_def validate_usage_event_def Let_def case_prod_beta
  by (intro plain_intro) (simp add: verr_def)

section \<open>Samples\<close>

text \<open>A report over two consumed units and one replayed unit, with evidence ids derived from a
  session, and a model over it: one turn, one segment.\<close>

definition unit_locator :: "nat \<Rightarrow> string" where
  "unit_locator n = (if n = 1 then ''000001'' else ''000002'')"

definition derived_ref :: "nat \<Rightarrow> raw_unit_ref" where
  "derived_ref n =
     \<lparr>ru_evidence_event_id =
        ''ev1:codex:s1:'' @ unit_locator n @ '':user:'' @ take 16 (sha256_hex (unit_locator n)),
      ru_coverage_ordinal = n, ru_physical_ordinal = n, ru_locator = unit_locator n,
      ru_unit_kind = ''user'', ru_artifact = ''a.jsonl'', ru_content_hash = sha256_hex (unit_locator n),
      ru_original_bytes = 1\<rparr>"

definition valid_coverage :: coverage_report where
  "valid_coverage =
     coverage_new 2 [\<lparr>cu_ordinal = 1, cu_kind = ''user'', cu_evidence = derived_ref 1\<rparr>]
       [\<lparr>su_ordinal = 2, su_reason = CompactionReplay, su_bytes = 1, su_visible = False,
         su_evidence = derived_ref 2\<rparr>] [] sample_status"

definition sample_provenance :: provenance where
  "sample_provenance =
     \<lparr>pv_agent = Codex, pv_model = Unknown, pv_cli_version = Unknown, pv_cwd = Unknown,
      pv_branch = Unknown, pv_started_at = Unknown, pv_ended_at = Unknown,
      pv_source_hash = sha256_hex [], pv_source_bytes = 0\<rparr>"

definition empty_model :: session_model where
  "empty_model = session_model_new ''s1'' sample_provenance valid_coverage"

definition sample_turn :: turn where
  "sample_turn =
     \<lparr>tn_turn_idx = 0, tn_role = RoleUser, tn_timestamp = Unknown, tn_kind = UserMsg, tn_text = ''hi'',
      tn_text_hash = sha256_hex ''hi'', tn_text_chars = 2, tn_tool_name = Unknown, tn_segment_id = 7,
      tn_refs = [derived_ref 1], tn_frame_class = None\<rparr>"

definition sample_segment :: segment where
  "sample_segment =
     \<lparr>sg_id = 7, sg_cwd = Unknown, sg_branch = Unknown, sg_started_at = Unknown,
      sg_ended_at = Unknown, sg_range = \<lparr>tr_start = 0, tr_end = 0\<rparr>,
      sg_scope_status = ScopeUnknown, sg_scope_conflict = False, sg_scope_root = None,
      sg_scope_workdirs = []\<rparr>"

definition sample_model :: session_model where
  "sample_model = empty_model\<lparr>sm_turns := [sample_turn], sm_segments := [sample_segment]\<rparr>"

lemma sample_tokens:
  "token_ok ''s1''" "token_ok ''user''" "token_ok (unit_locator n)" "\<not> has_separator ''a.jsonl''"
  by (simp_all add: unit_locator_def rust_eval)

lemma derived_ref_ok:
  "evidence_ok (derived_ref n)
   \<and> evidence_event_id_from_hash Codex ''s1'' (ru_locator (derived_ref n)) (ru_unit_kind (derived_ref n))
       (ru_content_hash (derived_ref n)) = Inr (ru_evidence_event_id (derived_ref n))"
proof -
  have "unit_locator n \<noteq> []" by (simp add: unit_locator_def)
  then show ?thesis
    by (simp add: derived_ref_def evidence_ok_def evidence_id_Inr_iff sample_tokens starts_with_def)
qed

lemma derived_ref_ids: "ru_evidence_event_id (derived_ref (Suc 0)) \<noteq> ru_evidence_event_id (derived_ref 2)"
  by (simp add: derived_ref_def unit_locator_def)

lemma valid_coverage_fields:
  "consumed valid_coverage = [\<lparr>cu_ordinal = 1, cu_kind = ''user'', cu_evidence = derived_ref 1\<rparr>]"
  "skipped valid_coverage = [\<lparr>su_ordinal = 2, su_reason = CompactionReplay, su_bytes = 1,
     su_visible = False, su_evidence = derived_ref 2\<rparr>]"
  "raw_unit_count valid_coverage = 2" "raw_line_count valid_coverage = 2"
  "consumed_count valid_coverage = 1" "skipped_count valid_coverage = 1"
  "consumed_ranges valid_coverage = ranges_for [1]" "warnings valid_coverage = []"
  "status valid_coverage = sample_status"
  by (simp_all add: valid_coverage_def coverage_new_def coverage_with_raw_line_count_def)

lemma valid_coverage_ok: "validate_coverage valid_coverage True = Inr ()"
proof -
  have parts: "ru_coverage_ordinal (derived_ref n) = n" "ru_original_bytes (derived_ref n) = 1" for n
    by (simp_all add: derived_ref_def)
  have two: "{Suc 0..2} = {Suc 0, 2}" by auto
  show ?thesis
    unfolding validate_coverage_ok
  proof (intro conjI)
    show "total_partition valid_coverage"
      by (simp add: total_partition_def valid_coverage_fields u64_max_def)
    show "units_partition valid_coverage"
      by (simp add: units_partition_def valid_coverage_fields all_ordinals_def coverage_evidence_def
          parts two)
    show "evidence_identified valid_coverage"
      using derived_ref_ok [of 1] derived_ref_ok [of 2] derived_ref_ids
      by (simp add: evidence_identified_def valid_coverage_fields coverage_evidence_def parts)
    show "ledger_of_records valid_coverage"
      by (simp add: valid_coverage_def coverage_new_def)
  qed (simp_all add: valid_coverage_fields warnings_loud_def flags_raised_def status_honest_def
      sample_status_def skipped_count_of_def unsupported_visible_def)
qed

lemma chars_count_hi: "chars_count ''hi'' = 2"
  by (simp add: rust_eval)

lemma sample_model_ok: "validate_model printable rfc3339 sample_model = Inr ()"
  using derived_ref_ok [of 1] derived_ref_ok [of 2]
  by (simp add: validate_model_ok sample_model_def empty_model_def session_model_new_def
      sample_provenance_def known_instant_def evidence_derived_def turns_intact_def turn_intact_def
      coverage_evidence_def valid_coverage_fields sample_turn_def segments_cover_def
      sample_segment_def segment_nonempty_def segment_turns_def segment_labels_def chars_count_hi)

lemma empty_model_ok: "validate_model printable rfc3339 empty_model = Inr ()"
  using derived_ref_ok [of 1] derived_ref_ok [of 2]
  by (simp add: validate_model_ok empty_model_def session_model_new_def
      sample_provenance_def known_instant_def evidence_derived_def turns_intact_def
      coverage_evidence_def valid_coverage_fields segments_cover_def)

section \<open>Properties\<close>

text \<open>C2: the coverage validator accepts exactly the reports in which every raw unit from one to the
  raw count is either consumed or skipped, once; every unit has well-formed evidence with an id of
  its own; counts, ranges and both ledgers are recounts of the records; unknown and oversized units
  are warned about; boundary flags are raised for opaque, replayed and unsupported units; and the
  status agrees with whether a model is projected.\<close>

theorem validate_coverage_iff:
  "validate_coverage c projected = Inr () \<longleftrightarrow>
     (consumed_count c = length (consumed c) \<and> skipped_count c = length (skipped c)
      \<and> raw_unit_count c = length (consumed c) + length (skipped c) \<and> raw_unit_count c \<le> u64_max)
     \<and> raw_line_count c \<le> raw_unit_count c
     \<and> units_partition c \<and> evidence_identified c
     \<and> consumed_ranges c = ranges_for (map cu_ordinal (consumed c))
     \<and> warnings_loud c \<and> flags_raised c \<and> status_honest c projected
     \<and> consumed_by_kind c = consumed_by_kind_of (consumed c)
     \<and> known_skipped c = known_skipped_of (skipped c)"
  by (auto simp: validate_coverage_ok total_partition_def ledger_of_records_def)

text \<open>C3: in an accepted report no raw unit is lost or counted twice: each ordinal from one to the
  raw count belongs to exactly one record, the ranges list exactly the consumed ordinals in order,
  the ledgers give each kind and reason its exact number of records, and evidence taken from the
  report is total.\<close>

theorem valid_coverage_accounts:
  assumes "validate_coverage c projected = Inr ()"
  shows "sort (map cu_ordinal (consumed c) @ map su_ordinal (skipped c)) = [1..<Suc (raw_unit_count c)]
    \<and> range_ordinals (consumed_ranges c) = sort (map cu_ordinal (consumed c))
    \<and> consumed_of_kind c kind = count_list (map cu_kind (consumed c)) kind
    \<and> skipped_for c reason = count_list (map su_reason (skipped c)) reason
    \<and> is_total (evidence_from_coverage c threshold found examined)"
proof -
  from assms have total: "total_partition c" and part: "units_partition c"
    and ranges: "consumed_ranges c = ranges_for (map cu_ordinal (consumed c))"
    and ledger: "ledger_of_records c"
    by (simp_all add: validate_coverage_ok)
  have dist: "distinct (all_ordinals c)" and all: "set (all_ordinals c) = {1..raw_unit_count c}"
    using part by (simp_all add: units_partition_def)
  have "sort (all_ordinals c) = [1..<Suc (raw_unit_count c)]"
    by (rule sorted_distinct_set_unique)
       (simp_all add: dist all atLeastLessThanSuc_atLeastAtMost del: upt_Suc)
  moreover have "range_ordinals (ranges_for (map cu_ordinal (consumed c))) = sort (map cu_ordinal (consumed c))"
  proof -
    have "sorted_wrt (<) (sort (map cu_ordinal (consumed c)))"
      using dist by (simp add: strict_sorted_iff all_ordinals_def)
    moreover have "\<forall>x \<in> set (sort (map cu_ordinal (consumed c))). x \<le> u64_max"
    proof -
      have "set (sort (map cu_ordinal (consumed c))) \<subseteq> {1..raw_unit_count c}"
        using all by (auto simp: all_ordinals_def)
      moreover have "raw_unit_count c \<le> u64_max" using total by (simp add: total_partition_def)
      ultimately show ?thesis by fastforce
    qed
    moreover have "ranges_canonical []" by (simp add: ranges_canonical_def)
    ultimately show ?thesis
      using ranges_loop_correct [of "sort (map cu_ordinal (consumed c))" "[]"]
      by (simp add: ranges_for_def range_ordinals_def)
  qed
  moreover have "is_total (evidence_from_coverage c threshold found examined)"
  proof -
    have len: "length (consumed c) \<le> u64_max" "length (skipped c) \<le> u64_max"
      using total by (auto simp: total_partition_def)
    have "consumed_by_kind c = consumed_by_kind_of (consumed c)"
      "known_skipped c = known_skipped_of (skipped c)"
      using ledger by (simp_all add: ledger_of_records_def)
    then show ?thesis
      using total ledger_sums(1) [OF len(1)] ledger_sums(2) [OF len(2)]
      by (auto simp: is_total_def evidence_from_coverage_def consumed_total_def skipped_total_def
          u64_checked_add_def total_partition_def)
  qed
  ultimately show ?thesis
    using ranges ledger_counts [OF ledger] by (simp add: all_ordinals_def)
qed

theorem valid_coverage_accounts_witness:
  "consumed_of_kind valid_coverage ''user'' = 1 \<and> skipped_for valid_coverage CompactionReplay = 1
    \<and> is_total (evidence_from_coverage valid_coverage 1 0 [])"
  using valid_coverage_accounts [OF valid_coverage_ok, of "''user''" CompactionReplay 1 0 "[]"]
  by (simp add: valid_coverage_fields)

text \<open>The segment validator accepts exactly the models whose segments have distinct ids and cut
  the turns, in order and without gap or overlap, into non-empty runs, every turn being labelled
  with the id of the segment that covers it.\<close>

theorem validate_segments_iff:
  "validate_segments m = Inr () \<longleftrightarrow>
     distinct (map sg_id (sm_segments m))
     \<and> list_all (\<lambda>s. tr_start (sg_range s) \<le> tr_end (sg_range s)) (sm_segments m)
     \<and> concat (map (\<lambda>s. [tr_start (sg_range s)..<Suc (tr_end (sg_range s))]) (sm_segments m))
         = [0..<length (sm_turns m)]
     \<and> map tn_segment_id (sm_turns m) =
         concat (map (\<lambda>s. replicate (Suc (tr_end (sg_range s)) - tr_start (sg_range s)) (sg_id s))
           (sm_segments m))"
  by (simp add: validate_segments_ok segments_cover_def segment_turns_def [abs_def]
      segment_labels_def [abs_def] segment_nonempty_def [abs_def] del: upt_Suc)

text \<open>C37: a model that validates can be trusted where it is projected: turn indexes are positions,
  text hashes and lengths are those of the text, every reference of a turn, tool event or usage
  event names evidence of the coverage report, tool events and skills point at turns that exist,
  and every evidence id of the report is the derivation of its own unit in this session.\<close>

theorem validate_model_sound:
  assumes "validate_model printable rfc3339 m = Inr ()"
  shows "map tn_turn_idx (sm_turns m) = [0..<length (sm_turns m)]
    \<and> list_all (\<lambda>t. tn_text_hash t = sha256_hex (tn_text t) \<and> tn_text_chars t = chars_count (tn_text t)
         \<and> ru_evidence_event_id ` set (tn_refs t)
             \<subseteq> ru_evidence_event_id ` set (coverage_evidence (sm_coverage m))) (sm_turns m)
    \<and> list_all (\<lambda>e. te_turn_idx e < length (sm_turns m)
         \<and> ru_evidence_event_id ` set (te_refs e)
             \<subseteq> ru_evidence_event_id ` set (coverage_evidence (sm_coverage m))) (sm_tool_events m)
    \<and> list_all (\<lambda>k. sk_turn_idx k < length (sm_turns m)) (sm_skills m)
    \<and> list_all (\<lambda>u. ru_evidence_event_id (ue_evidence u)
          \<in> ru_evidence_event_id ` set (coverage_evidence (sm_coverage m))) (sm_usage_events m)
    \<and> list_all (\<lambda>e. evidence_event_id_from_hash (pv_agent (sm_provenance m)) (sm_session_id m)
         (ru_locator e) (ru_unit_kind e) (ru_content_hash e) = Inr (ru_evidence_event_id e))
       (coverage_evidence (sm_coverage m))"
  using assms
  by (auto simp: validate_model_ok turns_intact_def turn_intact_def tool_bound_def skill_bound_def
      usage_ok_def evidence_derived_def list_all_iff)

theorem validate_model_sound_witness:
  "map tn_turn_idx (sm_turns sample_model) = [0]
    \<and> list_all (\<lambda>t. tn_text_hash t = sha256_hex (tn_text t)) (sm_turns sample_model)"
  using validate_model_sound [OF sample_model_ok [of "\<lambda>_. False" "\<lambda>_. None"]]
  by (simp add: list_all_iff sample_model_def)

text \<open>The projection gate: a parse yields a session only for the model it carries, under the
  very coverage report it was checked with, never when that report is fatal; and it yields a fatal
  parse only without a model and with a fatal report.\<close>

theorem validate_parse_gate:
  "(validate_parse printable rfc3339 p = Inr (ValidSession m) \<longleftrightarrow>
      up_model p = Some m \<and> sm_coverage m = up_coverage p
      \<and> validate_coverage (up_coverage p) True = Inr () \<and> validate_model printable rfc3339 m = Inr ()
      \<and> st_completeness (status (up_coverage p)) \<noteq> Fatal)
   \<and> (validate_parse printable rfc3339 p = Inr (FatalParse c) \<longleftrightarrow>
      up_model p = None \<and> c = up_coverage p \<and> validate_coverage c False = Inr ()
      \<and> st_completeness (status c) = Fatal)"
  by (auto simp: validate_parse_def validate_coverage_ok status_honest_def res_simps
      split: option.splits if_splits)

text \<open>No error of the parse validator carries a refusal. In particular a model without turns
  is not refused here: the empty-conversation refusal never comes from this stage.\<close>

theorem validate_parse_never_refuses:
  "(case validate_parse printable rfc3339 p of Inl e \<Rightarrow> \<not> is_refusal e | Inr _ \<Rightarrow> True)
   \<and> validate_parse printable rfc3339 (unvalidated_from_model empty_model) = Inr (ValidSession empty_model)
   \<and> sm_turns empty_model = []"
proof -
  have "plain_failure (validate_parse printable rfc3339 p)"
    unfolding validate_parse_def by (auto intro!: plain_intro split: option.splits)
  moreover have "validate_parse printable rfc3339 (unvalidated_from_model empty_model)
      = Inr (ValidSession empty_model)"
    using valid_coverage_ok empty_model_ok
    by (simp add: validate_parse_def unvalidated_from_model_def empty_model_def session_model_new_def)
  ultimately show ?thesis
    by (auto simp: plain_failure_def is_refusal_def empty_model_def session_model_new_def split: sum.splits)
qed

end
