(* ===== verification/Canonical.thy ===== *)
theory Canonical
  imports Validate
begin

text \<open>
  \<^verbatim>\<open>engine/canonical.rs\<close>: the projection of a validated session to its normative fields, and
  the fingerprint over it. The JSON encoder is a parameter (\<open>to_vec\<close>); what matters here is the
  value it is given. Segments that differ only in what this host resolved are folded, and the turns'
  segment ids are remapped to the folded segments.
\<close>

section \<open>The projection\<close>

definition canonical_schema :: string where
  "canonical_schema = ''aicx.parser.canonical.v1''"

record canonical_provenance =
  cp_agent :: agent_kind
  cp_model :: "string known"
  cp_cli_version :: "string known"
  cp_cwd :: "string known"
  cp_branch :: "string known"
  cp_started_at :: "string known"
  cp_ended_at :: "string known"
  cp_original_hash :: string
  cp_original_bytes :: u64

record canonical_segment =
  cs_segment_id :: u32
  cs_cwd :: "string known"
  cs_branch :: "string known"
  cs_started_at :: "string known"
  cs_ended_at :: "string known"
  cs_range :: turn_range

record canonical_turn =
  ct_turn_idx :: u64
  ct_role :: turn_role
  ct_timestamp :: "string known"
  ct_kind :: turn_kind
  ct_text_hash :: string
  ct_text_chars :: u64
  ct_tool_name :: "string known"
  ct_segment_id :: u32
  ct_raw_line_nos :: "u64 list"
  ct_evidence_event_ids :: "string list"

record canonical_usage_event =
  cue_provider :: string
  cue_model :: "string known"
  cue_tokens :: token_components
  cue_cost :: "reported_cost known"
  cue_timestamp :: "string known"
  cue_span :: "usage_span known"
  cue_counter_semantics :: counter_semantics
  cue_evidence_event_id :: string

record canonical_skipped =
  ck_line_no :: u64
  ck_reason :: skipped_reason
  ck_bytes :: u64
  ck_evidence_event_id :: string

record canonical_coverage =
  cc_raw_line_count :: u64
  cc_raw_unit_count :: u64
  cc_consumed_count :: u64
  cc_skipped_count :: u64
  cc_consumed_ranges :: "ordinal_range list"
  cc_consumed_ids :: "string list"
  cc_skipped_lines :: "canonical_skipped list"
  cc_warnings :: "coverage_warning list"
  cc_completeness :: visible_completeness
  cc_flags :: boundary_flags
  cc_malformed_tail :: bool
  cc_event_lost :: bool

record canonical_session =
  cn_schema :: string
  cn_session_id :: string
  cn_provenance :: canonical_provenance
  cn_segments :: "canonical_segment list"
  cn_skills :: "skill_invocation list"
  cn_turns :: "canonical_turn list"
  cn_usage_events :: "canonical_usage_event list"
  cn_coverage :: canonical_coverage

definition canonical_step ::
  "canonical_segment list \<times> (u32, u32) btree_map \<Rightarrow> segment
    \<Rightarrow> canonical_segment list \<times> (u32, u32) btree_map" where
  "canonical_step st s =
     (case st of (folded, remap) \<Rightarrow>
      let folded' =
        (if folded \<noteq> [] \<and> cs_cwd (last folded) = sg_cwd s \<and> cs_branch (last folded) = sg_branch s
         then butlast folded @
           [(last folded)\<lparr>cs_ended_at := sg_ended_at s,
              cs_range := (cs_range (last folded))\<lparr>tr_end := tr_end (sg_range s)\<rparr>\<rparr>]
         else folded @
           [\<lparr>cs_segment_id = as_u32 (length folded), cs_cwd = sg_cwd s, cs_branch = sg_branch s,
             cs_started_at = sg_started_at s, cs_ended_at = sg_ended_at s, cs_range = sg_range s\<rparr>])
      in (folded', bt_insert (sg_id s) (as_u32 (length folded' - 1)) remap))"

definition canonical_segments ::
  "segment list \<Rightarrow> canonical_segment list \<times> (u32, u32) btree_map" where
  "canonical_segments segs = foldl canonical_step ([], []) segs"

definition canonical_turn_of :: "(u32, u32) btree_map \<Rightarrow> turn \<Rightarrow> canonical_turn" where
  "canonical_turn_of remap t =
     \<lparr>ct_turn_idx = tn_turn_idx t, ct_role = tn_role t, ct_timestamp = tn_timestamp t,
      ct_kind = tn_kind t, ct_text_hash = tn_text_hash t, ct_text_chars = tn_text_chars t,
      ct_tool_name = tn_tool_name t,
      ct_segment_id =
        (case bt_get remap (tn_segment_id t) of None \<Rightarrow> tn_segment_id t | Some i \<Rightarrow> i),
      ct_raw_line_nos = map ru_physical_ordinal (tn_refs t),
      ct_evidence_event_ids = map ru_evidence_event_id (tn_refs t)\<rparr>"

definition canonical_usage_of :: "usage_event \<Rightarrow> canonical_usage_event" where
  "canonical_usage_of u =
     \<lparr>cue_provider = ue_provider u, cue_model = ue_model u, cue_tokens = ue_tokens u,
      cue_cost = ue_cost u, cue_timestamp = ue_timestamp u, cue_span = ue_span u,
      cue_counter_semantics = ue_counter_semantics u,
      cue_evidence_event_id = ru_evidence_event_id (ue_evidence u)\<rparr>"

definition canonical_provenance_of :: "provenance \<Rightarrow> canonical_provenance" where
  "canonical_provenance_of p =
     \<lparr>cp_agent = pv_agent p, cp_model = pv_model p, cp_cli_version = pv_cli_version p,
      cp_cwd = pv_cwd p, cp_branch = pv_branch p, cp_started_at = pv_started_at p,
      cp_ended_at = pv_ended_at p, cp_original_hash = pv_source_hash p,
      cp_original_bytes = pv_source_bytes p\<rparr>"

definition canonical_coverage_of :: "coverage_report \<Rightarrow> canonical_coverage" where
  "canonical_coverage_of c =
     \<lparr>cc_raw_line_count = raw_line_count c, cc_raw_unit_count = raw_unit_count c,
      cc_consumed_count = consumed_count c, cc_skipped_count = skipped_count c,
      cc_consumed_ranges = consumed_ranges c,
      cc_consumed_ids = map (\<lambda>u. ru_evidence_event_id (cu_evidence u)) (consumed c),
      cc_skipped_lines = map (\<lambda>u. \<lparr>ck_line_no = su_ordinal u, ck_reason = su_reason u,
          ck_bytes = su_bytes u, ck_evidence_event_id = ru_evidence_event_id (su_evidence u)\<rparr>) (skipped c),
      cc_warnings = warnings c, cc_completeness = st_completeness (status c),
      cc_flags = st_flags (status c), cc_malformed_tail = st_malformed_tail (status c),
      cc_event_lost = st_event_lost (status c)\<rparr>"

definition canonical_session_of :: "session_model \<Rightarrow> canonical_session" where
  "canonical_session_of m =
     (case canonical_segments (sm_segments m) of (folded, remap) \<Rightarrow>
      \<lparr>cn_schema = canonical_schema, cn_session_id = sm_session_id m,
       cn_provenance = canonical_provenance_of (sm_provenance m), cn_segments = folded,
       cn_skills = sm_skills m, cn_turns = map (canonical_turn_of remap) (sm_turns m),
       cn_usage_events = map canonical_usage_of (sm_usage_events m),
       cn_coverage = canonical_coverage_of (sm_coverage m)\<rparr>)"

definition canonical_bytes ::
  "(canonical_session \<Rightarrow> string + bytes) \<Rightarrow> session_model \<Rightarrow> string + bytes" where
  "canonical_bytes to_vec m = to_vec (canonical_session_of m)"

definition canonical_fingerprint ::
  "(canonical_session \<Rightarrow> string + bytes) \<Rightarrow> session_model \<Rightarrow> string + string" where
  "canonical_fingerprint to_vec m =
     bind_res (canonical_bytes to_vec m) (\<lambda>bs. Inr (sha256_hex bs))"

section \<open>Folding keeps the cover\<close>

definition cs_turns :: "canonical_segment \<Rightarrow> nat list" where
  "cs_turns r = [tr_start (cs_range r)..<Suc (tr_end (cs_range r))]"

definition cs_labels :: "canonical_segment \<Rightarrow> u32 list" where
  "cs_labels r = replicate (Suc (tr_end (cs_range r)) - tr_start (cs_range r)) (cs_segment_id r)"

definition cs_nonempty :: "canonical_segment \<Rightarrow> bool" where
  "cs_nonempty r \<longleftrightarrow> tr_start (cs_range r) \<le> tr_end (cs_range r)"

definition same_record :: "canonical_segment \<Rightarrow> canonical_segment \<Rightarrow> bool" where
  "same_record a b \<longleftrightarrow> cs_cwd a = cs_cwd b \<and> cs_branch a = cs_branch b"

definition relabel :: "(u32, u32) btree_map \<Rightarrow> u32 \<Rightarrow> u32" where
  "relabel remap i = (case bt_get remap i of None \<Rightarrow> i | Some j \<Rightarrow> j)"

definition fold_inv ::
  "segment list \<Rightarrow> nat \<Rightarrow> canonical_segment list \<times> (u32, u32) btree_map \<Rightarrow> bool" where
  "fold_inv segs k st \<longleftrightarrow>
     (case st of (folded, remap) \<Rightarrow>
        bt_wf remap
        \<and> concat (map (\<lambda>s. map (relabel remap) (segment_labels s)) segs) = concat (map cs_labels folded)
        \<and> concat (map cs_turns folded) = [0..<k] \<and> list_all cs_nonempty folded
        \<and> map cs_segment_id folded = map as_u32 [0..<length folded]
        \<and> successively (\<lambda>a b. \<not> same_record a b) folded)"

lemma upt_snoc_cut:
  assumes "xs @ [a..<Suc b] = [0..<k]" and "a \<le> b"
  shows "xs = [0..<a] \<and> k = Suc b"
proof -
  have len: "length xs + (Suc b - a) = k" using arg_cong [OF assms(1), of length] assms(2) by simp
  then have n: "length xs < k" using assms(2) by simp
  have "(xs @ [a..<Suc b]) ! length xs = a" using assms(2) by (simp add: nth_append nth_upt del: upt_Suc)
  then have "[0..<k] ! length xs = a" by (subst (asm) assms(1))
  moreover have "[0..<k] ! length xs = length xs" using n by simp
  ultimately have a: "a = length xs" by (metis)
  have "take (length xs) [0..<k] = xs"
    using arg_cong [OF assms(1), of "take (length xs)"] by (simp del: upt_Suc)
  moreover have "take (length xs) [0..<k] = [0..<a]" using n a by (simp add: take_upt)
  ultimately have "xs = [0..<a]" by simp
  moreover have "k = Suc b" using len a assms(2) by simp
  ultimately show ?thesis by simp
qed

lemma fold_last_end:
  assumes "fold_inv segs k (folded, remap)" and "folded \<noteq> []"
  shows "k = Suc (tr_end (cs_range (last folded)))"
proof -
  obtain fs r where f: "folded = fs @ [r]" using assms(2) by (metis append_butlast_last_id)
  have "concat (map cs_turns fs) @ [tr_start (cs_range r)..<Suc (tr_end (cs_range r))] = [0..<k]"
    "tr_start (cs_range r) \<le> tr_end (cs_range r)"
    using assms(1) f
    by (simp_all add: fold_inv_def cs_turns_def [of r] cs_nonempty_def del: upt_Suc)
  from upt_snoc_cut [OF this] show ?thesis by (simp add: f)
qed

lemma relabel_insert:
  "bt_wf remap \<Longrightarrow> relabel (bt_insert i j remap) x = (if x = i then j else relabel remap x)"
  by (simp add: relabel_def bt_get_insert)

lemma relabel_others:
  assumes "bt_wf remap" and "i \<notin> sg_id ` set segs"
  shows "map (\<lambda>s. map (relabel (bt_insert i j remap)) (segment_labels s)) segs
    = map (\<lambda>s. map (relabel remap) (segment_labels s)) segs"
  using assms by (auto simp: segment_labels_def relabel_insert)

lemma fold_inv_step:
  assumes inv: "fold_inv segs (tr_start (sg_range s)) st" and new: "sg_id s \<notin> sg_id ` set segs"
    and ne: "segment_nonempty s"
  shows "fold_inv (segs @ [s]) (Suc (tr_end (sg_range s))) (canonical_step st s)"
proof -
  obtain folded remap where st: "st = (folded, remap)" by (cases st)
  let ?a = "tr_start (sg_range s)" and ?b = "tr_end (sg_range s)"
  note inv' = inv [unfolded st fold_inv_def prod.case]
  have wf: "bt_wf remap" using inv' by simp
  have ab: "?a \<le> ?b" using ne by (simp add: segment_nonempty_def)
  have labels: "concat (map (\<lambda>t. map (relabel (bt_insert (sg_id s) j remap)) (segment_labels t)) (segs @ [s]))
      = concat (map cs_labels folded) @ replicate (Suc ?b - ?a) j" for j
  proof -
    have "map (relabel (bt_insert (sg_id s) j remap)) (segment_labels s) = replicate (Suc ?b - ?a) j"
      by (simp add: relabel_insert [OF wf] segment_labels_def)
    moreover have "concat (map (\<lambda>t. map (relabel remap) (segment_labels t)) segs)
        = concat (map cs_labels folded)"
      using inv' by blast
    ultimately show ?thesis
      by (simp only: map_append concat_append relabel_others [OF wf new] list.map concat.simps append_Nil2)
  qed
  have upt: "[0..<?a] @ [?a..<Suc ?b] = [0..<Suc ?b]"
    using upt_add_eq_append [of 0 ?a "Suc ?b - ?a"] ab by (simp del: upt_Suc)
  show ?thesis
  proof (cases "folded \<noteq> [] \<and> cs_cwd (last folded) = sg_cwd s \<and> cs_branch (last folded) = sg_branch s")
    case True
    then obtain fs r where f: "folded = fs @ [r]" by (metis append_butlast_last_id)
    define r' where "r' = r\<lparr>cs_ended_at := sg_ended_at s, cs_range := (cs_range r)\<lparr>tr_end := ?b\<rparr>\<rparr>"
    have step: "canonical_step st s = (fs @ [r'], bt_insert (sg_id s) (as_u32 (length fs)) remap)"
      using True by (simp add: canonical_step_def st f r'_def)
    have a: "?a = Suc (tr_end (cs_range r))" using fold_last_end [of segs ?a folded remap] inv st f by simp
    have r: "tr_start (cs_range r) \<le> tr_end (cs_range r)" "cs_segment_id r = as_u32 (length fs)"
      using inv' f by (auto simp: cs_nonempty_def)
    have "[tr_start (cs_range r)..<?a] @ [?a..<Suc ?b] = [tr_start (cs_range r)..<Suc ?b]"
      using upt_add_eq_append [of "tr_start (cs_range r)" ?a "Suc ?b - ?a"] ab a r(1) by (simp del: upt_Suc)
    then have turns: "cs_turns r @ [?a..<Suc ?b] = cs_turns r'"
      using a by (simp add: cs_turns_def r'_def del: upt_Suc)
    have cut: "Suc ?b - tr_start (cs_range r) = (?a - tr_start (cs_range r)) + (Suc ?b - ?a)"
      using ab a r(1) by simp
    have lab: "cs_labels r @ replicate (Suc ?b - ?a) (as_u32 (length fs)) = cs_labels r'"
    proof -
      have "cs_labels r = replicate (?a - tr_start (cs_range r)) (as_u32 (length fs))"
        "cs_labels r' = replicate (Suc ?b - tr_start (cs_range r)) (as_u32 (length fs))"
        using a r(2) by (simp_all add: cs_labels_def r'_def)
      then show ?thesis by (simp only: cut replicate_add)
    qed
    have "concat (map cs_turns fs) @ cs_turns r = [0..<?a]" using inv' f by simp
    then have "concat (map cs_turns fs) @ cs_turns r @ [?a..<Suc ?b] = [0..<Suc ?b]"
      by (simp only: append.assoc [symmetric] upt)
    then have "concat (map cs_turns (fs @ [r'])) = [0..<Suc ?b]"
      by (simp add: turns del: upt_Suc)
    moreover have "successively (\<lambda>a b. \<not> same_record a b) (fs @ [r'])"
      using inv' f by (auto simp: successively_append_iff same_record_def r'_def)
    moreover have "cs_nonempty r'" using ab a r(1) by (simp add: cs_nonempty_def r'_def)
    moreover have "map cs_segment_id (fs @ [r']) = map as_u32 [0..<length (fs @ [r'])]"
      using inv' f by (simp add: r'_def)
    ultimately show ?thesis
      using inv' f labels [of "as_u32 (length fs)"] lab bt_wf_insert [OF wf]
      by (simp add: step fold_inv_def del: upt_Suc)
  next
    case False
    define r where "r = \<lparr>cs_segment_id = as_u32 (length folded), cs_cwd = sg_cwd s,
      cs_branch = sg_branch s, cs_started_at = sg_started_at s, cs_ended_at = sg_ended_at s,
      cs_range = sg_range s\<rparr>"
    have step: "canonical_step st s = (folded @ [r], bt_insert (sg_id s) (as_u32 (length folded)) remap)"
      using False by (auto simp: canonical_step_def st r_def)
    have "successively (\<lambda>a b. \<not> same_record a b) (folded @ [r])"
      using inv' False by (auto simp: successively_append_iff same_record_def r_def)
    moreover have "cs_nonempty r" "cs_turns r = [?a..<Suc ?b]"
      "cs_labels r = replicate (Suc ?b - ?a) (as_u32 (length folded))" "cs_segment_id r = as_u32 (length folded)"
      using ab by (simp_all add: cs_nonempty_def cs_turns_def cs_labels_def r_def del: upt_Suc)
    ultimately show ?thesis
      using inv' labels [of "as_u32 (length folded)"] upt bt_wf_insert [OF wf]
      by (simp add: step fold_inv_def del: upt_Suc) simp
  qed
qed

lemma fold_inv_segments:
  assumes "distinct (map sg_id segs)" and "list_all segment_nonempty segs"
    and "concat (map segment_turns segs) = [0..<k]"
  shows "fold_inv segs k (canonical_segments segs)"
  using assms
proof (induction segs arbitrary: k rule: rev_induct)
  case Nil
  then show ?case by (simp add: fold_inv_def canonical_segments_def)
next
  case (snoc s segs)
  have ne: "segment_nonempty s" using snoc.prems by simp
  have "concat (map segment_turns segs) @ [tr_start (sg_range s)..<Suc (tr_end (sg_range s))] = [0..<k]"
    using snoc.prems(3) by (simp add: segment_turns_def [of s] del: upt_Suc)
  with ne have "concat (map segment_turns segs) = [0..<tr_start (sg_range s)] \<and> k = Suc (tr_end (sg_range s))"
    by (intro upt_snoc_cut) (simp_all add: segment_nonempty_def)
  with snoc ne show ?case
    by (auto simp: canonical_segments_def intro!: fold_inv_step)
qed

lemma canonical_segment_ids:
  assumes "segments_cover m" and "canonical_segments (sm_segments m) = (folded, remap)"
  shows "map (\<lambda>t. ct_segment_id (canonical_turn_of remap t)) (sm_turns m) = concat (map cs_labels folded)"
proof -
  have "fold_inv (sm_segments m) (length (sm_turns m)) (folded, remap)"
    using fold_inv_segments [of "sm_segments m" "length (sm_turns m)"] assms
    by (simp add: segments_cover_def)
  then have lab: "concat (map (\<lambda>s. map (relabel remap) (segment_labels s)) (sm_segments m))
      = concat (map cs_labels folded)"
    by (simp add: fold_inv_def)
  have "map (\<lambda>t. ct_segment_id (canonical_turn_of remap t)) (sm_turns m)
      = map (relabel remap) (map tn_segment_id (sm_turns m))"
    by (simp add: canonical_turn_of_def relabel_def)
  also have "\<dots> = concat (map (\<lambda>s. map (relabel remap) (segment_labels s)) (sm_segments m))"
    using assms(1) by (simp add: segments_cover_def map_concat comp_def)
  finally show ?thesis using lab by simp
qed

section \<open>Splits the host adds\<close>

text \<open>What of a segment was recorded in the source, without the parts resolved on the host.\<close>

definition recorded_merge :: "segment \<Rightarrow> segment \<Rightarrow> segment \<Rightarrow> bool" where
  "recorded_merge s s1 s2 \<longleftrightarrow>
     sg_cwd s1 = sg_cwd s \<and> sg_cwd s2 = sg_cwd s \<and> sg_branch s1 = sg_branch s \<and> sg_branch s2 = sg_branch s
     \<and> sg_started_at s1 = sg_started_at s \<and> sg_ended_at s2 = sg_ended_at s
     \<and> tr_start (sg_range s1) = tr_start (sg_range s) \<and> tr_end (sg_range s2) = tr_end (sg_range s)"

lemma canonical_step_fold:
  "fst (canonical_step (folded, r) s) = fst (canonical_step (folded, r') s)"
  by (simp add: canonical_step_def Let_def)

lemma canonical_folds_cong:
  "fst st = fst st' \<Longrightarrow> fst (foldl canonical_step st segs) = fst (foldl canonical_step st' segs)"
proof (induction segs arbitrary: st st')
  case Nil
  then show ?case by simp
next
  case (Cons s segs)
  obtain f r r' where "st = (f, r)" "st' = (f, r')" using Cons.prems by (cases st; cases st') simp
  then have "fst (canonical_step st s) = fst (canonical_step st' s)"
    using canonical_step_fold [of f r s r'] by simp
  from Cons.IH [OF this] show ?case by simp
qed

lemma canonical_step_split:
  assumes "recorded_merge s s1 s2"
  shows "fst (canonical_step (canonical_step st s1) s2) = fst (canonical_step st s)"
  using assms
  by (cases st) (auto simp: canonical_step_def Let_def recorded_merge_def)

text \<open>The same recorded facts, whatever number and scope the host gave the segment.\<close>

definition recorded_same :: "segment \<Rightarrow> segment \<Rightarrow> bool" where
  "recorded_same s s' \<longleftrightarrow>
     sg_cwd s' = sg_cwd s \<and> sg_branch s' = sg_branch s \<and> sg_started_at s' = sg_started_at s
     \<and> sg_ended_at s' = sg_ended_at s \<and> sg_range s' = sg_range s"

text \<open>
  What a host may do to a cut of the session: renumber and resolve segments anew, cut a segment
  in two adjacent ones of the same recorded directory and branch, or join two such segments.
\<close>

inductive recut :: "segment list \<Rightarrow> segment list \<Rightarrow> bool" where
  recut_refl: "recut segs segs"
| recut_sym: "recut segs segs' \<Longrightarrow> recut segs' segs"
| recut_trans: "recut segs segs' \<Longrightarrow> recut segs' segs'' \<Longrightarrow> recut segs segs''"
| recut_resolve: "recorded_same s s' \<Longrightarrow> recut (xs @ s # ys) (xs @ s' # ys)"
| recut_split: "recorded_merge s s1 s2 \<Longrightarrow> tr_start (sg_range s2) = Suc (tr_end (sg_range s1)) \<Longrightarrow>
    recut (xs @ s # ys) (xs @ s1 # s2 # ys)"

lemma canonical_step_resolve:
  "recorded_same s s' \<Longrightarrow> fst (canonical_step st s') = fst (canonical_step st s)"
  by (cases st) (auto simp: canonical_step_def Let_def recorded_same_def)

lemma canonical_segments_mid:
  assumes "fst (foldl canonical_step (foldl canonical_step ([], []) xs) bs)
    = fst (foldl canonical_step (foldl canonical_step ([], []) xs) as)"
  shows "fst (canonical_segments (xs @ bs @ ys)) = fst (canonical_segments (xs @ as @ ys))"
  using canonical_folds_cong [OF assms] by (simp add: canonical_segments_def)

text \<open>The fold undoes all of it.\<close>

lemma recut_canonical: "recut segs segs' \<Longrightarrow> fst (canonical_segments segs) = fst (canonical_segments segs')"
proof (induction rule: recut.induct)
  case (recut_resolve s s' xs ys)
  then show ?case
    using canonical_segments_mid [of xs "[s']" "[s]" ys] canonical_step_resolve by simp
next
  case (recut_split s s1 s2 xs ys)
  then show ?case
    using canonical_segments_mid [of xs "[s1, s2]" "[s]" ys] canonical_step_split by simp
qed simp_all

text \<open>A turn without the segment id an adapter gave it.\<close>

definition turn_unlabelled :: "turn \<Rightarrow> turn" where
  "turn_unlabelled t = t\<lparr>tn_segment_id := 0\<rparr>"

text \<open>Two models that agree on every recorded fact. Their segments may be cut and numbered
  differently, and their conversation, snapshot, epochs, tool events and host-resolved scopes may
  differ.\<close>

definition same_recorded :: "session_model \<Rightarrow> session_model \<Rightarrow> bool" where
  "same_recorded m m' \<longleftrightarrow>
     sm_session_id m = sm_session_id m' \<and> sm_provenance m = sm_provenance m'
     \<and> sm_skills m = sm_skills m' \<and> sm_usage_events m = sm_usage_events m'
     \<and> sm_coverage m = sm_coverage m'
     \<and> map turn_unlabelled (sm_turns m) = map turn_unlabelled (sm_turns m')
     \<and> recut (sm_segments m) (sm_segments m')"

definition unlabelled :: "canonical_turn \<Rightarrow> canonical_turn" where
  "unlabelled t = t\<lparr>ct_segment_id := 0\<rparr>"

lemma unlabelled_turns:
  "map unlabelled (map (canonical_turn_of remap) ts) = map (canonical_turn_of []) (map turn_unlabelled ts)"
  by (simp add: unlabelled_def canonical_turn_of_def turn_unlabelled_def)

lemma canonical_turn_split:
  "unlabelled t = unlabelled u \<and> ct_segment_id t = ct_segment_id u \<longleftrightarrow> t = u"
  by (cases t; cases u) (auto simp: unlabelled_def)

lemma canonical_turns_eq:
  "map unlabelled ts = map unlabelled us \<Longrightarrow> map ct_segment_id ts = map ct_segment_id us \<Longrightarrow> ts = us"
proof (induction ts arbitrary: us)
  case Nil
  then show ?case by simp
next
  case (Cons t ts)
  then show ?case using canonical_turn_split by (cases us) auto
qed

lemma canonical_session_same:
  assumes "segments_cover m" and "segments_cover m'" and "same_recorded m m'"
  shows "canonical_session_of m = canonical_session_of m'"
proof -
  obtain f r where c: "canonical_segments (sm_segments m) = (f, r)" by (cases "canonical_segments (sm_segments m)")
  obtain r' where c': "canonical_segments (sm_segments m') = (f, r')"
    using assms(3) c recut_canonical [of "sm_segments m" "sm_segments m'"]
    by (cases "canonical_segments (sm_segments m')") (auto simp: same_recorded_def)
  have "map (canonical_turn_of r) (sm_turns m) = map (canonical_turn_of r') (sm_turns m')"
  proof (rule canonical_turns_eq)
    show "map unlabelled (map (canonical_turn_of r) (sm_turns m))
        = map unlabelled (map (canonical_turn_of r') (sm_turns m'))"
      using assms(3) by (simp only: unlabelled_turns same_recorded_def)
    show "map ct_segment_id (map (canonical_turn_of r) (sm_turns m))
        = map ct_segment_id (map (canonical_turn_of r') (sm_turns m'))"
      using canonical_segment_ids [OF assms(1) c] canonical_segment_ids [OF assms(2) c']
      by (simp add: comp_def)
  qed
  then show ?thesis
    using assms(3) by (simp add: canonical_session_of_def c c' same_recorded_def)
qed

section \<open>Properties\<close>

text \<open>The canonical segments of a valid model are a cover of its turns in their own right: they
  cut the turns in order without gap or overlap, no two neighbours record the same directory and
  branch, they are numbered from zero, and every canonical turn carries the number of the canonical
  segment that covers it.\<close>

theorem canonical_segments_cover:
  assumes "validate_segments m = Inr ()"
  shows "concat (map (\<lambda>r. [tr_start (cs_range r)..<Suc (tr_end (cs_range r))])
        (cn_segments (canonical_session_of m))) = [0..<length (sm_turns m)]
    \<and> successively (\<lambda>a b. \<not> (cs_cwd a = cs_cwd b \<and> cs_branch a = cs_branch b))
        (cn_segments (canonical_session_of m))
    \<and> map cs_segment_id (cn_segments (canonical_session_of m))
        = map as_u32 [0..<length (cn_segments (canonical_session_of m))]
    \<and> map ct_segment_id (cn_turns (canonical_session_of m))
        = concat (map (\<lambda>r. replicate (Suc (tr_end (cs_range r)) - tr_start (cs_range r)) (cs_segment_id r))
            (cn_segments (canonical_session_of m)))"
proof -
  have cover: "segments_cover m" using assms by (simp add: validate_segments_ok)
  obtain f r where c: "canonical_segments (sm_segments m) = (f, r)" by (cases "canonical_segments (sm_segments m)")
  have inv: "fold_inv (sm_segments m) (length (sm_turns m)) (f, r)"
    using fold_inv_segments [of "sm_segments m" "length (sm_turns m)"] cover c
    by (simp add: segments_cover_def)
  have fields: "cn_segments (canonical_session_of m) = f"
    "cn_turns (canonical_session_of m) = map (canonical_turn_of r) (sm_turns m)"
    by (simp_all add: canonical_session_of_def c)
  show ?thesis
    using inv canonical_segment_ids [OF cover c]
    unfolding fields fold_inv_def cs_turns_def [abs_def] cs_labels_def [abs_def] same_record_def
    by (simp add: comp_def del: upt_Suc)
qed

theorem canonical_segments_cover_witness:
  "map cs_segment_id (cn_segments (canonical_session_of sample_model)) = [0]
    \<and> map ct_segment_id (cn_turns (canonical_session_of sample_model)) = [0]"
proof -
  have seg: "validate_segments sample_model = Inr ()"
    using sample_model_ok by (simp add: validate_model_ok validate_segments_ok)
  have one: "length (cn_segments (canonical_session_of sample_model)) = 1"
    by (simp add: canonical_session_of_def canonical_segments_def sample_model_def canonical_step_def)
  then obtain r where r: "cn_segments (canonical_session_of sample_model) = [r]"
    by (auto simp: length_Suc_conv)
  have n: "length (sm_turns sample_model) = 1" by (simp add: sample_model_def)
  show ?thesis
    using canonical_segments_cover [OF seg] unfolding r n
    by (auto simp: as_u32_def split: if_splits)
qed

text \<open>A cut the host added is folded away: splitting a segment where the recorded directory and
  branch do not change, with any ids and any resolved scopes, leaves the canonical segments as they
  were.\<close>

theorem canonical_ignores_host_splits:
  assumes "recorded_merge s s1 s2"
  shows "fst (canonical_segments (xs @ s1 # s2 # ys)) = fst (canonical_segments (xs @ s # ys))"
proof -
  let ?st = "foldl canonical_step ([], []) xs"
  have "fst (canonical_step (canonical_step ?st s1) s2) = fst (canonical_step ?st s)"
    by (rule canonical_step_split [OF assms])
  from canonical_folds_cong [OF this] show ?thesis by (simp add: canonical_segments_def)
qed

theorem canonical_ignores_host_splits_witness:
  "fst (canonical_segments
      [sample_segment\<lparr>sg_scope_root := Some ''/other''\<rparr>,
       sample_segment\<lparr>sg_id := 8, sg_range := \<lparr>tr_start = 1, tr_end = 3\<rparr>\<rparr>])
   = fst (canonical_segments [sample_segment\<lparr>sg_range := \<lparr>tr_start = 0, tr_end = 3\<rparr>\<rparr>])"
  using canonical_ignores_host_splits [of "sample_segment\<lparr>sg_range := \<lparr>tr_start = 0, tr_end = 3\<rparr>\<rparr>"
      "sample_segment\<lparr>sg_scope_root := Some ''/other''\<rparr>"
      "sample_segment\<lparr>sg_id := 8, sg_range := \<lparr>tr_start = 1, tr_end = 3\<rparr>\<rparr>" "[]" "[]"]
  by (simp add: recorded_merge_def sample_segment_def)

text \<open>C4: the fingerprint is a function of the recorded facts. Two valid models of the same source
  bytes that differ only in how the hosts numbered and resolved the segments and in the cuts they
  added inside one recorded directory and branch, and in fields outside the frozen contract, have
  the same canonical bytes and the same fingerprint, whatever the encoder.\<close>

theorem fingerprint_host_independent:
  assumes "validate_model printable rfc3339 m = Inr ()"
    and "validate_model printable' rfc3339' m' = Inr ()" and "same_recorded m m'"
  shows "canonical_bytes to_vec m = canonical_bytes to_vec m'
    \<and> canonical_fingerprint to_vec m = canonical_fingerprint to_vec m'"
proof -
  have "canonical_session_of m = canonical_session_of m'"
    using assms by (intro canonical_session_same) (simp_all add: validate_model_ok)
  then show ?thesis by (simp add: canonical_fingerprint_def canonical_bytes_def)
qed

text \<open>Two turns, left in one segment by one host and cut in two, renumbered and resolved, by another.\<close>

definition one_segment_model :: session_model where
  "one_segment_model = sample_model
     \<lparr>sm_turns := [sample_turn, sample_turn\<lparr>tn_turn_idx := 1\<rparr>],
      sm_segments := [sample_segment\<lparr>sg_range := \<lparr>tr_start = 0, tr_end = 1\<rparr>\<rparr>]\<rparr>"

definition split_segment_model :: session_model where
  "split_segment_model = sample_model
     \<lparr>sm_turns := [sample_turn\<lparr>tn_segment_id := 8\<rparr>, sample_turn\<lparr>tn_turn_idx := 1, tn_segment_id := 9\<rparr>],
      sm_segments := [sample_segment\<lparr>sg_id := 8, sg_scope_root := Some ''/other''\<rparr>,
        sample_segment\<lparr>sg_id := 9, sg_range := \<lparr>tr_start = 1, tr_end = 1\<rparr>\<rparr>]\<rparr>"

lemmas host_model_defs = validate_model_ok sample_model_def empty_model_def
  session_model_new_def sample_provenance_def known_instant_def evidence_derived_def
  turns_intact_def turn_intact_def coverage_evidence_def valid_coverage_fields sample_turn_def
  segments_cover_def sample_segment_def segment_nonempty_def segment_turns_def
  segment_labels_def chars_count_hi

lemma one_segment_model_ok: "validate_model printable rfc3339 one_segment_model = Inr ()"
  using derived_ref_ok [of 1] derived_ref_ok [of 2]
  by (simp add: host_model_defs one_segment_model_def eval_nat_numeral)

lemma split_segment_model_ok: "validate_model printable rfc3339 split_segment_model = Inr ()"
  using derived_ref_ok [of 1] derived_ref_ok [of 2]
  by (simp add: host_model_defs split_segment_model_def)

lemma split_hosts_same: "same_recorded one_segment_model split_segment_model"
proof -
  have "recut ([] @ sm_segments one_segment_model ! 0 # [])
      ([] @ sm_segments split_segment_model ! 0 # sm_segments split_segment_model ! 1 # [])"
    by (rule recut_split)
      (simp_all add: one_segment_model_def split_segment_model_def recorded_merge_def sample_segment_def)
  then show ?thesis
    by (simp add: same_recorded_def one_segment_model_def split_segment_model_def sample_model_def
        turn_unlabelled_def)
qed

theorem fingerprint_host_independent_witness:
  "canonical_fingerprint (\<lambda>_. Inr ''{}'') one_segment_model
      = canonical_fingerprint (\<lambda>_. Inr ''{}'') split_segment_model
    \<and> length (sm_segments one_segment_model) = 1 \<and> length (sm_segments split_segment_model) = 2"
  using fingerprint_host_independent [OF one_segment_model_ok split_segment_model_ok split_hosts_same]
  by (simp add: one_segment_model_def split_segment_model_def)

end
