(* ===== verification/Engine.thy ===== *)
theory Engine
  imports Reader Canonical
begin

text \<open>
  \<^verbatim>\<open>engine/mod.rs\<close> and the boundary of \<^verbatim>\<open>adapters/mod.rs\<close>: one parse is read, classify,
  check the classification against what was read, assemble, check the counts, validate. An adapter
  is a record of its two functions; the property of the engine holds for every adapter, so nothing
  is assumed of one. \<open>contract_adapter\<close> is the adapter of the engine's own contract test.
\<close>

section \<open>The adapter boundary\<close>

datatype raw_unit_level = Physical | Logical u64

datatype classified_disposition = Consumed string | Skipped skipped_reason bool

record classified_unit =
  cl_ordinal :: u64
  cl_level :: raw_unit_level
  cl_evidence :: raw_unit_ref
  cl_disposition :: classified_disposition

record adapter_error =
  ae_stage :: string
  ae_detail :: string

definition adapter_error_display :: "adapter_error \<Rightarrow> string" where
  "adapter_error_display e = ''adapter '' @ ae_stage e @ '' failed: '' @ ae_detail e"

record agent_adapter =
  adp_agent :: agent_kind
  adp_version :: string
  adp_classify :: "source_handle \<Rightarrow> source_read \<Rightarrow> adapter_error + classified_unit list"
  adp_assemble ::
    "source_handle \<Rightarrow> source_read \<Rightarrow> classified_unit list \<Rightarrow> adapter_error + unvalidated_parse"

section \<open>Errors\<close>

datatype engine_error =
    AdapterMismatch agent_kind agent_kind
  | InvalidAdapterVersion
  | ReaderFailed reader_error
  | AdapterFailed adapter_error
  | Classification string
  | ValidationFailed validation_error

fun engine_error_display :: "(string \<Rightarrow> bool) \<Rightarrow> engine_error \<Rightarrow> string" where
  "engine_error_display printable (AdapterMismatch s a) =
     ''source adapter mismatch: source='' @ agent_as_str s @ '', adapter='' @ agent_as_str a"
| "engine_error_display printable InvalidAdapterVersion = ''adapter version cannot be empty''"
| "engine_error_display printable (ReaderFailed e) = ''reader failed: '' @ reader_error_display printable e"
| "engine_error_display printable (AdapterFailed e) = adapter_error_display e"
| "engine_error_display printable (Classification detail) = ''classification invalid: '' @ detail"
| "engine_error_display printable (ValidationFailed e) =
     ''validation failed: '' @ validation_error_display e"

section \<open>The classification check\<close>

definition is_physical :: "classified_unit \<Rightarrow> bool" where
  "is_physical c \<longleftrightarrow> cl_level c = Physical"

definition check_level :: "source_read \<Rightarrow> u64 set \<Rightarrow> classified_unit \<Rightarrow> engine_error + unit" where
  "check_level rd physical_ordinals c =
     (case cl_level c of
        Physical \<Rightarrow>
          (case List.find (\<lambda>u. un_coverage_ordinal u = cl_ordinal c) (sr_units rd) of
             None \<Rightarrow> Inl (Classification ''physical classified ordinal is out of range'')
           | Some raw \<Rightarrow>
               if ru_physical_ordinal (cl_evidence c) \<noteq> un_physical_ordinal raw
                  \<or> ru_artifact (cl_evidence c) \<noteq> un_artifact raw
                  \<or> ru_content_hash (cl_evidence c) \<noteq> un_content_hash raw
                  \<or> ru_original_bytes (cl_evidence c) \<noteq> un_original_bytes raw
               then Inl (Classification ''physical classified evidence differs from bounded reader truth'')
               else if un_boundary raw = BoundaryOversized
                  \<and> (case cl_disposition c of Skipped reason _ \<Rightarrow> reason \<noteq> Oversized | Consumed _ \<Rightarrow> True)
               then Inl (Classification ''oversized raw unit must terminate as skipped(oversized)'')
               else Inr ())
      | Logical parent \<Rightarrow>
          if parent \<notin> physical_ordinals \<or> cl_ordinal c \<le> length (sr_units rd)
          then Inl (Classification ''logical unit requires a physical parent and a post-physical ordinal'')
          else Inr ())"

definition check_derivation ::
  "(string \<Rightarrow> bool) \<Rightarrow> source_handle \<Rightarrow> classified_unit \<Rightarrow> engine_error + unit" where
  "check_derivation printable src c =
     bind_res (map_err (\<lambda>err. Classification (evidence_id_error_display printable err))
         (evidence_event_id_from_hash (sh_agent src) (session_id_of src) (ru_locator (cl_evidence c))
           (ru_unit_kind (cl_evidence c)) (ru_content_hash (cl_evidence c)))) (\<lambda>expected.
     bind_res (require (ru_evidence_event_id (cl_evidence c) = expected)
       (Classification ''evidence_event_id does not match derivation v1'')) (\<lambda>_.
     case cl_disposition c of
       Consumed kind \<Rightarrow>
         require (kind = ru_unit_kind (cl_evidence c))
           (Classification ''consumed kind differs from evidence unit kind'')
     | Skipped _ _ \<Rightarrow> Inr ()))"

definition classification_step ::
  "(string \<Rightarrow> bool) \<Rightarrow> source_handle \<Rightarrow> source_read \<Rightarrow> u64 set \<Rightarrow> u64 set \<Rightarrow> classified_unit
    \<Rightarrow> engine_error + u64 set" where
  "classification_step printable src rd physical_ordinals ordinals c =
     bind_res (insert_new (Classification ''duplicate classified ordinal'') (cl_ordinal c) ordinals) (\<lambda>ordinals.
     bind_res (require (ru_coverage_ordinal (cl_evidence c) = cl_ordinal c)
       (Classification ''classified ordinal differs from evidence coverage ordinal'')) (\<lambda>_.
     bind_res (check_level rd physical_ordinals c) (\<lambda>_.
     bind_res (check_derivation printable src c) (\<lambda>_. Inr ordinals))))"

definition validate_classification ::
  "(string \<Rightarrow> bool) \<Rightarrow> source_handle \<Rightarrow> source_read \<Rightarrow> classified_unit list \<Rightarrow> engine_error + unit" where
  "validate_classification printable src rd cs =
     bind_res (require (length (filter is_physical cs) = length (sr_units rd))
       (Classification ''physical classification count differs from reader unit count'')) (\<lambda>_.
     let physical_ordinals = set (map cl_ordinal (filter is_physical cs)) in
     bind_res (fold_res (classification_step printable src rd physical_ordinals) {} cs) (\<lambda>ordinals.
     require (card ordinals = length cs \<and> {1..length cs} \<subseteq> ordinals)
       (Classification ''classified units must cover every reader ordinal exactly once'')))"

section \<open>One parse\<close>

definition engine_parse ::
  "(string \<Rightarrow> bool) \<Rightarrow> (string \<Rightarrow> int option) \<Rightarrow> 'f file_system \<Rightarrow> reader_policy \<Rightarrow> source_handle
    \<Rightarrow> agent_adapter \<Rightarrow> engine_error + validated_parse" where
  "engine_parse printable rfc3339 fs policy src adapter =
     (if sh_agent src \<noteq> adp_agent adapter then Inl (AdapterMismatch (sh_agent src) (adp_agent adapter))
      else if adp_version adapter = [] then Inl InvalidAdapterVersion
      else
        bind_res (map_err ReaderFailed (reader_read fs policy src)) (\<lambda>rd.
        bind_res (map_err AdapterFailed (adp_classify adapter src rd)) (\<lambda>classified.
        bind_res (validate_classification printable src rd classified) (\<lambda>_.
        bind_res (map_err AdapterFailed (adp_assemble adapter src rd classified)) (\<lambda>parse.
        if raw_line_count (up_coverage parse) \<noteq> length (sr_units rd)
           \<or> raw_unit_count (up_coverage parse) \<noteq> length classified
        then Inl (Classification ''assembled coverage counts differ from classified physical/logical units'')
        else map_err ValidationFailed (validate_parse printable rfc3339 parse))))))"

definition engine_parse_registered ::
  "(string \<Rightarrow> bool) \<Rightarrow> (string \<Rightarrow> int option) \<Rightarrow> 'f file_system \<Rightarrow> reader_policy
    \<Rightarrow> (agent_kind \<Rightarrow> agent_adapter) \<Rightarrow> source_handle \<Rightarrow> engine_error + validated_parse" where
  "engine_parse_registered printable rfc3339 fs policy registry src =
     engine_parse printable rfc3339 fs policy src (registry (sh_agent src))"

lemmas [rust_eval] = is_physical_def check_level_def check_derivation_def classification_step_def
  validate_classification_def engine_parse_def engine_parse_registered_def

section \<open>What a checked classification is\<close>

text \<open>A physical classification and the reader unit it stands for.\<close>

definition stands_for :: "classified_unit \<Rightarrow> raw_unit \<Rightarrow> bool" where
  "stands_for c u \<longleftrightarrow>
     cl_ordinal c = un_coverage_ordinal u
     \<and> ru_physical_ordinal (cl_evidence c) = un_physical_ordinal u
     \<and> ru_artifact (cl_evidence c) = un_artifact u
     \<and> ru_content_hash (cl_evidence c) = un_content_hash u
     \<and> ru_original_bytes (cl_evidence c) = un_original_bytes u
     \<and> (un_boundary u = BoundaryOversized \<longrightarrow> (\<exists>v. cl_disposition c = Skipped Oversized v))"

lemma check_level_physical:
  assumes "cl_level c = Physical" and "check_level rd po c = Inr u"
  shows "\<exists>raw. raw \<in> set (sr_units rd) \<and> stands_for c raw"
proof -
  obtain raw where f: "List.find (\<lambda>u. un_coverage_ordinal u = cl_ordinal c) (sr_units rd) = Some raw"
    using assms by (auto simp: check_level_def split: option.splits)
  from find_found [OF f] have "raw \<in> set (sr_units rd)" "un_coverage_ordinal raw = cl_ordinal c" by simp_all
  moreover from this have "stands_for c raw"
    using assms
    by (cases "cl_disposition c") (auto simp: check_level_def f stands_for_def split: if_splits)
  ultimately show ?thesis by blast
qed

lemma check_level_logical:
  "check_level rd po c = Inr u \<Longrightarrow> cl_level c = Logical parent \<Longrightarrow>
     parent \<in> po \<and> length (sr_units rd) < cl_ordinal c"
  by (auto simp: check_level_def split: if_splits)

definition unit_checked :: "source_handle \<Rightarrow> source_read \<Rightarrow> u64 set \<Rightarrow> classified_unit \<Rightarrow> bool" where
  "unit_checked src rd po c \<longleftrightarrow>
     ru_coverage_ordinal (cl_evidence c) = cl_ordinal c
     \<and> check_level rd po c = Inr ()
     \<and> evidence_event_id_from_hash (sh_agent src) (session_id_of src) (ru_locator (cl_evidence c))
         (ru_unit_kind (cl_evidence c)) (ru_content_hash (cl_evidence c))
       = Inr (ru_evidence_event_id (cl_evidence c))
     \<and> (case cl_disposition c of Consumed kind \<Rightarrow> kind = ru_unit_kind (cl_evidence c) | Skipped _ _ \<Rightarrow> True)"

lemma classification_step_ok:
  "classification_step printable src rd po s c = Inr s' \<longleftrightarrow>
     unit_checked src rd po c \<and> cl_ordinal c \<notin> s \<and> s' = insert (cl_ordinal c) s"
  by (auto simp: classification_step_def check_derivation_def unit_checked_def res_simps
      split: classified_disposition.splits)

lemma insert_loop:
  assumes "\<And>s x s'. step s x = Inr s' \<longleftrightarrow> good x \<and> key x \<notin> s \<and> s' = insert (key x) s"
  shows "fold_res step s xs = Inr s' \<longleftrightarrow>
    list_all good xs \<and> distinct (map key xs) \<and> s \<inter> key ` set xs = {} \<and> s' = s \<union> key ` set xs"
proof (induction xs arbitrary: s)
  case Nil
  then show ?case by auto
next
  case (Cons x xs)
  show ?case by (auto simp: Cons.IH assms bind_res_Inr_iff)
qed

lemma validate_classification_ok:
  "validate_classification printable src rd cs = Inr u \<longleftrightarrow>
     length (filter is_physical cs) = length (sr_units rd)
     \<and> list_all (unit_checked src rd (set (map cl_ordinal (filter is_physical cs)))) cs
     \<and> distinct (map cl_ordinal cs) \<and> set (map cl_ordinal cs) = {1..length cs}"
proof -
  have "card (set (map cl_ordinal cs)) = length cs" if "distinct (map cl_ordinal cs)"
    using distinct_card [OF that] by simp
  moreover have "set (map cl_ordinal cs) = {1..length cs}"
    if "{1..length cs} \<subseteq> set (map cl_ordinal cs)" "distinct (map cl_ordinal cs)"
    using that distinct_card [OF that(2)] card_subset_eq [OF _ that(1)] by simp
  ultimately show ?thesis
    by (auto simp: validate_classification_def Let_def res_simps insert_loop [OF classification_step_ok])
qed

lemma physical_ordinals_exact:
  assumes "ordinals_consecutive (sr_units rd)" and "length (filter is_physical cs) = length (sr_units rd)"
    and "list_all (unit_checked src rd po) cs" and "distinct (map cl_ordinal cs)"
  shows "set (map cl_ordinal (filter is_physical cs)) = {1..length (sr_units rd)}"
proof (rule card_subset_eq)
  have units: "un_coverage_ordinal ` set (sr_units rd) = {1..length (sr_units rd)}"
    using arg_cong [OF assms(1) [unfolded ordinals_consecutive_def], of set]
    by (simp add: atLeastLessThanSuc_atLeastAtMost del: upt_Suc)
  show "set (map cl_ordinal (filter is_physical cs)) \<subseteq> {1..length (sr_units rd)}"
  proof
    fix i assume "i \<in> set (map cl_ordinal (filter is_physical cs))"
    then obtain c where c: "c \<in> set cs" "cl_level c = Physical" "i = cl_ordinal c"
      by (auto simp: is_physical_def)
    then have "check_level rd po c = Inr ()" using assms(3) by (simp add: list_all_iff unit_checked_def)
    from check_level_physical [OF c(2) this] c(3) units show "i \<in> {1..length (sr_units rd)}"
      by (auto simp: stands_for_def)
  qed
  have "distinct (map cl_ordinal (filter is_physical cs))"
    using assms(4) by (rule distinct_map_filter)
  then show "card (set (map cl_ordinal (filter is_physical cs))) = card {1..length (sr_units rd)}"
    using assms(2) distinct_card by fastforce
qed simp

lemma physical_unit_exact:
  assumes "ordinals_consecutive (sr_units rd)" and "validate_classification printable src rd cs = Inr ()"
    and "u \<in> set (sr_units rd)"
  shows "\<exists>!c. c \<in> set cs \<and> cl_level c = Physical \<and> stands_for c u"
proof -
  from assms(2) have n: "length (filter is_physical cs) = length (sr_units rd)"
    and chk: "list_all (unit_checked src rd (set (map cl_ordinal (filter is_physical cs)))) cs"
    and dist: "distinct (map cl_ordinal cs)"
    by (simp_all add: validate_classification_ok)
  have units: "map un_coverage_ordinal (sr_units rd) = [1..<Suc (length (sr_units rd))]"
    using assms(1) by (simp add: ordinals_consecutive_def)
  then have udist: "distinct (map un_coverage_ordinal (sr_units rd))" by simp
  have "un_coverage_ordinal u \<in> {1..length (sr_units rd)}"
    using arg_cong [OF units, of set] assms(3)
    by (auto simp: atLeastLessThanSuc_atLeastAtMost simp del: upt_Suc)
  then have "un_coverage_ordinal u \<in> cl_ordinal ` set (filter is_physical cs)"
    using physical_ordinals_exact [OF assms(1) n chk dist] by simp
  then obtain c where c: "c \<in> set cs" "cl_level c = Physical" "cl_ordinal c = un_coverage_ordinal u"
    by (auto simp: is_physical_def)
  then have "check_level rd (set (map cl_ordinal (filter is_physical cs))) c = Inr ()"
    using chk by (simp add: list_all_iff unit_checked_def)
  from check_level_physical [OF c(2) this] obtain raw where raw: "raw \<in> set (sr_units rd)" "stands_for c raw"
    by blast
  then have "raw = u"
    using udist assms(3) c(3) by (auto simp: distinct_map inj_on_def stands_for_def)
  moreover have "d = c" if "d \<in> set cs" "stands_for d u" for d
    using that c dist by (auto simp: distinct_map inj_on_def stands_for_def)
  ultimately show ?thesis using c raw by blast
qed

section \<open>The adapter of the contract test\<close>

definition contract_physical ::
  "(string \<Rightarrow> bool) \<Rightarrow> source_handle \<Rightarrow> raw_unit \<Rightarrow> adapter_error + classified_unit" where
  "contract_physical printable src raw =
     (let locator = ordinal_locator (un_physical_ordinal raw); kind = ''message'' in
      bind_res (map_err (\<lambda>e. \<lparr>ae_stage = ''classify'', ae_detail = evidence_id_error_display printable e\<rparr>)
          (evidence_event_id_from_hash (sh_agent src) (source_id src) locator kind (un_content_hash raw))) (\<lambda>i.
      Inr \<lparr>cl_ordinal = un_coverage_ordinal raw, cl_level = Physical,
           cl_evidence =
             \<lparr>ru_evidence_event_id = i, ru_coverage_ordinal = un_coverage_ordinal raw,
              ru_physical_ordinal = un_physical_ordinal raw, ru_locator = locator, ru_unit_kind = kind,
              ru_artifact = un_artifact raw, ru_content_hash = un_content_hash raw,
              ru_original_bytes = un_original_bytes raw\<rparr>,
           cl_disposition = Consumed kind\<rparr>))"

definition contract_logical ::
  "(string \<Rightarrow> bool) \<Rightarrow> source_handle \<Rightarrow> source_read \<Rightarrow> nat \<times> raw_unit \<Rightarrow> adapter_error + classified_unit" where
  "contract_logical printable src rd ir =
     (case ir of (index, raw) \<Rightarrow>
      let ordinal = length (sr_units rd) + index + 1;
          locator = show_nat_pad6 (un_physical_ordinal raw) @ '':logical:0'';
          kind = ''text_block''; content_hash = sha256_hex ''logical'' in
      bind_res (map_err (\<lambda>e. \<lparr>ae_stage = ''classify'', ae_detail = evidence_id_error_display printable e\<rparr>)
          (evidence_event_id_from_hash (sh_agent src) (source_id src) locator kind content_hash)) (\<lambda>i.
      Inr \<lparr>cl_ordinal = ordinal, cl_level = Logical (un_coverage_ordinal raw),
           cl_evidence =
             \<lparr>ru_evidence_event_id = i, ru_coverage_ordinal = ordinal,
              ru_physical_ordinal = un_physical_ordinal raw, ru_locator = locator, ru_unit_kind = kind,
              ru_artifact = un_artifact raw, ru_content_hash = content_hash,
              ru_original_bytes = length ''logical''\<rparr>,
           cl_disposition = Consumed kind\<rparr>))"

definition contract_classify ::
  "(string \<Rightarrow> bool) \<Rightarrow> source_handle \<Rightarrow> source_read \<Rightarrow> adapter_error + classified_unit list" where
  "contract_classify printable src rd =
     bind_res (map_res (contract_physical printable src) (sr_units rd)) (\<lambda>ps.
     bind_res (map_res (contract_logical printable src rd) (List.enumerate 0 (sr_units rd))) (\<lambda>ls.
     Inr (ps @ ls)))"

definition contract_status :: parse_status where
  "contract_status =
     \<lparr>st_completeness = CompleteVisible,
      st_flags = \<lparr>opaque_reasoning_present = False, unsupported_visible_event = False,
                  compaction_boundary_present = False\<rparr>,
      st_malformed_tail = False, st_event_lost = False\<rparr>"

definition contract_assemble ::
  "source_handle \<Rightarrow> source_read \<Rightarrow> classified_unit list \<Rightarrow> adapter_error + unvalidated_parse" where
  "contract_assemble src rd classified =
     (let units = map (\<lambda>c. \<lparr>cu_ordinal = cl_ordinal c, cu_kind = ru_unit_kind (cl_evidence c),
            cu_evidence = cl_evidence c\<rparr>) classified;
          cov = coverage_with_raw_line_count (length (sr_units rd)) (length classified) units [] []
            contract_status;
          prov = \<lparr>pv_agent = sh_agent src, pv_model = Unknown, pv_cli_version = Unknown, pv_cwd = Unknown,
            pv_branch = Unknown, pv_started_at = Unknown, pv_ended_at = Unknown,
            pv_source_hash = sr_source_hash rd, pv_source_bytes = sr_source_bytes rd\<rparr> in
      Inr (unvalidated_from_model (session_model_new (source_id src) prov cov)))"

definition contract_adapter :: "(string \<Rightarrow> bool) \<Rightarrow> agent_adapter" where
  "contract_adapter printable =
     \<lparr>adp_agent = Codex, adp_version = ''contract-test-v1'',
      adp_classify = contract_classify printable, adp_assemble = contract_assemble\<rparr>"

text \<open>The contract test's source: one line of JSON in memory.\<close>

definition contract_source :: source_handle where
  "contract_source =
     \<lparr>sh_agent = Codex, source_id = ''session'', logical_session_id = None,
      artifacts = [jsonl_artifact ''session.jsonl'' (''{}'' @ [newline])]\<rparr>"

definition contract_read :: source_read where
  "contract_read =
     \<lparr>sr_units = [\<lparr>un_coverage_ordinal = 1, un_physical_ordinal = 1, un_artifact = ''session.jsonl'',
        un_framing = JsonLines, un_bytes = ''{}'', un_original_bytes = 2,
        un_content_hash = sha256_hex ''{}'', un_boundary = Complete\<rparr>],
      sr_source_bytes = 3, sr_source_hash = sha256_hex (''{}'' @ [newline])\<rparr>"

definition contract_units :: "classified_unit list" where
  "contract_units =
     [\<lparr>cl_ordinal = 1, cl_level = Physical,
       cl_evidence = \<lparr>ru_evidence_event_id = ''ev1:codex:session:000001:message:'' @ take 16 (sha256_hex ''{}''),
         ru_coverage_ordinal = 1, ru_physical_ordinal = 1, ru_locator = ''000001'',
         ru_unit_kind = ''message'', ru_artifact = ''session.jsonl'', ru_content_hash = sha256_hex ''{}'',
         ru_original_bytes = 2\<rparr>, cl_disposition = Consumed ''message''\<rparr>,
      \<lparr>cl_ordinal = 2, cl_level = Logical 1,
       cl_evidence = \<lparr>ru_evidence_event_id =
           ''ev1:codex:session:000001:logical:0:text_block:'' @ take 16 (sha256_hex ''logical''),
         ru_coverage_ordinal = 2, ru_physical_ordinal = 1, ru_locator = ''000001:logical:0'',
         ru_unit_kind = ''text_block'', ru_artifact = ''session.jsonl'',
         ru_content_hash = sha256_hex ''logical'', ru_original_bytes = 7\<rparr>,
       cl_disposition = Consumed ''text_block''\<rparr>]"

lemma contract_read_ok: "reader_read fs default_policy contract_source = Inr contract_read"
  by (simp add: contract_source_def contract_read_def jsonl_artifact_def default_policy_def
      default_max_source_bytes_def default_max_unit_bytes_def default_max_document_bytes_def
      rust_eval u64_checked_add_def u64_max_def)

lemma first_locator: "show_nat_pad6 (Suc 0) = ''000001''"
  by (simp add: show_nat_pad6_def show_nat.simps hex_digit_def numeral_eq_Suc)

lemma contract_tokens:
  "token_ok ''session''" "token_ok ''000001''" "token_ok ''000001:logical:0''" "token_ok ''message''"
  "token_ok ''text_block''" "\<not> has_separator ''session.jsonl''"
  by (simp_all add: rust_eval)

lemma contract_id:
  "token_ok sid \<Longrightarrow> token_ok loc \<Longrightarrow> token_ok kind \<Longrightarrow>
     evidence_event_id_from_hash a sid loc kind (sha256_hex bs) =
       Inr (''ev1:'' @ agent_as_str a @ '':'' @ sid @ '':'' @ loc @ '':'' @ kind @ '':''
         @ take 16 (sha256_hex bs))"
  by (simp add: evidence_id_Inr_iff)

lemma contract_classify_ok:
  "contract_classify printable contract_source contract_read = Inr contract_units"
  by (simp add: contract_classify_def contract_physical_def contract_logical_def contract_source_def
      contract_read_def contract_units_def ordinal_locator_def contract_id contract_tokens first_locator Let_def)

lemma contract_valid: "validate_classification printable contract_source contract_read contract_units = Inr ()"
proof -
  have two: "{Suc 0..Suc (Suc 0)} = {Suc 0, 2}" "{Suc 0..2} = {Suc 0, 2}" by auto
  show ?thesis
    by (simp add: validate_classification_ok unit_checked_def contract_units_def is_physical_def
        check_level_def contract_source_def contract_read_def session_id_of_def contract_id
        contract_tokens two)
qed

definition contract_model :: session_model where
  "contract_model =
     session_model_new ''session''
       \<lparr>pv_agent = Codex, pv_model = Unknown, pv_cli_version = Unknown, pv_cwd = Unknown,
        pv_branch = Unknown, pv_started_at = Unknown, pv_ended_at = Unknown,
        pv_source_hash = sr_source_hash contract_read, pv_source_bytes = 3\<rparr>
       (coverage_with_raw_line_count 1 2
         (map (\<lambda>c. \<lparr>cu_ordinal = cl_ordinal c, cu_kind = ru_unit_kind (cl_evidence c),
            cu_evidence = cl_evidence c\<rparr>) contract_units) [] [] contract_status)"

lemma contract_assemble_ok:
  "contract_assemble contract_source contract_read contract_units = Inr (unvalidated_from_model contract_model)"
  by (simp add: contract_assemble_def contract_model_def contract_source_def contract_read_def
      contract_units_def Let_def numeral_2_eq_2)

lemma contract_coverage_ok: "validate_coverage (sm_coverage contract_model) True = Inr ()"
proof -
  have two: "{Suc 0..Suc (Suc 0)} = {Suc 0, 2}" "{Suc 0..2} = {Suc 0, 2}" by auto
  have led: "ledger_of_records (sm_coverage contract_model)"
    by (simp add: contract_model_def session_model_new_def)
  show ?thesis
    unfolding validate_coverage_ok
    using led
    by (simp add: contract_model_def session_model_new_def coverage_with_raw_line_count_def
        contract_units_def total_partition_def u64_max_def units_partition_def all_ordinals_def
        coverage_evidence_def two evidence_identified_def evidence_ok_def contract_tokens starts_with_def
        warnings_loud_def flags_raised_def status_honest_def contract_status_def skipped_count_of_def
        unsupported_visible_def)
qed

lemma contract_model_ok: "validate_model printable rfc3339 contract_model = Inr ()"
  by (simp add: validate_model_ok contract_model_def session_model_new_def known_instant_def
      evidence_derived_def turns_intact_def coverage_evidence_def coverage_with_raw_line_count_def
      contract_units_def contract_read_def contract_id contract_tokens segments_cover_def)

lemma contract_parse:
  "engine_parse printable rfc3339 fs default_policy contract_source (contract_adapter printable)
    = Inr (ValidSession contract_model)"
proof -
  have src: "sh_agent contract_source = Codex" by (simp add: contract_source_def)
  have counts: "raw_line_count (sm_coverage contract_model) = 1" "raw_unit_count (sm_coverage contract_model) = 2"
    "length (sr_units contract_read) = 1" "length contract_units = 2"
    by (simp_all add: contract_model_def session_model_new_def coverage_with_raw_line_count_def
        contract_read_def contract_units_def)
  show ?thesis
    by (simp add: engine_parse_def src contract_adapter_def contract_read_ok contract_classify_ok
        contract_valid contract_assemble_ok unvalidated_from_model_def counts validate_parse_def
        contract_coverage_ok contract_model_ok)
qed

section \<open>Properties\<close>

text \<open>An accepted classification is exact. The classified ordinals are one to their number, each
  once; every unit the reader produced is stood for by one and only one physical record, which
  repeats its position, artifact, hash and size, and which is a skip for being oversized when the
  unit was cut; and every logical record comes after the physical ones and hangs on one of them.\<close>

theorem classification_exact:
  assumes "reader_read fs pol src' = Inr rd" and "validate_classification printable src rd cs = Inr ()"
  shows "sort (map cl_ordinal cs) = [1..<Suc (length cs)]
    \<and> (\<forall>u. u \<in> set (sr_units rd) \<longrightarrow> (\<exists>!c. c \<in> set cs \<and> cl_level c = Physical
         \<and> cl_ordinal c = un_coverage_ordinal u
         \<and> ru_physical_ordinal (cl_evidence c) = un_physical_ordinal u
         \<and> ru_artifact (cl_evidence c) = un_artifact u
         \<and> ru_content_hash (cl_evidence c) = un_content_hash u
         \<and> ru_original_bytes (cl_evidence c) = un_original_bytes u
         \<and> (un_boundary u = BoundaryOversized \<longrightarrow> (\<exists>v. cl_disposition c = Skipped Oversized v))))
    \<and> (\<forall>c parent. c \<in> set cs \<longrightarrow> cl_level c = Logical parent \<longrightarrow>
         1 \<le> parent \<and> parent \<le> length (sr_units rd) \<and> length (sr_units rd) < cl_ordinal c)"
proof -
  have cons: "ordinals_consecutive (sr_units rd)" using reader_read_units [OF assms(1)] by simp
  from assms(2) have n: "length (filter is_physical cs) = length (sr_units rd)"
    and chk: "list_all (unit_checked src rd (set (map cl_ordinal (filter is_physical cs)))) cs"
    and dist: "distinct (map cl_ordinal cs)" and all: "set (map cl_ordinal cs) = {1..length cs}"
    by (simp_all add: validate_classification_ok)
  have "sort (map cl_ordinal cs) = [1..<Suc (length cs)]"
    by (rule sorted_distinct_set_unique)
       (use dist all in \<open>simp_all add: atLeastLessThanSuc_atLeastAtMost del: upt_Suc\<close>)
  moreover note physical_unit_exact [OF cons assms(2), unfolded stands_for_def]
  moreover have "1 \<le> parent \<and> parent \<le> length (sr_units rd) \<and> length (sr_units rd) < cl_ordinal c"
    if "c \<in> set cs" "cl_level c = Logical parent" for c parent
  proof -
    have "check_level rd (set (map cl_ordinal (filter is_physical cs))) c = Inr ()"
      using chk that(1) by (simp add: list_all_iff unit_checked_def)
    from check_level_logical [OF this that(2)] physical_ordinals_exact [OF cons n chk dist]
    show ?thesis by simp
  qed
  ultimately show ?thesis by blast
qed

theorem classification_exact_witness:
  "sort (map cl_ordinal contract_units) = [1, 2] \<and> length (sr_units contract_read) = 1"
  using classification_exact [OF contract_read_ok [of no_files] contract_valid [of "\<lambda>_. False"]]
  by (simp add: contract_units_def contract_read_def upt_rec)

text \<open>C1: end to end. A session returned by the engine, whatever the adapter did, stands on bytes that
  were read within the caps: its coverage accounts for exactly the classified units, each ordinal
  once, and for as many raw lines as units were read; its model passed every model invariant; and its
  coverage is not fatal. The adapter is the one registered for the source's agent.\<close>

theorem engine_parse_sound:
  assumes "engine_parse printable rfc3339 fs policy src adapter = Inr (ValidSession m)"
  shows "\<exists>rd cs. reader_read fs policy src = Inr rd \<and> adp_classify adapter src rd = Inr cs
    \<and> adp_agent adapter = sh_agent src
    \<and> validate_classification printable src rd cs = Inr ()
    \<and> raw_line_count (sm_coverage m) = length (sr_units rd)
    \<and> sort (map cu_ordinal (consumed (sm_coverage m)) @ map su_ordinal (skipped (sm_coverage m)))
        = [1..<Suc (length cs)]
    \<and> validate_model printable rfc3339 m = Inr ()
    \<and> st_completeness (status (sm_coverage m)) \<noteq> Fatal"
proof -
  from assms obtain rd cs p where
    p: "reader_read fs policy src = Inr rd" "adp_classify adapter src rd = Inr cs"
      "adp_agent adapter = sh_agent src" "validate_classification printable src rd cs = Inr ()"
      "raw_line_count (up_coverage p) = length (sr_units rd)" "raw_unit_count (up_coverage p) = length cs"
      "validate_parse printable rfc3339 p = Inr (ValidSession m)"
    by (auto simp: engine_parse_def res_simps split: if_splits)
  then have v: "sm_coverage m = up_coverage p" "validate_coverage (up_coverage p) True = Inr ()"
    "validate_model printable rfc3339 m = Inr ()"
    by (auto simp: validate_parse_def res_simps split: option.splits if_splits)
  from v(2) have part: "units_partition (up_coverage p)" "status_honest (up_coverage p) True"
    by (simp_all add: validate_coverage_ok)
  have "sort (all_ordinals (up_coverage p)) = [1..<Suc (length cs)]"
    using part(1) p(6)
    by (intro sorted_distinct_set_unique)
       (simp_all add: units_partition_def atLeastLessThanSuc_atLeastAtMost del: upt_Suc)
  with p v part(2) show ?thesis
    by (intro exI [of _ rd] exI [of _ cs]) (simp add: all_ordinals_def status_honest_def)
qed

theorem engine_parse_sound_witness:
  "engine_parse (\<lambda>_. False) (\<lambda>_. None) no_files default_policy contract_source (contract_adapter (\<lambda>_. False))
      = Inr (ValidSession contract_model)
    \<and> raw_line_count (sm_coverage contract_model) = 1"
proof -
  let ?parse = "engine_parse (\<lambda>_. False) (\<lambda>_. None) no_files default_policy contract_source
    (contract_adapter (\<lambda>_. False))"
  have p: "?parse = Inr (ValidSession contract_model)" by (rule contract_parse)
  from engine_parse_sound [OF p] obtain rd where
    "reader_read no_files default_policy contract_source = Inr rd"
    "raw_line_count (sm_coverage contract_model) = length (sr_units rd)" by blast
  with p show ?thesis by (simp add: contract_read_ok) (auto simp: contract_read_def)
qed

end
