(* ===== verification/Json.thy ===== *)
theory Json
  imports Ordered_Map Rust_Text
begin

text \<open>
  JSON values as \<^verbatim>\<open>serde_json::Value\<close> holds them: objects are \<^verbatim>\<open>BTreeMap\<close>s (the
  crate is built without insertion order), numbers are unsigned, negative or floating. Two floating
  numbers are equal as \<^verbatim>\<open>f64\<close>s, so the two zeros are; no JSON number is a NaN. Reading and
  writing JSON text is the crate's business and stays a parameter of the code that does it.
\<close>

datatype json_number = NumPos u64 | NumNeg int | NumFloat u64

datatype json =
    JNull
  | JBool bool
  | JNumber json_number
  | JString string
  | JArray "json list"
  | JObject "(string \<times> json) list"

definition f64_bits_eq :: "u64 \<Rightarrow> u64 \<Rightarrow> bool" where
  "f64_bits_eq a b \<longleftrightarrow> a = b \<or> (a mod 2 ^ 63 = 0 \<and> b mod 2 ^ 63 = 0)"

fun number_eq :: "json_number \<Rightarrow> json_number \<Rightarrow> bool" where
  "number_eq (NumPos a) (NumPos b) = (a = b)"
| "number_eq (NumNeg a) (NumNeg b) = (a = b)"
| "number_eq (NumFloat a) (NumFloat b) = f64_bits_eq a b"
| "number_eq _ _ = False"

text \<open>\<^verbatim>\<open>PartialEq for Value\<close>.\<close>

fun json_eq :: "json \<Rightarrow> json \<Rightarrow> bool"
  and json_list_eq :: "json list \<Rightarrow> json list \<Rightarrow> bool"
  and json_fields_eq :: "(string \<times> json) list \<Rightarrow> (string \<times> json) list \<Rightarrow> bool" where
  "json_eq JNull JNull = True"
| "json_eq (JBool a) (JBool b) = (a = b)"
| "json_eq (JNumber a) (JNumber b) = number_eq a b"
| "json_eq (JString a) (JString b) = (a = b)"
| "json_eq (JArray xs) (JArray ys) = json_list_eq xs ys"
| "json_eq (JObject m) (JObject n) = json_fields_eq m n"
| "json_eq _ _ = False"
| "json_list_eq [] [] = True"
| "json_list_eq (x # xs) (y # ys) = (json_eq x y \<and> json_list_eq xs ys)"
| "json_list_eq _ _ = False"
| "json_fields_eq [] [] = True"
| "json_fields_eq ((k, x) # m) ((l, y) # n) = (k = l \<and> json_eq x y \<and> json_fields_eq m n)"
| "json_fields_eq _ _ = False"

text \<open>\<^verbatim>\<open>value.get(key)\<close> with a string key.\<close>

definition json_get :: "json \<Rightarrow> string \<Rightarrow> json option" where
  "json_get v k = (case v of JObject m \<Rightarrow> bt_get m k | _ \<Rightarrow> None)"

definition json_as_str :: "json \<Rightarrow> string option" where
  "json_as_str v = (case v of JString s \<Rightarrow> Some s | _ \<Rightarrow> None)"

lemma number_eq_refl [simp]: "number_eq n n"
  by (cases n) (simp_all add: f64_bits_eq_def)

lemma number_eq_sym: "number_eq m n = number_eq n m"
  by (cases m; cases n) (auto simp: f64_bits_eq_def)

lemma json_list_eq_refl: "(\<And>v. v \<in> set vs \<Longrightarrow> json_eq v v) \<Longrightarrow> json_list_eq vs vs"
  by (induction vs) auto

lemma json_fields_eq_refl: "(\<And>v. v \<in> snd ` set m \<Longrightarrow> json_eq v v) \<Longrightarrow> json_fields_eq m m"
  by (induction m) auto

lemma json_eq_refl [simp]: "json_eq v v"
  by (induction v) (auto intro: json_list_eq_refl json_fields_eq_refl elim: snds.cases)

end
