(* ===== verification/Float32.thy ===== *)
theory Float32
  imports Prelude "HOL-Library.Product_Lexorder"
begin

text \<open>
  The 32-bit floating-point numbers of IEEE 754, as far as the retrieval code computes with them.
  Every finite value is a sign and a whole number of units of \<open>2 ^ -149\<close>, the least positive
  value, so a value is \<open>F32 sign units\<close> and the operations are exact operations on natural
  numbers followed by one rounding to 24 significant bits, half to even. The payload and the sign
  of a NaN are not observed. \<open>f32_round\<close> is monotone, which is what ranking by a computed score
  rests on.
\<close>

section \<open>Values and rounding\<close>

datatype f32 = F32NaN | F32Inf bool | F32 bool nat

text \<open>The number of binary digits.\<close>

fun nat_bits :: "nat \<Rightarrow> nat" where
  "nat_bits n = (if n = 0 then 0 else Suc (nat_bits (n div 2)))"

declare nat_bits.simps [simp del]

text \<open>The whole number nearest to \<open>n / d\<close>, half to even.\<close>

definition round_half_even :: "nat \<Rightarrow> nat \<Rightarrow> nat" where
  "round_half_even n d =
     (let m = n div d; r = n mod d in
      if d < 2 * r \<or> (2 * r = d \<and> odd m) then Suc m else m)"

definition round_units :: "nat \<Rightarrow> nat \<Rightarrow> nat" where
  "round_units n d = (let k = nat_bits (n div d) - 24 in round_half_even n (d * 2 ^ k) * 2 ^ k)"

text \<open>One more than the largest finite magnitude rounds to infinity.\<close>

definition f32_limit :: nat where
  "f32_limit = 2 ^ 277"

definition f32_of_units :: "bool \<Rightarrow> nat \<Rightarrow> f32" where
  "f32_of_units s u = (if u < f32_limit then F32 s u else F32Inf s)"

definition f32_round :: "bool \<Rightarrow> nat \<Rightarrow> nat \<Rightarrow> f32" where
  "f32_round s n d = f32_of_units s (round_units n d)"

definition f32_zero :: f32 where
  "f32_zero = F32 False 0"

definition f32_one :: f32 where
  "f32_one = F32 False (2 ^ 149)"

text \<open>The cast \<^verbatim>\<open>n as f32\<close> of an unsigned integer.\<close>

definition f32_of_nat :: "nat \<Rightarrow> f32" where
  "f32_of_nat n = f32_round False (n * 2 ^ 149) 1"

section \<open>Arithmetic\<close>

fun f32_neg :: "f32 \<Rightarrow> f32" where
  "f32_neg F32NaN = F32NaN"
| "f32_neg (F32Inf s) = F32Inf (\<not> s)"
| "f32_neg (F32 s u) = F32 (\<not> s) u"

fun f32_add :: "f32 \<Rightarrow> f32 \<Rightarrow> f32" where
  "f32_add (F32 s a) (F32 t b) =
     (if s = t then f32_round s (a + b) 1
      else if a = b then f32_zero
      else if b < a then f32_round s (a - b) 1
      else f32_round t (b - a) 1)"
| "f32_add (F32Inf s) (F32Inf t) = (if s = t then F32Inf s else F32NaN)"
| "f32_add (F32Inf s) (F32 t b) = F32Inf s"
| "f32_add (F32 s a) (F32Inf t) = F32Inf t"
| "f32_add _ _ = F32NaN"

definition f32_sub :: "f32 \<Rightarrow> f32 \<Rightarrow> f32" where
  "f32_sub a b = f32_add a (f32_neg b)"

fun f32_mul :: "f32 \<Rightarrow> f32 \<Rightarrow> f32" where
  "f32_mul (F32 s a) (F32 t b) = f32_round (s \<noteq> t) (a * b) (2 ^ 149)"
| "f32_mul (F32Inf s) (F32Inf t) = F32Inf (s \<noteq> t)"
| "f32_mul (F32Inf s) (F32 t b) = (if b = 0 then F32NaN else F32Inf (s \<noteq> t))"
| "f32_mul (F32 s a) (F32Inf t) = (if a = 0 then F32NaN else F32Inf (s \<noteq> t))"
| "f32_mul _ _ = F32NaN"

fun f32_div :: "f32 \<Rightarrow> f32 \<Rightarrow> f32" where
  "f32_div (F32 s a) (F32 t b) =
     (if b = 0 then (if a = 0 then F32NaN else F32Inf (s \<noteq> t))
      else f32_round (s \<noteq> t) (a * 2 ^ 149) b)"
| "f32_div (F32Inf s) (F32 t b) = F32Inf (s \<noteq> t)"
| "f32_div (F32 s a) (F32Inf t) = F32 (s \<noteq> t) 0"
| "f32_div _ _ = F32NaN"

text \<open>The whole square root, two binary digits at a time.\<close>

fun nat_sqrt :: "nat \<Rightarrow> nat" where
  "nat_sqrt n =
     (if n = 0 then 0
      else let r = 2 * nat_sqrt (n div 4) in if (r + 1) * (r + 1) \<le> n then r + 1 else r)"

declare nat_sqrt.simps [simp del]

definition sqrt_units :: "nat \<Rightarrow> nat" where
  "sqrt_units n =
     (let q = nat_sqrt n; k = nat_bits q - 24; m = q div 2 ^ k; h = (2 * m + 1) * 2 ^ k in
      (if h * h < 4 * n \<or> (h * h = 4 * n \<and> odd m) then Suc m else m) * 2 ^ k)"

fun f32_sqrt :: "f32 \<Rightarrow> f32" where
  "f32_sqrt (F32 s u) =
     (if u = 0 then F32 s 0
      else if s then F32NaN
      else f32_of_units False (sqrt_units (u * 2 ^ 149)))"
| "f32_sqrt (F32Inf s) = (if s then F32NaN else F32Inf False)"
| "f32_sqrt F32NaN = F32NaN"

section \<open>Comparison\<close>

definition f32_is_finite :: "f32 \<Rightarrow> bool" where
  "f32_is_finite x = (case x of F32 s u \<Rightarrow> True | _ \<Rightarrow> False)"

text \<open>The numerical order: both zeros are equal, and a NaN compares with nothing.\<close>

fun f32_key :: "f32 \<Rightarrow> int" where
  "f32_key (F32 s u) = (if s then - int u else int u)"
| "f32_key (F32Inf s) = (if s then - int f32_limit else int f32_limit)"
| "f32_key F32NaN = 0"

definition f32_eq :: "f32 \<Rightarrow> f32 \<Rightarrow> bool" where
  "f32_eq a b \<longleftrightarrow> a \<noteq> F32NaN \<and> b \<noteq> F32NaN \<and> f32_key a = f32_key b"

definition f32_less :: "f32 \<Rightarrow> f32 \<Rightarrow> bool" where
  "f32_less a b \<longleftrightarrow> a \<noteq> F32NaN \<and> b \<noteq> F32NaN \<and> f32_key a < f32_key b"

text \<open>
  \<^verbatim>\<open>total_cmp\<close> compares these keys: negative zero comes before positive zero, infinities
  bound the finite values, and a positive NaN comes after everything. It is the linear order of the
  type, so the library's sorting and maxima apply to scores.
\<close>

fun f32_total_key :: "f32 \<Rightarrow> int \<times> int" where
  "f32_total_key (F32 s u) = (if s then (1, - int u) else (2, int u))"
| "f32_total_key (F32Inf s) = (if s then (0, 0) else (3, 0))"
| "f32_total_key F32NaN = (4, 0)"

lemma f32_total_key_inject: "f32_total_key x = f32_total_key y \<longleftrightarrow> x = y"
  by (cases x; cases y) auto

instantiation f32 :: linorder
begin

definition less_eq_f32 :: "f32 \<Rightarrow> f32 \<Rightarrow> bool" where
  "x \<le> y \<longleftrightarrow> f32_total_key x \<le> f32_total_key y"

definition less_f32 :: "f32 \<Rightarrow> f32 \<Rightarrow> bool" where
  "x < y \<longleftrightarrow> f32_total_key x < f32_total_key y"

instance
  by standard (auto simp: less_eq_f32_def less_f32_def less_le_not_le f32_total_key_inject [symmetric] intro: order_antisym)

end

section \<open>Bits\<close>

text \<open>The magnitudes that fit the format: 24 significant bits, below the limit.\<close>

definition f32_units_ok :: "nat \<Rightarrow> bool" where
  "f32_units_ok u \<longleftrightarrow> u < f32_limit \<and> u mod 2 ^ (nat_bits u - 24) = 0"

definition f32_wf :: "f32 \<Rightarrow> bool" where
  "f32_wf x = (case x of F32 s u \<Rightarrow> f32_units_ok u | _ \<Rightarrow> True)"

definition units_to_bits :: "nat \<Rightarrow> nat" where
  "units_to_bits u = (let k = nat_bits u - 24 in k * 2 ^ 23 + u div 2 ^ k)"

fun f32_to_bits :: "f32 \<Rightarrow> u32" where
  "f32_to_bits (F32 s u) = (if s then 2 ^ 31 else 0) + units_to_bits u"
| "f32_to_bits (F32Inf s) = (if s then 2 ^ 31 else 0) + 255 * 2 ^ 23"
| "f32_to_bits F32NaN = 255 * 2 ^ 23 + 2 ^ 22"

definition f32_from_bits :: "u32 \<Rightarrow> f32" where
  "f32_from_bits b =
     (let s = (2 ^ 31 \<le> b); e = b mod 2 ^ 31 div 2 ^ 23; f = b mod 2 ^ 23 in
      if e = 255 then (if f = 0 then F32Inf s else F32NaN)
      else if e = 0 then F32 s f
      else F32 s ((2 ^ 23 + f) * 2 ^ (e - 1)))"

section \<open>Rounding is monotone\<close>

lemma nat_bits_0 [simp]: "nat_bits 0 = 0"
  by (simp add: nat_bits.simps)

lemma nat_bits_bounds: "0 < n \<Longrightarrow> 0 < nat_bits n \<and> 2 ^ (nat_bits n - 1) \<le> n \<and> n < 2 ^ nat_bits n"
proof (induction n rule: nat_bits.induct)
  case (1 n)
  show ?case
  proof (cases "n div 2 = 0")
    case True
    with 1(2) have "n = 1" by auto
    then show ?thesis by (simp add: nat_bits.simps)
  next
    case False
    with 1 have IH: "0 < nat_bits (n div 2)" "2 ^ (nat_bits (n div 2) - 1) \<le> n div 2"
      "n div 2 < 2 ^ nat_bits (n div 2)" by auto
    then obtain b where b: "nat_bits (n div 2) = Suc b" by (cases "nat_bits (n div 2)") auto
    with IH have "2 ^ b \<le> n div 2" "n div 2 < 2 * 2 ^ b" by auto
    moreover have "n = 2 * (n div 2) + n mod 2" "n mod 2 < 2" by simp_all
    ultimately have "2 * 2 ^ b \<le> n" "n < 4 * 2 ^ b" by linarith+
    moreover have "nat_bits n = Suc (Suc b)" using b 1(2) by (simp add: nat_bits.simps [of n])
    ultimately show ?thesis by simp
  qed
qed

lemma nat_bits_less: "n < 2 ^ nat_bits n"
  using nat_bits_bounds [of n] by (cases "n = 0") auto

lemma nat_bits_le: "n < 2 ^ b \<longleftrightarrow> nat_bits n \<le> b"
proof
  assume "n < 2 ^ b"
  then show "nat_bits n \<le> b"
  proof (cases "n = 0")
    case False
    then have "2 ^ (nat_bits n - 1) \<le> n" "0 < nat_bits n" using nat_bits_bounds by auto
    with \<open>n < 2 ^ b\<close> have "(2::nat) ^ (nat_bits n - 1) < 2 ^ b" by linarith
    then have "nat_bits n - 1 < b" by simp
    with \<open>0 < nat_bits n\<close> show ?thesis by simp
  qed simp
next
  assume "nat_bits n \<le> b"
  then have "(2::nat) ^ nat_bits n \<le> 2 ^ b" by simp
  with nat_bits_less [of n] show "n < 2 ^ b" by linarith
qed

lemma nat_bits_mono: "m \<le> n \<Longrightarrow> nat_bits m \<le> nat_bits n"
  using nat_bits_le nat_bits_less le_less_trans by blast

lemma round_half_even_bounds: "n div d \<le> round_half_even n d" "round_half_even n d \<le> Suc (n div d)"
  by (auto simp: round_half_even_def Let_def)

text \<open>The part of a fraction, compared after division by the common denominator.\<close>

lemma round_half_even_mono:
  assumes d: "0 < d" "0 < d'" and le: "n * d' \<le> n' * d"
  shows "round_half_even n d \<le> round_half_even n' d'"
proof -
  have q: "n div d \<le> n' div d'"
  proof -
    have "n div d * d * d' \<le> n * d'" by simp
    also note le
    finally have "n div d * d' \<le> n'" using d by (simp add: mult.commute mult.left_commute)
    then show ?thesis using d by (simp add: less_eq_div_iff_mult_less_eq)
  qed
  show ?thesis
  proof (cases "n div d = n' div d'")
    case False
    with q show ?thesis using round_half_even_bounds [of n d] round_half_even_bounds [of n' d'] by linarith
  next
    case True
    define m r r' where "m = n div d" "r = n mod d" "r' = n' mod d'"
    then have n: "n = m * d + r" and n': "n' = m * d' + r'"
      using True div_mult_mod_eq [of n d] div_mult_mod_eq [of n' d'] by simp_all
    from le have "r * d' \<le> r' * d"
      by (simp add: n n' algebra_simps)
    then have up: "2 * r * d' \<le> 2 * r' * d" by simp
    have "d' < 2 * r'" if "d < 2 * r"
    proof -
      from that d have "d * d' < 2 * r * d'" by simp
      with up have "d * d' < 2 * r' * d" by linarith
      then have "d * d' < d * (2 * r')" by (simp add: mult.commute)
      then show ?thesis by simp
    qed
    moreover have "d' \<le> 2 * r'" if "2 * r = d"
    proof -
      from that up have "d * d' \<le> d * (2 * r')" by (simp add: mult.commute)
      then show ?thesis using d by simp
    qed
    ultimately show ?thesis
      using True m_r_r'_def by (fastforce simp: round_half_even_def Let_def)
  qed
qed

lemma round_half_even_exact: "0 < d \<Longrightarrow> round_half_even (m * d) d = m"
  by (simp add: round_half_even_def Let_def)

lemma round_units_mono:
  assumes d: "0 < d" "0 < d'" and le: "n * d' \<le> n' * d"
  shows "round_units n d \<le> round_units n' d'"
proof -
  define k k' where "k = nat_bits (n div d) - 24" "k' = nat_bits (n' div d') - 24"
  have q: "n div d \<le> n' div d'"
  proof -
    have "n div d * d * d' \<le> n * d'" by simp
    also note le
    finally have "n div d * d' \<le> n'" using d by (simp add: mult.commute mult.left_commute)
    then show ?thesis using d by (simp add: less_eq_div_iff_mult_less_eq)
  qed
  then have kk: "k \<le> k'" unfolding k_k'_def using nat_bits_mono diff_le_mono by blast
  show ?thesis
  proof (cases "k = k'")
    case True
    have "round_half_even n (d * 2 ^ k) \<le> round_half_even n' (d' * 2 ^ k)"
      by (rule round_half_even_mono) (use d le in \<open>simp_all add: mult.assoc [symmetric]\<close>)
    with True show ?thesis by (simp add: round_units_def k_k'_def [symmetric])
  next
    case False
    with kk have less: "k < k'" by simp
    have "n div d < 2 ^ (k + 24)"
      unfolding nat_bits_le k_k'_def by simp
    then have "n < 2 ^ 24 * (d * 2 ^ k)"
      using d by (simp add: div_less_iff_less_mult power_add mult.commute mult.left_commute)
    then have "n * 1 \<le> 2 ^ 24 * (d * 2 ^ k) * 1" by simp
    then have "round_half_even n (d * 2 ^ k) \<le> round_half_even (2 ^ 24 * (d * 2 ^ k)) (d * 2 ^ k)"
      using d by (intro round_half_even_mono) auto
    then have up: "round_half_even n (d * 2 ^ k) \<le> 2 ^ 24"
      using round_half_even_exact [of "d * 2 ^ k" "2 ^ 24"] d by simp
    have bits: "nat_bits (n' div d') = k' + 24" using less unfolding k_k'_def by simp
    then have "n' div d' \<noteq> 0" by (metis nat_bits_0 add_is_0 zero_neq_numeral)
    then have "2 ^ (k' + 23) \<le> n' div d'"
      using nat_bits_bounds [of "n' div d'"] bits by (simp add: add.commute)
    then have "2 ^ 23 * (d' * 2 ^ k') \<le> n'"
      using d by (simp add: less_eq_div_iff_mult_less_eq power_add mult.commute mult.left_commute)
    then have "2 ^ 23 \<le> n' div (d' * 2 ^ k')"
      using d by (simp add: less_eq_div_iff_mult_less_eq)
    then have down: "2 ^ 23 \<le> round_half_even n' (d' * 2 ^ k')"
      using round_half_even_bounds(1) le_trans by blast
    have "round_half_even n (d * 2 ^ k) * 2 ^ k \<le> 2 ^ 24 * 2 ^ k" using up by simp
    also have "\<dots> = 2 ^ 23 * 2 ^ Suc k" by simp
    also have "\<dots> \<le> 2 ^ 23 * 2 ^ k'" using less by (intro mult_left_mono power_increasing) auto
    also have "\<dots> \<le> round_half_even n' (d' * 2 ^ k') * 2 ^ k'" using down by simp
    finally show ?thesis by (simp add: round_units_def k_k'_def [symmetric])
  qed
qed

text \<open>A magnitude that fits the format is not changed by rounding.\<close>

lemma round_units_exact:
  assumes "f32_units_ok u"
  shows "round_units u 1 = u"
proof -
  from assms have "u mod 2 ^ (nat_bits u - 24) = 0" by (simp add: f32_units_ok_def)
  then obtain m where m: "u = m * 2 ^ (nat_bits u - 24)"
    by (auto simp: mod_eq_0_iff_dvd mult.commute elim: dvdE)
  then have "round_half_even u (2 ^ (nat_bits u - 24)) = m"
    by (metis round_half_even_exact zero_less_numeral zero_less_power)
  then show ?thesis using m by (simp add: round_units_def)
qed

lemma f32_round_exact: "f32_units_ok u \<Longrightarrow> f32_round s u 1 = F32 s u"
  by (simp add: f32_round_def f32_of_units_def round_units_exact f32_units_ok_def del: One_nat_def)

section \<open>Non-negative values\<close>

text \<open>
  On values that are not negative the operations are monotone: the key of a sum grows with its
  arguments and the key of a quotient with its numerator.
\<close>

definition f32_nonneg :: "f32 \<Rightarrow> bool" where
  "f32_nonneg x \<longleftrightarrow> x = F32Inf False \<or> (\<exists>u. x = F32 False u \<and> u < f32_limit)"

lemma f32_nonneg_cases:
  assumes "f32_nonneg x"
  obtains (inf) "x = F32Inf False" | (fin) u where "x = F32 False u" "u < f32_limit"
  using assms unfolding f32_nonneg_def by blast

lemma f32_nonneg_round [simp]: "f32_nonneg (f32_round False n d)"
  by (simp add: f32_nonneg_def f32_round_def f32_of_units_def)

lemma f32_nonneg_zero [simp]: "f32_nonneg f32_zero"
  by (simp add: f32_nonneg_def f32_zero_def f32_limit_def)

lemma f32_key_of_units: "f32_key (f32_of_units False u) = int (min u f32_limit)"
  by (auto simp: f32_of_units_def)

lemma f32_key_round_mono:
  assumes "0 < d" "0 < d'" "n * d' \<le> n' * d"
  shows "f32_key (f32_round False n d) \<le> f32_key (f32_round False n' d')"
  using round_units_mono [OF assms] by (simp add: f32_round_def f32_key_of_units min_def)

lemma f32_nonneg_add: "f32_nonneg x \<Longrightarrow> f32_nonneg y \<Longrightarrow> f32_nonneg (f32_add x y)"
  by (elim f32_nonneg_cases) (simp_all add: f32_nonneg_def, simp add: f32_nonneg_def [symmetric])

lemma f32_key_nonneg: "f32_nonneg x \<Longrightarrow> 0 \<le> f32_key x \<and> f32_key x \<le> int f32_limit"
  by (elim f32_nonneg_cases) simp_all

lemma f32_key_add_mono:
  assumes "f32_nonneg x" "f32_nonneg y" "f32_nonneg x'" "f32_nonneg y'"
    and "f32_key x \<le> f32_key x'" "f32_key y \<le> f32_key y'"
  shows "f32_key (f32_add x y) \<le> f32_key (f32_add x' y')"
proof (cases "x' = F32Inf False \<or> y' = F32Inf False")
  case True
  then have "f32_add x' y' = F32Inf False"
    using assms(3,4) by (elim f32_nonneg_cases) auto
  then show ?thesis using f32_key_nonneg [OF f32_nonneg_add [OF assms(1,2)]] by simp
next
  case False
  have le: "round_units f32_limit 1 \<le> round_units a (Suc 0)" if "f32_limit \<le> a" for a
    using round_units_mono [of 1 1 f32_limit a] that by simp
  have lim: "round_units f32_limit 1 = f32_limit"
    by (simp add: round_units_def round_half_even_def f32_limit_def nat_bits.simps)
  from False assms show ?thesis
    using le lim
    by (elim f32_nonneg_cases)
       (force simp: f32_round_def f32_key_of_units intro: round_units_mono min.coboundedI1)+
qed

text \<open>The reciprocal falls as the number grows.\<close>

lemma f32_nonneg_recip: "f32_nonneg x \<Longrightarrow> f32_nonneg (f32_div f32_one x)"
  by (elim f32_nonneg_cases)
     (simp_all add: f32_one_def, simp_all add: f32_nonneg_def f32_limit_def f32_round_def f32_of_units_def)

lemma f32_key_recip_mono:
  assumes "f32_nonneg x" "f32_nonneg y" "f32_key x \<le> f32_key y"
  shows "f32_key (f32_div f32_one y) \<le> f32_key (f32_div f32_one x)"
proof -
  have le: "f32_key z \<le> int f32_limit" "0 \<le> f32_key z" if "f32_nonneg z" for z
    using f32_key_nonneg [OF that] by simp_all
  from assms show ?thesis
    using le [OF f32_nonneg_recip [OF assms(1)]] le [OF f32_nonneg_recip [OF assms(2)]]
    by (elim f32_nonneg_cases)
       (auto simp: f32_one_def intro!: f32_key_round_mono mult_left_mono)
qed

lemma f32_key_of_nat_mono: "m \<le> n \<Longrightarrow> f32_key (f32_of_nat m) \<le> f32_key (f32_of_nat n)"
  by (simp add: f32_of_nat_def f32_key_round_mono)

text \<open>What rounding returns fits the format, so rounding again changes nothing.\<close>

lemma round_units_divides:
  assumes "0 < d"
  shows "round_units n d mod 2 ^ (nat_bits (round_units n d) - 24) = 0"
proof -
  define k m where "k = nat_bits (n div d) - 24" and "m = round_half_even n (d * 2 ^ k)"
  have u: "round_units n d = m * 2 ^ k" by (simp add: round_units_def k_def m_def Let_def)
  have "n div d < 2 ^ (k + 24)" unfolding nat_bits_le k_def by simp
  then have "n < 2 ^ 24 * (d * 2 ^ k)"
    using assms by (simp add: div_less_iff_less_mult power_add mult.commute mult.left_commute)
  then have "n div (d * 2 ^ k) < 2 ^ 24"
    using assms by (simp add: div_less_iff_less_mult)
  then have "m \<le> 2 ^ 24" using round_half_even_bounds(2) [of n "d * 2 ^ k"] by (simp add: m_def)
  then consider "m < 2 ^ 24" | "m = 2 ^ 24" by linarith
  then show ?thesis
  proof cases
    case 1
    then have "m * 2 ^ k < 2 ^ (24 + k)" by (simp add: power_add)
    then have "nat_bits (m * 2 ^ k) - 24 \<le> k" using nat_bits_le by fastforce
    then show ?thesis by (simp add: u mod_eq_0_iff_dvd dvd_mult le_imp_power_dvd)
  next
    case 2
    then have "m * 2 ^ k < 2 ^ (25 + k)" by (simp add: power_add)
    then have "nat_bits (m * 2 ^ k) - 24 \<le> Suc k" using nat_bits_le [of "m * 2 ^ k" "25 + k"] by simp
    moreover have "m * 2 ^ k = 2 ^ 23 * 2 ^ Suc k" using 2 by simp
    ultimately show ?thesis by (simp only: u mod_eq_0_iff_dvd dvd_mult le_imp_power_dvd)
  qed
qed

lemma f32_wf_round [simp]: "0 < d \<Longrightarrow> f32_wf (f32_round s n d)"
  by (simp add: f32_round_def f32_of_units_def f32_wf_def f32_units_ok_def round_units_divides)

lemma f32_wf_zero [simp]: "f32_wf f32_zero"
  by (simp add: f32_zero_def f32_wf_def f32_units_ok_def f32_limit_def)

text \<open>Adding a value that is not negative does not lower a value of the format.\<close>

lemma f32_key_add_grows:
  assumes "f32_nonneg x" "f32_nonneg y" "f32_wf x"
  shows "f32_key x \<le> f32_key (f32_add x y)"
proof (cases "f32_add x y = F32Inf False")
  case True
  then show ?thesis using f32_key_nonneg [OF assms(1)] by simp
next
  case False
  then obtain a b where "x = F32 False a" "y = F32 False b" "f32_units_ok a"
    using assms by (auto elim!: f32_nonneg_cases simp: f32_wf_def)
  moreover have "round_units a 1 \<le> round_units (a + b) 1" by (rule round_units_mono) auto
  ultimately show ?thesis
    using round_units_exact [of a] by (auto simp: f32_round_def f32_key_of_units f32_units_ok_def)
qed

lemma f32_wf_add: "f32_nonneg x \<Longrightarrow> f32_nonneg y \<Longrightarrow> f32_wf (f32_add x y)"
  by (elim f32_nonneg_cases) (simp_all add: f32_wf_def, simp add: f32_wf_def [symmetric])

section \<open>Bits round trip\<close>

lemma units_to_bits_cases:
  assumes "f32_units_ok u"
  obtains (subnormal) "u < 2 ^ 23" "units_to_bits u = u"
  | (normal) k f where "k \<le> 253" "f < 2 ^ 23" "u = (2 ^ 23 + f) * 2 ^ k"
      "units_to_bits u = Suc k * 2 ^ 23 + f"
proof (cases "nat_bits u \<le> 23")
  case True
  then show ?thesis
    using nat_bits_le [of u 23] by (intro subnormal) (simp_all add: units_to_bits_def)
next
  case False
  define k m where "k = nat_bits u - 24" and "m = u div 2 ^ k"
  have bits: "nat_bits u = k + 24" using False by (simp add: k_def)
  then have pos: "0 < u" by (cases "u = 0") auto
  have low: "2 ^ (k + 23) \<le> u" and high: "u < 2 ^ (k + 24)"
    using nat_bits_bounds [OF pos] bits by (simp_all add: add.commute)
  have u: "u = m * 2 ^ k"
    using assms by (auto simp: f32_units_ok_def k_def m_def mod_eq_0_iff_dvd)
  with low have m1: "2 ^ 23 \<le> m" by (simp add: power_add mult.commute)
  from u high have m2: "m < 2 ^ 24" by (simp add: power_add mult.commute)
  have "nat_bits u \<le> 277" using assms nat_bits_le [of u 277] by (simp add: f32_units_ok_def f32_limit_def)
  then have "k \<le> 253" using bits by simp
  moreover have "units_to_bits u = k * 2 ^ 23 + m" by (simp add: units_to_bits_def k_def m_def Let_def)
  ultimately show ?thesis
    using m1 m2 u by (intro normal [of k "m - 2 ^ 23"]) auto
qed

lemma units_to_bits_less: "f32_units_ok u \<Longrightarrow> units_to_bits u < 2 ^ 31"
  by (erule units_to_bits_cases) auto

lemma f32_bits_roundtrip:
  assumes "f32_wf x"
  shows "f32_from_bits (f32_to_bits x) = x"
proof (cases x)
  case (F32 s u)
  with assms have ok: "f32_units_ok u" by (simp add: f32_wf_def)
  from ok show ?thesis
  proof (cases rule: units_to_bits_cases)
    case subnormal
    moreover have "(u + 256 * 8388608) mod 8388608 = u" using subnormal(1) by (subst mod_mult_self1) simp
    then have "(2147483648 + u) mod 8388608 = u" by (simp add: add.commute)
    ultimately show ?thesis using F32 subnormal(1) by (cases s) (simp_all add: f32_from_bits_def Let_def)
  next
    case (normal k f)
    define c where "c = (if s then (2::nat) ^ 31 else 0) + (Suc k * 2 ^ 23 + f)"
    have a: "Suc k * 2 ^ 23 + f < 2 ^ 31" using normal(1,2) by simp
    then have "c mod 2 ^ 31 = Suc k * 2 ^ 23 + f" "2 ^ 31 \<le> c \<longleftrightarrow> s"
      unfolding c_def by (cases s; simp only: mod_add_self1 mod_less if_True if_False; simp)+
    moreover have "c = f + ((if s then 256 else 0) + Suc k) * 2 ^ 23"
      by (simp add: c_def)
    then have "c mod 2 ^ 23 = f" using normal(2) by (simp only: mod_mult_self1 mod_less)
    ultimately have e: "c mod 2 ^ 31 = Suc k * 2 ^ 23 + f" "c mod 2 ^ 23 = f" "2 ^ 31 \<le> c \<longleftrightarrow> s"
      by blast+
    have "(Suc k * 2 ^ 23 + f) div 2 ^ 23 = Suc k"
      using normal(2) by simp
    with e normal have "f32_from_bits c = F32 s u"
      by (simp add: f32_from_bits_def Let_def)
    then show ?thesis using F32 normal by (simp add: c_def)
  qed
qed (auto simp: f32_from_bits_def Let_def)

lemma f32_to_bits_less: "f32_wf x \<Longrightarrow> f32_to_bits x < 2 ^ 32"
  by (cases x) (auto simp: f32_wf_def dest: units_to_bits_less)

lemmas f32_eval [rust_eval] =
  f32_one_def f32_zero_def f32_of_nat_def f32_round_def f32_of_units_def round_units_def
  round_half_even_def nat_bits.simps f32_limit_def f32_sub_def nat_sqrt.simps sqrt_units_def
  f32_is_finite_def f32_eq_def f32_less_def f32_units_ok_def f32_wf_def units_to_bits_def
  f32_from_bits_def less_eq_f32_def less_f32_def

end
