(* ===== verification/Retrieve_Types.thy ===== *)
theory Retrieve_Types
  imports Json Float32 Sha256
begin

text \<open>
  The types of the retrieval crate (\<^verbatim>\<open>crates/aicx-retrieve/src/types.rs\<close>,
  \<^verbatim>\<open>error.rs\<close>) and the typed outcome of a query: health is derived from what executed,
  and only in \<open>from_evidence\<close>. \<^verbatim>\<open>anyhow::Error\<close> is a message or a typed retrieval error.
\<close>

section \<open>Requests, hits, filters\<close>

record chunk_ref =
  ck_id :: string
  ck_source_path :: string
  ck_text :: string
  ck_metadata :: json

record dense_chunk_ref =
  dc_chunk :: chunk_ref
  dc_embedding :: "f32 list"

record hit =
  hit_chunk_id :: string
  hit_score :: f32
  hit_rank :: usize
  hit_source :: string
  hit_metadata :: json

type_synonym filter_set = "(string, json) btree_map"

record lexical_query =
  lq_text :: string
  lq_limit :: usize
  lq_filters :: filter_set

datatype distance = Cosine | Euclidean | Dot

datatype requested_mode = ReqHybrid | ReqLexical

datatype executed_path = HybridFusion | DenseOnly | LexicalOnly | ExecNone

datatype completeness = Complete | Partial | Degraded | Unknown

section \<open>Errors\<close>

datatype retrieve_error =
    DimMismatch usize usize
  | GenerationMismatch string string
  | DenseCountMismatch usize usize
  | SourceChunkCountMismatch usize usize
  | LexicalDocCountMismatch usize usize
  | LexicalCommitMismatch string string
  | EmbedderModelDrift string string
  | SchemaVersionUnsupported string
  | LexicalSchemaDowngrade string string string
  | LexicalSchemaTooNew string string string
  | SourceHashDrift string string

datatype anyhow = Message string | Typed retrieve_error

section \<open>The outcome of a query\<close>

definition fallback_evidence_missing :: string where
  "fallback_evidence_missing =
     ''execution_evidence_missing: caller supplied no executed path or examined count; ''
     @ ''refusing to claim a healthy retrieval''"

definition fallback_degraded_unspecified :: string where
  "fallback_degraded_unspecified =
     ''degraded_execution_reason_missing: executed path is weaker than requested ''
     @ ''and the caller supplied no reason''"

record retrieval_evidence =
  re_executed_path :: "executed_path option"
  re_examined_count :: "usize option"
  re_matched_count :: usize
  re_fallback_reason :: "string option"
  re_stale_evidence :: bool

record retrieval_outcome =
  ro_requested_mode :: requested_mode
  ro_executed_path :: executed_path
  ro_completeness :: completeness
  ro_fallback_reason :: "string option"
  ro_examined_count :: usize
  ro_matched_count :: usize
  ro_stale_evidence :: bool

definition reason_or :: "string option \<Rightarrow> string \<Rightarrow> string option" where
  "reason_or r d = Some (case r of None \<Rightarrow> d | Some s \<Rightarrow> s)"

definition from_evidence :: "requested_mode \<Rightarrow> retrieval_evidence \<Rightarrow> retrieval_outcome" where
  "from_evidence mode e =
     (case (re_executed_path e, re_examined_count e) of
        (Some path, Some examined) \<Rightarrow>
          (let (completeness, reason) =
             (if (mode = ReqHybrid \<and> path = HybridFusion) \<or> (mode = ReqLexical \<and> path = LexicalOnly)
              then (Complete, re_fallback_reason e)
              else if path = ExecNone
              then (Unknown, reason_or (re_fallback_reason e) fallback_evidence_missing)
              else (Degraded, reason_or (re_fallback_reason e) fallback_degraded_unspecified))
           in \<lparr> ro_requested_mode = mode, ro_executed_path = path, ro_completeness = completeness,
                ro_fallback_reason = reason, ro_examined_count = examined,
                ro_matched_count = re_matched_count e, ro_stale_evidence = re_stale_evidence e \<rparr>)
      | (path, examined) \<Rightarrow>
          \<lparr> ro_requested_mode = mode, ro_executed_path = ExecNone, ro_completeness = Unknown,
            ro_fallback_reason = reason_or (re_fallback_reason e) fallback_evidence_missing,
            ro_examined_count = (case examined of None \<Rightarrow> 0 | Some n \<Rightarrow> n),
            ro_matched_count = re_matched_count e, ro_stale_evidence = re_stale_evidence e \<rparr>)"

definition mark_partial :: "retrieval_outcome \<Rightarrow> retrieval_outcome" where
  "mark_partial r =
     (if ro_completeness r = Complete then r\<lparr>ro_completeness := Partial\<rparr> else r)"

section \<open>Filters and ranks\<close>

text \<open>The orchestrator's and the mapped index's filter: every expected field is present and equal.\<close>

definition metadata_matches :: "json \<Rightarrow> filter_set \<Rightarrow> bool" where
  "metadata_matches metadata filters =
     list_all (\<lambda>(key, expected).
       (case json_get metadata key of None \<Rightarrow> False | Some actual \<Rightarrow> json_eq actual expected)) filters"

text \<open>\<^verbatim>\<open>for (rank, hit) in hits.iter_mut().enumerate() { hit.rank = rank; }\<close>\<close>

fun rerank_from :: "usize \<Rightarrow> hit list \<Rightarrow> hit list" where
  "rerank_from n [] = []"
| "rerank_from n (h # hs) = h\<lparr>hit_rank := n\<rparr> # rerank_from (Suc n) hs"

definition rerank :: "hit list \<Rightarrow> hit list" where
  "rerank hs = rerank_from 0 hs"

lemma length_rerank_from [simp]: "length (rerank_from n hs) = length hs"
  by (induction hs arbitrary: n) auto

lemma length_rerank [simp]: "length (rerank hs) = length hs"
  by (simp add: rerank_def)

lemma rerank_from_ranks: "map hit_rank (rerank_from n hs) = [n ..< n + length hs]"
  by (induction hs arbitrary: n) (auto simp: upt_rec)

lemma rerank_ranks: "map hit_rank (rerank hs) = [0 ..< length hs]"
  by (simp add: rerank_def rerank_from_ranks)

lemma rerank_from_fields:
  "map hit_chunk_id (rerank_from n hs) = map hit_chunk_id hs"
  "map hit_score (rerank_from n hs) = map hit_score hs"
  "map hit_metadata (rerank_from n hs) = map hit_metadata hs"
  "map hit_source (rerank_from n hs) = map hit_source hs"
  by (induction hs arbitrary: n) auto

lemma rerank_fields [simp]:
  "map hit_chunk_id (rerank hs) = map hit_chunk_id hs"
  "map hit_score (rerank hs) = map hit_score hs"
  "map hit_metadata (rerank hs) = map hit_metadata hs"
  "map hit_source (rerank hs) = map hit_source hs"
  by (simp_all add: rerank_def rerank_from_fields)

lemma rerank_from_elem:
  "h \<in> set (rerank_from n hs) \<Longrightarrow>
     \<exists>g \<in> set hs. hit_chunk_id h = hit_chunk_id g \<and> hit_metadata h = hit_metadata g"
  by (induction n hs rule: rerank_from.induct) auto

lemma rerank_elem:
  assumes "h \<in> set (rerank hs)"
  obtains g where "g \<in> set hs" "hit_chunk_id h = hit_chunk_id g" "hit_metadata h = hit_metadata g"
  using assms rerank_from_elem unfolding rerank_def by blast

section \<open>Health is what executed\<close>

lemma from_evidence_keeps [simp]:
  "ro_requested_mode (from_evidence mode e) = mode"
  "ro_matched_count (from_evidence mode e) = re_matched_count e"
  "ro_stale_evidence (from_evidence mode e) = re_stale_evidence e"
  "ro_examined_count (from_evidence mode e) = (case re_examined_count e of None \<Rightarrow> 0 | Some n \<Rightarrow> n)"
  by (auto simp: from_evidence_def split: option.splits)

text \<open>
  A query outcome claims completeness exactly when the requested path is the executed one and
  the number of candidates examined is known; it claims nothing exactly when evidence is missing;
  whatever is not complete carries a reason; marking an outcome partial changes complete outcomes
  only, and only their completeness.
\<close>

theorem outcome_health:
  "(ro_completeness (from_evidence mode e) = Complete \<longleftrightarrow>
      re_examined_count e \<noteq> None
      \<and> re_executed_path e = Some (case mode of ReqHybrid \<Rightarrow> HybridFusion | ReqLexical \<Rightarrow> LexicalOnly))
   \<and> (ro_completeness (from_evidence mode e) = Unknown \<longleftrightarrow>
      re_examined_count e = None \<or> re_executed_path e \<in> {None, Some ExecNone})
   \<and> ro_completeness (from_evidence mode e) \<noteq> Partial
   \<and> (ro_executed_path (from_evidence mode e) = ExecNone
       \<longleftrightarrow> ro_completeness (from_evidence mode e) = Unknown)
   \<and> (ro_completeness (from_evidence mode e) = Complete
       \<or> (\<exists>reason. ro_fallback_reason (from_evidence mode e) = Some reason))
   \<and> ro_completeness (mark_partial r) =
       (if ro_completeness r = Complete then Partial else ro_completeness r)
   \<and> (mark_partial r)\<lparr>ro_completeness := c\<rparr> = r\<lparr>ro_completeness := c\<rparr>"
  by (cases mode; cases "re_executed_path e"; cases "re_examined_count e")
     (auto simp: from_evidence_def mark_partial_def reason_or_def split: executed_path.splits)

lemmas [rust_eval] =
  from_evidence_def mark_partial_def reason_or_def metadata_matches_def rerank_def json_get_def
  json_as_str_def f64_bits_eq_def fallback_evidence_missing_def fallback_degraded_unspecified_def

end
