(* ===== verification/Refill.thy ===== *)
theory Refill
  imports Retrieve_Types
begin

text \<open>
  The refill loops of \<^verbatim>\<open>crates/aicx-retrieve/src/orchestrator.rs\<close>: a leg is asked for a
  window of its global ranking, hits are filtered locally, and the window doubles until enough hits
  are kept, the leg runs out, or the budget is reached. The loop is a partial function, so that not
  returning is \<^const>\<open>None\<close>. The interface \<open>ranked_source\<close> is what a leg promises, a window
  is a prefix of one ranking; \<open>filtered_source\<close> adds the filter a dense leg applies itself. What
  the loop computes is proved once, here, from the interface.
\<close>

section \<open>The loop\<close>

record refill =
  rf_hits :: "hit list"
  rf_examined :: usize
  rf_exhausted :: bool
  rf_saturated :: bool

definition u64_saturating_mul :: "u64 \<Rightarrow> u64 \<Rightarrow> u64" where
  "u64_saturating_mul a b = min (a * b) u64_max"

text \<open>\<open>active\<close> is the code's flag: without it the raw hits are taken as they are.\<close>

partial_function (option) refill_loop ::
  "(usize \<Rightarrow> anyhow + hit list) \<Rightarrow> bool \<Rightarrow> (hit \<Rightarrow> bool) \<Rightarrow> usize \<Rightarrow> usize \<Rightarrow> usize \<Rightarrow> (anyhow + refill) option" where
  "refill_loop fetch active keep limit budget window =
     (case fetch window of
        Inl e \<Rightarrow> Some (Inl e)
      | Inr raw \<Rightarrow>
          (let hits = (if active then filter keep raw else raw) in
           if limit \<le> length hits
           then Some (Inr \<lparr> rf_hits = hits, rf_examined = length raw, rf_exhausted = False, rf_saturated = False \<rparr>)
           else if length raw < window
           then Some (Inr \<lparr> rf_hits = hits, rf_examined = length raw, rf_exhausted = True, rf_saturated = False \<rparr>)
           else if budget \<le> window
           then Some (Inr \<lparr> rf_hits = hits, rf_examined = length raw, rf_exhausted = False, rf_saturated = True \<rparr>)
           else refill_loop fetch active keep limit budget (min (u64_saturating_mul window 2) budget)))"

section \<open>It returns\<close>

text \<open>The windows a refill may ask for: the first one doubled some number of times, cut at the budget.\<close>

definition refill_window :: "usize \<Rightarrow> usize \<Rightarrow> nat \<Rightarrow> usize" where
  "refill_window window budget k = (if k = 0 then window else min (window * 2 ^ k) budget)"

lemma saturating_double:
  "budget \<le> u64_max \<Longrightarrow> min (u64_saturating_mul window 2) budget = min (window * 2) budget"
  by (simp add: u64_saturating_mul_def)

lemma refill_window_next:
  "refill_window (min (window * 2) budget) budget k = refill_window window budget (Suc k)"
proof (cases "window * 2 \<le> budget")
  case True
  then show ?thesis by (simp add: refill_window_def mult.assoc)
next
  case False
  have "budget * 1 \<le> budget * 2 ^ k" by (intro mult_left_mono) auto
  then have "min (budget * 2 ^ k) budget = budget" by simp
  moreover have "window * 2 \<le> window * (2 * 2 ^ k)" by simp
  then have "min (window * (2 * 2 ^ k)) budget = budget" using False by (intro min_absorb2) linarith
  ultimately show ?thesis using False by (simp add: refill_window_def)
qed

lemma refill_same:
  assumes "1 \<le> window" and "budget \<le> u64_max"
    and "\<And>k. fetch' (refill_window window budget k) = fetch (refill_window window budget k)"
  shows "\<exists>r. refill_loop fetch active keep limit budget window = Some r
    \<and> refill_loop fetch' active keep limit budget window = Some r"
  using assms
proof (induction "budget - window" arbitrary: window rule: less_induct)
  case less
  have same: "fetch' window = fetch window" using less.prems(3) [of 0] by (simp add: refill_window_def)
  show ?case
  proof (cases "window < budget")
    case True
    let ?w = "min (window * 2) budget"
    have "\<exists>r. refill_loop fetch active keep limit budget ?w = Some r
        \<and> refill_loop fetch' active keep limit budget ?w = Some r"
      using less True by (intro less.hyps) (auto simp: refill_window_next)
    then show ?thesis
      using less.prems(2) by (subst (1 2) refill_loop.simps)
        (auto simp: same Let_def saturating_double split: sum.split)
  next
    case False
    then show ?thesis
      by (subst (1 2) refill_loop.simps) (auto simp: same Let_def split: sum.split)
  qed
qed

lemma refill_some:
  assumes "1 \<le> window" and "budget \<le> u64_max"
  shows "\<exists>r. refill_loop fetch active keep limit budget window = Some r"
  using refill_same [of window budget fetch fetch active keep limit] assms by simp

text \<open>What a refill returns is the filtered answer to some window it asked for.\<close>

definition answered :: "(usize \<Rightarrow> anyhow + hit list) \<Rightarrow> bool \<Rightarrow> (hit \<Rightarrow> bool) \<Rightarrow> usize \<Rightarrow> refill \<Rightarrow> bool" where
  "answered fetch active keep bound r \<longleftrightarrow> (\<exists>w raw. fetch w = Inr raw \<and> w \<le> bound
    \<and> rf_hits r = (if active then filter keep raw else raw) \<and> rf_examined r = length raw)"

lemma answered_mono: "answered fetch active keep b r \<Longrightarrow> b \<le> c \<Longrightarrow> answered fetch active keep c r"
  unfolding answered_def by (blast intro: order_trans)

lemma refill_answered:
  "refill_loop fetch active keep limit budget window = Some (Inr r)
    \<Longrightarrow> answered fetch active keep (max window budget) r"
proof -
  have "\<forall>r. Q = Inr r \<longrightarrow> answered fetch active keep (max window budget) r"
    if "refill_loop fetch active keep limit budget window = Some Q" for Q
  proof (rule refill_loop.raw_induct [OF _ that])
    fix loop f a k l b w y
    assume IH: "\<And>f a k l b w y. loop f a k l b w = Some y \<Longrightarrow> \<forall>r. y = Inr r \<longrightarrow> answered f a k (max w b) r"
      and step: "(case f w of Inl e \<Rightarrow> Some (Inl e)
        | Inr raw \<Rightarrow> (let hits = if a then filter k raw else raw in
           if l \<le> length hits
           then Some (Inr \<lparr> rf_hits = hits, rf_examined = length raw, rf_exhausted = False, rf_saturated = False \<rparr>)
           else if length raw < w
           then Some (Inr \<lparr> rf_hits = hits, rf_examined = length raw, rf_exhausted = True, rf_saturated = False \<rparr>)
           else if b \<le> w
           then Some (Inr \<lparr> rf_hits = hits, rf_examined = length raw, rf_exhausted = False, rf_saturated = True \<rparr>)
           else loop f a k l b (min (u64_saturating_mul w 2) b))) = Some y"
    show "\<forall>r. y = Inr r \<longrightarrow> answered f a k (max w b) r"
    proof (intro allI impI)
      fix r assume y: "y = Inr r"
      from step y obtain raw where raw: "f w = Inr raw" by (cases "f w") auto
      show "answered f a k (max w b) r"
      proof (cases "loop f a k l b (min (u64_saturating_mul w 2) b) = Some y")
        case True
        from IH [OF True] y have "answered f a k (max (min (u64_saturating_mul w 2) b) b) r" by simp
        then show ?thesis by (rule answered_mono) simp
      next
        case False
        with step y raw have "rf_hits r = (if a then filter k raw else raw) \<and> rf_examined r = length raw"
          by (auto simp: Let_def split: if_splits)
        with raw show ?thesis unfolding answered_def by (intro exI [of _ w] exI [of _ raw]) simp
      qed
    qed
  qed
  then show "refill_loop fetch active keep limit budget window = Some (Inr r) \<Longrightarrow> ?thesis" by blast
qed

text \<open>
  C32: a refill that starts from a positive window returns, whatever the leg answers and whatever the
  filter drops; and its result depends on the leg's answers to the doubled and cut windows only, so
  no request exceeds the larger of the starting window and the budget.
\<close>

theorem refill_returns:
  assumes "1 \<le> window" and "budget \<le> u64_max"
    and "\<And>k. fetch' (refill_window window budget k) = fetch (refill_window window budget k)"
  shows "\<exists>r. refill_loop fetch active keep limit budget window = Some r
    \<and> refill_loop fetch' active keep limit budget window = Some r"
  using assms by (rule refill_same)

lemma refill_returns_witness:
  "\<exists>r. refill_loop (\<lambda>n. Inr []) True (\<lambda>h. False) 5 50 5 = Some r"
  using refill_returns [of 5 50 "\<lambda>n. Inr []" "\<lambda>n. Inr []" True "\<lambda>h. False" 5]
  by (simp add: u64_max_def)

section \<open>What a leg promises\<close>

locale ranked_source =
  fixes fetch :: "'q \<Rightarrow> usize \<Rightarrow> anyhow + hit list"
    and ready :: "'q \<Rightarrow> bool"
    and ranking :: "'q \<Rightarrow> hit list"
  assumes fetch_prefix: "ready q \<Longrightarrow> fetch q n = Inr (take n (ranking q))"
begin

text \<open>
  The reference: filter the part of the ranking the budget reaches. The refill keeps the same first
  hits, says it ran out exactly when the whole ranking was seen and is too short, and says it was
  cut exactly when the budget ended before enough hits were found.
\<close>

definition reachable_hits :: "'q \<Rightarrow> bool \<Rightarrow> (hit \<Rightarrow> bool) \<Rightarrow> usize \<Rightarrow> hit list" where
  "reachable_hits q active keep n = filter (\<lambda>h. active \<longrightarrow> keep h) (take n (ranking q))"

lemma reachable_mono:
  "m \<le> n \<Longrightarrow> \<exists>t. reachable_hits q active keep n = reachable_hits q active keep m @ t"
  unfolding reachable_hits_def by (metis filter_append take_add le_iff_add)

lemma refill_complete:
  assumes "ready q" "1 \<le> window" "window \<le> budget" "budget \<le> u64_max"
  shows "\<exists>r. refill_loop (fetch q) active keep limit budget window = Some (Inr r)
    \<and> take limit (rf_hits r) = take limit (reachable_hits q active keep budget)
    \<and> rf_examined r \<le> budget
    \<and> (rf_exhausted r \<longleftrightarrow> length (ranking q) < budget
         \<and> length (reachable_hits q active keep budget) < limit)
    \<and> (rf_saturated r \<longleftrightarrow> budget \<le> length (ranking q)
         \<and> length (reachable_hits q active keep budget) < limit)
    \<and> set (rf_hits r) \<subseteq> set (reachable_hits q active keep budget)"
  using assms(2-4)
proof (induction "budget - window" arbitrary: window rule: less_induct)
  case less
  let ?hits = "reachable_hits q active keep window"
  obtain t where t: "reachable_hits q active keep budget = ?hits @ t"
    using reachable_mono [OF less.prems(2)] by blast
  have raw: "fetch q window = Inr (take window (ranking q))" using fetch_prefix assms(1) by simp
  have hits: "(if active then filter keep (take window (ranking q)) else take window (ranking q)) = ?hits"
    by (simp add: reachable_hits_def)
  note unfold = refill_loop.simps [of "fetch q" active keep limit budget window, unfolded raw sum.case Let_def hits]
  have short: "t = []" if "length (ranking q) \<le> window"
    using t that less.prems(2) by (auto simp: reachable_hits_def)
  show ?case
  proof (cases "limit \<le> length ?hits \<or> length (take window (ranking q)) < window \<or> budget \<le> window")
    case True
    then show ?thesis using less.prems t short by (auto simp: unfold min_def split: if_splits)
  next
    case False
    let ?w = "min (window * 2) budget"
    from False have "refill_loop (fetch q) active keep limit budget window
        = refill_loop (fetch q) active keep limit budget ?w"
      using less.prems(3) by (simp add: unfold saturating_double)
    moreover have "budget - ?w < budget - window" "1 \<le> ?w" "?w \<le> budget"
      using less.prems False by auto
    ultimately show ?thesis
      using less.hyps [of ?w] less.prems(3) by simp
  qed
qed

end

text \<open>A leg that applies the query's filter before ranking.\<close>

locale filtered_source = ranked_source fetch ready ranking
  for fetch :: "'q \<Rightarrow> usize \<Rightarrow> anyhow + hit list" and ready :: "'q \<Rightarrow> bool" and ranking :: "'q \<Rightarrow> hit list" +
  fixes filters_of :: "'q \<Rightarrow> filter_set"
  assumes ranking_matches: "ready q \<Longrightarrow> h \<in> set (ranking q) \<Longrightarrow> metadata_matches (hit_metadata h) (filters_of q)"
begin

lemma refill_matches:
  assumes "ready q" "1 \<le> window" "window \<le> budget" "budget \<le> u64_max"
    and "refill_loop (fetch q) active keep limit budget window = Some (Inr r)" and "h \<in> set (rf_hits r)"
  shows "metadata_matches (hit_metadata h) (filters_of q) \<and> (active \<longrightarrow> keep h)"
proof -
  have "h \<in> set (reachable_hits q active keep budget)"
    using refill_complete [OF assms(1-4), of active keep limit] assms(5,6) by auto
  then show ?thesis
    using ranking_matches [OF assms(1)] by (auto simp: reachable_hits_def dest: in_set_takeD)
qed

end

end
