(* ===== verification/Line_Reader.thy ===== *)
theory Line_Reader
  imports Rust_Text
begin

text \<open>
  Reading one line under a byte cap (\<^verbatim>\<open>read_line_capped\<close> of
  \<^verbatim>\<open>crates/aicx-parser/src/sanitize.rs\<close>). The reader is the bytes that remain, a line is
  read up to its line feed or to one byte past the cap, an overlong line is cut at a character
  boundary and its tail is drained. I/O failures of the reader itself are not modelled.
\<close>

text \<open>\<^verbatim>\<open>String::from_utf8\<close>: the well-formed byte sequences of the Unicode standard.\<close>

definition byte_in :: "nat \<Rightarrow> char \<Rightarrow> nat \<Rightarrow> bool" where
  "byte_in lo c hi \<longleftrightarrow> lo \<le> byte_of c \<and> byte_of c \<le> hi"

fun utf8_valid :: "string \<Rightarrow> bool" where
  "utf8_valid [] = True"
| "utf8_valid [a] = (byte_of a < 128)"
| "utf8_valid [a, b] =
     (if byte_of a < 128 then utf8_valid [b] else byte_in 194 a 223 \<and> utf8_cont b)"
| "utf8_valid [a, b, c] =
     (if byte_of a < 128 then utf8_valid [b, c]
      else if byte_in 194 a 223 then utf8_cont b \<and> utf8_valid [c]
      else byte_in 224 a 239 \<and> utf8_cont b \<and> utf8_cont c
        \<and> (byte_of a = 224 \<longrightarrow> 160 \<le> byte_of b) \<and> (byte_of a = 237 \<longrightarrow> byte_of b \<le> 159))"
| "utf8_valid (a # b # c # d # s) =
     (if byte_of a < 128 then utf8_valid (b # c # d # s)
      else if byte_in 194 a 223 then utf8_cont b \<and> utf8_valid (c # d # s)
      else if byte_in 224 a 239
      then utf8_cont b \<and> utf8_cont c \<and> (byte_of a = 224 \<longrightarrow> 160 \<le> byte_of b)
        \<and> (byte_of a = 237 \<longrightarrow> byte_of b \<le> 159) \<and> utf8_valid (d # s)
      else byte_in 240 a 244 \<and> utf8_cont b \<and> utf8_cont c \<and> utf8_cont d
        \<and> (byte_of a = 240 \<longrightarrow> 144 \<le> byte_of b) \<and> (byte_of a = 244 \<longrightarrow> byte_of b \<le> 143)
        \<and> utf8_valid s)"

record capped_line =
  cl_line :: string
  cl_exceeded :: bool

definition is_newline :: "char \<Rightarrow> bool" where
  "is_newline c \<longleftrightarrow> byte_of c = 10"

text \<open>\<^verbatim>\<open>read_until(b'\n')\<close>: the bytes up to and with the first line feed, and the rest.\<close>

fun read_until_newline :: "string \<Rightarrow> string" where
  "read_until_newline [] = []"
| "read_until_newline (c # cs) = (if is_newline c then [c] else c # read_until_newline cs)"

text \<open>
  The walk back over a truncated line, on its reversal: continuation bytes go, then a lead byte.
\<close>

fun walk_back :: "string \<Rightarrow> string" where
  "walk_back [] = []"
| "walk_back (c # cs) =
     (if utf8_cont c then walk_back cs else if 192 \<le> byte_of c then cs else c # cs)"

definition drain_until_newline :: "string \<Rightarrow> string" where
  "drain_until_newline rest = drop (length (read_until_newline rest)) rest"

datatype line_result = LineEof | LineInvalid string | Line capped_line string

definition read_line_capped :: "string \<Rightarrow> nat \<Rightarrow> line_result" where
  "read_line_capped rest max_bytes =
     (let buf = read_until_newline (take (max_bytes + 1) rest);
          rest = drop (length buf) rest in
      if buf = [] then LineEof
      else
        (let exceeded = (max_bytes < length buf);
             cut = (if exceeded then rev (walk_back (rev (take max_bytes buf))) else buf);
             rest = (if exceeded \<and> \<not> is_newline (last buf) then drain_until_newline rest else rest)
         in if utf8_valid cut then Line \<lparr> cl_line = cut, cl_exceeded = exceeded \<rparr> rest
            else LineInvalid rest))"

section \<open>Laws\<close>

lemma read_until_newline_prefix: "\<exists>t. s = read_until_newline s @ t"
  by (induction s) auto

lemma read_until_newline_eq_Nil [simp]: "read_until_newline s = [] \<longleftrightarrow> s = []"
  by (cases s) auto

lemma read_until_newline_line:
  "list_all (\<lambda>c. \<not> is_newline c) s \<Longrightarrow> is_newline n \<Longrightarrow> read_until_newline (s @ n # t) = s @ [n]"
  by (induction s) auto

lemma length_read_until_newline: "length (read_until_newline s) \<le> length s"
  by (induction s) auto

text \<open>Every line read shortens what remains, so reading to the end of a file ends.\<close>

lemma read_line_capped_shrinks:
  assumes "read_line_capped rest n = Line l rest'"
  shows "length rest' < length rest"
proof -
  have "rest \<noteq> []" using assms by (auto simp: read_line_capped_def Let_def split: if_splits)
  then obtain c cs where "rest = c # cs" by (cases rest) auto
  then show ?thesis
    using assms
    by (auto simp: read_line_capped_def Let_def drain_until_newline_def split: if_splits)
qed

text \<open>A line within the cap is read whole, with its line feed.\<close>

lemma read_line_capped_whole:
  assumes "list_all (\<lambda>c. \<not> is_newline c) s" "is_newline n" "length s < cap" "utf8_valid (s @ [n])"
  shows "read_line_capped (s @ n # t) cap = Line \<lparr> cl_line = s @ [n], cl_exceeded = False \<rparr> t"
proof -
  have "take (cap + 1) (s @ n # t) = s @ n # take (cap - length s) t"
    using assms(3) by (simp add: take_Cons' Suc_diff_le)
  then have "read_until_newline (take (cap + 1) (s @ n # t)) = s @ [n]"
    using read_until_newline_line [OF assms(1,2)] by simp
  then show ?thesis
    using assms(3,4) by (simp add: read_line_capped_def Let_def)
qed

lemmas [rust_eval] =
  byte_in_def is_newline_def drain_until_newline_def read_line_capped_def

end
