(* ===== verification/Brute_Force.thy ===== *)
theory Brute_Force
  imports Refill Line_Reader "HOL-Library.Multiset"
begin

text \<open>
  The in-memory dense index (\<^verbatim>\<open>crates/aicx-retrieve/src/adapter_brute_force.rs\<close>):
  scoring in 32-bit floating point, filtering before scoring, a stable descending sort, and the
  NDJSON file it is persisted to. The JSON text of headers and rows is the serializer's
  (\<open>to_string\<close>, \<open>from_str\<close>); files are their contents. When a score is a NaN the code's
  comparator is not an order and the standard library leaves the result of the sort open: it is the
  parameter \<open>unordered\<close>.
\<close>

section \<open>State\<close>

record dense_entry =
  de_chunk_id :: string
  de_source_path :: string
  de_embedding :: "f32 list"
  de_metadata :: json

record brute_force_header =
  bh_schema_version :: string
  bh_dim :: usize
  bh_distance :: distance
  bh_entry_count :: usize

record brute_force =
  bf_dim :: usize
  bf_distance :: distance
  bf_entries :: "dense_entry list"

definition brute_force_schema_version :: string where
  "brute_force_schema_version = ''1.0''"

definition brute_force_kind :: string where
  "brute_force_kind = ''brute_force_ndjson''"

definition entry_from_chunk :: "dense_chunk_ref \<Rightarrow> dense_entry" where
  "entry_from_chunk c =
     \<lparr> de_chunk_id = ck_id (dc_chunk c), de_source_path = ck_source_path (dc_chunk c),
       de_embedding = dc_embedding c, de_metadata = ck_metadata (dc_chunk c) \<rparr>"

definition bf_new :: "usize \<Rightarrow> brute_force" where
  "bf_new dim = \<lparr> bf_dim = dim, bf_distance = Cosine, bf_entries = [] \<rparr>"

definition with_distance :: "brute_force \<Rightarrow> distance \<Rightarrow> brute_force" where
  "with_distance a d = a\<lparr>bf_distance := d\<rparr>"

section \<open>Scores\<close>

text \<open>
  \<^verbatim>\<open>Iterator::sum\<close> of floating-point numbers starts from negative zero, the neutral element;
  \<^verbatim>\<open>powi(2)\<close> is the product.
\<close>

definition f32_sum :: "f32 list \<Rightarrow> f32" where
  "f32_sum xs = foldl f32_add (F32 True 0) xs"

definition cosine_step :: "f32 \<times> f32 \<times> f32 \<Rightarrow> f32 \<times> f32 \<Rightarrow> f32 \<times> f32 \<times> f32" where
  "cosine_step acc xy =
     (case (acc, xy) of ((dot_p, norm_a, norm_b), (x, y)) \<Rightarrow>
        (f32_add dot_p (f32_mul x y), f32_add norm_a (f32_mul x x), f32_add norm_b (f32_mul y y)))"

definition cosine :: "f32 list \<Rightarrow> f32 list \<Rightarrow> f32" where
  "cosine a b =
     (if length a \<noteq> length b then f32_zero
      else (case foldl cosine_step (f32_zero, f32_zero, f32_zero) (zip a b) of
              (dot_p, norm_a, norm_b) \<Rightarrow>
                if f32_eq norm_a f32_zero \<or> f32_eq norm_b f32_zero then f32_zero
                else f32_div dot_p (f32_mul (f32_sqrt norm_a) (f32_sqrt norm_b))))"

definition dot :: "f32 list \<Rightarrow> f32 list \<Rightarrow> f32" where
  "dot a b =
     (if length a \<noteq> length b then f32_zero
      else f32_sum (map (\<lambda>(x, y). f32_mul x y) (zip a b)))"

definition euclidean :: "f32 list \<Rightarrow> f32 list \<Rightarrow> f32" where
  "euclidean a b =
     (if length a \<noteq> length b then F32Inf False
      else f32_sqrt (f32_sum (map (\<lambda>(x, y). f32_mul (f32_sub x y) (f32_sub x y)) (zip a b))))"

definition score_distance :: "f32 list \<Rightarrow> f32 list \<Rightarrow> distance \<Rightarrow> f32" where
  "score_distance a b d =
     (case d of Cosine \<Rightarrow> cosine a b | Dot \<Rightarrow> dot a b | Euclidean \<Rightarrow> f32_neg (euclidean a b))"

section \<open>Operations\<close>

text \<open>This adapter's own copy of the filter, an explicit loop.\<close>

fun bf_filter_matches :: "json \<Rightarrow> filter_set \<Rightarrow> bool" where
  "bf_filter_matches metadata [] = True"
| "bf_filter_matches metadata ((key, expected) # fs) =
     (case json_get metadata key of
        Some actual \<Rightarrow> (if json_eq actual expected then bf_filter_matches metadata fs else False)
      | None \<Rightarrow> False)"

definition bf_dim_error :: "string \<Rightarrow> dense_chunk_ref \<Rightarrow> usize \<Rightarrow> anyhow" where
  "bf_dim_error op c dim =
     Message (op @ '': chunk '' @ ck_id (dc_chunk c) @ '' has dim ''
       @ show_nat (length (dc_embedding c)) @ '', adapter dim '' @ show_nat dim)"

text \<open>The rows pushed before a failing row stay.\<close>

fun bf_build_loop :: "usize \<Rightarrow> dense_entry list \<Rightarrow> dense_chunk_ref list \<Rightarrow> dense_entry list \<times> (anyhow + unit)" where
  "bf_build_loop dim entries [] = (entries, Inr ())"
| "bf_build_loop dim entries (c # cs) =
     (if length (dc_embedding c) \<noteq> dim then (entries, Inl (bf_dim_error ''build'' c dim))
      else bf_build_loop dim (entries @ [entry_from_chunk c]) cs)"

definition bf_build :: "brute_force \<Rightarrow> dense_chunk_ref list \<Rightarrow> brute_force \<times> (anyhow + unit)" where
  "bf_build a cs =
     (case bf_build_loop (bf_dim a) [] cs of (entries, r) \<Rightarrow> (a\<lparr>bf_entries := entries\<rparr>, r))"

definition bf_insert :: "brute_force \<Rightarrow> dense_chunk_ref \<Rightarrow> brute_force \<times> (anyhow + unit)" where
  "bf_insert a c =
     (if length (dc_embedding c) \<noteq> bf_dim a then (a, Inl (bf_dim_error ''insert'' c (bf_dim a)))
      else (a\<lparr>bf_entries := bf_entries a @ [entry_from_chunk c]\<rparr>, Inr ()))"

type_synonym scored = "f32 \<times> dense_entry"

definition sort_scored :: "(scored list \<Rightarrow> scored list) \<Rightarrow> scored list \<Rightarrow> scored list" where
  "sort_scored unordered xs =
     (if list_all (\<lambda>(s, e). s \<noteq> F32NaN) xs then sort_key (\<lambda>(s, e). - f32_key s) xs else unordered xs)"

fun hits_from :: "usize \<Rightarrow> scored list \<Rightarrow> hit list" where
  "hits_from rank [] = []"
| "hits_from rank ((score, e) # xs) =
     \<lparr> hit_chunk_id = de_chunk_id e, hit_score = score, hit_rank = rank,
       hit_source = brute_force_kind, hit_metadata = de_metadata e \<rparr> # hits_from (Suc rank) xs"

definition bf_scored :: "brute_force \<Rightarrow> f32 list \<Rightarrow> filter_set \<Rightarrow> scored list" where
  "bf_scored a embedding filters =
     map (\<lambda>e. (score_distance embedding (de_embedding e) (bf_distance a), e))
       (filter (\<lambda>e. bf_filter_matches (de_metadata e) filters) (bf_entries a))"

definition bf_query ::
  "(scored list \<Rightarrow> scored list) \<Rightarrow> brute_force \<Rightarrow> f32 list \<Rightarrow> usize \<Rightarrow> filter_set \<Rightarrow> anyhow + hit list" where
  "bf_query unordered a embedding limit filters =
     bind_res (require (length embedding = bf_dim a)
       (Message (''query: embedding dim '' @ show_nat (length embedding)
          @ '' != adapter dim '' @ show_nat (bf_dim a))))
       (\<lambda>_. Inr (hits_from 0 (take limit (sort_scored unordered (bf_scored a embedding filters)))))"

definition bf_count :: "brute_force \<Rightarrow> usize" where
  "bf_count a = length (bf_entries a)"

section \<open>The NDJSON file\<close>

definition max_validated_bytes :: nat where
  "max_validated_bytes = 8 * 1024 * 1024"

definition newline :: char where
  "newline = CHR 0x0A"

definition bf_header_of :: "brute_force \<Rightarrow> brute_force_header" where
  "bf_header_of a =
     \<lparr> bh_schema_version = brute_force_schema_version, bh_dim = bf_dim a,
       bh_distance = bf_distance a, bh_entry_count = length (bf_entries a) \<rparr>"

definition persist_ndjson ::
  "(brute_force_header \<Rightarrow> anyhow + string) \<Rightarrow> (dense_entry \<Rightarrow> anyhow + string) \<Rightarrow> brute_force
   \<Rightarrow> anyhow + string" where
  "persist_ndjson header_to_string entry_to_string a =
     bind_res (header_to_string (bf_header_of a)) (\<lambda>header.
       fold_res (\<lambda>out e. bind_res (entry_to_string e) (\<lambda>s. Inr (out @ s @ [newline])))
         (header @ [newline]) (bf_entries a))"

definition strip_line_ending :: "string \<Rightarrow> string" where
  "strip_line_ending line =
     (if line \<noteq> [] \<and> last line = newline
      then (let line = butlast line in
            if line \<noteq> [] \<and> last line = CHR 0x0D then butlast line else line)
      else line)"

record load_stats =
  ls_total_data_lines :: usize
  ls_corrupt_count :: usize

definition load_stats_default :: load_stats where
  "load_stats_default = \<lparr> ls_total_data_lines = 0, ls_corrupt_count = 0 \<rparr>"

text \<open>
  One line of the file, already read: a blank line is skipped, an overlong, unreadable or
  misdimensioned row is counted as corrupt, every other row is kept. The line number moves on
  except past a misdimensioned row.
\<close>

definition load_row ::
  "(string \<Rightarrow> anyhow + dense_entry) \<Rightarrow> usize \<Rightarrow> capped_line \<Rightarrow> usize \<times> dense_entry list \<times> load_stats
   \<Rightarrow> usize \<times> dense_entry list \<times> load_stats" where
  "load_row from_str dim l st =
     (case st of (line_no, entries, stats) \<Rightarrow>
        (let line = strip_line_ending (cl_line l) in
         if line = [] then (line_no + 1, entries, stats)
         else
           (let stats = stats\<lparr>ls_total_data_lines := ls_total_data_lines stats + 1\<rparr>;
                corrupt = stats\<lparr>ls_corrupt_count := ls_corrupt_count stats + 1\<rparr> in
            if cl_exceeded l then (line_no + 1, entries, corrupt)
            else (case from_str line of
                    Inr entry \<Rightarrow>
                      (if length (de_embedding entry) \<noteq> dim then (line_no, entries, corrupt)
                       else (line_no + 1, entries @ [entry], stats))
                  | Inl err \<Rightarrow> (line_no + 1, entries, corrupt)))))"

function load_loop ::
  "(string \<Rightarrow> anyhow + dense_entry) \<Rightarrow> string \<Rightarrow> usize \<Rightarrow> string \<Rightarrow> usize \<times> dense_entry list \<times> load_stats
   \<Rightarrow> dense_entry list \<times> (anyhow + load_stats)" where
  "load_loop from_str path dim rest st =
     (case read_line_capped rest max_validated_bytes of
        LineEof \<Rightarrow> (fst (snd st), Inr (snd (snd st)))
      | LineInvalid rest' \<Rightarrow>
          (fst (snd st), Inl (Message (''read brute-force line '' @ show_nat (fst st) @ '' in '' @ path)))
      | Line l rest' \<Rightarrow> load_loop from_str path dim rest' (load_row from_str dim l st))"
  by pat_completeness auto
termination
  by (relation "measure (\<lambda>(_, _, _, rest, _). length rest)") (auto dest: read_line_capped_shrinks)

declare load_loop.simps [simp del]

definition distance_debug :: "distance \<Rightarrow> string" where
  "distance_debug d =
     (case d of Cosine \<Rightarrow> ''Cosine'' | Euclidean \<Rightarrow> ''Euclidean'' | Dot \<Rightarrow> ''Dot'')"

definition load_ndjson ::
  "(string \<Rightarrow> anyhow + brute_force_header) \<Rightarrow> (string \<Rightarrow> anyhow + dense_entry) \<Rightarrow> string
   \<Rightarrow> brute_force \<Rightarrow> string \<Rightarrow> brute_force \<times> (anyhow + load_stats)" where
  "load_ndjson header_from_str from_str path a content =
     (case read_line_capped content max_validated_bytes of
        LineEof \<Rightarrow> (a, Inl (Message (''empty brute-force index: '' @ path)))
      | LineInvalid _ \<Rightarrow> (a, Inl (Message (''read brute-force header in '' @ path)))
      | Line l rest \<Rightarrow>
          (if cl_exceeded l
           then (a, Inl (Message (''brute-force header line exceeds '' @ show_nat max_validated_bytes
                  @ '' bytes in '' @ path)))
           else (case header_from_str (strip_line_ending (cl_line l)) of
                   Inl err \<Rightarrow> (a, Inl (Message (''parse header in '' @ path)))
                 | Inr header \<Rightarrow>
                     (if bh_dim header \<noteq> bf_dim a
                      then (a, Inl (Message (''brute-force index dim mismatch in '' @ path
                             @ '': header='' @ show_nat (bh_dim header) @ '', adapter='' @ show_nat (bf_dim a))))
                      else if bh_distance header \<noteq> bf_distance a
                      then (a, Inl (Message (''brute-force index distance mismatch in '' @ path
                             @ '': header='' @ distance_debug (bh_distance header)
                             @ '', adapter='' @ distance_debug (bf_distance a))))
                      else (case load_loop from_str path (bf_dim a) rest (2, [], load_stats_default) of
                              (entries, r) \<Rightarrow> (a\<lparr>bf_entries := entries\<rparr>, r))))))"

definition load_from_ndjson ::
  "(string \<Rightarrow> anyhow + brute_force_header) \<Rightarrow> (string \<Rightarrow> anyhow + dense_entry) \<Rightarrow> string
   \<Rightarrow> string \<Rightarrow> usize \<Rightarrow> distance \<Rightarrow> anyhow + brute_force" where
  "load_from_ndjson header_from_str from_str path content dim d =
     (case load_ndjson header_from_str from_str path (with_distance (bf_new dim) d) content of
        (a, Inl err) \<Rightarrow> Inl err
      | (a, Inr stats) \<Rightarrow> Inr a)"

section \<open>A leg of the refill\<close>

definition bf_fetch :: "(scored list \<Rightarrow> scored list) \<Rightarrow> brute_force \<times> f32 list \<times> filter_set \<Rightarrow> usize \<Rightarrow> anyhow + hit list" where
  "bf_fetch unordered q n = (case q of (a, embedding, filters) \<Rightarrow> bf_query unordered a embedding n filters)"

definition bf_ready :: "brute_force \<times> f32 list \<times> filter_set \<Rightarrow> bool" where
  "bf_ready q = (case q of (a, embedding, filters) \<Rightarrow>
     length embedding = bf_dim a \<and> list_all (\<lambda>(s, e). s \<noteq> F32NaN) (bf_scored a embedding filters))"

definition bf_ranking :: "brute_force \<times> f32 list \<times> filter_set \<Rightarrow> hit list" where
  "bf_ranking q = (case q of (a, embedding, filters) \<Rightarrow>
     hits_from 0 (sort_key (\<lambda>(s, e). - f32_key s) (bf_scored a embedding filters)))"

lemma take_hits_from: "take n (hits_from k xs) = hits_from k (take n xs)"
  by (induction k xs arbitrary: n rule: hits_from.induct) (auto simp: take_Cons')

lemma bf_filter_metadata: "bf_filter_matches m fs = metadata_matches m fs"
  by (induction m fs rule: bf_filter_matches.induct) (auto simp: metadata_matches_def split: option.split)

lemma hits_from_metadata: "h \<in> set (hits_from k xs) \<Longrightarrow> \<exists>x \<in> set xs. hit_metadata h = de_metadata (snd x)"
  by (induction k xs rule: hits_from.induct) auto

interpretation bf: filtered_source "bf_fetch unordered" bf_ready bf_ranking "\<lambda>q. snd (snd q)"
proof unfold_locales
  fix q n assume "bf_ready q"
  then show "bf_fetch unordered q n = Inr (take n (bf_ranking q))"
    by (auto simp: bf_fetch_def bf_ready_def bf_ranking_def bf_query_def sort_scored_def take_hits_from)
next
  fix q h assume "h \<in> set (bf_ranking q)"
  then show "metadata_matches (hit_metadata h) (snd (snd q))"
    by (auto simp: bf_ranking_def bf_scored_def bf_filter_metadata split: prod.splits dest!: hits_from_metadata)
qed

section \<open>The dimension invariant\<close>

text \<open>Every stored embedding has the adapter's dimension: what scoring relies on.\<close>

definition bf_wf :: "brute_force \<Rightarrow> bool" where
  "bf_wf a \<longleftrightarrow> list_all (\<lambda>e. length (de_embedding e) = bf_dim a) (bf_entries a)"

lemma bf_build_loop_wf:
  "list_all (\<lambda>e. length (de_embedding e) = dim) entries \<Longrightarrow>
     list_all (\<lambda>e. length (de_embedding e) = dim) (fst (bf_build_loop dim entries cs))"
  by (induction dim entries cs rule: bf_build_loop.induct) (auto simp: entry_from_chunk_def)

lemma load_row_wf:
  "list_all (\<lambda>e. length (de_embedding e) = dim) (fst (snd st)) \<Longrightarrow>
     list_all (\<lambda>e. length (de_embedding e) = dim) (fst (snd (load_row from_str dim l st)))"
  by (cases st) (auto simp: load_row_def Let_def split: sum.split)

lemma load_loop_wf:
  "list_all (\<lambda>e. length (de_embedding e) = dim) (fst (snd st)) \<Longrightarrow>
     list_all (\<lambda>e. length (de_embedding e) = dim) (fst (load_loop from_str path dim rest st))"
proof (induction from_str path dim rest st rule: load_loop.induct)
  case (1 from_str path dim rest st)
  then show ?case
    by (subst load_loop.simps) (auto split: line_result.split intro: load_row_wf)
qed

text \<open>
  C36: every operation of the in-memory index, failing or not, keeps its dimension and metric and
  leaves only rows of that dimension in it: a new index, a build, an insert, and a load from any
  file.
\<close>

theorem brute_force_dims:
  assumes "bf_wf a"
  shows "bf_wf (with_distance (bf_new n) d)
    \<and> bf_wf (fst (bf_build a cs)) \<and> bf_dim (fst (bf_build a cs)) = bf_dim a
    \<and> bf_wf (fst (bf_insert a c)) \<and> bf_dim (fst (bf_insert a c)) = bf_dim a
    \<and> bf_wf (fst (load_ndjson header_from_str from_str path a content))
    \<and> bf_dim (fst (load_ndjson header_from_str from_str path a content)) = bf_dim a
    \<and> bf_distance (fst (load_ndjson header_from_str from_str path a content)) = bf_distance a"
proof -
  have "bf_wf (fst (bf_build a cs)) \<and> bf_dim (fst (bf_build a cs)) = bf_dim a"
    using bf_build_loop_wf [of "bf_dim a" "[]" cs] by (auto simp: bf_build_def bf_wf_def split: prod.split)
  moreover have "bf_wf (fst (bf_insert a c)) \<and> bf_dim (fst (bf_insert a c)) = bf_dim a"
    using assms by (auto simp: bf_insert_def bf_wf_def entry_from_chunk_def)
  moreover have "bf_wf (fst (load_ndjson header_from_str from_str path a content))
      \<and> bf_dim (fst (load_ndjson header_from_str from_str path a content)) = bf_dim a
      \<and> bf_distance (fst (load_ndjson header_from_str from_str path a content)) = bf_distance a"
    using assms load_loop_wf [of "bf_dim a" "(2, [], load_stats_default)" from_str path]
    by (auto simp: load_ndjson_def bf_wf_def split: line_result.split sum.split prod.split)
       (metis fst_conv)+
  moreover have "bf_wf (with_distance (bf_new n) d)" by (simp add: bf_wf_def bf_new_def with_distance_def)
  ultimately show ?thesis by blast
qed

section \<open>The file round trip\<close>

text \<open>What the serializer writes for one row: one non-empty line within the cap.\<close>

definition row_text_ok :: "string \<Rightarrow> bool" where
  "row_text_ok s \<longleftrightarrow> s \<noteq> [] \<and> list_all (\<lambda>c. \<not> is_newline c) s \<and> last s \<noteq> CHR 0x0D
     \<and> length s < max_validated_bytes \<and> utf8_valid (s @ [newline])"

lemma newline_is [simp]: "is_newline newline"
  by (simp add: is_newline_def newline_def byte_of_def)

lemma strip_row: "row_text_ok s \<Longrightarrow> strip_line_ending (s @ [newline]) = s"
  by (simp add: strip_line_ending_def row_text_ok_def Let_def)

lemma read_row:
  "row_text_ok s \<Longrightarrow> read_line_capped (s @ newline # t) max_validated_bytes
     = Line \<lparr> cl_line = s @ [newline], cl_exceeded = False \<rparr> t"
  by (intro read_line_capped_whole) (auto simp: row_text_ok_def)

lemma persist_rows:
  "(\<And>e. e \<in> set es \<Longrightarrow> entry_to_string e = Inr (text_of e)) \<Longrightarrow>
     fold_res (\<lambda>out e. bind_res (entry_to_string e) (\<lambda>s. Inr (out @ s @ [newline]))) acc es
     = Inr (acc @ concat (map (\<lambda>e. text_of e @ [newline]) es))"
  by (induction es arbitrary: acc) auto

lemma load_rows:
  assumes "\<And>e. e \<in> set es \<Longrightarrow> row_text_ok (text_of e) \<and> from_str (text_of e) = Inr e \<and> length (de_embedding e) = dim"
  shows "load_loop from_str path dim (concat (map (\<lambda>e. text_of e @ [newline]) es))
      (n, kept, \<lparr> ls_total_data_lines = k, ls_corrupt_count = c \<rparr>)
    = (kept @ es, Inr \<lparr> ls_total_data_lines = k + length es, ls_corrupt_count = c \<rparr>)"
  using assms
proof (induction es arbitrary: n kept k)
  case Nil
  then show ?case by (subst load_loop.simps) (simp add: read_line_capped_def)
next
  case (Cons e es)
  then have ok: "row_text_ok (text_of e)" "from_str (text_of e) = Inr e" "length (de_embedding e) = dim" by auto
  then have "text_of e \<noteq> []" by (simp add: row_text_ok_def)
  with ok Cons show ?case
    by (subst load_loop.simps) (simp add: read_row load_row_def strip_row Let_def)
qed

text \<open>
  Persisting an index and loading the file into a fresh index of its dimension and metric gives
  the index back, every row counted and none corrupt, when the serializer writes each row and the
  header as one line within the cap and reads it back.
\<close>

theorem ndjson_roundtrip:
  assumes "bf_wf a"
    and "header_to_string (bf_header_of a) = Inr header" "row_text_ok header"
    and "header_from_str header = Inr (bf_header_of a)"
    and "\<And>e. e \<in> set (bf_entries a) \<Longrightarrow>
      entry_to_string e = Inr (text_of e) \<and> row_text_ok (text_of e) \<and> from_str (text_of e) = Inr e"
  shows "\<exists>file. persist_ndjson header_to_string entry_to_string a = Inr file
    \<and> load_ndjson header_from_str from_str path (with_distance (bf_new (bf_dim a)) (bf_distance a)) file
      = (a, Inr \<lparr> ls_total_data_lines = bf_count a, ls_corrupt_count = 0 \<rparr>)"
proof -
  let ?rows = "concat (map (\<lambda>e. text_of e @ [newline]) (bf_entries a))"
  have "persist_ndjson header_to_string entry_to_string a = Inr (header @ newline # ?rows)"
    using assms(2,5) by (simp add: persist_ndjson_def persist_rows [of _ _ text_of])
  moreover have "load_loop from_str path (bf_dim a) ?rows (2, [], load_stats_default)
      = (bf_entries a, Inr \<lparr> ls_total_data_lines = bf_count a, ls_corrupt_count = 0 \<rparr>)"
    using assms(1,5) load_rows [of "bf_entries a" text_of from_str "bf_dim a" path 2 "[]" 0 0]
    by (simp add: bf_wf_def list_all_iff load_stats_default_def bf_count_def)
  ultimately show ?thesis
    using assms(3,4)
    by (simp add: load_ndjson_def read_row strip_row bf_header_of_def with_distance_def bf_new_def)
qed

definition sample_entry :: "string \<Rightarrow> f32 list \<Rightarrow> dense_entry" where
  "sample_entry c v =
     \<lparr> de_chunk_id = c, de_source_path = ''p'', de_embedding = v,
       de_metadata = JObject [(''agent'', JString ''claude'')] \<rparr>"

definition sample_index :: brute_force where
  "sample_index =
     \<lparr> bf_dim = 1, bf_distance = Dot, bf_entries = [sample_entry ''a'' [f32_one], sample_entry ''b'' [f32_zero]] \<rparr>"

lemma sample_index_wf: "bf_wf sample_index"
  by (simp add: bf_wf_def sample_index_def sample_entry_def)

lemma brute_force_dims_witness:
  "bf_wf (fst (bf_insert sample_index \<lparr> dc_chunk = \<lparr> ck_id = ''x'', ck_source_path = ''p'', ck_text = ''t'',
     ck_metadata = JNull \<rparr>, dc_embedding = [] \<rparr>))"
  using brute_force_dims [OF sample_index_wf] by blast

lemma ndjson_roundtrip_witness:
  "\<exists>file. persist_ndjson (\<lambda>h. Inr ''h'') (\<lambda>e. Inr (de_chunk_id e)) sample_index = Inr file
    \<and> load_ndjson (\<lambda>s. Inr (bf_header_of sample_index))
        (\<lambda>s. Inr (sample_entry s (if s = ''a'' then [f32_one] else [f32_zero]))) ''f''
        (with_distance (bf_new (bf_dim sample_index)) (bf_distance sample_index)) file
      = (sample_index, Inr \<lparr> ls_total_data_lines = bf_count sample_index, ls_corrupt_count = 0 \<rparr>)"
  by (rule ndjson_roundtrip [where header = "''h''" and text_of = de_chunk_id])
     (auto simp: bf_wf_def sample_index_def sample_entry_def row_text_ok_def is_newline_def newline_def
       max_validated_bytes_def byte_of_def)

lemmas [rust_eval] =
  brute_force_kind_def entry_from_chunk_def bf_new_def with_distance_def f32_sum_def cosine_step_def
  cosine_def dot_def euclidean_def score_distance_def bf_dim_error_def bf_build_def bf_insert_def
  sort_scored_def bf_scored_def bf_query_def bf_count_def newline_def strip_line_ending_def

end
