(* ===== verification/Manifest.thy ===== *)
theory Manifest
  imports Retrieve_Types
begin

text \<open>
  The manifest of a hybrid generation (\<^verbatim>\<open>crates/aicx-retrieve/src/manifest.rs\<close>): what
  binds a lexical and a dense index together, when two manifests belong to the same generation,
  and which lexical schemas a binary accepts. Times are nanoseconds; the hexadecimal decoder is a
  parameter, and so are the clock, the random bytes of generation ids and the files.
\<close>

section \<open>Schema tags\<close>

record mmap_format_schema =
  mf_schema :: string
  mf_magic_ascii :: string
  mf_byte_order :: string
  mf_header_bytes :: usize
  mf_metadata_reference_bytes :: usize
  mf_vector_element :: string
  mf_layout :: string

definition mmap_format_default :: mmap_format_schema where
  "mmap_format_default =
     \<lparr> mf_schema = ''aicx.dense.exact_mmap.v1'', mf_magic_ascii = ''AICXDMM1'',
       mf_byte_order = ''little_endian'', mf_header_bytes = 128, mf_metadata_reference_bytes = 16,
       mf_vector_element = ''ieee754_f32'',
       mf_layout = ''header|metadata_refs|fixed_width_vectors|metadata_json'' \<rparr>"

definition mmap_dense_payload_file_name :: string where
  "mmap_dense_payload_file_name = ''dense.exact_mmap_v1.bin''"

definition decode_source_hash_blake3 ::
  "(string \<Rightarrow> (string, word8 list) sum) \<Rightarrow> string \<Rightarrow> anyhow + word8 list" where
  "decode_source_hash_blake3 hex_decode hex_hash =
     bind_res (map_err (\<lambda>_. Message (''decode manifest source hash hex: '' @ hex_hash)) (hex_decode hex_hash))
       (\<lambda>decoded. bind_res
          (require (length decoded = 32)
             (Message (''manifest source hash must be 32 bytes: '' @ hex_hash)))
          (\<lambda>_. Inr decoded))"

definition digits_value :: "string \<Rightarrow> nat" where
  "digits_value s = foldl (\<lambda>n c. n * 10 + (byte_of c - 48)) 0 s"

text \<open>\<^verbatim>\<open>digits.parse::<u32>().ok()\<close> of decimal digits: overflow is an error.\<close>

definition parse_u32 :: "string \<Rightarrow> u32 option" where
  "parse_u32 s = (if digits_value s < 2 ^ 32 then Some (digits_value s) else None)"

definition lexical_schema_generation :: "string \<Rightarrow> u32 option" where
  "lexical_schema_generation lexical_id =
     (case strip_prefix lexical_id ''tantivy_lexical_v'' of
        None \<Rightarrow> None
      | Some rest \<Rightarrow>
          (let digits = takeWhile is_ascii_digit rest in
           if digits = [] then None else parse_u32 digits))"

section \<open>The manifest\<close>

record manifest =
  mn_schema_version :: string
  mn_generation_id :: string
  mn_writer_version :: string
  mn_build_id :: string
  mn_source_chunk_count :: usize
  mn_source_hash_blake3 :: string
  mn_embedder_model :: string
  mn_embedder_url_hash :: string
  mn_embedder_dim :: usize
  mn_embedder_distance :: string
  mn_dense_count :: usize
  mn_dense_kind :: string
  mn_lexical_commit_id :: string
  mn_lexical_doc_count :: usize
  mn_build_started_at :: int
  mn_build_completed_at :: int
  mn_build_wall_seconds :: u64
  mn_fusion_algorithm :: string
  mn_fusion_k :: u32

definition writer_label :: "manifest \<Rightarrow> string" where
  "writer_label m =
     (case (str_trim (mn_writer_version m) = [], str_trim (mn_build_id m) = []) of
        (True, True) \<Rightarrow> ''unknown (pre-provenance writer)''
      | (False, True) \<Rightarrow> mn_writer_version m
      | (True, False) \<Rightarrow> mn_build_id m
      | (False, False) \<Rightarrow> mn_writer_version m @ '' ('' @ mn_build_id m @ '')'')"

definition ensure_lexical_schema_supported :: "manifest \<Rightarrow> string \<Rightarrow> retrieve_error + unit" where
  "ensure_lexical_schema_supported m binary_schema =
     (case lexical_schema_generation (mn_lexical_commit_id m) of
        None \<Rightarrow> Inr ()
      | Some index_generation \<Rightarrow>
          (case lexical_schema_generation binary_schema of
             None \<Rightarrow> Inr ()
           | Some binary_generation \<Rightarrow>
               (if index_generation < binary_generation
                then Inl (LexicalSchemaDowngrade binary_schema (mn_lexical_commit_id m) (writer_label m))
                else if index_generation > binary_generation
                then Inl (LexicalSchemaTooNew (mn_lexical_commit_id m) binary_schema (writer_label m))
                else Inr ())))"

definition supported_schema_version :: string where
  "supported_schema_version = ''2.0''"

definition validate_against :: "manifest \<Rightarrow> manifest \<Rightarrow> retrieve_error + unit" where
  "validate_against m other =
     (if mn_schema_version m \<noteq> supported_schema_version
      then Inl (SchemaVersionUnsupported (mn_schema_version m))
      else if mn_schema_version other \<noteq> supported_schema_version
      then Inl (SchemaVersionUnsupported (mn_schema_version other))
      else if mn_generation_id m \<noteq> mn_generation_id other
      then Inl (GenerationMismatch (mn_generation_id m) (mn_generation_id other))
      else if mn_source_chunk_count m \<noteq> mn_source_chunk_count other
      then Inl (SourceChunkCountMismatch (mn_source_chunk_count m) (mn_source_chunk_count other))
      else if mn_embedder_url_hash m \<noteq> mn_embedder_url_hash other
      then Inl (EmbedderModelDrift (mn_embedder_url_hash m) (mn_embedder_url_hash other))
      else if mn_embedder_dim m \<noteq> mn_embedder_dim other
      then Inl (DimMismatch (mn_embedder_dim m) (mn_embedder_dim other))
      else if mn_embedder_model m \<noteq> mn_embedder_model other
      then Inl (EmbedderModelDrift (mn_embedder_model m) (mn_embedder_model other))
      else if mn_source_hash_blake3 m \<noteq> mn_source_hash_blake3 other
      then Inl (SourceHashDrift (mn_source_hash_blake3 m) (mn_source_hash_blake3 other))
      else if mn_embedder_distance m \<noteq> mn_embedder_distance other
      then Inl (EmbedderModelDrift (mn_embedder_distance m) (mn_embedder_distance other))
      else if mn_lexical_commit_id m \<noteq> mn_lexical_commit_id other
      then Inl (LexicalCommitMismatch (mn_lexical_commit_id m) (mn_lexical_commit_id other))
      else if mn_dense_kind m \<noteq> mn_dense_kind other
      then Inl (GenerationMismatch (mn_dense_kind m) (mn_dense_kind other))
      else if mn_dense_count m \<noteq> mn_dense_count other
      then Inl (DenseCountMismatch (mn_dense_count m) (mn_dense_count other))
      else if mn_lexical_doc_count m \<noteq> mn_lexical_doc_count other
      then Inl (LexicalDocCountMismatch (mn_lexical_doc_count m) (mn_lexical_doc_count other))
      else Inr ())"

section \<open>What validation compares\<close>

text \<open>The binding of a manifest: what must agree between artifacts of one generation.\<close>

definition binding_of :: "manifest \<Rightarrow> (string \<times> usize \<times> string \<times> usize \<times> string \<times> string \<times> string \<times> string \<times> string \<times> usize \<times> usize)" where
  "binding_of m =
     (mn_generation_id m, mn_source_chunk_count m, mn_embedder_url_hash m, mn_embedder_dim m,
      mn_embedder_model m, mn_source_hash_blake3 m, mn_embedder_distance m,
      mn_lexical_commit_id m, mn_dense_kind m, mn_dense_count m, mn_lexical_doc_count m)"

lemma validate_against_ok:
  "validate_against m other = Inr () \<longleftrightarrow>
     mn_schema_version m = supported_schema_version \<and> mn_schema_version other = supported_schema_version
     \<and> binding_of m = binding_of other"
  by (simp add: validate_against_def binding_of_def)

section \<open>Decimal digits\<close>

lemma byte_of_digit:
  assumes "d < 10"
  shows "byte_of (hex_digit d) = 48 + d"
proof -
  from assms have "d \<in> {0, 1, 2, 3, 4, 5, 6, 7, 8, 9}" by simp presburger
  then show ?thesis by (elim insertE emptyE) (simp_all add: hex_digit_def byte_of_def)
qed

lemma digits_value_snoc: "digits_value (s @ [c]) = digits_value s * 10 + (byte_of c - 48)"
  by (simp add: digits_value_def)

lemma show_nat_digits: "list_all is_ascii_digit (show_nat n) \<and> digits_value (show_nat n) = n"
proof (induction n rule: show_nat.induct)
  case (1 n)
  show ?case
  proof (cases "n < 10")
    case True
    then show ?thesis
      by (simp add: show_nat.simps is_ascii_digit_def byte_of_digit digits_value_def)
  next
    case False
    with 1 have IH: "list_all is_ascii_digit (show_nat (n div 10))" "digits_value (show_nat (n div 10)) = n div 10"
      by auto
    show ?thesis
      using False IH by (subst (1 2) show_nat.simps)
        (simp add: is_ascii_digit_def byte_of_digit digits_value_snoc)
  qed
qed

text \<open>
  A lexical schema tag names its generation: the tag written for generation \<open>n\<close>, with any
  suffix that does not go on with a digit, is read back as \<open>n\<close>, unless \<open>n\<close> does not fit 32 bits, and
  an index of generation \<open>n\<close> is accepted by a binary of generation \<open>n\<close> only.
\<close>

theorem lexical_schema_roundtrip:
  assumes "rest = [] \<or> \<not> is_ascii_digit (hd rest)" and "rest' = [] \<or> \<not> is_ascii_digit (hd rest')"
    and "i < 2 ^ 32" and "n < 2 ^ 32"
    and "mn_lexical_commit_id m = ''tantivy_lexical_v'' @ show_nat i @ rest"
  shows "lexical_schema_generation (''tantivy_lexical_v'' @ show_nat n @ rest') = Some n
    \<and> (ensure_lexical_schema_supported m (''tantivy_lexical_v'' @ show_nat n @ rest') = Inr () \<longleftrightarrow> i = n)"
proof -
  have gen: "lexical_schema_generation (''tantivy_lexical_v'' @ show_nat n @ rest) = Some n"
    if "rest = [] \<or> \<not> is_ascii_digit (hd rest)" "n < 2 ^ 32" for n rest
  proof -
    have "takeWhile is_ascii_digit (show_nat n @ rest) = show_nat n"
      using show_nat_digits [of n] that(1)
      by (cases rest) (simp_all add: takeWhile_append list_all_iff)
    then show ?thesis
      using show_nat_digits [of n] that(2)
      by (simp add: lexical_schema_generation_def strip_prefix_def parse_u32_def)
  qed
  show ?thesis
    using gen [OF assms(1,3)] gen [OF assms(2,4)] assms(5)
    by (simp add: ensure_lexical_schema_supported_def)
qed

definition sample_manifest :: manifest where
  "sample_manifest =
     \<lparr> mn_schema_version = ''2.0'', mn_generation_id = ''g-1'', mn_writer_version = ''1'',
       mn_build_id = ''b'', mn_source_chunk_count = 2, mn_source_hash_blake3 = ''h'',
       mn_embedder_model = ''m'', mn_embedder_url_hash = ''u'', mn_embedder_dim = 2,
       mn_embedder_distance = ''cosine'', mn_dense_count = 2, mn_dense_kind = ''exact_mmap_v1'',
       mn_lexical_commit_id = ''tantivy_lexical_v'' @ show_nat 3 @ ''_folded'',
       mn_lexical_doc_count = 2, mn_build_started_at = 0, mn_build_completed_at = 0,
       mn_build_wall_seconds = 0, mn_fusion_algorithm = ''rrf'', mn_fusion_k = 60 \<rparr>"

lemma lexical_schema_roundtrip_witness:
  "lexical_schema_generation (''tantivy_lexical_v'' @ show_nat 4 @ ''_x'') = Some 4
   \<and> ensure_lexical_schema_supported sample_manifest (''tantivy_lexical_v'' @ show_nat 4 @ ''_x'') \<noteq> Inr ()"
  using lexical_schema_roundtrip [of "''_folded''" "''_x''" 3 4 sample_manifest]
  by (simp add: is_ascii_digit_def byte_of_def sample_manifest_def)

lemmas [rust_eval] =
  is_ascii_digit_def digits_value_def parse_u32_def lexical_schema_generation_def writer_label_def
  ensure_lexical_schema_supported_def supported_schema_version_def validate_against_def

end
