(* ===== verification/Top_K.thy ===== *)
theory Top_K
  imports Main "HOL-Library.Multiset"
begin

text \<open>
  A bounded heap of the best \<open>limit\<close> elements, as the mapped index keeps one while it scans.
  \<^verbatim>\<open>BinaryHeap\<close> is the collection of its elements with its greatest element on top; its
  layout is not observed, because what leaves the heap is sorted. The reference is to sort
  everything and take the first elements.
\<close>

definition heap_peek :: "'a::linorder list \<Rightarrow> 'a option" where
  "heap_peek h = (case h of [] \<Rightarrow> None | x # xs \<Rightarrow> Some (fold max xs x))"

definition heap_pop :: "'a::linorder list \<Rightarrow> 'a list" where
  "heap_pop h = (case heap_peek h of None \<Rightarrow> [] | Some x \<Rightarrow> remove1 x h)"

definition heap_push :: "'a \<Rightarrow> 'a list \<Rightarrow> 'a list" where
  "heap_push x h = x # h"

text \<open>Keep the element when there is room, or when it beats the worst one kept.\<close>

definition keep_best :: "nat \<Rightarrow> 'a::linorder list \<Rightarrow> 'a \<Rightarrow> 'a list" where
  "keep_best limit h x =
     (if length h < limit then heap_push x h
      else (case heap_peek h of
              None \<Rightarrow> h
            | Some worst \<Rightarrow> (if x < worst then heap_push x (heap_pop h) else h)))"

lemma heap_peek_Max: "h \<noteq> [] \<Longrightarrow> heap_peek h = Some (Max (set h))"
  by (cases h) (simp_all only: heap_peek_def list.case Max.set_eq_fold simp_thms)

lemma sort_mset: "mset xs = mset ys \<Longrightarrow> sort xs = sort ys"
  by (metis mset_sort properties_for_sort sorted_sort)

text \<open>The greatest element is the last one of the sorted list.\<close>

lemma Max_last_sort:
  assumes "h \<noteq> []"
  shows "Max (set h) = last (sort h)"
proof (rule Max_eqI)
  have ne: "sort h \<noteq> []" using assms by (metis set_sort set_empty)
  then show "last (sort h) \<in> set h" by (metis last_in_set set_sort)
  fix x assume "x \<in> set h"
  then obtain i where "i < length (sort h)" "sort h ! i = x" by (metis in_set_conv_nth set_sort)
  then show "x \<le> last (sort h)"
    using ne sorted_sort [of h] by (auto simp: last_conv_nth sorted_iff_nth_mono)
qed simp

lemma sort_pop:
  assumes "h \<noteq> []"
  shows "sort (heap_pop h) = butlast (sort h)"
proof -
  have ne: "sort h \<noteq> []" using assms by (metis set_sort set_empty)
  have "mset (heap_pop h) = mset (sort h) - {#last (sort h)#}"
    using assms by (simp add: heap_pop_def heap_peek_Max Max_last_sort)
  also have "mset (sort h) = add_mset (last (sort h)) (mset (butlast (sort h)))"
    by (subst (1) append_butlast_last_id [OF ne, symmetric]) simp
  finally have "mset (heap_pop h) = mset (butlast (sort h))" by simp
  then have "sort (heap_pop h) = sort (butlast (sort h))" by (rule sort_mset)
  also have "\<dots> = butlast (sort h)"
    by (intro sorted_sort_id) (metis sorted_append sorted_sort append_butlast_last_id ne)
  finally show ?thesis .
qed

lemma take_insort_below:
  "n < length xs \<Longrightarrow> x \<le> xs ! n \<Longrightarrow> take (Suc n) (insort x xs) = insort x (take n xs)"
proof (induction xs arbitrary: n)
  case (Cons y ys)
  then show ?case by (cases n) auto
qed simp

lemma take_insort_above:
  "sorted xs \<Longrightarrow> n < length xs \<Longrightarrow> xs ! n \<le> x \<Longrightarrow> take (Suc n) (insort x xs) = take (Suc n) xs"
proof (induction xs arbitrary: n)
  case (Cons y ys)
  show ?case
  proof (cases n)
    case 0
    with Cons.prems show ?thesis by auto
  next
    case (Suc m)
    with Cons have IH: "take (Suc m) (insort x ys) = take (Suc m) ys" by simp
    show ?thesis
    proof (cases "x \<le> y")
      case True
      have "y \<le> ys ! m" using Cons.prems Suc by simp
      also have "ys ! m \<le> x" using Cons.prems Suc by simp
      finally have "x = y" using True by simp
      then have "insort x ys = x # ys" using Cons.prems by (intro insort_is_Cons) simp
      with IH \<open>x = y\<close> Suc show ?thesis by simp
    qed (simp add: IH Suc)
  qed
qed simp

lemma keep_best_step:
  assumes "0 < limit" and h: "sort h = take limit (sort xs)"
  shows "sort (keep_best limit h x) = take limit (sort (x # xs))"
proof -
  from h have len: "length h = min (length xs) limit" by (metis length_sort length_take)
  show ?thesis
  proof (cases "length h < limit")
    case True
    then have "sort h = sort xs" "length xs < limit" using len h by auto
    then show ?thesis using True by (simp add: keep_best_def heap_push_def length_insort)
  next
    case False
    then obtain n where n: "limit = Suc n" "n < length xs" using assms(1) len by (cases limit) auto
    then have ne: "h \<noteq> []" using False by auto
    have "last (sort h) = sort xs ! n" using n by (simp add: h take_Suc_conv_app_nth)
    then have peek: "heap_peek h = Some (sort xs ! n)"
      using ne by (simp add: heap_peek_Max Max_last_sort)
    have "butlast (sort h) = take n (sort xs)" using n by (simp add: h butlast_take)
    then have "sort (heap_push x (heap_pop h)) = insort x (take n (sort xs))"
      using sort_pop [OF ne] by (simp add: heap_push_def)
    with False peek n h show ?thesis
      using take_insort_below [of n "sort xs" x] take_insort_above [of "sort xs" n x]
      by (auto simp: keep_best_def not_less)
  qed
qed

theorem keep_best_all:
  assumes "0 < limit"
  shows "sort (foldl (keep_best limit) [] xs) = take limit (sort xs)"
proof (induction xs rule: rev_induct)
  case (snoc x xs)
  have "sort (x # xs) = sort (xs @ [x])" by (rule sort_mset) simp
  with keep_best_step [OF assms snoc] show ?case by (simp del: sort_key_simps)
qed simp

end
