(* ===== verification/Mmap_Dense.thy ===== *)
theory Mmap_Dense
  imports Manifest Refill Top_K
begin

text \<open>
  The file-backed exact dense index (\<^verbatim>\<open>crates/aicx-retrieve/src/adapter_mmap.rs\<close>): the
  binary layout byte by byte, opening with validation, the scan with its bounded heap, and building
  and appending. A file is its bytes; paths appear in messages only, and failures of the file system
  are not modelled. The JSON of the metadata records is the serializer's (\<open>to_vec\<close>,
  \<open>from_slice\<close> and its projection \<open>filter_of\<close>). A \<^verbatim>\<open>usize\<close> has 64 bits.
\<close>

section \<open>Bytes\<close>

fun le_bytes :: "nat \<Rightarrow> nat \<Rightarrow> word8 list" where
  "le_bytes 0 n = []"
| "le_bytes (Suc w) n = word_of_nat (n mod 256) # le_bytes w (n div 256)"

fun le_value :: "word8 list \<Rightarrow> nat" where
  "le_value [] = 0"
| "le_value (b # bs) = unat b + 256 * le_value bs"

definition subslice :: "'a list \<Rightarrow> nat \<Rightarrow> nat \<Rightarrow> 'a list" where
  "subslice data start stop = take (stop - start) (drop start data)"

definition read_le :: "nat \<Rightarrow> string \<Rightarrow> word8 list \<Rightarrow> usize \<Rightarrow> anyhow + nat" where
  "read_le w name bytes offset =
     (if offset + w \<le> length bytes then Inr (le_value (subslice bytes offset (offset + w)))
      else Inl (Message (''truncated '' @ name @ '' at byte '' @ show_nat offset)))"

definition read_u16 :: "word8 list \<Rightarrow> usize \<Rightarrow> anyhow + nat" where
  "read_u16 = read_le 2 ''u16''"

definition read_u32 :: "word8 list \<Rightarrow> usize \<Rightarrow> anyhow + nat" where
  "read_u32 = read_le 4 ''u32''"

definition read_u64 :: "word8 list \<Rightarrow> usize \<Rightarrow> anyhow + nat" where
  "read_u64 = read_le 8 ''u64''"

definition write_u32 :: "u32 \<Rightarrow> word8 list" where
  "write_u32 v = le_bytes 4 v"

definition write_u64 :: "u64 \<Rightarrow> word8 list" where
  "write_u64 v = le_bytes 8 v"

definition overflow_error :: "string \<Rightarrow> anyhow" where
  "overflow_error label = Message (''mmap dense '' @ label @ '' overflow'')"

definition checked_add :: "usize \<Rightarrow> usize \<Rightarrow> string \<Rightarrow> anyhow + usize" where
  "checked_add left right label =
     (case u64_checked_add left right of None \<Rightarrow> Inl (overflow_error label) | Some n \<Rightarrow> Inr n)"

definition checked_mul :: "usize \<Rightarrow> usize \<Rightarrow> string \<Rightarrow> anyhow + usize" where
  "checked_mul left right label =
     (if left * right \<le> u64_max then Inr (left * right) else Inl (overflow_error label))"

definition usize_to_u32 :: "usize \<Rightarrow> string \<Rightarrow> anyhow + u32" where
  "usize_to_u32 v label =
     (if v < 2 ^ 32 then Inr v else Inl (Message (''mmap dense '' @ label @ '' exceeds u32'')))"

section \<open>The format\<close>

definition mmap_dense_kind :: string where
  "mmap_dense_kind = ''exact_mmap_v1''"

definition mmap_dense_magic :: "word8 list" where
  "mmap_dense_magic = as_bytes ''AICXDMM1''"

definition mmap_schema_version :: nat where
  "mmap_schema_version = 1"

definition mmap_header_len :: usize where
  "mmap_header_len = 128"

definition mmap_metadata_ref_len :: usize where
  "mmap_metadata_ref_len = 16"

definition endian_marker :: u32 where
  "endian_marker = 16909060"

definition max_metadata_record_bytes :: usize where
  "max_metadata_record_bytes = 16 * 1024 * 1024"

record mmap_header =
  mh_dim :: usize
  mh_distance :: distance
  mh_count :: usize
  mh_source_hash :: "word8 list"
  mh_refs_offset :: usize
  mh_refs_len :: usize
  mh_vectors_offset :: usize
  mh_vectors_len :: usize
  mh_metadata_offset :: usize
  mh_metadata_len :: usize

record metadata_ref =
  mr_offset :: usize
  mr_len :: usize

record stored_metadata =
  sm_chunk_id :: string
  sm_source_path :: string
  sm_metadata :: json

record mmap_query_stats =
  qs_metadata_examined :: usize
  qs_vectors_scored :: usize

record mmap_dense =
  md_path :: string
  md_header :: mmap_header
  md_refs :: "metadata_ref list"
  md_data :: "word8 list"
  md_last_query_stats :: mmap_query_stats

definition stats_zero :: mmap_query_stats where
  "stats_zero = \<lparr> qs_metadata_examined = 0, qs_vectors_scored = 0 \<rparr>"

definition encode_distance :: "distance \<Rightarrow> word8" where
  "encode_distance d = (case d of Cosine \<Rightarrow> 1 | Euclidean \<Rightarrow> 2 | Dot \<Rightarrow> 3)"

definition decode_distance :: "word8 \<Rightarrow> anyhow + distance" where
  "decode_distance v =
     (if v = 1 then Inr Cosine else if v = 2 then Inr Euclidean else if v = 3 then Inr Dot
      else Inl (Message (''unsupported mmap dense distance code '' @ show_nat (unat v))))"

text \<open>The header is written into 128 zero bytes field by field; reserved bytes stay zero.\<close>

definition write_fields :: "(nat \<times> word8 list) list \<Rightarrow> word8 list \<Rightarrow> word8 list" where
  "write_fields fs bytes = foldl (\<lambda>bytes (offset, field). copy_at offset field bytes) bytes fs"

definition encode_header :: "mmap_header \<Rightarrow> usize \<Rightarrow> anyhow + word8 list" where
  "encode_header h file_len =
     bind_res (usize_to_u32 (mh_dim h) ''dimension'') (\<lambda>dim.
       Inr (write_fields
         [(0, mmap_dense_magic), (8, le_bytes 2 mmap_schema_version), (10, le_bytes 4 endian_marker),
          (14, le_bytes 2 mmap_header_len), (16, le_bytes 4 dim), (20, [encode_distance (mh_distance h)]),
          (24, le_bytes 8 (mh_count h)), (32, mh_source_hash h),
          (64, le_bytes 8 (mh_refs_offset h)), (72, le_bytes 8 (mh_refs_len h)),
          (80, le_bytes 8 (mh_vectors_offset h)), (88, le_bytes 8 (mh_vectors_len h)),
          (96, le_bytes 8 (mh_metadata_offset h)), (104, le_bytes 8 (mh_metadata_len h)),
          (112, le_bytes 8 file_len)]
         (replicate mmap_header_len 0)))"

definition mmap_error :: "string \<Rightarrow> string \<Rightarrow> anyhow" where
  "mmap_error what path = Message (what @ '' in '' @ path)"

definition parse_header :: "word8 list \<Rightarrow> string \<Rightarrow> anyhow + mmap_header" where
  "parse_header data path =
     bind_res (require (mmap_header_len \<le> length data)
       (Message (''mmap dense file '' @ path @ '' is truncated before the 128-byte header''))) (\<lambda>_.
     bind_res (require (take 8 data = mmap_dense_magic) (mmap_error ''mmap dense magic mismatch'' path)) (\<lambda>_.
     bind_res (read_u16 data 8) (\<lambda>schema_version.
     bind_res (require (schema_version = mmap_schema_version)
       (mmap_error (''unsupported mmap dense schema version '' @ show_nat schema_version) path)) (\<lambda>_.
     bind_res (read_u32 data 10) (\<lambda>marker.
     bind_res (require (marker = endian_marker) (mmap_error ''mmap dense endian marker mismatch'' path)) (\<lambda>_.
     bind_res (read_u16 data 14) (\<lambda>header_len.
     bind_res (require (header_len = mmap_header_len) (mmap_error ''mmap dense header length mismatch'' path)) (\<lambda>_.
     bind_res (read_u32 data 16) (\<lambda>dim.
     bind_res (require (dim \<noteq> 0) (mmap_error ''mmap dense dimension is zero'' path)) (\<lambda>_.
     bind_res (decode_distance (data ! 20)) (\<lambda>distance.
     bind_res (require (\<not> list_ex (\<lambda>b. b \<noteq> 0) (subslice data 21 24) \<and> \<not> list_ex (\<lambda>b. b \<noteq> 0) (subslice data 120 128))
       (mmap_error ''mmap dense reserved header bytes are non-zero'' path)) (\<lambda>_.
     bind_res (read_u64 data 24) (\<lambda>count.
     bind_res (read_u64 data 64) (\<lambda>refs_offset.
     bind_res (read_u64 data 72) (\<lambda>refs_len.
     bind_res (read_u64 data 80) (\<lambda>vectors_offset.
     bind_res (read_u64 data 88) (\<lambda>vectors_len.
     bind_res (read_u64 data 96) (\<lambda>metadata_offset.
     bind_res (read_u64 data 104) (\<lambda>metadata_len.
     bind_res (read_u64 data 112) (\<lambda>file_len.
     bind_res (checked_mul count mmap_metadata_ref_len ''refs length'') (\<lambda>expected_refs_len.
     bind_res (checked_mul count dim ''vector component count'') (\<lambda>components.
     bind_res (checked_mul components 4 ''vectors length'') (\<lambda>expected_vectors_len.
     bind_res (checked_add refs_offset refs_len ''refs end'') (\<lambda>refs_end.
     bind_res (checked_add vectors_offset vectors_len ''vectors end'') (\<lambda>vectors_end.
     bind_res (checked_add metadata_offset metadata_len ''metadata end'') (\<lambda>metadata_end.
     bind_res (require (refs_offset = mmap_header_len \<and> refs_len = expected_refs_len
         \<and> vectors_offset = refs_end \<and> vectors_len = expected_vectors_len
         \<and> metadata_offset = vectors_end \<and> metadata_end = file_len \<and> file_len = length data)
       (mmap_error ''mmap dense structural offsets are corrupt'' path)) (\<lambda>_.
     Inr \<lparr> mh_dim = dim, mh_distance = distance, mh_count = count, mh_source_hash = subslice data 32 64,
           mh_refs_offset = refs_offset, mh_refs_len = refs_len, mh_vectors_offset = vectors_offset,
           mh_vectors_len = vectors_len, mh_metadata_offset = metadata_offset,
           mh_metadata_len = metadata_len \<rparr>)))))))))))))))))))))))))))"

text \<open>One metadata reference: contiguous with the one before, in range, its record readable.\<close>

definition parse_ref ::
  "(word8 list \<Rightarrow> anyhow + stored_metadata) \<Rightarrow> word8 list \<Rightarrow> mmap_header \<Rightarrow> string
   \<Rightarrow> metadata_ref list \<times> usize \<Rightarrow> usize \<Rightarrow> anyhow + metadata_ref list \<times> usize" where
  "parse_ref from_slice data h path st row =
     (case st of (refs, expected_offset) \<Rightarrow>
     bind_res (checked_mul row mmap_metadata_ref_len ''metadata ref offset'') (\<lambda>ref_offset.
     bind_res (checked_add (mh_refs_offset h) ref_offset ''metadata ref start'') (\<lambda>start.
     bind_res (read_u64 data start) (\<lambda>offset.
     bind_res (read_u32 data (start + 8)) (\<lambda>len.
     bind_res (read_u32 data (start + 12)) (\<lambda>reserved.
     bind_res (require (\<not> (reserved \<noteq> 0 \<or> offset \<noteq> expected_offset \<or> len = 0 \<or> len > max_metadata_record_bytes))
       (mmap_error (''invalid mmap dense metadata reference '' @ show_nat row) path)) (\<lambda>_.
     bind_res (checked_add offset len ''metadata reference end'') (\<lambda>stop.
     bind_res (require (stop \<le> mh_metadata_len h)
       (Message (''mmap dense metadata reference '' @ show_nat row @ '' exceeds region in '' @ path))) (\<lambda>_.
     bind_res (checked_add (mh_metadata_offset h) offset ''metadata absolute start'') (\<lambda>absolute_start.
     bind_res (checked_add absolute_start len ''metadata absolute end'') (\<lambda>absolute_end.
     bind_res (map_err (\<lambda>_. mmap_error (''validate mmap dense metadata row '' @ show_nat row) path)
       (from_slice (subslice data absolute_start absolute_end))) (\<lambda>_.
     Inr (refs @ [\<lparr> mr_offset = offset, mr_len = len \<rparr>], stop)))))))))))))"

definition parse_and_validate_refs ::
  "(word8 list \<Rightarrow> anyhow + stored_metadata) \<Rightarrow> word8 list \<Rightarrow> mmap_header \<Rightarrow> string
   \<Rightarrow> anyhow + metadata_ref list" where
  "parse_and_validate_refs from_slice data h path =
     bind_res (fold_res (parse_ref from_slice data h path) ([], 0) [0 ..< mh_count h]) (\<lambda>(refs, expected_offset).
       bind_res (require (expected_offset = mh_metadata_len h)
         (mmap_error ''mmap dense metadata references do not cover region'' path)) (\<lambda>_. Inr refs))"

definition mmap_open ::
  "(word8 list \<Rightarrow> anyhow + stored_metadata) \<Rightarrow> word8 list \<Rightarrow> string \<Rightarrow> usize \<Rightarrow> distance
   \<Rightarrow> word8 list option \<Rightarrow> anyhow + mmap_dense" where
  "mmap_open from_slice data path expected_dim expected_distance expected_source_hash =
     bind_res (parse_header data path) (\<lambda>h.
     bind_res (require (mh_dim h = expected_dim)
       (Message (''mmap dense dimension mismatch in '' @ path @ '': header='' @ show_nat (mh_dim h)
          @ '', expected='' @ show_nat expected_dim))) (\<lambda>_.
     bind_res (require (mh_distance h = expected_distance) (mmap_error ''mmap dense distance mismatch'' path)) (\<lambda>_.
     bind_res (require (case expected_source_hash of None \<Rightarrow> True | Some e \<Rightarrow> mh_source_hash h = e)
       (mmap_error ''mmap dense source hash mismatch'' path)) (\<lambda>_.
     bind_res (parse_and_validate_refs from_slice data h path) (\<lambda>refs.
     Inr \<lparr> md_path = path, md_header = h, md_refs = refs, md_data = data,
           md_last_query_stats = stats_zero \<rparr>)))))"

section \<open>Rows\<close>

definition mmap_create :: "string \<Rightarrow> usize \<Rightarrow> distance \<Rightarrow> word8 list \<Rightarrow> mmap_dense" where
  "mmap_create path dim d source_hash =
     \<lparr> md_path = path,
       md_header = \<lparr> mh_dim = dim, mh_distance = d, mh_count = 0, mh_source_hash = source_hash,
         mh_refs_offset = mmap_header_len, mh_refs_len = 0, mh_vectors_offset = mmap_header_len,
         mh_vectors_len = 0, mh_metadata_offset = mmap_header_len, mh_metadata_len = 0 \<rparr>,
       md_refs = [], md_data = [], md_last_query_stats = stats_zero \<rparr>"

definition metadata_slice :: "mmap_dense \<Rightarrow> usize \<Rightarrow> anyhow + word8 list" where
  "metadata_slice a row =
     bind_res (require (row < length (md_refs a))
       (Message (''mmap dense metadata row out of range: '' @ show_nat row))) (\<lambda>_.
     (let reference = md_refs a ! row in
      bind_res (checked_add (mh_metadata_offset (md_header a)) (mr_offset reference) ''metadata start'') (\<lambda>start.
      bind_res (checked_add start (mr_len reference) ''metadata end'') (\<lambda>stop.
      Inr (subslice (md_data a) start stop)))))"

definition row_error :: "usize \<Rightarrow> anyhow" where
  "row_error row = Message (''parse mmap dense metadata row '' @ show_nat row)"

definition mmap_metadata ::
  "(word8 list \<Rightarrow> anyhow + stored_metadata) \<Rightarrow> mmap_dense \<Rightarrow> usize \<Rightarrow> anyhow + stored_metadata" where
  "mmap_metadata from_slice a row =
     bind_res (metadata_slice a row) (\<lambda>bytes. map_err (\<lambda>_. row_error row) (from_slice bytes))"

definition metadata_filter_value ::
  "(word8 list \<Rightarrow> anyhow + json) \<Rightarrow> mmap_dense \<Rightarrow> usize \<Rightarrow> anyhow + json" where
  "metadata_filter_value filter_of a row =
     bind_res (metadata_slice a row) (\<lambda>bytes. map_err (\<lambda>_. row_error row) (filter_of bytes))"

fun chunks4 :: "word8 list \<Rightarrow> word8 list list" where
  "chunks4 (a # b # c # d # bs) = [a, b, c, d] # chunks4 bs"
| "chunks4 _ = []"

definition f32_from_le_bytes :: "word8 list \<Rightarrow> f32" where
  "f32_from_le_bytes bs = f32_from_bits (le_value bs)"

definition f32_to_le_bytes :: "f32 \<Rightarrow> word8 list" where
  "f32_to_le_bytes x = le_bytes 4 (f32_to_bits x)"

definition norm_sq :: "f32 list \<Rightarrow> f32" where
  "norm_sq q = foldl (\<lambda>n x. f32_add n (f32_mul x x)) f32_zero q"

text \<open>The score of a row's components against a query whose squared norm is at hand.\<close>

definition row_score :: "distance \<Rightarrow> f32 list \<Rightarrow> f32 list \<Rightarrow> f32 \<Rightarrow> f32" where
  "row_score d components query query_norm_sq =
     (case d of
        Cosine \<Rightarrow>
          (case foldl (\<lambda>(dot, norm_row) (v, q). (f32_add dot (f32_mul q v), f32_add norm_row (f32_mul v v)))
                  (f32_zero, f32_zero) (zip components query) of
             (dot, norm_row) \<Rightarrow>
               if f32_eq query_norm_sq f32_zero \<or> f32_eq norm_row f32_zero then f32_zero
               else f32_div dot (f32_mul (f32_sqrt query_norm_sq) (f32_sqrt norm_row)))
      | Dot \<Rightarrow> foldl (\<lambda>dot (v, q). f32_add dot (f32_mul q v)) f32_zero (zip components query)
      | Euclidean \<Rightarrow>
          f32_neg (f32_sqrt (foldl (\<lambda>sq (v, q). f32_add sq (f32_mul (f32_sub q v) (f32_sub q v)))
            f32_zero (zip components query))))"

definition vector_score :: "mmap_dense \<Rightarrow> usize \<Rightarrow> f32 list \<Rightarrow> f32 \<Rightarrow> anyhow + f32" where
  "vector_score a row query query_norm_sq =
     bind_res (checked_mul (mh_dim (md_header a)) 4 ''vector row bytes'') (\<lambda>row_bytes.
     bind_res (checked_mul row row_bytes ''vector row offset'') (\<lambda>row_offset.
     bind_res (checked_add (mh_vectors_offset (md_header a)) row_offset ''vector start'') (\<lambda>start.
     bind_res (checked_add start row_bytes ''vector end'') (\<lambda>stop.
     (let components = map f32_from_le_bytes (chunks4 (subslice (md_data a) start stop));
          score = row_score (mh_distance (md_header a)) components query query_norm_sq in
      if f32_is_finite score then Inr score
      else if list_ex (\<lambda>c. \<not> f32_is_finite c) components
      then Inl (Message (''non-finite vector component in mmap dense row '' @ show_nat row))
      else Inl (Message (''non-finite mmap dense score for row '' @ show_nat row)))))))"

section \<open>The scan\<close>

text \<open>
  A candidate is better, so smaller, with a higher score in the total order, then with a smaller
  row. The heap's top is its worst candidate.
\<close>

datatype candidate = Candidate (ca_score: f32) (ca_row: usize)

text \<open>\<^verbatim>\<open>Ord for Candidate\<close>, by which the heap is ordered.\<close>

definition candidate_le :: "candidate \<Rightarrow> candidate \<Rightarrow> bool" where
  "candidate_le x y \<longleftrightarrow>
     ca_score y < ca_score x \<or> (ca_score x = ca_score y \<and> ca_row x \<le> ca_row y)"

instantiation candidate :: linorder
begin

definition less_eq_candidate :: "candidate \<Rightarrow> candidate \<Rightarrow> bool" where
  "x \<le> y \<longleftrightarrow> candidate_le x y"

definition less_candidate :: "candidate \<Rightarrow> candidate \<Rightarrow> bool" where
  "x < y \<longleftrightarrow> ca_score y < ca_score x \<or> (ca_score x = ca_score y \<and> ca_row x < ca_row y)"

instance
  by standard (auto simp: less_eq_candidate_def less_candidate_def candidate_le_def candidate.expand)

end

definition scan_row ::
  "(word8 list \<Rightarrow> anyhow + json) \<Rightarrow> mmap_dense \<Rightarrow> f32 list \<Rightarrow> f32 \<Rightarrow> filter_set \<Rightarrow> usize
   \<Rightarrow> mmap_query_stats \<times> candidate list \<Rightarrow> usize \<Rightarrow> anyhow + mmap_query_stats \<times> candidate list" where
  "scan_row filter_of a query query_norm_sq filters limit st row =
     (case st of (stats, heap) \<Rightarrow>
        (let stats = stats\<lparr>qs_metadata_examined := qs_metadata_examined stats + 1\<rparr> in
         bind_res (if filters = [] then Inr True
                   else bind_res (metadata_filter_value filter_of a row)
                          (\<lambda>metadata. Inr (metadata_matches metadata filters))) (\<lambda>keep.
           if \<not> keep then Inr (stats, heap)
           else bind_res (vector_score a row query query_norm_sq) (\<lambda>score.
             Inr (stats\<lparr>qs_vectors_scored := qs_vectors_scored stats + 1\<rparr>,
                  keep_best limit heap (Candidate score row))))))"

fun mmap_hits ::
  "(word8 list \<Rightarrow> anyhow + stored_metadata) \<Rightarrow> mmap_dense \<Rightarrow> usize \<Rightarrow> candidate list \<Rightarrow> anyhow + hit list" where
  "mmap_hits from_slice a rank [] = Inr []"
| "mmap_hits from_slice a rank (c # cs) =
     bind_res (mmap_metadata from_slice a (ca_row c)) (\<lambda>stored.
     bind_res (mmap_hits from_slice a (Suc rank) cs) (\<lambda>hs.
     Inr (\<lparr> hit_chunk_id = sm_chunk_id stored, hit_score = ca_score c, hit_rank = rank,
            hit_source = mmap_dense_kind, hit_metadata = sm_metadata stored \<rparr> # hs)))"

definition mmap_query ::
  "(word8 list \<Rightarrow> anyhow + stored_metadata) \<Rightarrow> (word8 list \<Rightarrow> anyhow + json) \<Rightarrow> mmap_dense
   \<Rightarrow> f32 list \<Rightarrow> usize \<Rightarrow> filter_set \<Rightarrow> mmap_dense \<times> (anyhow + hit list)" where
  "mmap_query from_slice filter_of a embedding limit filters =
     (if length embedding \<noteq> mh_dim (md_header a)
      then (a, Inl (Message (''query: embedding dim '' @ show_nat (length embedding)
              @ '' != adapter dim '' @ show_nat (mh_dim (md_header a)))))
      else if list_ex (\<lambda>v. \<not> f32_is_finite v) embedding
      then (a, Inl (Message ''query embedding contains non-finite components''))
      else if limit = 0 then (a\<lparr>md_last_query_stats := stats_zero\<rparr>, Inr [])
      else (case fold_res (scan_row filter_of a embedding (norm_sq embedding) filters limit)
                   (stats_zero, []) [0 ..< mh_count (md_header a)] of
              Inl e \<Rightarrow> (a, Inl e)
            | Inr (stats, heap) \<Rightarrow>
                (a\<lparr>md_last_query_stats := stats\<rparr>, mmap_hits from_slice a 0 (sort heap))))"

section \<open>Building and appending\<close>

definition stored_of :: "dense_chunk_ref \<Rightarrow> stored_metadata" where
  "stored_of c =
     \<lparr> sm_chunk_id = ck_id (dc_chunk c), sm_source_path = ck_source_path (dc_chunk c),
       sm_metadata = ck_metadata (dc_chunk c) \<rparr>"

text \<open>The checks of one chunk, shared by build and insert up to the verb of their messages.\<close>

definition chunk_blob ::
  "string \<Rightarrow> (stored_metadata \<Rightarrow> anyhow + word8 list) \<Rightarrow> usize \<Rightarrow> dense_chunk_ref \<Rightarrow> anyhow + word8 list" where
  "chunk_blob verb to_vec dim c =
     (let label = verb @ '': chunk '' @ ck_id (dc_chunk c) in
      bind_res (require (length (dc_embedding c) = dim)
        (Message (label @ '' has dim '' @ show_nat (length (dc_embedding c)) @ '', adapter dim '' @ show_nat dim))) (\<lambda>_.
      bind_res (require (\<not> list_ex (\<lambda>v. \<not> f32_is_finite v) (dc_embedding c))
        (Message (label @ '' contains non-finite embedding''))) (\<lambda>_.
      bind_res (to_vec (stored_of c)) (\<lambda>blob.
      bind_res (require (\<not> (blob = [] \<or> max_metadata_record_bytes < length blob))
        (Message (label @ '' metadata size '' @ show_nat (length blob) @ '' is outside 1..=16777216''))) (\<lambda>_.
      Inr blob)))))"

definition ref_bytes :: "usize \<Rightarrow> usize \<Rightarrow> anyhow + word8 list" where
  "ref_bytes offset len =
     bind_res (usize_to_u32 len ''metadata length'') (\<lambda>len.
       Inr (write_u64 offset @ write_u32 len @ write_u32 0))"

definition write_chunks ::
  "(stored_metadata \<Rightarrow> anyhow + word8 list) \<Rightarrow> mmap_dense \<Rightarrow> dense_chunk_ref list \<Rightarrow> anyhow + word8 list" where
  "write_chunks to_vec a chunks =
     (let h = md_header a in
      bind_res (require (mh_dim h \<noteq> 0) (Message ''mmap dense dimension must be non-zero'')) (\<lambda>_.
      bind_res (fold_res (\<lambda>(blobs, metadata_len) c.
          bind_res (chunk_blob ''build'' to_vec (mh_dim h) c) (\<lambda>blob.
          bind_res (checked_add metadata_len (length blob) ''metadata payload length'') (\<lambda>metadata_len.
          Inr (blobs @ [blob], metadata_len)))) ([], 0) chunks) (\<lambda>(blobs, metadata_len).
      (let count = length chunks in
      bind_res (checked_mul count mmap_metadata_ref_len ''metadata refs length'') (\<lambda>refs_len.
      bind_res (checked_mul count (mh_dim h) ''vector component count'') (\<lambda>components.
      bind_res (checked_mul components 4 ''vectors length'') (\<lambda>vectors_len.
      bind_res (checked_add mmap_header_len refs_len ''vectors offset'') (\<lambda>vectors_offset.
      bind_res (checked_add vectors_offset vectors_len ''metadata offset'') (\<lambda>metadata_offset.
      bind_res (checked_add metadata_offset metadata_len ''file length'') (\<lambda>file_len.
      bind_res (encode_header
        \<lparr> mh_dim = mh_dim h, mh_distance = mh_distance h, mh_count = count,
          mh_source_hash = mh_source_hash h, mh_refs_offset = mmap_header_len, mh_refs_len = refs_len,
          mh_vectors_offset = vectors_offset, mh_vectors_len = vectors_len,
          mh_metadata_offset = metadata_offset, mh_metadata_len = metadata_len \<rparr> file_len) (\<lambda>header.
      bind_res (fold_res (\<lambda>(out, cursor) blob.
          bind_res (ref_bytes cursor (length blob)) (\<lambda>r. Inr (out @ r, cursor + length blob)))
        (header, 0) blobs) (\<lambda>(out, cursor).
      Inr (out @ concat (map (\<lambda>c. concat (map f32_to_le_bytes (dc_embedding c))) chunks) @ concat blobs)))))))))))))"

definition mmap_build ::
  "(word8 list \<Rightarrow> anyhow + stored_metadata) \<Rightarrow> (stored_metadata \<Rightarrow> anyhow + word8 list) \<Rightarrow> mmap_dense
   \<Rightarrow> dense_chunk_ref list \<Rightarrow> mmap_dense \<times> (anyhow + unit)" where
  "mmap_build from_slice to_vec a chunks =
     (let a = a\<lparr>md_data := [], md_refs := [], md_header := (md_header a)\<lparr>mh_count := 0\<rparr>\<rparr> in
      case bind_res (write_chunks to_vec a chunks) (\<lambda>bytes.
             mmap_open from_slice bytes (md_path a) (mh_dim (md_header a)) (mh_distance (md_header a))
               (Some (mh_source_hash (md_header a)))) of
        Inl e \<Rightarrow> (a, Inl e)
      | Inr opened \<Rightarrow> (opened, Inr ()))"

text \<open>The file an append writes: the old regions copied, the new row's parts after each.\<close>

definition append_bytes ::
  "(stored_metadata \<Rightarrow> anyhow + word8 list) \<Rightarrow> mmap_dense \<Rightarrow> dense_chunk_ref \<Rightarrow> anyhow + mmap_header \<times> word8 list" where
  "append_bytes to_vec a c =
     (let h = md_header a in
      bind_res (chunk_blob ''insert'' to_vec (mh_dim h) c) (\<lambda>metadata.
      bind_res (checked_add (mh_count h) 1 ''insert count'') (\<lambda>count.
      bind_res (checked_mul count mmap_metadata_ref_len ''insert refs length'') (\<lambda>refs_len.
      bind_res (checked_mul (mh_dim h) 4 ''insert vector bytes'') (\<lambda>vector_bytes.
      bind_res (checked_add (mh_vectors_len h) vector_bytes ''insert vectors length'') (\<lambda>vectors_len.
      bind_res (checked_add (mh_metadata_len h) (length metadata) ''insert metadata length'') (\<lambda>metadata_len.
      bind_res (checked_add mmap_header_len refs_len ''insert vectors offset'') (\<lambda>vectors_offset.
      bind_res (checked_add vectors_offset vectors_len ''insert metadata offset'') (\<lambda>metadata_offset.
      bind_res (checked_add metadata_offset metadata_len ''insert file length'') (\<lambda>file_len.
      (let next_header =
         \<lparr> mh_dim = mh_dim h, mh_distance = mh_distance h, mh_count = count,
           mh_source_hash = mh_source_hash h, mh_refs_offset = mmap_header_len, mh_refs_len = refs_len,
           mh_vectors_offset = vectors_offset, mh_vectors_len = vectors_len,
           mh_metadata_offset = metadata_offset, mh_metadata_len = metadata_len \<rparr> in
      bind_res (encode_header next_header file_len) (\<lambda>header.
      bind_res (fold_res (\<lambda>out r. bind_res (ref_bytes (mr_offset r) (mr_len r)) (\<lambda>b. Inr (out @ b)))
        header (md_refs a)) (\<lambda>out.
      bind_res (ref_bytes (mh_metadata_len h) (length metadata)) (\<lambda>new_ref.
      bind_res (checked_add (mh_vectors_offset h) (mh_vectors_len h) ''old vectors end'') (\<lambda>old_vectors_end.
      bind_res (checked_add (mh_metadata_offset h) (mh_metadata_len h) ''old metadata end'') (\<lambda>old_metadata_end.
      Inr (next_header,
           out @ new_ref @ subslice (md_data a) (mh_vectors_offset h) old_vectors_end
           @ concat (map f32_to_le_bytes (dc_embedding c))
           @ subslice (md_data a) (mh_metadata_offset h) old_metadata_end @ metadata)))))))))))))))))"

definition mmap_insert ::
  "(word8 list \<Rightarrow> anyhow + stored_metadata) \<Rightarrow> (stored_metadata \<Rightarrow> anyhow + word8 list) \<Rightarrow> mmap_dense
   \<Rightarrow> dense_chunk_ref \<Rightarrow> mmap_dense \<times> (anyhow + unit)" where
  "mmap_insert from_slice to_vec a c =
     (if mh_count (md_header a) = 0 \<or> md_data a = [] then mmap_build from_slice to_vec a [c]
      else (case append_bytes to_vec a c of
              Inl e \<Rightarrow> (a, Inl e)
            | Inr (next_header, bytes) \<Rightarrow>
                (case mmap_open from_slice bytes (md_path a) (mh_dim next_header)
                        (mh_distance next_header) (Some (mh_source_hash next_header)) of
                   Inl e \<Rightarrow> (a\<lparr>md_data := [], md_refs := []\<rparr>, Inl e)
                 | Inr opened \<Rightarrow> (opened, Inr ()))))"

definition mmap_count :: "mmap_dense \<Rightarrow> usize" where
  "mmap_count a = mh_count (md_header a)"

section \<open>The scan is exact\<close>

text \<open>The reference: score every matching row, sort all candidates, take the first ones.\<close>

definition row_candidate ::
  "(word8 list \<Rightarrow> anyhow + json) \<Rightarrow> mmap_dense \<Rightarrow> f32 list \<Rightarrow> filter_set \<Rightarrow> usize \<Rightarrow> anyhow + candidate option" where
  "row_candidate filter_of a query filters row =
     bind_res (if filters = [] then Inr True
               else bind_res (metadata_filter_value filter_of a row)
                      (\<lambda>metadata. Inr (metadata_matches metadata filters))) (\<lambda>keep.
       if \<not> keep then Inr None
       else bind_res (vector_score a row query (norm_sq query)) (\<lambda>score. Inr (Some (Candidate score row))))"

definition mmap_query_reference ::
  "(word8 list \<Rightarrow> anyhow + stored_metadata) \<Rightarrow> (word8 list \<Rightarrow> anyhow + json) \<Rightarrow> mmap_dense
   \<Rightarrow> f32 list \<Rightarrow> usize \<Rightarrow> filter_set \<Rightarrow> anyhow + hit list" where
  "mmap_query_reference from_slice filter_of a embedding limit filters =
     bind_res (map_res (row_candidate filter_of a embedding filters) [0 ..< mh_count (md_header a)]) (\<lambda>cs.
       mmap_hits from_slice a 0 (take limit (sort (List.map_filter id cs))))"

lemma scan_row_candidate:
  "scan_row filter_of a query (norm_sq query) filters limit (stats, heap) row =
     bind_res (row_candidate filter_of a query filters row) (\<lambda>c.
       Inr (stats\<lparr>qs_metadata_examined := qs_metadata_examined stats + 1,
                  qs_vectors_scored := qs_vectors_scored stats + (if c = None then 0 else 1)\<rparr>,
            case c of None \<Rightarrow> heap | Some c \<Rightarrow> keep_best limit heap c))"
  by (auto simp: scan_row_def row_candidate_def Let_def bind_res_def split: sum.split)

lemma scan_rows:
  "fold_res (scan_row filter_of a query (norm_sq query) filters limit) (stats, heap) rows =
     bind_res (map_res (row_candidate filter_of a query filters) rows) (\<lambda>cs.
       Inr (\<lparr> qs_metadata_examined = qs_metadata_examined stats + length rows,
              qs_vectors_scored = qs_vectors_scored stats + length (List.map_filter id cs) \<rparr>,
            foldl (keep_best limit) heap (List.map_filter id cs)))"
proof (induction rows arbitrary: stats heap)
  case Nil
  then show ?case by (simp add: List.map_filter_def)
next
  case (Cons row rows)
  show ?case
    by (cases "row_candidate filter_of a query filters row";
        cases "map_res (row_candidate filter_of a query filters) rows")
       (auto simp: scan_row_candidate Cons.IH map_filter_simps split: option.split)
qed

text \<open>
  The bounded-heap scan of the mapped index returns, errors included, exactly what scoring every
  matching row, sorting all of them by score and row and taking the first would return; and it
  examines every row.
\<close>

theorem mmap_query_exact:
  "snd (mmap_query from_slice filter_of a embedding limit filters) =
     (if length embedding \<noteq> mh_dim (md_header a)
      then Inl (Message (''query: embedding dim '' @ show_nat (length embedding)
             @ '' != adapter dim '' @ show_nat (mh_dim (md_header a))))
      else if list_ex (\<lambda>v. \<not> f32_is_finite v) embedding
      then Inl (Message ''query embedding contains non-finite components'')
      else if limit = 0 then Inr []
      else mmap_query_reference from_slice filter_of a embedding limit filters)"
proof (cases "limit = 0")
  case False
  then have "sort (foldl (keep_best limit) [] cs) = take limit (sort cs)" for cs :: "candidate list"
    using keep_best_all [of limit cs] by simp
  then show ?thesis
    by (auto simp: mmap_query_def scan_rows mmap_query_reference_def bind_res_def split: sum.split)
qed (simp add: mmap_query_def)

section \<open>Layout\<close>

lemma length_le_bytes [simp]: "length (le_bytes w n) = w"
  by (induction w arbitrary: n) auto

lemma le_value_bytes: "le_value (le_bytes w n) = n mod 256 ^ w"
proof (induction w arbitrary: n)
  case (Suc w)
  have "unat (word_of_nat (n mod 256) :: word8) = n mod 256"
    by (simp add: unat_of_nat)
  then show ?case by (simp add: Suc mod_mult2_eq)
qed simp

lemma length_slice [simp]: "b \<le> length xs \<Longrightarrow> length (subslice xs a b) = b - a"
  by (simp add: subslice_def)

lemma slice_append1: "b \<le> length xs \<Longrightarrow> subslice (xs @ ys) a b = subslice xs a b"
  by (simp add: subslice_def)

lemma slice_copy_same:
  "a + length src \<le> length dst \<Longrightarrow> b = a + length src \<Longrightarrow> subslice (copy_at a src dst) a b = src"
  by (simp add: subslice_def copy_at_def)

lemma slice_copy_other:
  assumes "at + length src \<le> length dst" "b \<le> length dst" "b \<le> at \<or> at + length src \<le> a"
  shows "subslice (copy_at at src dst) a b = subslice dst a b"
proof (rule nth_equalityI)
  show "length (subslice (copy_at at src dst) a b) = length (subslice dst a b)"
    using assms(1,2) by simp
  fix i assume "i < length (subslice (copy_at at src dst) a b)"
  then have "a + i < b" using assms(1,2) by (simp add: subslice_def)
  then show "subslice (copy_at at src dst) a b ! i = subslice dst a b ! i"
    using assms by (auto simp: subslice_def copy_at_def nth_append)
qed

lemma slice_replicate: "b \<le> n \<Longrightarrow> subslice (replicate n x) a b = replicate (b - a) x"
  by (simp add: subslice_def)

lemma nth_slice: "i < length xs \<Longrightarrow> xs ! i = hd (subslice xs i (i + 1))"
  by (simp add: subslice_def take_Suc_conv_app_nth Cons_nth_drop_Suc [symmetric])

lemma length_magic [simp]: "length mmap_dense_magic = 8"
  by (simp add: mmap_dense_magic_def as_bytes_def)

text \<open>Fields written in ascending order without overlap are read back whole, gaps are untouched.\<close>

fun fields_fit :: "nat \<Rightarrow> nat \<Rightarrow> (nat \<times> 'a list) list \<Rightarrow> bool" where
  "fields_fit a n [] = (a \<le> n)"
| "fields_fit a n ((at, f) # fs) = (a \<le> at \<and> fields_fit (at + length f) n fs)"

lemma fields_fit_le: "fields_fit a n fs \<Longrightarrow> a \<le> n"
  by (induction fs arbitrary: a) (auto, fastforce)

lemma write_fields_simps [simp]:
  "write_fields [] dst = dst"
  "write_fields ((at, f) # fs) dst = write_fields fs (copy_at at f dst)"
  by (simp_all add: write_fields_def)

lemma length_write_fields: "fields_fit a (length dst) fs \<Longrightarrow> length (write_fields fs dst) = length dst"
proof (induction fs arbitrary: a dst)
  case (Cons atf fs)
  obtain at f where "atf = (at, f)" by (cases atf)
  with Cons.prems Cons.IH [of "at + length f" "copy_at at f dst"]
    fields_fit_le [of "at + length f" "length dst" fs] show ?case by simp
qed simp

lemma write_fields_gap:
  "fields_fit a (length dst) fs \<Longrightarrow> y \<le> length dst \<Longrightarrow>
     list_all (\<lambda>(at, f). y \<le> at \<or> at + length f \<le> x) fs \<Longrightarrow>
     subslice (write_fields fs dst) x y = subslice dst x y"
proof (induction fs arbitrary: a dst)
  case (Cons atf fs)
  obtain at f where "atf = (at, f)" by (cases atf)
  with Cons.prems Cons.IH [of "at + length f" "copy_at at f dst"]
    fields_fit_le [of "at + length f" "length dst" fs] show ?case
    by (simp add: slice_copy_other)
qed simp

lemma fields_fit_later: "fields_fit a n fs \<Longrightarrow> list_all (\<lambda>(at, f). a \<le> at) fs"
proof (induction fs arbitrary: a)
  case (Cons atf fs)
  then show ?case by (cases atf) (force simp: list_all_iff)
qed simp

lemma write_fields_get:
  "fields_fit a (length dst) fs \<Longrightarrow> (at, f) \<in> set fs \<Longrightarrow>
     subslice (write_fields fs dst) at (at + length f) = f"
proof (induction fs arbitrary: a dst)
  case (Cons atf fs)
  obtain at' f' where atf: "atf = (at', f')" by (cases atf)
  with Cons.prems have fit: "fields_fit (at' + length f') (length dst) fs" by simp
  note le = fields_fit_le [OF fit]
  show ?case
  proof (cases "(at, f) \<in> set fs")
    case True
    then show ?thesis using Cons.IH [of "at' + length f'" "copy_at at' f' dst"] atf fit le by simp
  next
    case False
    then have "at = at'" "f = f'" using Cons.prems(2) atf by auto
    then show ?thesis
      using write_fields_gap [of "at' + length f'" "copy_at at' f' dst" fs "at' + length f'" at']
        fields_fit_later [OF fit] fit le atf
      by (simp add: slice_copy_same list_all_iff case_prod_beta)
  qed
qed simp

definition header_fields :: "mmap_header \<Rightarrow> usize \<Rightarrow> (nat \<times> word8 list) list" where
  "header_fields h file_len =
     [(0, mmap_dense_magic), (8, le_bytes 2 1), (10, le_bytes 4 endian_marker),
      (14, le_bytes 2 128), (16, le_bytes 4 (mh_dim h)), (20, [encode_distance (mh_distance h)]),
      (24, le_bytes 8 (mh_count h)), (32, mh_source_hash h),
      (64, le_bytes 8 (mh_refs_offset h)), (72, le_bytes 8 (mh_refs_len h)),
      (80, le_bytes 8 (mh_vectors_offset h)), (88, le_bytes 8 (mh_vectors_len h)),
      (96, le_bytes 8 (mh_metadata_offset h)), (104, le_bytes 8 (mh_metadata_len h)),
      (112, le_bytes 8 file_len)]"

lemma header_fields_fit: "length (mh_source_hash h) = 32 \<Longrightarrow> fields_fit 0 128 (header_fields h n)"
  by (simp add: header_fields_def)

lemma encode_header_eq:
  "encode_header h n = Inr bytes \<longleftrightarrow> mh_dim h < 2 ^ 32 \<and> bytes = write_fields (header_fields h n) (replicate 128 0)"
  by (auto simp: encode_header_def header_fields_def usize_to_u32_def mmap_header_len_def mmap_schema_version_def)

lemma encode_header_length:
  "encode_header h n = Inr bytes \<Longrightarrow> length (mh_source_hash h) = 32 \<Longrightarrow> length bytes = 128"
  using length_write_fields [of 0 "replicate 128 0" "header_fields h n"]
  by (auto simp: encode_header_eq header_fields_fit)

text \<open>What the header's bytes hold, field by field, also with the rest of the file after them.\<close>

lemma encode_header_field:
  assumes "encode_header h n = Inr bytes" "length (mh_source_hash h) = 32"
    and "(at, f) \<in> set (header_fields h n)" "e = at + length f" "e \<le> 128"
  shows "subslice (bytes @ rest) at e = f"
  using assms encode_header_length [OF assms(1,2)]
    write_fields_get [of 0 "replicate 128 0" "header_fields h n" at f]
  by (simp add: encode_header_eq header_fields_fit slice_append1)

lemma encode_header_reserved:
  assumes "encode_header h n = Inr bytes" "length (mh_source_hash h) = 32"
  shows "subslice (bytes @ rest) 21 24 = replicate 3 0" "subslice (bytes @ rest) 120 128 = replicate 8 0"
  using assms encode_header_length [OF assms]
    write_fields_gap [of 0 "replicate 128 0" "header_fields h n"]
  by (simp_all add: encode_header_eq header_fields_fit slice_append1 slice_replicate header_fields_def)

lemma read_header_field:
  assumes "encode_header h n = Inr bytes" "length (mh_source_hash h) = 32"
    and "(at, le_bytes w v) \<in> set (header_fields h n)" "at + w \<le> 128" "v < 256 ^ w"
  shows "read_le w name (bytes @ rest) at = Inr v"
  using encode_header_field [OF assms(1-3) refl, of rest] encode_header_length [OF assms(1,2)] assms(4,5)
  by (simp add: read_le_def le_value_bytes)

text \<open>The layout a header describes: the regions follow each other and end with the file.\<close>

definition header_consistent :: "mmap_header \<Rightarrow> usize \<Rightarrow> bool" where
  "header_consistent h n \<longleftrightarrow>
     mh_dim h \<noteq> 0 \<and> length (mh_source_hash h) = 32 \<and> n \<le> u64_max
     \<and> mh_refs_offset h = 128 \<and> mh_refs_len h = mh_count h * 16
     \<and> mh_vectors_offset h = 128 + mh_refs_len h \<and> mh_vectors_len h = mh_count h * mh_dim h * 4
     \<and> mh_metadata_offset h = mh_vectors_offset h + mh_vectors_len h
     \<and> mh_metadata_offset h + mh_metadata_len h = n"

lemma decode_encode_distance: "decode_distance (encode_distance d) = Inr d"
  by (cases d) (simp_all add: decode_distance_def encode_distance_def)

lemma parse_header_encoded:
  assumes e: "encode_header h n = Inr bytes" and ok: "header_consistent h n" and n: "n = 128 + length rest"
  shows "parse_header (bytes @ rest) path = Inr h"
proof -
  from ok have hash: "length (mh_source_hash h) = 32" by (simp add: header_consistent_def)
  have dim: "mh_dim h < 2 ^ 32" using e by (simp add: encode_header_eq)
  note len = encode_header_length [OF e hash]
  note fld = encode_header_field [OF e hash, of _ _ _ rest]
  note rd = read_header_field [OF e hash, of _ _ _ _ rest]
  have range: "mh_count h < 2 ^ 64" "mh_refs_offset h < 2 ^ 64" "mh_refs_len h < 2 ^ 64"
    "mh_vectors_offset h < 2 ^ 64" "mh_vectors_len h < 2 ^ 64" "mh_metadata_offset h < 2 ^ 64"
    "mh_metadata_len h < 2 ^ 64" "n < 2 ^ 64"
    using ok by (auto simp: header_consistent_def u64_max_def)
  have u64: "read_u64 (bytes @ rest) at = Inr v"
    if "(at, le_bytes 8 v) \<in> set (header_fields h n)" "at + 8 \<le> 128" "v < 2 ^ 64" for at v
    unfolding read_u64_def by (rule rd) (use that in simp_all)
  have reads:
    "read_u16 (bytes @ rest) 8 = Inr 1" "read_u32 (bytes @ rest) 10 = Inr endian_marker"
    "read_u16 (bytes @ rest) 14 = Inr 128" "read_u32 (bytes @ rest) 16 = Inr (mh_dim h)"
    unfolding read_u16_def read_u32_def
    by (rule rd, simp add: header_fields_def, simp, simp add: endian_marker_def dim [simplified])+
  have reads64:
    "read_u64 (bytes @ rest) 24 = Inr (mh_count h)"
    "read_u64 (bytes @ rest) 64 = Inr (mh_refs_offset h)"
    "read_u64 (bytes @ rest) 72 = Inr (mh_refs_len h)"
    "read_u64 (bytes @ rest) 80 = Inr (mh_vectors_offset h)"
    "read_u64 (bytes @ rest) 88 = Inr (mh_vectors_len h)"
    "read_u64 (bytes @ rest) 96 = Inr (mh_metadata_offset h)"
    "read_u64 (bytes @ rest) 104 = Inr (mh_metadata_len h)"
    "read_u64 (bytes @ rest) 112 = Inr (n)"
    by (rule u64, simp add: header_fields_def, simp, simp only: range)+
  have "subslice (bytes @ rest) 0 8 = mmap_dense_magic"
    by (rule fld) (simp_all add: header_fields_def)
  then have magic: "take 8 (bytes @ rest) = mmap_dense_magic"
    by (simp only: subslice_def drop_0 diff_zero)
  have hash_bytes: "subslice (bytes @ rest) 32 64 = mh_source_hash h"
    by (rule fld) (simp_all add: header_fields_def hash)
  have "subslice (bytes @ rest) 20 21 = [encode_distance (mh_distance h)]"
    by (rule fld) (simp_all add: header_fields_def)
  then have dist: "(bytes @ rest) ! 20 = encode_distance (mh_distance h)"
    using nth_slice [of 20 "bytes @ rest"] len by simp
  have zero: "\<not> list_ex (\<lambda>b. b \<noteq> 0) (replicate k (0::word8))" for k by (simp add: list_ex_iff)
  show ?thesis
    using ok range n len encode_header_reserved [OF e hash, of rest]
    by (cases h)
      (simp add: parse_header_def reads reads64 magic hash_bytes dist decode_encode_distance mmap_header_len_def
        mmap_schema_version_def mmap_metadata_ref_len_def checked_mul_def checked_add_def u64_checked_add_def
        header_consistent_def u64_max_def zero del: take_append)
qed

section \<open>A written file opens to what was written\<close>

lemma subslice_mid: "subslice (a @ b @ c) (length a) (length a + length b) = b"
  by (simp add: subslice_def)

lemma read_le_at:
  assumes "drop s data = le_bytes w v @ tl_bytes" "0 < w" "v < 256 ^ w"
  shows "read_le w name data s = Inr v"
proof -
  have "length (drop s data) = w + length tl_bytes" using assms(1) by simp
  then have "s + w \<le> length data" using assms(2) by simp
  moreover have "subslice data s (s + w) = le_bytes w v" using assms(1) by (simp add: subslice_def)
  ultimately show ?thesis using assms(3) by (simp add: read_le_def le_value_bytes)
qed

lemma concat_cut:
  "k < length bs \<Longrightarrow> concat bs = concat (take k bs) @ bs ! k @ concat (drop (Suc k) bs)"
  by (metis Cons_nth_drop_Suc append_take_drop_id concat.simps(2) concat_append)

definition ref_block :: "metadata_ref \<Rightarrow> word8 list" where
  "ref_block r = write_u64 (mr_offset r) @ write_u32 (mr_len r) @ write_u32 0"

definition ref_list :: "word8 list list \<Rightarrow> metadata_ref list" where
  "ref_list blobs =
     map (\<lambda>k. \<lparr> mr_offset = length (concat (take k blobs)), mr_len = length (blobs ! k) \<rparr>) [0 ..< length blobs]"

definition blob_ok :: "(word8 list \<Rightarrow> anyhow + stored_metadata) \<Rightarrow> word8 list \<Rightarrow> bool" where
  "blob_ok from_slice b \<longleftrightarrow>
     b \<noteq> [] \<and> length b \<le> max_metadata_record_bytes \<and> (\<exists>m. from_slice b = Inr m)"

text \<open>The file of a header, vectors and metadata records.\<close>

definition mmap_layout :: "word8 list \<Rightarrow> word8 list \<Rightarrow> word8 list list \<Rightarrow> word8 list" where
  "mmap_layout header vectors blobs =
     header @ concat (map ref_block (ref_list blobs)) @ vectors @ concat blobs"

lemma length_ref_block [simp]: "length (ref_block r) = 16"
  by (simp add: ref_block_def write_u64_def write_u32_def)

lemma length_ref_list [simp]: "length (ref_list blobs) = length blobs"
  by (simp add: ref_list_def)

lemma length_concat_refs [simp]: "length (concat (map ref_block rs)) = 16 * length rs"
  by (induction rs) auto

lemma drop_ref:
  assumes "row < length rs"
  shows "drop (16 * row) (concat (map ref_block rs)) = ref_block (rs ! row) @ concat (map ref_block (drop (Suc row) rs))"
  using concat_cut [of row "map ref_block rs"] assms by (simp add: take_map drop_map)

text \<open>The hypotheses of the next lemmas, as one predicate.\<close>

definition layout_ok ::
  "(word8 list \<Rightarrow> anyhow + stored_metadata) \<Rightarrow> mmap_header \<Rightarrow> word8 list \<Rightarrow> word8 list \<Rightarrow> word8 list list \<Rightarrow> bool" where
  "layout_ok from_slice h header vectors blobs \<longleftrightarrow>
     length header = 128 \<and> header_consistent h (length (mmap_layout header vectors blobs))
     \<and> mh_count h = length blobs \<and> length vectors = mh_vectors_len h
     \<and> list_all (blob_ok from_slice) blobs"

lemma layout_offsets:
  assumes "layout_ok from_slice h header vectors blobs"
  shows "mh_refs_offset h = 128" "mh_vectors_offset h = 128 + 16 * length blobs"
    "mh_metadata_offset h = 128 + 16 * length blobs + length vectors"
    "mh_metadata_len h = length (concat blobs)"
    "128 + 16 * length blobs + length vectors + length (concat blobs) \<le> u64_max"
  using assms by (auto simp: layout_ok_def header_consistent_def mmap_layout_def)

lemma layout_blob:
  assumes "layout_ok from_slice h header vectors blobs" "row < length blobs"
  shows "subslice (mmap_layout header vectors blobs)
      (mh_metadata_offset h + length (concat (take row blobs)))
      (mh_metadata_offset h + length (concat (take row blobs)) + length (blobs ! row)) = blobs ! row"
    and "length (concat (take row blobs)) + length (blobs ! row) = length (concat (take (Suc row) blobs))"
    and "length (concat (take (Suc row) blobs)) \<le> length (concat blobs)"
proof -
  let ?pre = "header @ concat (map ref_block (ref_list blobs)) @ vectors @ concat (take row blobs)"
  have cut: "concat blobs = concat (take row blobs) @ blobs ! row @ concat (drop (Suc row) blobs)"
    by (rule concat_cut [OF assms(2)])
  have "mmap_layout header vectors blobs = ?pre @ blobs ! row @ concat (drop (Suc row) blobs)"
    by (simp add: mmap_layout_def) (metis cut)
  moreover have "length ?pre = mh_metadata_offset h + length (concat (take row blobs))"
    using assms(1) layout_offsets [OF assms(1)] by (simp add: layout_ok_def)
  ultimately show "subslice (mmap_layout header vectors blobs)
      (mh_metadata_offset h + length (concat (take row blobs)))
      (mh_metadata_offset h + length (concat (take row blobs)) + length (blobs ! row)) = blobs ! row"
    by (metis subslice_mid)
  show "length (concat (take row blobs)) + length (blobs ! row) = length (concat (take (Suc row) blobs))"
    using assms(2) by (simp add: take_Suc_conv_app_nth)
  show "length (concat (take (Suc row) blobs)) \<le> length (concat blobs)"
    by (metis append_take_drop_id concat_append le_add1 length_append)
qed

lemma parse_ref_layout:
  assumes lay: "layout_ok from_slice h header vectors blobs" and row: "row < length blobs"
  shows "parse_ref from_slice (mmap_layout header vectors blobs) h path
      (take row (ref_list blobs), length (concat (take row blobs))) row
    = Inr (take (Suc row) (ref_list blobs), length (concat (take (Suc row) blobs)))"
proof -
  let ?data = "mmap_layout header vectors blobs" and ?r = "ref_list blobs ! row"
  note off = layout_offsets [OF lay] and blob = layout_blob [OF lay row]
  have r: "?r = \<lparr> mr_offset = length (concat (take row blobs)), mr_len = length (blobs ! row) \<rparr>"
    using row by (simp add: ref_list_def)
  have len: "length header = 128" using lay by (simp add: layout_ok_def)
  obtain tl_bytes where tl_bytes: "drop (128 + 16 * row) ?data
      = le_bytes 8 (mr_offset ?r) @ le_bytes 4 (mr_len ?r) @ le_bytes 4 0 @ tl_bytes"
    using drop_ref [of row "ref_list blobs"] row len
    by (auto simp: mmap_layout_def ref_block_def write_u64_def write_u32_def)
  have d8: "drop (128 + 16 * row + 8) ?data = le_bytes 4 (mr_len ?r) @ le_bytes 4 0 @ tl_bytes"
    using arg_cong [OF tl_bytes, of "drop 8"] by (simp add: add.commute)
  have d12: "drop (128 + 16 * row + 12) ?data = le_bytes 4 0 @ tl_bytes"
    using arg_cong [OF d8, of "drop 4"] by (simp add: add.commute)
  have ok: "blob_ok from_slice (blobs ! row)" using lay row by (simp add: layout_ok_def list_all_length)
  have reads: "read_u64 ?data (128 + 16 * row) = Inr (mr_offset ?r)"
    "read_u32 ?data (128 + 16 * row + 8) = Inr (mr_len ?r)"
    "read_u32 ?data (128 + 16 * row + 12) = Inr 0"
    unfolding read_u64_def read_u32_def
      by (rule read_le_at [OF tl_bytes], simp, use off(5) blob in \<open>simp add: r u64_max_def\<close>)
         (rule read_le_at [OF d8], simp, use ok in \<open>simp add: r blob_ok_def max_metadata_record_bytes_def\<close>,
          rule read_le_at [OF d12], simp, simp)
  obtain m where m: "from_slice (blobs ! row) = Inr m" using ok by (auto simp: blob_ok_def)
  have "take (Suc row) (ref_list blobs) = take row (ref_list blobs) @ [?r]"
    using row by (simp add: take_Suc_conv_app_nth)
  then show ?thesis
    using off blob row ok reads m r
    by (simp add: parse_ref_def mmap_metadata_ref_len_def checked_mul_def checked_add_def u64_checked_add_def
        blob_ok_def mult.commute)
qed

lemma parse_refs_layout:
  assumes lay: "layout_ok from_slice h header vectors blobs"
  shows "parse_and_validate_refs from_slice (mmap_layout header vectors blobs) h path = Inr (ref_list blobs)"
proof -
  have "k \<le> length blobs \<Longrightarrow>
      fold_res (parse_ref from_slice (mmap_layout header vectors blobs) h path) ([], 0) [0 ..< k]
      = Inr (take k (ref_list blobs), length (concat (take k blobs)))" for k
    by (induction k) (simp_all add: parse_ref_layout [OF lay])
  from this [of "length blobs"] show ?thesis
    using lay layout_offsets(4) [OF lay]
    by (simp add: parse_and_validate_refs_def layout_ok_def)
qed

section \<open>The files build and insert write\<close>

definition vectors_of :: "dense_chunk_ref list \<Rightarrow> word8 list" where
  "vectors_of chunks = concat (map (\<lambda>c. concat (map f32_to_le_bytes (dc_embedding c))) chunks)"

definition layout_header :: "usize \<Rightarrow> distance \<Rightarrow> word8 list \<Rightarrow> word8 list list \<Rightarrow> mmap_header" where
  "layout_header dim d hash blobs =
     \<lparr> mh_dim = dim, mh_distance = d, mh_count = length blobs, mh_source_hash = hash,
       mh_refs_offset = 128, mh_refs_len = length blobs * 16,
       mh_vectors_offset = 128 + length blobs * 16, mh_vectors_len = length blobs * dim * 4,
       mh_metadata_offset = 128 + length blobs * 16 + length blobs * dim * 4,
       mh_metadata_len = length (concat blobs) \<rparr>"

definition layout_size :: "usize \<Rightarrow> word8 list list \<Rightarrow> nat" where
  "layout_size dim blobs = 128 + length blobs * 16 + length blobs * dim * 4 + length (concat blobs)"

text \<open>The file of a list of chunks: the abstract content of an index, laid out.\<close>

definition chunk_file ::
  "(stored_metadata \<Rightarrow> anyhow + word8 list) \<Rightarrow> usize \<Rightarrow> distance \<Rightarrow> word8 list \<Rightarrow> dense_chunk_ref list
   \<Rightarrow> word8 list list \<Rightarrow> word8 list \<Rightarrow> bool" where
  "chunk_file to_vec dim d hash chunks blobs bytes \<longleftrightarrow>
     dim \<noteq> 0 \<and> list_all2 (\<lambda>c b. chunk_blob ''build'' to_vec dim c = Inr b) chunks blobs
     \<and> layout_size dim blobs \<le> u64_max
     \<and> (\<exists>header. encode_header (layout_header dim d hash blobs) (layout_size dim blobs) = Inr header
          \<and> bytes = mmap_layout header (vectors_of chunks) blobs)"

lemma chunk_blob_ok:
  "chunk_blob verb to_vec dim c = Inr b \<longleftrightarrow>
     length (dc_embedding c) = dim \<and> list_all f32_is_finite (dc_embedding c)
     \<and> to_vec (stored_of c) = Inr b \<and> b \<noteq> [] \<and> length b \<le> max_metadata_record_bytes"
  by (auto simp: chunk_blob_def Let_def res_simps list_all_iff list_ex_iff)

lemma chunk_blobs_bounded:
  "list_all2 (\<lambda>c b. chunk_blob verb to_vec dim c = Inr b) chunks blobs \<Longrightarrow>
     list_all (\<lambda>b. b \<noteq> [] \<and> length b \<le> max_metadata_record_bytes) blobs"
  by (induction rule: list_all2_induct) (auto simp: chunk_blob_ok)

lemma checked_add_ok [res_simps]: "checked_add a b l = Inr n \<longleftrightarrow> n = a + b \<and> n \<le> u64_max"
  by (auto simp: checked_add_def u64_checked_add_def)

lemma checked_mul_ok [res_simps]: "checked_mul a b l = Inr n \<longleftrightarrow> n = a * b \<and> n \<le> u64_max"
  by (auto simp: checked_mul_def)

lemma ref_bytes_ok: "ref_bytes off n = Inr bs \<longleftrightarrow> n < 2 ^ 32 \<and> bs = ref_block \<lparr> mr_offset = off, mr_len = n \<rparr>"
  by (auto simp: ref_bytes_def usize_to_u32_def ref_block_def)

lemma ref_list_snoc:
  "ref_list (bs @ [b]) = ref_list bs @ [\<lparr> mr_offset = length (concat bs), mr_len = length b \<rparr>]"
  by (auto simp: ref_list_def nth_append)

lemma blobs_fold:
  "fold_res (\<lambda>(blobs, n) c.
       bind_res (chunk_blob verb to_vec dim c) (\<lambda>blob.
       bind_res (checked_add n (length blob) l) (\<lambda>n. Inr (blobs @ [blob], n)))) (bs, m) chunks = Inr (bs', m') \<longleftrightarrow>
   (\<exists>blobs. list_all2 (\<lambda>c b. chunk_blob verb to_vec dim c = Inr b) chunks blobs \<and> bs' = bs @ blobs
      \<and> m' = m + length (concat blobs) \<and> (chunks = [] \<or> m' \<le> u64_max))"
proof (induction chunks arbitrary: bs m)
  case (Cons c chunks)
  show ?case by (force simp: res_simps Cons.IH list_all2_Cons1)
qed auto

lemma refs_fold:
  "list_all (\<lambda>b. length b < 2 ^ 32) blobs \<Longrightarrow>
   fold_res (\<lambda>(out, cursor) blob. bind_res (ref_bytes cursor (length blob)) (\<lambda>r. Inr (out @ r, cursor + length blob)))
     (out, 0) blobs = Inr (out @ concat (map ref_block (ref_list blobs)), length (concat blobs))"
proof (induction blobs rule: rev_induct)
  case Nil
  then show ?case by (simp add: ref_list_def)
next
  case (snoc b blobs)
  have "ref_bytes (length (concat blobs)) (length b)
      = Inr (ref_block \<lparr> mr_offset = length (concat blobs), mr_len = length b \<rparr>)"
    using snoc.prems by (simp add: ref_bytes_ok)
  with snoc show ?case by (simp add: ref_list_snoc)
qed

lemma refs_copy_fold:
  "list_all (\<lambda>r. mr_len r < 2 ^ 32) rs \<Longrightarrow>
   fold_res (\<lambda>out r. bind_res (ref_bytes (mr_offset r) (mr_len r)) (\<lambda>b. Inr (out @ b))) out rs
     = Inr (out @ concat (map ref_block rs))"
proof (induction rs arbitrary: out)
  case (Cons r rs)
  then have "ref_bytes (mr_offset r) (mr_len r) = Inr (ref_block r)"
    by (cases r) (simp add: ref_bytes_ok)
  with Cons show ?case by simp
qed simp

lemma blobs_short: "list_all (\<lambda>b. b \<noteq> [] \<and> length b \<le> max_metadata_record_bytes) blobs \<Longrightarrow>
    list_all (\<lambda>b. length b < 2 ^ 32) blobs"
  by (auto simp: list_all_iff max_metadata_record_bytes_def)

text \<open>A build succeeds exactly when the chunks lay out, and writes that layout.\<close>

lemma write_chunks_ok:
  "write_chunks to_vec a chunks = Inr bytes \<longleftrightarrow>
     (\<exists>blobs. chunk_file to_vec (mh_dim (md_header a)) (mh_distance (md_header a))
        (mh_source_hash (md_header a)) chunks blobs bytes)"
proof -
  have eq: "write_chunks to_vec a chunks = Inr bytes \<longleftrightarrow>
    mh_dim (md_header a) \<noteq> 0 \<and> (\<exists>blobs.
      list_all2 (\<lambda>c b. chunk_blob ''build'' to_vec (mh_dim (md_header a)) c = Inr b) chunks blobs
      \<and> layout_size (mh_dim (md_header a)) blobs \<le> u64_max
      \<and> (\<exists>header. encode_header (layout_header (mh_dim (md_header a)) (mh_distance (md_header a))
            (mh_source_hash (md_header a)) blobs) (layout_size (mh_dim (md_header a)) blobs) = Inr header
          \<and> (\<exists>out cursor. fold_res (\<lambda>(out, cursor) blob. bind_res (ref_bytes cursor (length blob))
                (\<lambda>r. Inr (out @ r, cursor + length blob))) (header, 0) blobs = Inr (out, cursor)
              \<and> bytes = out @ vectors_of chunks @ concat blobs)))"
    unfolding write_chunks_def Let_def vectors_of_def
    by (auto simp: res_simps blobs_fold layout_header_def layout_size_def mmap_header_len_def
        mmap_metadata_ref_len_def list_all2_lengthD algebra_simps)
  show ?thesis
    unfolding eq chunk_file_def mmap_layout_def
    using refs_fold [OF blobs_short [OF chunk_blobs_bounded]] by (auto; fastforce)
qed

section \<open>The list of chunks an index holds\<close>

text \<open>
  The abstraction relation: the mapped file is the layout of the chunks, the header and the
  references in memory are those of the layout.
\<close>

definition mmap_holds ::
  "(stored_metadata \<Rightarrow> anyhow + word8 list) \<Rightarrow> mmap_dense \<Rightarrow> usize \<Rightarrow> distance \<Rightarrow> word8 list
   \<Rightarrow> dense_chunk_ref list \<Rightarrow> bool" where
  "mmap_holds to_vec a dim d hash chunks \<longleftrightarrow>
     (\<exists>blobs. chunk_file to_vec dim d hash chunks blobs (md_data a)
        \<and> md_header a = layout_header dim d hash blobs \<and> md_refs a = ref_list blobs)"

text \<open>The serializer's law: metadata is read back as it was written.\<close>

definition serializer_ok ::
  "(stored_metadata \<Rightarrow> anyhow + word8 list) \<Rightarrow> (word8 list \<Rightarrow> anyhow + stored_metadata) \<Rightarrow> bool" where
  "serializer_ok to_vec from_slice \<longleftrightarrow> (\<forall>m b. to_vec m = Inr b \<longrightarrow> from_slice b = Inr m)"

lemma length_vectors_of:
  "list_all2 (\<lambda>c b. chunk_blob verb to_vec dim c = Inr b) chunks blobs \<Longrightarrow>
     length (vectors_of chunks) = length blobs * dim * 4"
proof (induction rule: list_all2_induct)
  case (Cons c chunks b blobs)
  have "length (concat (map f32_to_le_bytes xs)) = 4 * length xs" for xs
    by (induction xs) (auto simp: f32_to_le_bytes_def)
  with Cons show ?case by (simp add: vectors_of_def chunk_blob_ok algebra_simps)
qed (simp add: vectors_of_def)

lemma chunk_file_layout:
  assumes cf: "chunk_file to_vec dim d hash chunks blobs bytes"
    and hash: "length hash = 32" and ser: "serializer_ok to_vec from_slice"
  obtains header where "layout_ok from_slice (layout_header dim d hash blobs) header (vectors_of chunks) blobs"
    and "encode_header (layout_header dim d hash blobs) (length bytes) = Inr header"
    and "bytes = mmap_layout header (vectors_of chunks) blobs"
proof -
  from cf obtain header where
    enc: "encode_header (layout_header dim d hash blobs) (layout_size dim blobs) = Inr header"
    and bytes: "bytes = mmap_layout header (vectors_of chunks) blobs"
    and rel: "list_all2 (\<lambda>c b. chunk_blob ''build'' to_vec dim c = Inr b) chunks blobs"
    and size: "layout_size dim blobs \<le> u64_max" and dim: "dim \<noteq> 0"
    by (auto simp: chunk_file_def)
  have "length header = 128" using encode_header_length [OF enc] hash by (simp add: layout_header_def)
  then have n: "length bytes = layout_size dim blobs"
    using length_vectors_of [OF rel] by (simp add: bytes mmap_layout_def layout_size_def)
  have "list_all (blob_ok from_slice) blobs"
    using rel ser by (induction rule: list_all2_induct) (auto simp: chunk_blob_ok blob_ok_def serializer_ok_def)
  then have "layout_ok from_slice (layout_header dim d hash blobs) header (vectors_of chunks) blobs"
    using \<open>length header = 128\<close> n size dim hash length_vectors_of [OF rel]
    by (simp add: layout_ok_def header_consistent_def layout_header_def layout_size_def flip: bytes)
  then show ?thesis using that enc n bytes by simp
qed

text \<open>Opening the file of a list of chunks gives an index that holds them.\<close>

lemma open_chunk_file:
  assumes cf: "chunk_file to_vec dim d hash chunks blobs bytes"
    and hash: "length hash = 32" and ser: "serializer_ok to_vec from_slice"
  shows "\<exists>a. mmap_open from_slice bytes path dim d (Some hash) = Inr a
    \<and> mmap_holds to_vec a dim d hash chunks \<and> md_data a = bytes \<and> md_path a = path"
proof -
  obtain header where lay: "layout_ok from_slice (layout_header dim d hash blobs) header (vectors_of chunks) blobs"
    and enc: "encode_header (layout_header dim d hash blobs) (length bytes) = Inr header"
    and bytes: "bytes = mmap_layout header (vectors_of chunks) blobs"
    by (rule chunk_file_layout [OF cf hash ser])
  obtain rest where rest: "bytes = header @ rest" by (auto simp: bytes mmap_layout_def)
  have "header_consistent (layout_header dim d hash blobs) (length bytes)"
    using lay by (simp add: layout_ok_def bytes)
  moreover have "length bytes = 128 + length rest" using lay by (simp add: layout_ok_def rest)
  ultimately have "parse_header bytes path = Inr (layout_header dim d hash blobs)"
    using parse_header_encoded [OF enc, of rest path] by (simp add: rest)
  then show ?thesis
    using parse_refs_layout [OF lay, of path] cf
    by (simp add: mmap_open_def layout_header_def mmap_holds_def bytes [symmetric]) (auto simp: bytes)
qed

text \<open>
  Appending a chunk writes, byte for byte, the file that building from all chunks would write.
\<close>

lemma subslice_region: "length pre = a \<Longrightarrow> length mid = n \<Longrightarrow> subslice (pre @ mid @ post) a (a + n) = mid"
  using subslice_mid by fastforce

lemma append_bytes_chunk_file:
  assumes holds: "mmap_holds to_vec a dim d hash chunks" and hash: "length hash = 32"
    and ser: "serializer_ok to_vec from_slice"
    and app: "append_bytes to_vec a c = Inr (h', bytes')"
  shows "\<exists>blobs'. chunk_file to_vec dim d hash (chunks @ [c]) blobs' bytes' \<and> h' = layout_header dim d hash blobs'"
proof -
  from holds obtain blobs where cf: "chunk_file to_vec dim d hash chunks blobs (md_data a)"
    and h: "md_header a = layout_header dim d hash blobs" and refs: "md_refs a = ref_list blobs"
    by (auto simp: mmap_holds_def)
  obtain header where lay: "layout_ok from_slice (layout_header dim d hash blobs) header (vectors_of chunks) blobs"
    and bytes: "md_data a = mmap_layout header (vectors_of chunks) blobs"
    by (rule chunk_file_layout [OF cf hash ser])
  have rel: "list_all2 (\<lambda>c b. chunk_blob ''build'' to_vec dim c = Inr b) chunks blobs" and "dim \<noteq> 0"
    using cf by (auto simp: chunk_file_def)
  note off = layout_offsets [OF lay]
  have len: "length header = 128" using lay by (simp add: layout_ok_def)
  have old_vectors: "subslice (md_data a) (mh_vectors_offset (md_header a))
      (mh_vectors_offset (md_header a) + mh_vectors_len (md_header a)) = vectors_of chunks"
    using subslice_region [of "header @ concat (map ref_block (ref_list blobs))" "mh_vectors_offset (md_header a)"
      "vectors_of chunks" "mh_vectors_len (md_header a)" "concat blobs"] off len lay
    by (simp add: bytes mmap_layout_def h layout_ok_def)
  have old_metadata: "subslice (md_data a) (mh_metadata_offset (md_header a))
      (mh_metadata_offset (md_header a) + mh_metadata_len (md_header a)) = concat blobs"
    using subslice_region [of "header @ concat (map ref_block (ref_list blobs)) @ vectors_of chunks"
      "mh_metadata_offset (md_header a)" "concat blobs" "mh_metadata_len (md_header a)" "[]"] off len lay
    by (simp add: bytes mmap_layout_def h layout_ok_def)
  have "list_all (\<lambda>r. mr_len r < 2 ^ 32) (ref_list blobs)"
    using blobs_short [OF chunk_blobs_bounded [OF rel]] by (auto simp: ref_list_def list_all_length)
  note copy = refs_copy_fold [OF this]
  from app obtain b header' where b: "chunk_blob ''insert'' to_vec dim c = Inr b"
    and size: "layout_size dim (blobs @ [b]) \<le> u64_max"
    and enc: "encode_header (layout_header dim d hash (blobs @ [b])) (layout_size dim (blobs @ [b])) = Inr header'"
    and h': "h' = layout_header dim d hash (blobs @ [b])"
    and bytes': "bytes' = header' @ concat (map ref_block (ref_list blobs))
      @ ref_block \<lparr> mr_offset = length (concat blobs), mr_len = length b \<rparr>
      @ vectors_of chunks @ concat (map f32_to_le_bytes (dc_embedding c)) @ concat blobs @ b"
    using old_vectors old_metadata copy off
    by (auto simp: append_bytes_def Let_def res_simps refs h layout_header_def layout_size_def
        mmap_header_len_def mmap_metadata_ref_len_def ref_bytes_ok algebra_simps)
  have "chunk_blob ''build'' to_vec dim c = Inr b" using b by (simp add: chunk_blob_ok)
  then have "list_all2 (\<lambda>c b. chunk_blob ''build'' to_vec dim c = Inr b) (chunks @ [c]) (blobs @ [b])"
    using rel by (simp add: list_all2_appendI)
  then have "chunk_file to_vec dim d hash (chunks @ [c]) (blobs @ [b]) bytes'"
    unfolding chunk_file_def using \<open>dim \<noteq> 0\<close> size enc
    by (auto simp: bytes' mmap_layout_def ref_list_snoc vectors_of_def)
  with h' show ?thesis by blast
qed

section \<open>Queries over the chunks\<close>

text \<open>The query on the list of chunks itself: no file, no bytes, no heap.\<close>

definition chunk_candidate :: "distance \<Rightarrow> dense_chunk_ref list \<Rightarrow> f32 list \<Rightarrow> filter_set \<Rightarrow> usize \<Rightarrow> anyhow + candidate option" where
  "chunk_candidate d chunks query filters row =
     (if filters = [] \<or> metadata_matches (ck_metadata (dc_chunk (chunks ! row))) filters
      then (let score = row_score d (dc_embedding (chunks ! row)) query (norm_sq query) in
            if f32_is_finite score then Inr (Some (Candidate score row))
            else Inl (Message (''non-finite mmap dense score for row '' @ show_nat row)))
      else Inr None)"

definition chunk_hit :: "dense_chunk_ref list \<Rightarrow> candidate \<Rightarrow> hit" where
  "chunk_hit chunks c =
     (let chunk = dc_chunk (chunks ! ca_row c) in
      \<lparr> hit_chunk_id = ck_id chunk, hit_score = ca_score c, hit_rank = 0,
        hit_source = mmap_dense_kind, hit_metadata = ck_metadata chunk \<rparr>)"

definition chunk_ranking ::
  "distance \<Rightarrow> dense_chunk_ref list \<Rightarrow> f32 list \<Rightarrow> filter_set \<Rightarrow> anyhow + hit list" where
  "chunk_ranking d chunks query filters =
     bind_res (map_res (chunk_candidate d chunks query filters) [0 ..< length chunks]) (\<lambda>cs.
       Inr (rerank (map (chunk_hit chunks) (sort (List.map_filter id cs)))))"

lemma map_res_cong: "(\<And>x. x \<in> set xs \<Longrightarrow> f x = g x) \<Longrightarrow> map_res f xs = map_res g xs"
  by (induction xs) auto

lemma map_res_elems: "map_res f xs = Inr ys \<Longrightarrow> y \<in> set ys \<Longrightarrow> \<exists>x \<in> set xs. f x = Inr y"
  by (induction xs arbitrary: ys) (auto simp: res_simps)

lemma set_map_filter_id: "x \<in> set (List.map_filter id cs) \<longleftrightarrow> Some x \<in> set cs"
  by (induction cs) (auto simp: List.map_filter_def)

lemma take_rerank_from: "take n (rerank_from k hs) = rerank_from k (take n hs)"
  by (induction hs arbitrary: n k) (auto simp: take_Cons')

lemma chunks4_floats:
  "map f32_from_le_bytes (chunks4 (concat (map f32_to_le_bytes xs))) = xs" if "list_all f32_wf xs"
  using that
proof (induction xs)
  case (Cons x xs)
  have "f32_from_le_bytes (f32_to_le_bytes x) = x"
    using Cons.prems f32_to_bits_less [of x] f32_bits_roundtrip [of x]
    by (simp add: f32_from_le_bytes_def f32_to_le_bytes_def le_value_bytes)
  moreover have "length (f32_to_le_bytes x) = 4" by (simp add: f32_to_le_bytes_def)
  then obtain p q r s where "f32_to_le_bytes x = [p, q, r, s]"
    by (auto simp: numeral_eq_Suc length_Suc_conv)
  then have "chunks4 (f32_to_le_bytes x @ bs) = f32_to_le_bytes x # chunks4 bs" for bs
    by simp
  ultimately show ?case using Cons by simp
qed simp

lemma length_floats [simp]: "length (concat (map f32_to_le_bytes xs)) = 4 * length xs"
  by (induction xs) (auto simp: f32_to_le_bytes_def)

text \<open>The bytes of one row's vector.\<close>

lemma vectors_cut:
  assumes "list_all (\<lambda>c. length (dc_embedding c) = dim) chunks" "row < length chunks"
  shows "\<exists>pre post. vectors_of chunks = pre @ concat (map f32_to_le_bytes (dc_embedding (chunks ! row))) @ post
    \<and> length pre = row * (dim * 4)"
proof -
  have len: "length (vectors_of cs) = length cs * (dim * 4)"
    if "list_all (\<lambda>c. length (dc_embedding c) = dim) cs" for cs
    using that by (induction cs) (auto simp: vectors_of_def)
  have "list_all (\<lambda>c. length (dc_embedding c) = dim) (take row chunks)"
    using assms(1) by (metis append_take_drop_id list_all_append)
  then have "length (vectors_of (take row chunks)) = row * (dim * 4)"
    using len assms(2) by simp
  moreover have "vectors_of chunks = vectors_of (take row chunks)
      @ concat (map f32_to_le_bytes (dc_embedding (chunks ! row))) @ vectors_of (drop (Suc row) chunks)"
    using concat_cut [of row "map (\<lambda>c. concat (map f32_to_le_bytes (dc_embedding c))) chunks"] assms(2)
    by (simp add: vectors_of_def take_map drop_map)
  ultimately show ?thesis by blast
qed

text \<open>What a held index reads back for each row.\<close>

lemma held_row:
  assumes holds: "mmap_holds to_vec a dim d hash chunks" and hash: "length hash = 32"
    and ser: "serializer_ok to_vec from_slice" and row: "row < length chunks"
    and wf: "list_all f32_wf (dc_embedding (chunks ! row))"
  shows "mmap_metadata from_slice a row = Inr (stored_of (chunks ! row))"
    and "vector_score a row q n =
      (let score = row_score d (dc_embedding (chunks ! row)) q n in
       if f32_is_finite score then Inr score
       else Inl (Message (''non-finite mmap dense score for row '' @ show_nat row)))"
proof -
  from holds obtain blobs where cf: "chunk_file to_vec dim d hash chunks blobs (md_data a)"
    and h: "md_header a = layout_header dim d hash blobs" and refs: "md_refs a = ref_list blobs"
    by (auto simp: mmap_holds_def)
  obtain header where lay: "layout_ok from_slice (layout_header dim d hash blobs) header (vectors_of chunks) blobs"
    and bytes: "md_data a = mmap_layout header (vectors_of chunks) blobs"
    by (rule chunk_file_layout [OF cf hash ser])
  have rel: "list_all2 (\<lambda>c b. chunk_blob ''build'' to_vec dim c = Inr b) chunks blobs"
    using cf by (auto simp: chunk_file_def)
  then have n: "length blobs = length chunks" by (simp add: list_all2_lengthD)
  with row have row': "row < length blobs" by simp
  have blob: "chunk_blob ''build'' to_vec dim (chunks ! row) = Inr (blobs ! row)"
    using list_all2_nthD [OF rel row] .
  note off = layout_offsets [OF lay] and lb = layout_blob [OF lay row']
  have ref: "ref_list blobs ! row = \<lparr> mr_offset = length (concat (take row blobs)), mr_len = length (blobs ! row) \<rparr>"
    using row' by (simp add: ref_list_def)
  have "metadata_slice a row = Inr (blobs ! row)"
    using row' lb off by (simp add: metadata_slice_def refs ref h bytes checked_add_def u64_checked_add_def)
  moreover have "from_slice (blobs ! row) = Inr (stored_of (chunks ! row))"
    using blob ser by (auto simp: chunk_blob_ok serializer_ok_def)
  ultimately show "mmap_metadata from_slice a row = Inr (stored_of (chunks ! row))"
    by (simp add: mmap_metadata_def)
  have dims: "list_all (\<lambda>c. length (dc_embedding c) = dim) chunks"
    using rel by (induction rule: list_all2_induct) (auto simp: chunk_blob_ok)
  obtain pre post where vec: "vectors_of chunks = pre @ concat (map f32_to_le_bytes (dc_embedding (chunks ! row))) @ post"
    and pre: "length pre = row * (dim * 4)"
    using vectors_cut [OF dims row] by blast
  have dim: "length (dc_embedding (chunks ! row)) = dim" using blob by (simp add: chunk_blob_ok)
  have "subslice (md_data a) (mh_vectors_offset (md_header a) + row * (dim * 4))
      (mh_vectors_offset (md_header a) + row * (dim * 4) + dim * 4)
    = concat (map f32_to_le_bytes (dc_embedding (chunks ! row)))"
    unfolding bytes mmap_layout_def vec
    using subslice_region [of "header @ concat (map ref_block (ref_list blobs)) @ pre"
        "mh_vectors_offset (md_header a) + row * (dim * 4)"
        "concat (map f32_to_le_bytes (dc_embedding (chunks ! row)))" "dim * 4" "post @ concat blobs"]
      off lay pre dim by (simp add: h layout_ok_def)
  moreover have "row * (dim * 4) + dim * 4 \<le> length (vectors_of chunks)"
    using vec pre dim by simp
  then have "128 + 16 * length blobs + (row * (dim * 4) + dim * 4) \<le> u64_max"
    using off(5) by linarith
  moreover have "\<not> list_ex (\<lambda>c. \<not> f32_is_finite c) (dc_embedding (chunks ! row))"
    using blob by (simp add: chunk_blob_ok list_all_iff list_ex_iff)
  ultimately show "vector_score a row q n =
      (let score = row_score d (dc_embedding (chunks ! row)) q n in
       if f32_is_finite score then Inr score
       else Inl (Message (''non-finite mmap dense score for row '' @ show_nat row)))"
    using chunks4_floats [OF wf]
    by (simp add: vector_score_def h layout_header_def checked_add_def u64_checked_add_def checked_mul_def
        add.assoc Let_def mult.commute)
qed

text \<open>The filter projection reads the metadata of a record that the full reader accepts.\<close>

definition filter_reader_ok ::
  "(word8 list \<Rightarrow> anyhow + stored_metadata) \<Rightarrow> (word8 list \<Rightarrow> anyhow + json) \<Rightarrow> bool" where
  "filter_reader_ok from_slice filter_of \<longleftrightarrow> (\<forall>b m. from_slice b = Inr m \<longrightarrow> filter_of b = Inr (sm_metadata m))"

definition embeddings_wf :: "dense_chunk_ref list \<Rightarrow> bool" where
  "embeddings_wf chunks \<longleftrightarrow> list_all (\<lambda>c. list_all f32_wf (dc_embedding c)) chunks"

lemma mmap_hits_held:
  assumes "\<And>c. c \<in> set cs \<Longrightarrow> mmap_metadata from_slice a (ca_row c) = Inr (stored_of (chunks ! ca_row c))"
  shows "mmap_hits from_slice a rank cs = Inr (rerank_from rank (map (chunk_hit chunks) cs))"
  using assms
proof (induction cs arbitrary: rank)
  case (Cons c cs)
  then show ?case by (simp add: chunk_hit_def stored_of_def Let_def)
qed simp

lemma held_metadata:
  assumes "mmap_metadata from_slice a row = Inr m" and "filter_reader_ok from_slice filter_of"
  shows "metadata_filter_value filter_of a row = Inr (sm_metadata m)"
  using assms by (auto simp: mmap_metadata_def metadata_filter_value_def filter_reader_ok_def res_simps)

lemma mmap_holds_header:
  "mmap_holds to_vec a dim d hash chunks \<Longrightarrow>
     mh_dim (md_header a) = dim \<and> mh_distance (md_header a) = d \<and> mh_source_hash (md_header a) = hash
     \<and> mh_count (md_header a) = length chunks"
  by (auto simp: mmap_holds_def chunk_file_def layout_header_def list_all2_lengthD)

lemma held_query:
  assumes holds: "mmap_holds to_vec a dim d hash chunks" and hash: "length hash = 32"
    and ser: "serializer_ok to_vec from_slice" and filt: "filter_reader_ok from_slice filter_of"
    and wf: "embeddings_wf chunks"
    and q: "length embedding = dim" "list_all f32_is_finite embedding"
  shows "snd (mmap_query from_slice filter_of a embedding limit filters) =
    (if limit = 0 then Inr []
     else bind_res (chunk_ranking d chunks embedding filters) (\<lambda>ranking. Inr (take limit ranking)))"
proof -
  note row = held_row [OF holds hash ser]
  have wf_row: "list_all f32_wf (dc_embedding (chunks ! row))" if "row < length chunks" for row
    using wf that by (simp add: embeddings_wf_def list_all_length)
  have cand: "row_candidate filter_of a embedding filters row = chunk_candidate d chunks embedding filters row"
    if "row < length chunks" for row
    using held_metadata [OF row(1) filt, OF that wf_row [OF that]] row(2) [OF that wf_row [OF that]]
    by (simp add: row_candidate_def chunk_candidate_def stored_of_def Let_def)
  have rows: "map_res (row_candidate filter_of a embedding filters) [0 ..< length chunks]
      = map_res (chunk_candidate d chunks embedding filters) [0 ..< length chunks]"
    by (rule map_res_cong) (simp add: cand)
  have hits: "mmap_hits from_slice a 0 (take limit (sort (List.map_filter id cs)))
      = Inr (take limit (rerank (map (chunk_hit chunks) (sort (List.map_filter id cs)))))"
    if cs: "map_res (chunk_candidate d chunks embedding filters) [0 ..< length chunks] = Inr cs" for cs
  proof -
    have "ca_row c < length chunks" if "Some c \<in> set cs" for c
      using map_res_elems [OF cs that] by (auto simp: chunk_candidate_def Let_def split: if_splits)
    then have "mmap_metadata from_slice a (ca_row c) = Inr (stored_of (chunks ! ca_row c))"
      if "c \<in> set (take limit (sort (List.map_filter id cs)))" for c
      using row(1) wf_row in_set_takeD [OF that] by (simp add: set_map_filter_id)
    from mmap_hits_held [OF this] show ?thesis
      by (simp add: rerank_def take_rerank_from take_map)
  qed
  have "\<not> list_ex (\<lambda>v. \<not> f32_is_finite v) embedding" using q(2) by (simp add: list_all_iff list_ex_iff)
  then show ?thesis
    using mmap_holds_header [OF holds] q(1) hits
    by (auto simp: mmap_query_exact mmap_query_reference_def chunk_ranking_def rows bind_res_def split: sum.splits)
qed

text \<open>
  C25: a query of the mapped file is the query of the list of chunks it holds: the same candidates,
  filters, scores, order, cut and errors, with nothing left of bytes, offsets, references or the
  heap.
\<close>

theorem mmap_query_refines:
  assumes holds: "mmap_holds to_vec a dim d hash chunks" and hash: "length hash = 32"
    and ser: "serializer_ok to_vec from_slice" and filt: "filter_reader_ok from_slice filter_of"
    and wf: "embeddings_wf chunks"
    and q: "length embedding = dim" "list_all f32_is_finite embedding"
  shows "snd (mmap_query from_slice filter_of a embedding limit filters) =
    (if limit = 0 then Inr []
     else bind_res (chunk_ranking d chunks embedding filters) (\<lambda>ranking. Inr (take limit ranking)))"
  by (rule held_query [OF assms])

text \<open>
  Building an index succeeds exactly when the chunks can be laid out, and then the index holds
  exactly those chunks; when it fails the index is left empty.
\<close>

theorem mmap_build_holds:
  assumes hash: "length (mh_source_hash (md_header a)) = 32" and ser: "serializer_ok to_vec from_slice"
  shows "(if \<exists>blobs bytes. chunk_file to_vec (mh_dim (md_header a)) (mh_distance (md_header a))
              (mh_source_hash (md_header a)) chunks blobs bytes
     then snd (mmap_build from_slice to_vec a chunks) = Inr ()
       \<and> mmap_holds to_vec (fst (mmap_build from_slice to_vec a chunks)) (mh_dim (md_header a))
           (mh_distance (md_header a)) (mh_source_hash (md_header a)) chunks
     else snd (mmap_build from_slice to_vec a chunks) \<noteq> Inr ()
       \<and> mmap_count (fst (mmap_build from_slice to_vec a chunks)) = 0
       \<and> md_data (fst (mmap_build from_slice to_vec a chunks)) = [])"
proof (cases "\<exists>blobs bytes. chunk_file to_vec (mh_dim (md_header a)) (mh_distance (md_header a))
    (mh_source_hash (md_header a)) chunks blobs bytes")
  case True
  let ?a = "a\<lparr>md_data := [], md_refs := [], md_header := (md_header a)\<lparr>mh_count := 0\<rparr>\<rparr>"
  from True obtain blobs bytes where cf: "chunk_file to_vec (mh_dim (md_header a)) (mh_distance (md_header a))
    (mh_source_hash (md_header a)) chunks blobs bytes" by blast
  then have "write_chunks to_vec ?a chunks = Inr bytes" by (auto simp: write_chunks_ok)
  with True open_chunk_file [OF cf hash ser, of "md_path a"] show ?thesis
    by (auto simp: mmap_build_def Let_def)
next
  case False
  let ?a = "a\<lparr>md_data := [], md_refs := [], md_header := (md_header a)\<lparr>mh_count := 0\<rparr>\<rparr>"
  have "\<nexists>bytes. write_chunks to_vec ?a chunks = Inr bytes" using False by (simp add: write_chunks_ok)
  then obtain e where "write_chunks to_vec ?a chunks = Inl e" by (metis obj_sumE)
  with False show ?thesis by (simp add: mmap_build_def Let_def mmap_count_def)
qed

text \<open>
  C24: appending to a built index is appending to the list it holds, and leaves the file that
  building from the longer list would write, byte for byte; a failed append changes nothing.
\<close>

theorem mmap_insert_refines:
  assumes holds: "mmap_holds to_vec a dim d hash chunks" and "chunks \<noteq> []" and hash: "length hash = 32"
    and ser: "serializer_ok to_vec from_slice"
  shows "(case mmap_insert from_slice to_vec a c of (a', r) \<Rightarrow>
      if r = Inr ()
      then mmap_holds to_vec a' dim d hash (chunks @ [c])
        \<and> write_chunks to_vec a (chunks @ [c]) = Inr (md_data a')
      else a' = a)"
proof -
  note h = mmap_holds_header [OF holds]
  have "md_data a \<noteq> []"
  proof -
    from holds obtain blobs where cf: "chunk_file to_vec dim d hash chunks blobs (md_data a)"
      by (auto simp: mmap_holds_def)
    obtain header where "layout_ok from_slice (layout_header dim d hash blobs) header (vectors_of chunks) blobs"
      and "md_data a = mmap_layout header (vectors_of chunks) blobs"
      by (rule chunk_file_layout [OF cf hash ser])
    then show ?thesis by (auto simp: mmap_layout_def layout_ok_def)
  qed
  then have insert: "mmap_insert from_slice to_vec a c = (case append_bytes to_vec a c of
              Inl e \<Rightarrow> (a, Inl e)
            | Inr (next_header, bytes) \<Rightarrow>
                (case mmap_open from_slice bytes (md_path a) (mh_dim next_header)
                        (mh_distance next_header) (Some (mh_source_hash next_header)) of
                   Inl e \<Rightarrow> (a\<lparr>md_data := [], md_refs := []\<rparr>, Inl e)
                 | Inr opened \<Rightarrow> (opened, Inr ())))"
    using h \<open>chunks \<noteq> []\<close> by (simp add: mmap_insert_def)
  show ?thesis
  proof (cases "append_bytes to_vec a c")
    case (Inr hb)
    obtain h' bytes' where hb: "hb = (h', bytes')" by (cases hb)
    from append_bytes_chunk_file [OF holds hash ser] Inr hb obtain blobs' where
      cf: "chunk_file to_vec dim d hash (chunks @ [c]) blobs' bytes'" and h': "h' = layout_header dim d hash blobs'"
      by blast
    from open_chunk_file [OF cf hash ser, of "md_path a"] obtain a' where
      a': "mmap_open from_slice bytes' (md_path a) dim d (Some hash) = Inr a'"
      "mmap_holds to_vec a' dim d hash (chunks @ [c])" "md_data a' = bytes'" by blast
    have "write_chunks to_vec a (chunks @ [c]) = Inr bytes'"
      using cf h by (auto simp: write_chunks_ok)
    with a' Inr hb h' show ?thesis by (simp add: insert layout_header_def)
  qed (simp add: insert)
qed

section \<open>A leg of the refill\<close>

type_synonym mmap_request = "mmap_dense \<times> dense_chunk_ref list \<times> f32 list \<times> filter_set"

definition mmap_fetch ::
  "(word8 list \<Rightarrow> anyhow + stored_metadata) \<Rightarrow> (word8 list \<Rightarrow> anyhow + json) \<Rightarrow> mmap_request
   \<Rightarrow> usize \<Rightarrow> anyhow + hit list" where
  "mmap_fetch from_slice filter_of q n =
     (case q of (a, chunks, embedding, filters) \<Rightarrow> snd (mmap_query from_slice filter_of a embedding n filters))"

text \<open>An index that holds the chunks, read with lawful serializers, whose scores are all finite.\<close>

definition mmap_ready ::
  "(stored_metadata \<Rightarrow> anyhow + word8 list) \<Rightarrow> (word8 list \<Rightarrow> anyhow + stored_metadata)
   \<Rightarrow> (word8 list \<Rightarrow> anyhow + json) \<Rightarrow> mmap_request \<Rightarrow> bool" where
  "mmap_ready to_vec from_slice filter_of q =
     (case q of (a, chunks, embedding, filters) \<Rightarrow>
        mmap_holds to_vec a (mh_dim (md_header a)) (mh_distance (md_header a)) (mh_source_hash (md_header a)) chunks
        \<and> length (mh_source_hash (md_header a)) = 32 \<and> serializer_ok to_vec from_slice
        \<and> filter_reader_ok from_slice filter_of \<and> embeddings_wf chunks
        \<and> length embedding = mh_dim (md_header a) \<and> list_all f32_is_finite embedding
        \<and> (\<exists>r. chunk_ranking (mh_distance (md_header a)) chunks embedding filters = Inr r))"

definition mmap_ranking :: "mmap_request \<Rightarrow> hit list" where
  "mmap_ranking q =
     (case q of (a, chunks, embedding, filters) \<Rightarrow>
        (case chunk_ranking (mh_distance (md_header a)) chunks embedding filters of Inr r \<Rightarrow> r | Inl e \<Rightarrow> []))"

lemma mmap_fetch_prefix:
  assumes "mmap_ready to_vec from_slice filter_of q"
  shows "mmap_fetch from_slice filter_of q n = Inr (take n (mmap_ranking q))"
proof -
  obtain a chunks embedding filters where q: "q = (a, chunks, embedding, filters)" by (cases q)
  let ?d = "mh_distance (md_header a)" and ?dim = "mh_dim (md_header a)" and ?hash = "mh_source_hash (md_header a)"
  from assms q have holds: "mmap_holds to_vec a ?dim ?d ?hash chunks" and hash: "length ?hash = 32"
    and ser: "serializer_ok to_vec from_slice" and filt: "filter_reader_ok from_slice filter_of"
    and wf: "embeddings_wf chunks" and e: "length embedding = ?dim" "list_all f32_is_finite embedding"
    by (auto simp: mmap_ready_def)
  from assms q obtain r where "chunk_ranking ?d chunks embedding filters = Inr r"
    by (auto simp: mmap_ready_def)
  then show ?thesis
    using held_query [OF holds hash ser filt wf e, of n filters]
    by (simp add: q mmap_fetch_def mmap_ranking_def)
qed

lemma chunk_ranking_matches:
  assumes "chunk_ranking d chunks query filters = Inr r" "h \<in> set r"
  shows "metadata_matches (hit_metadata h) filters"
proof -
  from assms obtain cs where cs: "map_res (chunk_candidate d chunks query filters) [0 ..< length chunks] = Inr cs"
    and r: "r = rerank (map (chunk_hit chunks) (sort (List.map_filter id cs)))"
    by (auto simp: chunk_ranking_def res_simps)
  have "hit_metadata h \<in> set (map hit_metadata r)" using assms(2) by simp
  then obtain c where "c \<in> set (sort (List.map_filter id cs))" "hit_metadata h = hit_metadata (chunk_hit chunks c)"
    by (auto simp: r)
  then have "Some c \<in> set cs" by (simp add: set_map_filter_id)
  from map_res_elems [OF cs this] \<open>hit_metadata h = _\<close> show ?thesis
    by (auto simp: chunk_candidate_def chunk_hit_def Let_def metadata_matches_def split: if_splits)
qed

interpretation mm: filtered_source "mmap_fetch from_slice filter_of" "mmap_ready to_vec from_slice filter_of"
  mmap_ranking "\<lambda>q. snd (snd (snd q))"
proof unfold_locales
  fix q n assume "mmap_ready to_vec from_slice filter_of q"
  then show "mmap_fetch from_slice filter_of q n = Inr (take n (mmap_ranking q))" by (rule mmap_fetch_prefix)
next
  fix q h assume "mmap_ready to_vec from_slice filter_of q" "h \<in> set (mmap_ranking q)"
  then show "metadata_matches (hit_metadata h) (snd (snd (snd q)))"
    using chunk_ranking_matches by (auto simp: mmap_ready_def mmap_ranking_def split: prod.splits)
qed

section \<open>Samples\<close>

text \<open>A serializer for witnesses: one record, one byte.\<close>

definition sample_chunk :: dense_chunk_ref where
  "sample_chunk =
     \<lparr> dc_chunk = \<lparr> ck_id = ''a'', ck_source_path = ''p'', ck_text = ''t'', ck_metadata = JNull \<rparr>,
       dc_embedding = [f32_one] \<rparr>"

definition sample_to_vec :: "stored_metadata \<Rightarrow> anyhow + word8 list" where
  "sample_to_vec m = (if m = stored_of sample_chunk then Inr [7] else Inl (Message ''other''))"

definition sample_from_slice :: "word8 list \<Rightarrow> anyhow + stored_metadata" where
  "sample_from_slice b = (if b = [7] then Inr (stored_of sample_chunk) else Inl (Message ''other''))"

definition sample_filter_of :: "word8 list \<Rightarrow> anyhow + json" where
  "sample_filter_of b = (if b = [7] then Inr JNull else Inl (Message ''other''))"

definition sample_mmap :: mmap_dense where
  "sample_mmap = mmap_create ''f'' 1 Dot (replicate 32 0)"

lemma sample_serializer: "serializer_ok sample_to_vec sample_from_slice"
  by (simp add: serializer_ok_def sample_to_vec_def sample_from_slice_def)

lemma sample_filter: "filter_reader_ok sample_from_slice sample_filter_of"
  by (simp add: filter_reader_ok_def sample_filter_of_def sample_from_slice_def stored_of_def sample_chunk_def)

lemma sample_chunk_file:
  "\<exists>bytes. chunk_file sample_to_vec 1 Dot (replicate 32 0) (replicate n sample_chunk) (replicate n [7]) bytes"
  if "n < 3"
proof -
  have blob: "chunk_blob ''build'' sample_to_vec 1 sample_chunk = Inr [7]"
    by (simp add: chunk_blob_ok sample_to_vec_def max_metadata_record_bytes_def)
       (simp add: sample_chunk_def f32_is_finite_def f32_one_def)
  have "list_all2 (\<lambda>c b. chunk_blob ''build'' sample_to_vec 1 c = Inr b) (replicate n sample_chunk) (replicate n [7])"
    using blob by (simp add: list_all2_conv_all_nth)
  moreover have "layout_size 1 (replicate n [7]) \<le> u64_max"
    using that by (simp add: layout_size_def u64_max_def)
  ultimately show ?thesis by (simp add: chunk_file_def encode_header_eq layout_header_def)
qed

lemma sample_held:
  obtains a where "mmap_holds sample_to_vec a 1 Dot (replicate 32 0) [sample_chunk]"
proof -
  from sample_chunk_file [of 1] obtain bytes where
    "chunk_file sample_to_vec 1 Dot (replicate 32 0) [sample_chunk] [[7]] bytes" by auto
  from open_chunk_file [OF this _ sample_serializer, of "''f''"] that show ?thesis by auto
qed

lemma mmap_build_holds_witness:
  "snd (mmap_build sample_from_slice sample_to_vec sample_mmap [sample_chunk, sample_chunk]) = Inr ()"
proof -
  have h: "mh_dim (md_header sample_mmap) = 1" "mh_distance (md_header sample_mmap) = Dot"
    "mh_source_hash (md_header sample_mmap) = replicate 32 0"
    by (simp_all add: sample_mmap_def mmap_create_def)
  from sample_chunk_file [of 2] have "\<exists>blobs bytes. chunk_file sample_to_vec (mh_dim (md_header sample_mmap))
      (mh_distance (md_header sample_mmap)) (mh_source_hash (md_header sample_mmap))
      [sample_chunk, sample_chunk] blobs bytes"
    by (auto simp: h numeral_2_eq_2)
  with mmap_build_holds [of sample_mmap, OF _ sample_serializer, of "[sample_chunk, sample_chunk]"] h(3)
  show ?thesis by simp
qed

lemma mmap_insert_refines_witness:
  "\<exists>a. mmap_holds sample_to_vec a 1 Dot (replicate 32 0) [sample_chunk]
     \<and> (case mmap_insert sample_from_slice sample_to_vec a sample_chunk of (a', r) \<Rightarrow>
          if r = Inr ()
          then mmap_holds sample_to_vec a' 1 Dot (replicate 32 0) ([sample_chunk] @ [sample_chunk])
            \<and> write_chunks sample_to_vec a ([sample_chunk] @ [sample_chunk]) = Inr (md_data a')
          else a' = a)"
proof -
  obtain a where a: "mmap_holds sample_to_vec a 1 Dot (replicate 32 0) [sample_chunk]" by (rule sample_held)
  have ne: "[sample_chunk] \<noteq> []" "length (replicate 32 (0::word8)) = 32" by simp_all
  show ?thesis
    by (rule exI [of _ a], rule conjI [OF a mmap_insert_refines [OF a ne sample_serializer, of sample_chunk]])
qed

lemma sample_chunk_wf: "embeddings_wf [sample_chunk]"
  by (simp add: embeddings_wf_def sample_chunk_def f32_wf_def f32_units_ok_def f32_one_def f32_limit_def
      nat_bits.simps)

lemma mmap_query_refines_witness:
  "\<exists>a. mmap_holds sample_to_vec a 1 Dot (replicate 32 0) [sample_chunk]
     \<and> snd (mmap_query sample_from_slice sample_filter_of a [f32_one] 5 []) =
        bind_res (chunk_ranking Dot [sample_chunk] [f32_one] []) (\<lambda>ranking. Inr (take 5 ranking))"
proof -
  obtain a where a: "mmap_holds sample_to_vec a 1 Dot (replicate 32 0) [sample_chunk]" by (rule sample_held)
  have "list_all f32_is_finite [f32_one]" by (simp add: f32_is_finite_def f32_one_def)
  with mmap_query_refines [OF a _ sample_serializer sample_filter sample_chunk_wf, of "[f32_one]" 5 "[]"] a
  show ?thesis by auto
qed

end
