(* ===== verification/Rrf.thy ===== *)
theory Rrf
  imports Retrieve_Types "HOL-Library.Multiset"
begin

text \<open>
  Reciprocal rank fusion (\<^verbatim>\<open>crates/aicx-retrieve/src/fusion_rrf.rs\<close>): dense hits, then
  lexical hits, are added to an ordered map by chunk id, each contributing
  \<open>1 / (k + rank + 1)\<close> in 32-bit floating point; the map's values are sorted by score, ties by
  chunk id, cut and ranked. The fused scores are never negative and never a NaN, so the code's
  comparator is the linear order used here and its stable sort is \<^const>\<open>sort_key\<close>.
\<close>

section \<open>The algorithm\<close>

definition rrf_k_default :: u32 where
  "rrf_k_default = 60"

definition rrf_name :: string where
  "rrf_name = ''rrf''"

record fused_hit =
  fh_chunk_id :: string
  fh_score :: f32
  fh_metadata :: json

text \<open>\<^verbatim>\<open>for (key, value) in lex { dense.insert(key, value); }\<close> when both are objects.\<close>

definition merge_metadata_lexical_first :: "json \<Rightarrow> json \<Rightarrow> json" where
  "merge_metadata_lexical_first lexical existing =
     (case (existing, lexical) of
        (JObject dns, JObject lxs) \<Rightarrow> JObject (foldl (\<lambda>m (k, v). bt_insert k v m) dns lxs)
      | (_, lexical) \<Rightarrow> lexical)"

definition rrf_contribution :: "u32 \<Rightarrow> usize \<Rightarrow> f32" where
  "rrf_contribution k r =
     f32_div f32_one (f32_add (f32_of_nat k) (f32_of_nat (u64_wrapping_add r 1)))"

definition add_hit ::
  "u32 \<Rightarrow> bool \<Rightarrow> (string, fused_hit) btree_map \<Rightarrow> hit \<Rightarrow> (string, fused_hit) btree_map" where
  "add_hit k lexical_precedence fused h =
     (let entry = (case bt_get fused (hit_chunk_id h) of
                     None \<Rightarrow> \<lparr> fh_chunk_id = hit_chunk_id h, fh_score = f32_zero,
                               fh_metadata = hit_metadata h \<rparr>
                   | Some e \<Rightarrow> e);
          entry = entry\<lparr>fh_score := f32_add (fh_score entry) (rrf_contribution k (hit_rank h))\<rparr>;
          entry = (if lexical_precedence
                   then entry\<lparr>fh_metadata :=
                          merge_metadata_lexical_first (hit_metadata h) (fh_metadata entry)\<rparr>
                   else entry)
      in bt_insert (hit_chunk_id h) entry fused)"

definition fuse_map :: "u32 \<Rightarrow> hit list \<Rightarrow> hit list \<Rightarrow> (string, fused_hit) btree_map" where
  "fuse_map k lxs dns = foldl (add_hit k True) (foldl (add_hit k False) [] dns) lxs"

definition hit_of_fused :: "fused_hit \<Rightarrow> hit" where
  "hit_of_fused f =
     \<lparr> hit_chunk_id = fh_chunk_id f, hit_score = fh_score f, hit_rank = 0,
       hit_source = rrf_name, hit_metadata = fh_metadata f \<rparr>"

text \<open>Score descending, then chunk id ascending.\<close>

definition rrf_order :: "hit \<Rightarrow> int \<times> string" where
  "rrf_order h = (- f32_key (hit_score h), hit_chunk_id h)"

definition rrf_fuse :: "u32 \<Rightarrow> hit list \<Rightarrow> hit list \<Rightarrow> usize \<Rightarrow> hit list" where
  "rrf_fuse k lxs dns limit =
     (if limit = 0 then []
      else rerank (take limit
             (sort_key rrf_order (map hit_of_fused (bt_values (fuse_map k lxs dns))))))"

section \<open>What a fused entry holds\<close>

text \<open>The contributions of a chunk, in the order the code adds them: dense ranks, then lexical ranks.\<close>

definition ranks_of :: "string \<Rightarrow> hit list \<Rightarrow> usize list" where
  "ranks_of c hs = map hit_rank (filter (\<lambda>h. hit_chunk_id h = c) hs)"

definition rrf_score :: "u32 \<Rightarrow> usize list \<Rightarrow> f32" where
  "rrf_score k rs = foldl (\<lambda>s r. f32_add s (rrf_contribution k r)) f32_zero rs"

lemma rrf_score_snoc: "rrf_score k (rs @ [r]) = f32_add (rrf_score k rs) (rrf_contribution k r)"
  by (simp add: rrf_score_def)

lemma ranks_of_snoc:
  "ranks_of c (hs @ [h]) = ranks_of c hs @ (if hit_chunk_id h = c then [hit_rank h] else [])"
  by (simp add: ranks_of_def)

text \<open>
  The map after a list of hits: its keys are the chunk ids seen, every entry carries its own key
  and the fused score of its ranks.
\<close>

definition fused_ok :: "u32 \<Rightarrow> (string, fused_hit) btree_map \<Rightarrow> hit list \<Rightarrow> bool" where
  "fused_ok k m hs \<longleftrightarrow> bt_wf m \<and>
     (\<forall>c. bt_get m c \<noteq> None \<longleftrightarrow> c \<in> hit_chunk_id ` set hs) \<and>
     (\<forall>c e. bt_get m c = Some e \<longrightarrow> fh_chunk_id e = c \<and> fh_score e = rrf_score k (ranks_of c hs))"

lemma ranks_of_fresh: "c \<notin> hit_chunk_id ` set hs \<Longrightarrow> ranks_of c hs = []"
  by (auto simp: ranks_of_def filter_empty_conv)

lemma add_hit_ok:
  assumes "fused_ok k m hs"
  shows "fused_ok k (add_hit k lexical m h) (hs @ [h])"
proof -
  from assms have wf: "bt_wf m" by (simp add: fused_ok_def)
  define e where "e = (case bt_get m (hit_chunk_id h) of
      None \<Rightarrow> \<lparr> fh_chunk_id = hit_chunk_id h, fh_score = f32_zero, fh_metadata = hit_metadata h \<rparr>
    | Some e \<Rightarrow> e)"
  have e: "fh_chunk_id e = hit_chunk_id h" "fh_score e = rrf_score k (ranks_of (hit_chunk_id h) hs)"
    using assms ranks_of_fresh [of "hit_chunk_id h" hs]
    by (force simp: e_def fused_ok_def rrf_score_def split: option.split)+
  have get: "bt_get (add_hit k lexical m h) = (bt_get m)(hit_chunk_id h \<mapsto>
     (let e = e\<lparr>fh_score := f32_add (fh_score e) (rrf_contribution k (hit_rank h))\<rparr> in
      if lexical then e\<lparr>fh_metadata := merge_metadata_lexical_first (hit_metadata h) (fh_metadata e)\<rparr> else e))"
    using bt_get_insert [OF wf] by (simp add: add_hit_def e_def Let_def)
  have "bt_wf (add_hit k lexical m h)"
    by (simp add: add_hit_def Let_def bt_wf_insert wf)
  with assms get e show ?thesis
    by (auto simp: fused_ok_def ranks_of_snoc rrf_score_snoc Let_def split: if_splits)
qed

lemma add_hits_ok:
  "fused_ok k m hs \<Longrightarrow> fused_ok k (foldl (add_hit k lexical) m hs') (hs @ hs')"
proof (induction hs' arbitrary: m hs)
  case (Cons h hs')
  from Cons.IH [OF add_hit_ok [OF Cons.prems]] show ?case by simp
qed simp

lemma fuse_map_ok: "fused_ok k (fuse_map k lxs dns) (dns @ lxs)"
proof -
  have "fused_ok k [] []" by (simp add: fused_ok_def)
  from add_hits_ok [OF add_hits_ok [OF this]] show ?thesis by (simp add: fuse_map_def)
qed

lemma f32_of_nat_nonneg [simp]: "f32_nonneg (f32_of_nat n)"
  by (simp add: f32_of_nat_def)

lemma rrf_contribution_nonneg [simp]: "f32_nonneg (rrf_contribution k r)"
  by (simp add: rrf_contribution_def f32_nonneg_recip f32_nonneg_add)

lemma rrf_score_nonneg [simp]: "f32_nonneg (rrf_score k rs)"
  by (induction rs rule: rev_induct) (auto simp: rrf_score_def f32_nonneg_add)

lemma rrf_score_not_nan [simp]: "rrf_score k rs \<noteq> F32NaN"
  by (metis f32.distinct(1,3) f32_nonneg_def rrf_score_nonneg)

section \<open>The fused list\<close>

text \<open>The order the code sorts by: a higher score first, equal scores by chunk id.\<close>

definition ranked_before :: "f32 \<Rightarrow> string \<Rightarrow> f32 \<Rightarrow> string \<Rightarrow> bool" where
  "ranked_before s c s' c' \<longleftrightarrow> f32_less s' s \<or> (f32_eq s s' \<and> c < c')"

definition fused_score :: "u32 \<Rightarrow> hit list \<Rightarrow> hit list \<Rightarrow> string \<Rightarrow> f32" where
  "fused_score k lxs dns c = rrf_score k (ranks_of c dns @ ranks_of c lxs)"

definition sorted_hits :: "u32 \<Rightarrow> hit list \<Rightarrow> hit list \<Rightarrow> hit list" where
  "sorted_hits k lxs dns = sort_key rrf_order (map hit_of_fused (bt_values (fuse_map k lxs dns)))"

lemma rrf_fuse_eq: "rrf_fuse k lxs dns limit = rerank (take limit (sorted_hits k lxs dns))"
  by (simp add: rrf_fuse_def sorted_hits_def rerank_def)

lemma fuse_map_entries:
  assumes "(c, e) \<in> set (fuse_map k lxs dns)"
  shows "fh_chunk_id e = c" "fh_score e = fused_score k lxs dns c" "c \<in> hit_chunk_id ` set (dns @ lxs)"
proof -
  have ok: "fused_ok k (fuse_map k lxs dns) (dns @ lxs)" by (rule fuse_map_ok)
  with assms have "bt_get (fuse_map k lxs dns) c = Some e"
    by (simp add: fused_ok_def bt_wf_def bt_get_def strict_sorted_iff)
  with ok show "fh_chunk_id e = c" "fh_score e = fused_score k lxs dns c"
    "c \<in> hit_chunk_id ` set (dns @ lxs)"
    by (simp_all add: fused_ok_def fused_score_def ranks_of_def) (metis option.distinct(1))
qed

lemma fuse_map_keys: "set (bt_keys (fuse_map k lxs dns)) = hit_chunk_id ` set (dns @ lxs)"
  "distinct (bt_keys (fuse_map k lxs dns))"
  using fuse_map_ok [of k lxs dns]
  by (auto simp: fused_ok_def bt_get_def bt_keys_def bt_wf_def strict_sorted_iff map_of_eq_None_iff)

lemma fused_ids:
  "map hit_chunk_id (map hit_of_fused (bt_values (fuse_map k lxs dns))) = bt_keys (fuse_map k lxs dns)"
  using fuse_map_entries(1) by (force simp: bt_values_def bt_keys_def hit_of_fused_def)

lemma sorted_hits_ids:
  "set (map hit_chunk_id (sorted_hits k lxs dns)) = hit_chunk_id ` set (dns @ lxs)"
  "distinct (map hit_chunk_id (sorted_hits k lxs dns))"
proof -
  let ?xs = "map hit_of_fused (bt_values (fuse_map k lxs dns))"
  have "mset (map hit_chunk_id (sorted_hits k lxs dns)) = mset (map hit_chunk_id ?xs)"
    by (simp add: sorted_hits_def del: map_map)
  then have m: "mset (map hit_chunk_id (sorted_hits k lxs dns)) = mset (bt_keys (fuse_map k lxs dns))"
    by (simp only: fused_ids)
  show "set (map hit_chunk_id (sorted_hits k lxs dns)) = hit_chunk_id ` set (dns @ lxs)"
    using mset_eq_setD [OF m] fuse_map_keys(1) by simp
  show "distinct (map hit_chunk_id (sorted_hits k lxs dns))"
    using mset_eq_imp_distinct_iff [OF m] fuse_map_keys(2) by simp
qed

lemma sorted_hits_scores:
  assumes "h \<in> set (sorted_hits k lxs dns)"
  shows "hit_score h = fused_score k lxs dns (hit_chunk_id h)" "hit_source h = rrf_name"
proof -
  from assms obtain c e where "(c, e) \<in> set (fuse_map k lxs dns)" "h = hit_of_fused e"
    by (auto simp: sorted_hits_def bt_values_def)
  then show "hit_score h = fused_score k lxs dns (hit_chunk_id h)" "hit_source h = rrf_name"
    using fuse_map_entries by (simp_all add: hit_of_fused_def)
qed

lemma sorted_hits_order:
  "sorted_wrt (\<lambda>a b. ranked_before (hit_score a) (hit_chunk_id a) (hit_score b) (hit_chunk_id b))
     (sorted_hits k lxs dns)"
proof -
  let ?S = "sorted_hits k lxs dns"
  have "sorted (map rrf_order ?S)" by (simp add: sorted_hits_def)
  moreover have "distinct (map rrf_order ?S)"
  proof -
    have "map hit_chunk_id ?S = map snd (map rrf_order ?S)" by (simp add: rrf_order_def)
    then show ?thesis using sorted_hits_ids(2) distinct_map by metis
  qed
  ultimately have "sorted_wrt (<) (map rrf_order ?S)" by (simp add: strict_sorted_iff)
  then have "sorted_wrt (\<lambda>a b. rrf_order a < rrf_order b) ?S" by (simp add: sorted_wrt_map)
  then show ?thesis
  proof (rule sorted_wrt_mono_rel [rotated])
    fix a b assume "a \<in> set ?S" "b \<in> set ?S" "rrf_order a < rrf_order b"
    then show "ranked_before (hit_score a) (hit_chunk_id a) (hit_score b) (hit_chunk_id b)"
      by (auto simp: ranked_before_def rrf_order_def f32_less_def f32_eq_def less_prod_def
        sorted_hits_scores fused_score_def)
  qed
qed

section \<open>What fusion promises\<close>

text \<open>
  C30: fusion ranks exactly the chunks either ranker returned, each once, by its fused score and then
  by chunk id, and returns the first of them: ids, scores, ranks counted from zero and the fused
  source are those of the first \<open>limit\<close> chunks of that ranking.
\<close>

theorem rrf_fuse_ranking:
  "\<exists>ranking.
     distinct ranking \<and> set ranking = hit_chunk_id ` set (dns @ lxs)
     \<and> sorted_wrt (\<lambda>c d. ranked_before (fused_score k lxs dns c) c (fused_score k lxs dns d) d) ranking
     \<and> map hit_chunk_id (rrf_fuse k lxs dns limit) = take limit ranking
     \<and> map hit_score (rrf_fuse k lxs dns limit) = map (fused_score k lxs dns) (take limit ranking)
     \<and> map hit_rank (rrf_fuse k lxs dns limit) = [0 ..< min (length ranking) limit]
     \<and> map hit_source (rrf_fuse k lxs dns limit) = replicate (min (length ranking) limit) rrf_name"
proof (intro exI conjI)
  let ?S = "sorted_hits k lxs dns"
  show "distinct (map hit_chunk_id ?S)" "set (map hit_chunk_id ?S) = hit_chunk_id ` set (dns @ lxs)"
    by (rule sorted_hits_ids)+
  have "sorted_wrt (\<lambda>a b. ranked_before (fused_score k lxs dns (hit_chunk_id a)) (hit_chunk_id a)
      (fused_score k lxs dns (hit_chunk_id b)) (hit_chunk_id b)) ?S"
    using sorted_hits_order by (rule sorted_wrt_mono_rel [rotated]) (metis sorted_hits_scores(1))
  then show "sorted_wrt (\<lambda>c d. ranked_before (fused_score k lxs dns c) c (fused_score k lxs dns d) d)
      (map hit_chunk_id ?S)"
    by (simp add: sorted_wrt_map)
  show "map hit_chunk_id (rrf_fuse k lxs dns limit) = take limit (map hit_chunk_id ?S)"
    by (simp add: rrf_fuse_eq take_map)
  show "map hit_score (rrf_fuse k lxs dns limit) = map (fused_score k lxs dns) (take limit (map hit_chunk_id ?S))"
    using sorted_hits_scores(1) by (auto simp: rrf_fuse_eq take_map dest!: in_set_takeD)
  show "map hit_rank (rrf_fuse k lxs dns limit) = [0 ..< min (length (map hit_chunk_id ?S)) limit]"
    by (simp add: rrf_fuse_eq rerank_ranks)
  show "map hit_source (rrf_fuse k lxs dns limit) = replicate (min (length (map hit_chunk_id ?S)) limit) rrf_name"
  proof (rule replicate_eqI)
    show "length (map hit_source (rrf_fuse k lxs dns limit)) = min (length (map hit_chunk_id ?S)) limit"
      by (simp add: rrf_fuse_eq)
    fix x assume "x \<in> set (map hit_source (rrf_fuse k lxs dns limit))"
    then show "x = rrf_name" using sorted_hits_scores(2) by (auto simp: rrf_fuse_eq dest!: in_set_takeD)
  qed
qed

text \<open>A better rank contributes no less.\<close>

lemma rrf_contribution_mono:
  assumes "r \<le> r'" "r' < u64_max"
  shows "f32_key (rrf_contribution k r') \<le> f32_key (rrf_contribution k r)"
proof -
  have "u64_wrapping_add r 1 \<le> u64_wrapping_add r' 1"
    using assms by (simp add: u64_wrapping_add_def)
  then show ?thesis
    unfolding rrf_contribution_def
    by (intro f32_key_recip_mono f32_key_add_mono f32_nonneg_add f32_key_of_nat_mono) simp_all
qed

lemma rrf_score_dominates:
  assumes "list_emb (\<lambda>r' r. r \<le> r' \<and> r' < u64_max) rs' rs"
    and "f32_nonneg s" "f32_nonneg s'" "f32_wf s" "f32_key s' \<le> f32_key s"
  shows "f32_key (foldl (\<lambda>s r. f32_add s (rrf_contribution k r)) s' rs')
    \<le> f32_key (foldl (\<lambda>s r. f32_add s (rrf_contribution k r)) s rs)"
  using assms
proof (induction arbitrary: s s' rule: list_emb.induct)
  case (list_emb_Nil ys)
  then show ?case
  proof (induction ys arbitrary: s)
    case (Cons y ys)
    have "f32_key s' \<le> f32_key (f32_add s (rrf_contribution k y))"
      using f32_key_add_grows [of s "rrf_contribution k y"] Cons.prems by simp
    then show ?case using Cons by (simp add: f32_nonneg_add f32_wf_add)
  qed simp
next
  case (list_emb_Cons xs ys y)
  have "f32_key s' \<le> f32_key (f32_add s (rrf_contribution k y))"
    using f32_key_add_grows [of s "rrf_contribution k y"] list_emb_Cons.prems by simp
  then show ?case using list_emb_Cons by (simp add: f32_nonneg_add f32_wf_add)
next
  case (list_emb_Cons2 x y xs ys)
  then have "f32_key (f32_add s' (rrf_contribution k x)) \<le> f32_key (f32_add s (rrf_contribution k y))"
    by (intro f32_key_add_mono rrf_contribution_mono) auto
  then show ?case using list_emb_Cons2 by (simp add: f32_nonneg_add f32_wf_add)
qed

text \<open>
  Fusion respects the rankers: if every place a chunk takes in the two lists is matched by a
  place of another chunk that is no worse, in order, the other chunk's fused score is no lower,
  with rounding taken into account, and with the smaller id it is ranked first.
\<close>

theorem rrf_respects_rankers:
  assumes "list_emb (\<lambda>r' r. r \<le> r' \<and> r' < u64_max)
    (ranks_of b dns @ ranks_of b lxs) (ranks_of a dns @ ranks_of a lxs)"
  shows "\<not> f32_less (fused_score k lxs dns a) (fused_score k lxs dns b)
    \<and> (b \<le> a \<or> ranked_before (fused_score k lxs dns a) a (fused_score k lxs dns b) b)"
proof -
  have "f32_key (fused_score k lxs dns b) \<le> f32_key (fused_score k lxs dns a)"
    unfolding fused_score_def rrf_score_def by (rule rrf_score_dominates [OF assms]) simp_all
  then show ?thesis
    by (auto simp: f32_less_def ranked_before_def f32_eq_def fused_score_def)
qed

definition sample_hit :: "string \<Rightarrow> usize \<Rightarrow> hit" where
  "sample_hit c r =
     \<lparr> hit_chunk_id = c, hit_score = f32_one, hit_rank = r, hit_source = ''t'', hit_metadata = JNull \<rparr>"

lemma rrf_respects_rankers_witness:
  "\<not> f32_less (fused_score 60 [sample_hit ''a'' 0, sample_hit ''b'' 1] [sample_hit ''a'' 3] ''a'')
       (fused_score 60 [sample_hit ''a'' 0, sample_hit ''b'' 1] [sample_hit ''a'' 3] ''b'')"
  using rrf_respects_rankers [of "''b''" "[sample_hit ''a'' 3]"
      "[sample_hit ''a'' 0, sample_hit ''b'' 1]" "''a''" 60]
  by (simp add: ranks_of_def sample_hit_def u64_max_def)


lemma foldl_insert_get:
  "bt_wf m \<Longrightarrow> bt_get (foldl (\<lambda>m (k, v). bt_insert k v m) m kvs) = bt_get m ++ map_of (rev kvs)"
proof (induction kvs arbitrary: m)
  case (Cons kv kvs)
  then show ?case
    by (cases kv) (auto simp: bt_wf_insert bt_get_insert fun_eq_iff map_add_def split: option.split)
qed simp

lemma foldl_insert_wf: "bt_wf m \<Longrightarrow> bt_wf (foldl (\<lambda>m (k, v). bt_insert k v m) m kvs)"
  by (induction kvs arbitrary: m) (auto simp: bt_wf_insert)

lemma map_of_rev_distinct: "distinct (map fst m) \<Longrightarrow> map_of (rev m) = map_of m"
  by (metis distinct_rev map_of_inject_set rev_map set_rev)

lemma merged_get:
  assumes "bt_wf lxm" and "bt_wf dm"
  shows "json_get (merge_metadata_lexical_first (JObject lxm) (JObject dm)) key =
    (case json_get (JObject lxm) key of
       None \<Rightarrow> json_get (JObject dm) key
     | Some v \<Rightarrow> Some v)"
proof -
  have "map_of (rev lxm) = bt_get lxm"
    using assms(1) by (simp add: bt_get_def fun_eq_iff map_of_rev_distinct bt_wf_def strict_sorted_iff)
  then show ?thesis
    using foldl_insert_get [OF assms(2), of lxm]
    by (auto simp: merge_metadata_lexical_first_def json_get_def map_add_def split: option.split)
qed

text \<open>
  The metadata of a chunk both rankers found, when both are objects, has the fields of either,
  and the lexical value where both have one.
\<close>

theorem merge_metadata_fields:
  assumes "bt_wf lxm" and "bt_wf dm"
  shows "json_get (merge_metadata_lexical_first (JObject lxm) (JObject dm)) key =
    (case json_get (JObject lxm) key of
       None \<Rightarrow> json_get (JObject dm) key
     | Some v \<Rightarrow> Some v)"
  using assms by (rule merged_get)

lemma merge_metadata_fields_witness:
  "json_get (merge_metadata_lexical_first (JObject [(''a'', JNull)]) (JObject [(''a'', JBool True), (''b'', JNull)])) ''a''
     = Some JNull"
  using merge_metadata_fields [of "[(''a'', JNull)]" "[(''a'', JBool True), (''b'', JNull)]" "''a''"]
  by (simp add: bt_wf_def json_get_def bt_get_def)

end
