(* ===== verification/Hybrid.thy ===== *)
theory Hybrid
  imports Brute_Force Mmap_Dense Rrf
begin

text \<open>
  The hybrid index (\<^verbatim>\<open>crates/aicx-retrieve/src/orchestrator.rs\<close>): build, commit and load
  with the bindings that must agree, and the query that refills both legs and fuses them. The trait
  objects are records of operations over a state of their own; the mapped and the in-memory dense
  index and the rank fusion are given as such records. The clock, fresh ids, the two hashes and the
  manifest file are arguments.
\<close>

section \<open>Adapters as records of operations\<close>

record 'l lexical_ops =
  lx_schema_version :: string
  lx_build :: "'l \<Rightarrow> chunk_ref list \<Rightarrow> 'l \<times> (anyhow + string)"
  lx_insert :: "'l \<Rightarrow> chunk_ref \<Rightarrow> 'l \<times> (anyhow + unit)"
  lx_query :: "'l \<Rightarrow> lexical_query \<Rightarrow> anyhow + hit list"
  lx_commit_id :: "'l \<Rightarrow> string"
  lx_doc_count :: "'l \<Rightarrow> usize"

record 'd dense_ops =
  dn_dim :: "'d \<Rightarrow> usize"
  dn_distance :: "'d \<Rightarrow> distance"
  dn_kind :: string
  dn_build :: "'d \<Rightarrow> dense_chunk_ref list \<Rightarrow> 'd \<times> (anyhow + unit)"
  dn_insert :: "'d \<Rightarrow> dense_chunk_ref \<Rightarrow> 'd \<times> (anyhow + unit)"
  dn_query :: "'d \<Rightarrow> f32 list \<Rightarrow> usize \<Rightarrow> filter_set \<Rightarrow> anyhow + hit list"
  dn_count :: "'d \<Rightarrow> usize"

record fusion_ops =
  fu_fuse :: "hit list \<Rightarrow> hit list \<Rightarrow> usize \<Rightarrow> hit list"
  fu_name :: string

definition brute_force_ops :: "(scored list \<Rightarrow> scored list) \<Rightarrow> brute_force dense_ops" where
  "brute_force_ops unordered =
     \<lparr> dn_dim = bf_dim, dn_distance = bf_distance, dn_kind = brute_force_kind, dn_build = bf_build,
       dn_insert = bf_insert, dn_query = bf_query unordered, dn_count = bf_count \<rparr>"

definition mmap_ops ::
  "(word8 list \<Rightarrow> anyhow + stored_metadata) \<Rightarrow> (word8 list \<Rightarrow> anyhow + json)
   \<Rightarrow> (stored_metadata \<Rightarrow> anyhow + word8 list) \<Rightarrow> mmap_dense dense_ops" where
  "mmap_ops from_slice filter_of to_vec =
     \<lparr> dn_dim = (\<lambda>a. mh_dim (md_header a)), dn_distance = (\<lambda>a. mh_distance (md_header a)),
       dn_kind = mmap_dense_kind, dn_build = mmap_build from_slice to_vec,
       dn_insert = mmap_insert from_slice to_vec,
       dn_query = (\<lambda>a e n fs. snd (mmap_query from_slice filter_of a e n fs)),
       dn_count = mmap_count \<rparr>"

definition rrf_ops :: "u32 \<Rightarrow> fusion_ops" where
  "rrf_ops k = \<lparr> fu_fuse = rrf_fuse k, fu_name = rrf_name \<rparr>"

section \<open>State\<close>

record embedder_fingerprint =
  ef_model :: string
  ef_url_hash :: string
  ef_dim :: usize
  ef_distance :: string

definition fingerprint_new ::
  "(string \<Rightarrow> string) \<Rightarrow> string \<Rightarrow> string \<Rightarrow> usize \<Rightarrow> string \<Rightarrow> embedder_fingerprint" where
  "fingerprint_new hash_endpoint_url model endpoint_url dim distance =
     \<lparr> ef_model = model, ef_url_hash = hash_endpoint_url endpoint_url, ef_dim = dim, ef_distance = distance \<rparr>"

definition fingerprint_from_hash :: "string \<Rightarrow> string \<Rightarrow> usize \<Rightarrow> string \<Rightarrow> embedder_fingerprint" where
  "fingerprint_from_hash model url_hash dim distance =
     \<lparr> ef_model = model, ef_url_hash = url_hash, ef_dim = dim, ef_distance = distance \<rparr>"

record ('l, 'd) hybrid_index =
  hx_lexical :: 'l
  hx_dense :: 'd
  hx_lexical_ops :: "'l lexical_ops"
  hx_dense_ops :: "'d dense_ops"
  hx_fusion :: fusion_ops
  hx_manifest :: "manifest option"
  hx_fingerprint :: embedder_fingerprint
  hx_writer_version :: string
  hx_build_id :: string

definition set_writer_identity :: "('l, 'd) hybrid_index \<Rightarrow> string \<Rightarrow> string \<Rightarrow> ('l, 'd) hybrid_index" where
  "set_writer_identity x writer_version build_id =
     x\<lparr>hx_writer_version := writer_version, hx_build_id := build_id\<rparr>"

definition fusion_k :: "string \<Rightarrow> u32" where
  "fusion_k name = (if name = rrf_name then rrf_k_default else 0)"

section \<open>Build and commit\<close>

record stamps =
  st_started :: int
  st_completed :: int
  st_wall_seconds :: u64
  st_generation_id :: string

definition hybrid_build ::
  "(string \<Rightarrow> string) \<Rightarrow> stamps \<Rightarrow> ('l, 'd) hybrid_index \<Rightarrow> chunk_ref list \<Rightarrow> dense_chunk_ref list \<Rightarrow> string
   \<Rightarrow> ('l, 'd) hybrid_index \<times> (anyhow + unit)" where
  "hybrid_build source_hash_blake3 st x lexical_chunks dense_chunks source_hash =
     (case lx_build (hx_lexical_ops x) (hx_lexical x) lexical_chunks of
        (l, Inl e) \<Rightarrow> (x\<lparr>hx_lexical := l\<rparr>, Inl e)
      | (l, Inr commit_id) \<Rightarrow>
          (case dn_build (hx_dense_ops x) (hx_dense x) dense_chunks of
             (d, Inl e) \<Rightarrow> (x\<lparr>hx_lexical := l, hx_dense := d\<rparr>, Inl e)
           | (d, Inr _) \<Rightarrow>
               (x\<lparr>hx_lexical := l, hx_dense := d, hx_manifest := Some
                  \<lparr> mn_schema_version = ''2.0'', mn_generation_id = st_generation_id st,
                    mn_writer_version = hx_writer_version x, mn_build_id = hx_build_id x,
                    mn_source_chunk_count = length lexical_chunks,
                    mn_source_hash_blake3 = source_hash_blake3 source_hash,
                    mn_embedder_model = ef_model (hx_fingerprint x),
                    mn_embedder_url_hash = ef_url_hash (hx_fingerprint x),
                    mn_embedder_dim = ef_dim (hx_fingerprint x),
                    mn_embedder_distance = ef_distance (hx_fingerprint x),
                    mn_dense_count = dn_count (hx_dense_ops x) d,
                    mn_dense_kind = dn_kind (hx_dense_ops x),
                    mn_lexical_commit_id = commit_id,
                    mn_lexical_doc_count = lx_doc_count (hx_lexical_ops x) l,
                    mn_build_started_at = st_started st, mn_build_completed_at = st_completed st,
                    mn_build_wall_seconds = st_wall_seconds st,
                    mn_fusion_algorithm = fu_name (hx_fusion x),
                    mn_fusion_k = fusion_k (fu_name (hx_fusion x)) \<rparr>\<rparr>, Inr ())))"

text \<open>\<^verbatim>\<open>signed_duration_since(..).num_seconds().max(0)\<close>: whole seconds, none when time ran back.\<close>

definition wall_seconds :: "int \<Rightarrow> int \<Rightarrow> u64" where
  "wall_seconds completed started =
     (if completed \<le> started then 0 else nat ((completed - started) div 1000000000))"

definition committed_manifest :: "stamps \<Rightarrow> ('l, 'd) hybrid_index \<Rightarrow> manifest \<Rightarrow> manifest" where
  "committed_manifest st x prior =
     \<lparr> mn_schema_version = mn_schema_version prior, mn_generation_id = st_generation_id st,
       mn_writer_version = hx_writer_version x, mn_build_id = hx_build_id x,
       mn_source_chunk_count = mn_source_chunk_count prior,
       mn_source_hash_blake3 = mn_source_hash_blake3 prior,
       mn_embedder_model = ef_model (hx_fingerprint x),
       mn_embedder_url_hash = ef_url_hash (hx_fingerprint x),
       mn_embedder_dim = ef_dim (hx_fingerprint x),
       mn_embedder_distance = ef_distance (hx_fingerprint x),
       mn_dense_count = dn_count (hx_dense_ops x) (hx_dense x),
       mn_dense_kind = dn_kind (hx_dense_ops x),
       mn_lexical_commit_id = lx_commit_id (hx_lexical_ops x) (hx_lexical x),
       mn_lexical_doc_count = lx_doc_count (hx_lexical_ops x) (hx_lexical x),
       mn_build_started_at = mn_build_started_at prior, mn_build_completed_at = st_completed st,
       mn_build_wall_seconds = wall_seconds (st_completed st) (mn_build_started_at prior),
       mn_fusion_algorithm = fu_name (hx_fusion x),
       mn_fusion_k = fusion_k (fu_name (hx_fusion x)) \<rparr>"

text \<open>The manifest in memory is replaced before the file is written, and stays if writing fails.\<close>

definition hybrid_commit ::
  "(manifest \<Rightarrow> anyhow + unit) \<Rightarrow> stamps \<Rightarrow> ('l, 'd) hybrid_index \<Rightarrow> ('l, 'd) hybrid_index \<times> (anyhow + manifest)" where
  "hybrid_commit write st x =
     (case hx_manifest x of
        None \<Rightarrow> (x, Inl (Message ''cannot commit hybrid index before build_hybrid''))
      | Some prior \<Rightarrow>
          (let m = committed_manifest st x prior in
           (x\<lparr>hx_manifest := Some m\<rparr>, bind_res (write m) (\<lambda>_. Inr m))))"

section \<open>Loading a generation\<close>

definition validate_bindings ::
  "(string \<Rightarrow> string) \<Rightarrow> manifest \<Rightarrow> ('l, 'd) hybrid_index \<Rightarrow> string option \<Rightarrow> retrieve_error + unit" where
  "validate_bindings source_hash_blake3 m x observed_source_hash =
     (let d = hx_dense x; l = hx_lexical x; fp = hx_fingerprint x;
          kind = dn_kind (hx_dense_ops x); count = dn_count (hx_dense_ops x) d;
          commit_id = lx_commit_id (hx_lexical_ops x) l; docs = lx_doc_count (hx_lexical_ops x) l;
          dim = dn_dim (hx_dense_ops x) d; fusion = fu_name (hx_fusion x) in
      if mn_dense_kind m \<noteq> kind then Inl (GenerationMismatch (mn_dense_kind m) kind)
      else if mn_dense_count m \<noteq> count then Inl (DenseCountMismatch (mn_dense_count m) count)
      else if mn_lexical_commit_id m \<noteq> commit_id then Inl (LexicalCommitMismatch (mn_lexical_commit_id m) commit_id)
      else if mn_lexical_doc_count m \<noteq> docs then Inl (LexicalDocCountMismatch (mn_lexical_doc_count m) docs)
      else if mn_fusion_algorithm m \<noteq> fusion then Inl (GenerationMismatch (mn_fusion_algorithm m) fusion)
      else if mn_embedder_url_hash m \<noteq> ef_url_hash fp
      then Inl (EmbedderModelDrift (mn_embedder_url_hash m) (ef_url_hash fp))
      else if mn_embedder_distance m \<noteq> ef_distance fp
      then Inl (EmbedderModelDrift (mn_embedder_distance m) (ef_distance fp))
      else if mn_embedder_dim m \<noteq> dim then Inl (DimMismatch (mn_embedder_dim m) dim)
      else validate_against m
        (m\<lparr> mn_source_hash_blake3 := (case observed_source_hash of
                 None \<Rightarrow> mn_source_hash_blake3 m | Some s \<Rightarrow> source_hash_blake3 s),
            mn_embedder_model := ef_model fp, mn_embedder_url_hash := ef_url_hash fp,
            mn_embedder_dim := ef_dim fp, mn_embedder_distance := ef_distance fp,
            mn_dense_count := count, mn_dense_kind := kind, mn_lexical_commit_id := commit_id,
            mn_lexical_doc_count := docs, mn_fusion_algorithm := fusion \<rparr>))"

definition validate_live_bindings_for_refresh ::
  "(string \<Rightarrow> string) \<Rightarrow> manifest \<Rightarrow> ('l, 'd) hybrid_index \<Rightarrow> retrieve_error + unit" where
  "validate_live_bindings_for_refresh source_hash_blake3 m x = validate_bindings source_hash_blake3 m x None"

text \<open>\<open>x\<close> holds the adapters, the fusion, the fingerprint and the crate's own writer identity.\<close>

definition load_from_manifest ::
  "(string \<Rightarrow> string) \<Rightarrow> (anyhow + manifest) \<Rightarrow> ('l, 'd) hybrid_index \<Rightarrow> string option \<Rightarrow> anyhow + ('l, 'd) hybrid_index" where
  "load_from_manifest source_hash_blake3 read_manifest x observed_source_hash =
     bind_res read_manifest (\<lambda>m.
     bind_res (map_err Typed (validate_bindings source_hash_blake3 m x observed_source_hash)) (\<lambda>_.
     Inr (x\<lparr>hx_manifest := Some m\<rparr>)))"

section \<open>Queries\<close>

record hybrid_query_input =
  qi_text :: string
  qi_embedding :: "f32 list"
  qi_filters :: filter_set
  qi_limit :: usize

record hybrid_query_result =
  qr_hits :: "hit list"
  qr_examined_count :: usize
  qr_exhausted :: bool
  qr_outcome :: retrieval_outcome

definition default_filter_refill_budget :: usize where
  "default_filter_refill_budget = 1024"

definition executed_evidence :: "usize \<Rightarrow> usize \<Rightarrow> retrieval_evidence" where
  "executed_evidence examined matched =
     \<lparr> re_executed_path = Some HybridFusion, re_examined_count = Some examined,
       re_matched_count = matched, re_fallback_reason = None, re_stale_evidence = False \<rparr>"

definition query_hybrid_filtered ::
  "('l, 'd) hybrid_index \<Rightarrow> hybrid_query_input \<Rightarrow> usize \<Rightarrow> bool \<Rightarrow> (json \<Rightarrow> bool)
   \<Rightarrow> (anyhow + hybrid_query_result) option" where
  "query_hybrid_filtered x input candidate_budget extra_active extra_filter =
     (let limit = qi_limit input in
      if limit = 0
      then Some (Inr \<lparr> qr_hits = [], qr_examined_count = 0, qr_exhausted = True,
             qr_outcome = from_evidence ReqHybrid (executed_evidence 0 0) \<rparr>)
      else
        (let filters_active = (qi_filters input \<noteq> [] \<or> extra_active);
             budget = max (max candidate_budget limit) 1;
             window = max (min limit budget) 1;
             lexical = refill_loop
               (\<lambda>w. lx_query (hx_lexical_ops x) (hx_lexical x)
                      \<lparr> lq_text = qi_text input, lq_limit = w, lq_filters = [] \<rparr>)
               filters_active
               (\<lambda>h. metadata_matches (hit_metadata h) (qi_filters input) \<and> extra_filter (hit_metadata h))
               limit budget window
         in case lexical of
              None \<Rightarrow> None
            | Some (Inl e) \<Rightarrow> Some (Inl e)
            | Some (Inr l) \<Rightarrow>
                (let lexical_hits = rerank (take limit (rf_hits l));
                     dense = refill_loop
                       (\<lambda>w. dn_query (hx_dense_ops x) (hx_dense x) (qi_embedding input) w (qi_filters input))
                       extra_active (\<lambda>h. extra_filter (hit_metadata h)) limit budget window
                 in case dense of
                      None \<Rightarrow> None
                    | Some (Inl e) \<Rightarrow> Some (Inl e)
                    | Some (Inr d) \<Rightarrow>
                        (let dense_hits = rerank (take limit (rf_hits d));
                             hits = fu_fuse (hx_fusion x) lexical_hits dense_hits limit;
                             under_delivered = (length hits < limit);
                             saturated = (under_delivered \<and> (rf_saturated l \<or> rf_saturated d));
                             examined = max (rf_examined l) (rf_examined d);
                             outcome = from_evidence ReqHybrid (executed_evidence examined (length hits))
                         in Some (Inr
                              \<lparr> qr_hits = hits, qr_examined_count = examined,
                                qr_exhausted = (under_delivered \<and> rf_exhausted l \<and> rf_exhausted d),
                                qr_outcome = (if saturated then mark_partial outcome else outcome) \<rparr>)))))"

definition query_hybrid_with_budget ::
  "('l, 'd) hybrid_index \<Rightarrow> hybrid_query_input \<Rightarrow> usize \<Rightarrow> (anyhow + hybrid_query_result) option" where
  "query_hybrid_with_budget x input candidate_budget =
     query_hybrid_filtered x input candidate_budget False (\<lambda>_. True)"

definition query_hybrid :: "('l, 'd) hybrid_index \<Rightarrow> hybrid_query_input \<Rightarrow> (anyhow + hit list) option" where
  "query_hybrid x input =
     map_option (\<lambda>r. bind_res r (\<lambda>q. Inr (qr_hits q)))
       (query_hybrid_with_budget x input default_filter_refill_budget)"

section \<open>The legs of an index\<close>

definition lexical_fetch :: "('l, 'd) hybrid_index \<times> string \<Rightarrow> usize \<Rightarrow> anyhow + hit list" where
  "lexical_fetch q w = lx_query (hx_lexical_ops (fst q)) (hx_lexical (fst q))
     \<lparr> lq_text = snd q, lq_limit = w, lq_filters = [] \<rparr>"

definition dense_fetch ::
  "('l, 'd) hybrid_index \<times> f32 list \<times> filter_set \<Rightarrow> usize \<Rightarrow> anyhow + hit list" where
  "dense_fetch q w = dn_query (hx_dense_ops (fst q)) (hx_dense (fst q)) (fst (snd q)) w (snd (snd q))"

text \<open>A leg's ranking is its answer to the widest window; it is lawful when every window is a prefix.\<close>

definition ranking_by :: "('q \<Rightarrow> usize \<Rightarrow> anyhow + hit list) \<Rightarrow> 'q \<Rightarrow> hit list" where
  "ranking_by fetch q = (case fetch q u64_max of Inl e \<Rightarrow> [] | Inr hs \<Rightarrow> hs)"

definition lawful_leg :: "('q \<Rightarrow> usize \<Rightarrow> anyhow + hit list) \<Rightarrow> 'q \<Rightarrow> bool" where
  "lawful_leg fetch q \<longleftrightarrow> (\<forall>w. fetch q w = Inr (take w (ranking_by fetch q)))"

interpretation lexical_leg: ranked_source lexical_fetch "lawful_leg lexical_fetch" "ranking_by lexical_fetch"
  by unfold_locales (simp add: lawful_leg_def)

interpretation dense_leg: ranked_source dense_fetch "lawful_leg dense_fetch" "ranking_by dense_fetch"
  by unfold_locales (simp add: lawful_leg_def)

definition query_budget :: "hybrid_query_input \<Rightarrow> usize \<Rightarrow> usize" where
  "query_budget input candidate_budget = max (max candidate_budget (qi_limit input)) 1"

text \<open>What the query assembles from the results of the two refills.\<close>

definition assemble_result :: "fusion_ops \<Rightarrow> usize \<Rightarrow> refill \<Rightarrow> refill \<Rightarrow> hybrid_query_result" where
  "assemble_result fusion limit l d =
     (let hits = fu_fuse fusion (rerank (take limit (rf_hits l))) (rerank (take limit (rf_hits d))) limit;
          under_delivered = (length hits < limit);
          examined = max (rf_examined l) (rf_examined d);
          outcome = from_evidence ReqHybrid (executed_evidence examined (length hits))
      in \<lparr> qr_hits = hits, qr_examined_count = examined,
           qr_exhausted = (under_delivered \<and> rf_exhausted l \<and> rf_exhausted d),
           qr_outcome = (if under_delivered \<and> (rf_saturated l \<or> rf_saturated d)
                         then mark_partial outcome else outcome) \<rparr>)"

lemma query_hybrid_zero:
  "qi_limit input = 0 \<Longrightarrow> query_hybrid_filtered x input cb extra_active extra =
     Some (Inr \<lparr> qr_hits = [], qr_examined_count = 0, qr_exhausted = True,
       qr_outcome = from_evidence ReqHybrid (executed_evidence 0 0) \<rparr>)"
  by (simp add: query_hybrid_filtered_def)

lemma query_hybrid_eq:
  assumes "qi_limit input \<noteq> 0"
  shows "query_hybrid_filtered x input cb extra_active extra =
    (case refill_loop (lexical_fetch (x, qi_text input)) (qi_filters input \<noteq> [] \<or> extra_active)
            (\<lambda>h. metadata_matches (hit_metadata h) (qi_filters input) \<and> extra (hit_metadata h))
            (qi_limit input) (query_budget input cb) (qi_limit input) of
       None \<Rightarrow> None
     | Some (Inl e) \<Rightarrow> Some (Inl e)
     | Some (Inr l) \<Rightarrow>
         (case refill_loop (dense_fetch (x, qi_embedding input, qi_filters input)) extra_active
                 (\<lambda>h. extra (hit_metadata h)) (qi_limit input) (query_budget input cb) (qi_limit input) of
            None \<Rightarrow> None
          | Some (Inl e) \<Rightarrow> Some (Inl e)
          | Some (Inr d) \<Rightarrow> Some (Inr (assemble_result (hx_fusion x) (qi_limit input) l d))))"
proof -
  have w: "max (min (qi_limit input) (query_budget input cb)) 1 = qi_limit input"
    using assms by (auto simp: query_budget_def)
  have fetch: "lexical_fetch (x, qi_text input) = (\<lambda>w. lx_query (hx_lexical_ops x) (hx_lexical x)
      \<lparr> lq_text = qi_text input, lq_limit = w, lq_filters = [] \<rparr>)"
    "dense_fetch (x, qi_embedding input, qi_filters input)
      = (\<lambda>w. dn_query (hx_dense_ops x) (hx_dense x) (qi_embedding input) w (qi_filters input))"
    by (simp_all add: lexical_fetch_def dense_fetch_def fun_eq_iff)
  have b: "max (max cb (qi_limit input)) 1 = query_budget input cb" by (simp add: query_budget_def)
  show ?thesis
    unfolding query_hybrid_filtered_def Let_def fetch assemble_result_def b w if_not_P [OF assms] by (rule refl)
qed

section \<open>Queries return, and what they return\<close>

text \<open>
  C29: a hybrid query returns: for any adapters, any fusion, any filters and any limit and budget of
  64 bits, both refills end.
\<close>

theorem hybrid_query_returns:
  assumes "qi_limit input \<le> u64_max" and "cb \<le> u64_max"
  shows "\<exists>r. query_hybrid_filtered x input cb extra_active extra = Some r"
proof (cases "qi_limit input = 0")
  case True
  then show ?thesis by (simp add: query_hybrid_zero)
next
  case False
  have b: "query_budget input cb \<le> u64_max" using assms by (simp add: query_budget_def u64_max_def)
  have some: "refill_loop fetch active keep (qi_limit input) (query_budget input cb) (qi_limit input) \<noteq> None"
    for fetch active keep
    using refill_some [of "qi_limit input" "query_budget input cb" fetch active keep] False b by auto
  show ?thesis
    unfolding query_hybrid_eq [OF False] by (simp add: some split: option.split sum.split)
qed

text \<open>
  The matching hits in the part of a leg's ranking that the budget reaches. The equality filters
  always hold; the extra filter of the lexical leg counts when it is switched on or equality filters
  are given, that of the dense leg when it is switched on.
\<close>

definition lexical_reach ::
  "('l, 'd) hybrid_index \<Rightarrow> hybrid_query_input \<Rightarrow> usize \<Rightarrow> bool \<Rightarrow> (json \<Rightarrow> bool) \<Rightarrow> hit list" where
  "lexical_reach x input cb extra_active extra =
     filter (\<lambda>h. metadata_matches (hit_metadata h) (qi_filters input)
                 \<and> (extra_active \<or> qi_filters input \<noteq> [] \<longrightarrow> extra (hit_metadata h)))
       (take (query_budget input cb) (ranking_by lexical_fetch (x, qi_text input)))"

definition dense_reach ::
  "('l, 'd) hybrid_index \<Rightarrow> hybrid_query_input \<Rightarrow> usize \<Rightarrow> bool \<Rightarrow> (json \<Rightarrow> bool) \<Rightarrow> hit list" where
  "dense_reach x input cb extra_active extra =
     filter (\<lambda>h. extra_active \<longrightarrow> extra (hit_metadata h))
       (take (query_budget input cb) (ranking_by dense_fetch (x, qi_embedding input, qi_filters input)))"

text \<open>Too few matches in reach, because the ranking ended or because the budget did.\<close>

definition leg_ended :: "usize \<Rightarrow> usize \<Rightarrow> hit list \<Rightarrow> hit list \<Rightarrow> bool" where
  "leg_ended limit budget ranking reach \<longleftrightarrow> length reach < limit \<and> length ranking < budget"

definition leg_cut :: "usize \<Rightarrow> usize \<Rightarrow> hit list \<Rightarrow> hit list \<Rightarrow> bool" where
  "leg_cut limit budget ranking reach \<longleftrightarrow> length reach < limit \<and> budget \<le> length ranking"

text \<open>
  C26: over legs whose windows are prefixes of a ranking, a hybrid query with any equality filters,
  and an extra filter or none, fuses the first matching
  hits of the parts of the two rankings the budget reaches; it examines no more than the budget; it
  is partial exactly when it under-delivers and a leg with too few matches was cut by the budget, and
  complete otherwise; it is exhausted exactly when it under-delivers and both rankings were seen to
  their end.
\<close>

theorem hybrid_query_complete:
  assumes "lawful_leg lexical_fetch (x, qi_text input)"
    and "lawful_leg dense_fetch (x, qi_embedding input, qi_filters input)"
    and "0 < qi_limit input" "qi_limit input \<le> u64_max" "cb \<le> u64_max"
  shows "\<exists>r. query_hybrid_filtered x input cb extra_active extra = Some (Inr r)
    \<and> qr_hits r = fu_fuse (hx_fusion x) (rerank (take (qi_limit input) (lexical_reach x input cb extra_active extra)))
        (rerank (take (qi_limit input) (dense_reach x input cb extra_active extra))) (qi_limit input)
    \<and> qr_examined_count r \<le> query_budget input cb
    \<and> ro_completeness (qr_outcome r) =
        (if length (qr_hits r) < qi_limit input
            \<and> (leg_cut (qi_limit input) (query_budget input cb)
                 (ranking_by lexical_fetch (x, qi_text input)) (lexical_reach x input cb extra_active extra)
               \<or> leg_cut (qi_limit input) (query_budget input cb)
                 (ranking_by dense_fetch (x, qi_embedding input, qi_filters input)) (dense_reach x input cb extra_active extra))
         then Partial else Complete)
    \<and> (qr_exhausted r \<longleftrightarrow> length (qr_hits r) < qi_limit input
         \<and> leg_ended (qi_limit input) (query_budget input cb)
             (ranking_by lexical_fetch (x, qi_text input)) (lexical_reach x input cb extra_active extra)
         \<and> leg_ended (qi_limit input) (query_budget input cb)
             (ranking_by dense_fetch (x, qi_embedding input, qi_filters input)) (dense_reach x input cb extra_active extra))"
proof -
  let ?limit = "qi_limit input" and ?budget = "query_budget input cb"
  have b: "1 \<le> ?limit" "?limit \<le> ?budget" "?budget \<le> u64_max"
    using assms(3-5) by (auto simp: query_budget_def u64_max_def)
  let ?m = "\<lambda>h. metadata_matches (hit_metadata h) (qi_filters input) \<and> extra (hit_metadata h)"
  let ?f = "qi_filters input \<noteq> [] \<or> extra_active"
  have "lexical_leg.reachable_hits (x, qi_text input) ?f ?m ?budget = lexical_reach x input cb extra_active extra"
    by (cases "qi_filters input = []")
      (auto simp: lexical_leg.reachable_hits_def lexical_reach_def metadata_matches_def intro!: filter_cong)
  moreover have "dense_leg.reachable_hits (x, qi_embedding input, qi_filters input) extra_active
      (\<lambda>h. extra (hit_metadata h)) ?budget = dense_reach x input cb extra_active extra"
    by (simp add: dense_leg.reachable_hits_def dense_reach_def)
  ultimately have reach: "lexical_leg.reachable_hits (x, qi_text input) ?f ?m ?budget = lexical_reach x input cb extra_active extra"
    "dense_leg.reachable_hits (x, qi_embedding input, qi_filters input) extra_active
      (\<lambda>h. extra (hit_metadata h)) ?budget = dense_reach x input cb extra_active extra" by blast+
  from lexical_leg.refill_complete [OF assms(1) b, of ?f ?m ?limit]
  obtain l where l: "refill_loop (lexical_fetch (x, qi_text input)) ?f ?m ?limit ?budget ?limit = Some (Inr l)"
    "take ?limit (rf_hits l) = take ?limit (lexical_reach x input cb extra_active extra)" "rf_examined l \<le> ?budget"
    "rf_exhausted l = leg_ended ?limit ?budget (ranking_by lexical_fetch (x, qi_text input)) (lexical_reach x input cb extra_active extra)"
    "rf_saturated l = leg_cut ?limit ?budget (ranking_by lexical_fetch (x, qi_text input)) (lexical_reach x input cb extra_active extra)"
    unfolding reach leg_ended_def leg_cut_def by blast
  from dense_leg.refill_complete [OF assms(2) b, of extra_active "\<lambda>h. extra (hit_metadata h)" ?limit]
  obtain d where d: "refill_loop (dense_fetch (x, qi_embedding input, qi_filters input)) extra_active
      (\<lambda>h. extra (hit_metadata h)) ?limit ?budget ?limit = Some (Inr d)"
    "take ?limit (rf_hits d) = take ?limit (dense_reach x input cb extra_active extra)" "rf_examined d \<le> ?budget"
    "rf_exhausted d = leg_ended ?limit ?budget (ranking_by dense_fetch (x, qi_embedding input, qi_filters input)) (dense_reach x input cb extra_active extra)"
    "rf_saturated d = leg_cut ?limit ?budget (ranking_by dense_fetch (x, qi_embedding input, qi_filters input)) (dense_reach x input cb extra_active extra)"
    unfolding reach leg_ended_def leg_cut_def by blast
  have "query_hybrid_filtered x input cb extra_active extra = Some (Inr (assemble_result (hx_fusion x) ?limit l d))"
    using query_hybrid_eq [of input x cb extra_active extra] l(1) d(1) b(1) by simp
  then show ?thesis
    using l d by (auto simp: assemble_result_def Let_def executed_evidence_def from_evidence_def mark_partial_def)
qed


section \<open>What a query may return\<close>

text \<open>
  Metadata that satisfies a filter and whose object, if it is one, is a map. Merging keeps it, so the
  fused metadata of a chunk satisfies the filter both legs were held to.
\<close>

definition metadata_good :: "filter_set \<Rightarrow> json \<Rightarrow> bool" where
  "metadata_good filters v \<longleftrightarrow>
     metadata_matches v filters \<and> (case v of JObject m \<Rightarrow> bt_wf m | _ \<Rightarrow> True)"

lemma merge_good:
  assumes "metadata_good filters lexical" and "metadata_good filters existing"
  shows "metadata_good filters (merge_metadata_lexical_first lexical existing)"
proof (cases "\<exists>lm dm. lexical = JObject lm \<and> existing = JObject dm")
  case True
  then obtain lm dm where o: "lexical = JObject lm" "existing = JObject dm" by blast
  with assms have wf: "bt_wf lm" "bt_wf dm" by (simp_all add: metadata_good_def)
  have get: "json_get (merge_metadata_lexical_first lexical existing) k = json_get lexical k"
    if "json_get lexical k \<noteq> None" for k
    using that merged_get [OF wf, of k] by (auto simp: o)
  have "metadata_matches (merge_metadata_lexical_first lexical existing) filters"
    using assms(1) get by (force simp: metadata_good_def metadata_matches_def list_all_iff split: option.splits)
  moreover have "bt_wf (foldl (\<lambda>m (k, v). bt_insert k v m) dm lm)" by (rule foldl_insert_wf [OF wf(2)])
  ultimately show ?thesis by (simp add: metadata_good_def o merge_metadata_lexical_first_def)
next
  case False
  then have "merge_metadata_lexical_first lexical existing = lexical"
    by (auto simp: merge_metadata_lexical_first_def split: json.split)
  with assms(1) show ?thesis by simp
qed

lemma bt_get_value: "bt_get m k = Some v \<Longrightarrow> v \<in> set (bt_values m)"
  by (force simp: bt_values_def bt_get_def dest: map_of_SomeD)

lemma add_hit_metadata:
  assumes "\<And>e. e \<in> set (bt_values m) \<Longrightarrow> metadata_good filters (fh_metadata e)" "bt_wf m"
    and "metadata_good filters (hit_metadata h)" and "e \<in> set (bt_values (add_hit k lexical m h))"
  shows "metadata_good filters (fh_metadata e)"
proof -
  have "metadata_good filters (fh_metadata (case bt_get m (hit_chunk_id h) of
      None \<Rightarrow> \<lparr> fh_chunk_id = hit_chunk_id h, fh_score = f32_zero, fh_metadata = hit_metadata h \<rparr> | Some e \<Rightarrow> e))"
    using assms(1-3) by (auto intro: bt_get_value split: option.split)
  with assms show ?thesis
    by (auto simp: add_hit_def Let_def merge_good dest!: bt_values_insert [THEN subsetD])
qed

lemma add_hits_metadata:
  assumes "\<forall>e \<in> set (bt_values m). metadata_good filters (fh_metadata e)" "bt_wf m"
    and "\<forall>h \<in> set hs. metadata_good filters (hit_metadata h)"
  shows "(\<forall>e \<in> set (bt_values (foldl (add_hit k lexical) m hs)). metadata_good filters (fh_metadata e))
    \<and> bt_wf (foldl (add_hit k lexical) m hs)"
  using assms
proof (induction hs arbitrary: m)
  case (Cons h hs)
  have "bt_wf (add_hit k lexical m h)" using Cons.prems(2) by (simp add: add_hit_def Let_def bt_wf_insert)
  moreover have "\<forall>e \<in> set (bt_values (add_hit k lexical m h)). metadata_good filters (fh_metadata e)"
    using add_hit_metadata [of m filters h _ k lexical] Cons.prems by auto
  ultimately show ?case using Cons.IH [of "add_hit k lexical m h"] Cons.prems(3) by simp
qed simp

lemma rrf_fuse_metadata:
  assumes "\<forall>h \<in> set lxs \<union> set dns. metadata_good filters (hit_metadata h)"
    and "h \<in> set (rrf_fuse k lxs dns limit)"
  shows "metadata_good filters (hit_metadata h)" "hit_chunk_id h \<in> hit_chunk_id ` (set lxs \<union> set dns)"
proof -
  have dns: "(\<forall>e \<in> set (bt_values (foldl (add_hit k False) [] dns)). metadata_good filters (fh_metadata e))
      \<and> bt_wf (foldl (add_hit k False) [] dns)"
    by (rule add_hits_metadata) (use assms(1) in \<open>auto simp: bt_values_def\<close>)
  have all: "\<forall>e \<in> set (bt_values (fuse_map k lxs dns)). metadata_good filters (fh_metadata e)"
    unfolding fuse_map_def
    by (rule add_hits_metadata [THEN conjunct1]) (use assms(1) dns in auto)
  from assms(2) obtain h' where h': "h' \<in> set (sorted_hits k lxs dns)" "hit_metadata h = hit_metadata h'"
    "hit_chunk_id h = hit_chunk_id h'"
    by (auto simp: rrf_fuse_eq elim!: rerank_elem dest: in_set_takeD)
  then show "metadata_good filters (hit_metadata h)"
    using all by (auto simp: sorted_hits_def hit_of_fused_def)
  have "hit_chunk_id h' \<in> set (map hit_chunk_id (sorted_hits k lxs dns))" using h'(1) by simp
  then show "hit_chunk_id h \<in> hit_chunk_id ` (set lxs \<union> set dns)"
    unfolding sorted_hits_ids h'(3) by auto
qed

text \<open>A leg whose hits carry well-formed metadata, and satisfy the filters where it applies them.\<close>

definition leg_good :: "('q \<Rightarrow> usize \<Rightarrow> anyhow + hit list) \<Rightarrow> 'q \<Rightarrow> filter_set \<Rightarrow> bool" where
  "leg_good fetch q filters \<longleftrightarrow>
     (\<forall>w hs. fetch q w = Inr hs \<longrightarrow> list_all (\<lambda>h. metadata_good filters (hit_metadata h)) hs)"

text \<open>
  C27: every hit of a hybrid query fused by reciprocal rank satisfies the query's filters in the
  metadata it carries, names a chunk one of the legs returned, and, with an extra filter in force,
  that leg's metadata passed it; and no more hits than the limit are returned.
\<close>

theorem hybrid_hits_match:
  assumes "query_hybrid_filtered x input cb extra_active extra = Some (Inr r)"
    and "hx_fusion x = rrf_ops k"
    and "leg_good lexical_fetch (x, qi_text input) []"
    and "leg_good dense_fetch (x, qi_embedding input, qi_filters input) (qi_filters input)"
    and "h \<in> set (qr_hits r)"
  shows "metadata_matches (hit_metadata h) (qi_filters input)
    \<and> length (qr_hits r) \<le> qi_limit input
    \<and> (\<exists>w hs g. (lexical_fetch (x, qi_text input) w = Inr hs
          \<or> dense_fetch (x, qi_embedding input, qi_filters input) w = Inr hs)
        \<and> g \<in> set hs \<and> hit_chunk_id g = hit_chunk_id h \<and> (extra_active \<longrightarrow> extra (hit_metadata g)))"
proof -
  let ?limit = "qi_limit input" and ?fs = "qi_filters input"
  let ?m = "\<lambda>h. metadata_matches (hit_metadata h) ?fs \<and> extra (hit_metadata h)"
  have limit: "?limit \<noteq> 0"
  proof
    assume "?limit = 0"
    with assms(1) have "qr_hits r = []" by (auto simp: query_hybrid_zero)
    with assms(5) show False by simp
  qed
  from assms(1) obtain l d where
    l: "refill_loop (lexical_fetch (x, qi_text input)) (?fs \<noteq> [] \<or> extra_active) ?m
          ?limit (query_budget input cb) ?limit = Some (Inr l)"
    and d: "refill_loop (dense_fetch (x, qi_embedding input, ?fs)) extra_active (\<lambda>h. extra (hit_metadata h))
          ?limit (query_budget input cb) ?limit = Some (Inr d)"
    and r: "r = assemble_result (hx_fusion x) ?limit l d"
    unfolding query_hybrid_eq [OF limit] by (auto split: option.splits sum.splits)
  from refill_answered [OF l] obtain w raw where
    w: "lexical_fetch (x, qi_text input) w = Inr raw" "rf_hits l = (if ?fs \<noteq> [] \<or> extra_active then filter ?m raw else raw)"
    unfolding answered_def by blast
  from refill_answered [OF d] obtain v dense where
    v: "dense_fetch (x, qi_embedding input, ?fs) v = Inr dense"
      "rf_hits d = (if extra_active then filter (\<lambda>h. extra (hit_metadata h)) dense else dense)"
    unfolding answered_def by blast
  let ?L = "rerank (take ?limit (rf_hits l))" and ?D = "rerank (take ?limit (rf_hits d))"
  have good: "\<forall>h \<in> set ?L \<union> set ?D. metadata_good ?fs (hit_metadata h)"
  proof
    fix g assume "g \<in> set ?L \<union> set ?D"
    then obtain g' where g': "hit_metadata g = hit_metadata g'" "g' \<in> set (rf_hits l) \<union> set (rf_hits d)"
      by (auto elim!: rerank_elem dest: in_set_takeD)
    have lw: "metadata_good [] (hit_metadata q)" if "q \<in> set raw" for q
      using that w(1) assms(3) by (auto simp: leg_good_def list_all_iff)
    have dv: "metadata_good ?fs (hit_metadata q)" if "q \<in> set dense" for q
      using that v(1) assms(4) by (auto simp: leg_good_def list_all_iff)
    have grow: "metadata_good ?fs m" if "metadata_good [] m" "?fs \<noteq> [] \<Longrightarrow> metadata_matches m ?fs" for m
      using that by (cases "?fs = []") (simp_all add: metadata_good_def)
    from g'(2) show "metadata_good ?fs (hit_metadata g)"
    proof
      assume "g' \<in> set (rf_hits l)"
      then show ?thesis unfolding g'(1) using w(2) by (intro grow lw) (auto split: if_splits)
    next
      assume "g' \<in> set (rf_hits d)"
      then show ?thesis unfolding g'(1) using v(2) by (intro dv) (auto split: if_splits)
    qed
  qed
  have h: "h \<in> set (rrf_fuse k ?L ?D ?limit)"
    using assms(2,5) by (simp add: r assemble_result_def Let_def rrf_ops_def)
  from rrf_fuse_metadata(2) [OF good h] obtain g where "hit_chunk_id g = hit_chunk_id h" "g \<in> set ?L \<union> set ?D" by auto
  then obtain g' where g': "hit_chunk_id g' = hit_chunk_id h" "g' \<in> set (rf_hits l) \<union> set (rf_hits d)"
    by (auto elim!: rerank_elem dest: in_set_takeD)
  have "\<exists>w hs g. (lexical_fetch (x, qi_text input) w = Inr hs \<or> dense_fetch (x, qi_embedding input, ?fs) w = Inr hs)
        \<and> g \<in> set hs \<and> hit_chunk_id g = hit_chunk_id h \<and> (extra_active \<longrightarrow> extra (hit_metadata g))"
  proof (cases "g' \<in> set (rf_hits l)")
    case True
    with w g'(1) show ?thesis by (intro exI [of _ w] exI [of _ raw] exI [of _ g']) (auto split: if_splits)
  next
    case False
    with v g' show ?thesis by (intro exI [of _ v] exI [of _ dense] exI [of _ g']) (auto split: if_splits)
  qed
  moreover have "length (qr_hits r) \<le> ?limit"
    using assms(2) by (simp add: r assemble_result_def Let_def rrf_ops_def rrf_fuse_eq)
  ultimately show ?thesis
    using rrf_fuse_metadata(1) [OF good h] by (simp add: metadata_good_def)
qed


section \<open>Generations\<close>

text \<open>What a manifest must agree on with the adapters, the fusion, the embedder and the corpus.\<close>

definition generation_bound ::
  "(string \<Rightarrow> string) \<Rightarrow> manifest \<Rightarrow> ('l, 'd) hybrid_index \<Rightarrow> string option \<Rightarrow> bool" where
  "generation_bound source_hash_blake3 m x observed \<longleftrightarrow>
     mn_schema_version m = supported_schema_version
     \<and> mn_dense_kind m = dn_kind (hx_dense_ops x) \<and> mn_dense_count m = dn_count (hx_dense_ops x) (hx_dense x)
     \<and> mn_embedder_dim m = dn_dim (hx_dense_ops x) (hx_dense x)
     \<and> mn_lexical_commit_id m = lx_commit_id (hx_lexical_ops x) (hx_lexical x)
     \<and> mn_lexical_doc_count m = lx_doc_count (hx_lexical_ops x) (hx_lexical x)
     \<and> mn_fusion_algorithm m = fu_name (hx_fusion x)
     \<and> hx_fingerprint x = \<lparr> ef_model = mn_embedder_model m, ef_url_hash = mn_embedder_url_hash m,
          ef_dim = mn_embedder_dim m, ef_distance = mn_embedder_distance m \<rparr>
     \<and> (\<forall>s \<in> set_option observed. source_hash_blake3 s = mn_source_hash_blake3 m)"

lemma validate_bindings_iff:
  "validate_bindings source_hash_blake3 m x observed = Inr ()
     \<longleftrightarrow> generation_bound source_hash_blake3 m x observed"
  by (cases "hx_fingerprint x"; cases observed)
    (auto simp: validate_bindings_def generation_bound_def validate_against_ok binding_of_def Let_def)

text \<open>
  C31: loading succeeds exactly for a manifest that can be read and agrees with the dense index, the
  lexical index, the fusion, the embedder and, when the caller observed the corpus, its hash; it then
  serves that manifest, and the refresh check is the same one without the corpus hash.
\<close>

theorem load_from_manifest_iff:
  "(load_from_manifest source_hash_blake3 read_manifest x observed = Inr y \<longleftrightarrow>
     (\<exists>m. read_manifest = Inr m \<and> generation_bound source_hash_blake3 m x observed
        \<and> y = x\<lparr>hx_manifest := Some m\<rparr>))
   \<and> (validate_live_bindings_for_refresh source_hash_blake3 m x = Inr ()
        \<longleftrightarrow> generation_bound source_hash_blake3 m x None)"
  unfolding validate_bindings_iff [symmetric] validate_live_bindings_for_refresh_def load_from_manifest_def
  by (auto simp: res_simps)

text \<open>
  C28: a generation that was built and committed loads again in a process that opens the same lexical
  and dense artifacts with the same embedder and fusion, whoever wrote it, as long as the corpus
  still has the hash it was built from; for a corpus with another hash, loading refuses with the two
  hashes. The manifest counts the lexical chunks and what the two indexes hold.
\<close>

theorem generation_roundtrip:
  assumes "hybrid_build source_hash_blake3 st x lexical_chunks dense_chunks source_hash = (x1, Inr ())"
    and "hybrid_commit write st' x1 = (x2, Inr m)"
    and "dn_dim (hx_dense_ops x1) (hx_dense x1) = ef_dim (hx_fingerprint x1)"
  shows "load_from_manifest source_hash_blake3 (Inr m)
      (set_writer_identity (x2\<lparr>hx_manifest := None\<rparr>) version build) (Some observed) =
        (if source_hash_blake3 observed = source_hash_blake3 source_hash
         then Inr ((set_writer_identity (x2\<lparr>hx_manifest := None\<rparr>) version build)\<lparr>hx_manifest := Some m\<rparr>)
         else Inl (Typed (SourceHashDrift (source_hash_blake3 source_hash) (source_hash_blake3 observed))))
    \<and> mn_source_chunk_count m = length lexical_chunks
    \<and> mn_dense_count m = dn_count (hx_dense_ops x2) (hx_dense x2)
    \<and> mn_lexical_doc_count m = lx_doc_count (hx_lexical_ops x2) (hx_lexical x2)
    \<and> hx_manifest x2 = Some m"
proof -
  from assms(1) obtain prior where prior: "hx_manifest x1 = Some prior"
    "mn_schema_version prior = ''2.0''" "mn_source_hash_blake3 prior = source_hash_blake3 source_hash"
    "mn_source_chunk_count prior = length lexical_chunks"
    by (auto simp: hybrid_build_def split: prod.splits sum.splits)
  with assms(2) have x2: "x2 = x1\<lparr>hx_manifest := Some m\<rparr>" "m = committed_manifest st' x1 prior"
    by (auto simp: hybrid_commit_def Let_def res_simps)
  show ?thesis
    using assms(3) prior(2-4) unfolding x2(1)
    by (simp add: x2(2) committed_manifest_def load_from_manifest_def validate_bindings_def Let_def
      set_writer_identity_def validate_against_def supported_schema_version_def map_err_def)
qed


section \<open>Samples\<close>

text \<open>
  A lexical index for witnesses: its state is the ranking it answers from and a commit id. The dense
  index is the in-memory one.
\<close>

definition sample_lexical :: "hit list lexical_ops" where
  "sample_lexical =
     \<lparr> lx_schema_version = ''v1'', lx_build = (\<lambda>l cs. (l, Inr ''c'')), lx_insert = (\<lambda>l c. (l, Inr ())),
       lx_query = (\<lambda>l q. Inr (take (lq_limit q) l)), lx_commit_id = (\<lambda>l. ''c''), lx_doc_count = length \<rparr>"

definition sample_hybrid :: "(hit list, brute_force) hybrid_index" where
  "sample_hybrid =
     \<lparr> hx_lexical = [sample_hit ''a'' 0, sample_hit ''b'' 1], hx_dense = bf_new 1,
       hx_lexical_ops = sample_lexical, hx_dense_ops = brute_force_ops id, hx_fusion = rrf_ops 60,
       hx_manifest = None, hx_fingerprint = fingerprint_from_hash ''m'' ''u'' 1 ''cosine'',
       hx_writer_version = ''v'', hx_build_id = ''b'' \<rparr>"

definition sample_query :: hybrid_query_input where
  "sample_query = \<lparr> qi_text = ''q'', qi_embedding = [f32_one], qi_filters = [], qi_limit = 2 \<rparr>"

lemma sample_lawful:
  "lawful_leg lexical_fetch (sample_hybrid, qi_text sample_query)"
  "lawful_leg dense_fetch (sample_hybrid, qi_embedding sample_query, qi_filters sample_query)"
  by (simp_all add: lawful_leg_def ranking_by_def lexical_fetch_def dense_fetch_def sample_hybrid_def
    sample_lexical_def sample_query_def brute_force_ops_def bf_query_def bf_new_def bf_scored_def
    sort_scored_def u64_max_def require_def)

lemma sample_good:
  "leg_good lexical_fetch (sample_hybrid, qi_text sample_query) []"
  "leg_good dense_fetch (sample_hybrid, qi_embedding sample_query, qi_filters sample_query) (qi_filters sample_query)"
  using sample_lawful
  by (auto simp: leg_good_def lawful_leg_def list_all_iff ranking_by_def lexical_fetch_def dense_fetch_def
    sample_hybrid_def sample_lexical_def sample_query_def sample_hit_def brute_force_ops_def bf_query_def
    bf_new_def bf_scored_def sort_scored_def require_def metadata_good_def metadata_matches_def
    dest!: in_set_takeD)

lemma sample_limit: "0 < qi_limit sample_query" "qi_limit sample_query \<le> u64_max" "64 \<le> u64_max"
  by (simp_all add: sample_query_def u64_max_def)

lemma hybrid_query_returns_witness:
  "\<exists>r. query_hybrid_filtered sample_hybrid sample_query 64 False (\<lambda>_. True) = Some r"
  using sample_limit by (intro hybrid_query_returns)

text \<open>The sample index with a hit that has a field, and a query for that field without an extra filter.\<close>

definition tagged_hybrid :: "(hit list, brute_force) hybrid_index" where
  "tagged_hybrid = sample_hybrid
     \<lparr>hx_lexical := [sample_hit ''a'' 0, (sample_hit ''b'' 1)\<lparr>hit_metadata := JObject [(''kind'', JNull)]\<rparr>]\<rparr>"

definition tagged_query :: hybrid_query_input where
  "tagged_query = sample_query\<lparr>qi_filters := [(''kind'', JNull)]\<rparr>"

lemma tagged_lawful:
  "lawful_leg lexical_fetch (tagged_hybrid, qi_text tagged_query)"
  "lawful_leg dense_fetch (tagged_hybrid, qi_embedding tagged_query, qi_filters tagged_query)"
  by (simp_all add: lawful_leg_def ranking_by_def lexical_fetch_def dense_fetch_def tagged_hybrid_def
    sample_hybrid_def tagged_query_def sample_lexical_def sample_query_def brute_force_ops_def bf_query_def
    bf_new_def bf_scored_def sort_scored_def u64_max_def require_def)

lemma hybrid_query_complete_witness:
  "\<exists>r. query_hybrid_filtered tagged_hybrid tagged_query 64 False (\<lambda>_. True) = Some (Inr r)
    \<and> qr_hits r = fu_fuse (rrf_ops 60) (rerank [(sample_hit ''b'' 1)\<lparr>hit_metadata := JObject [(''kind'', JNull)]\<rparr>])
        (rerank (take 2 (dense_reach tagged_hybrid tagged_query 64 False (\<lambda>_. True)))) 2"
proof -
  have "lexical_reach tagged_hybrid tagged_query 64 False (\<lambda>_. True)
      = [(sample_hit ''b'' 1)\<lparr>hit_metadata := JObject [(''kind'', JNull)]\<rparr>]"
    by (simp add: lexical_reach_def ranking_by_def lexical_fetch_def tagged_hybrid_def sample_hybrid_def
      tagged_query_def sample_lexical_def sample_query_def sample_hit_def query_budget_def u64_max_def
      metadata_matches_def json_get_def bt_get_def)
  then show ?thesis
    using hybrid_query_complete [OF tagged_lawful, of 64 False "\<lambda>_. True"] sample_limit
    by (auto simp: tagged_hybrid_def sample_hybrid_def tagged_query_def sample_query_def)
qed

lemma sample_answer:
  "query_hybrid_filtered sample_hybrid sample_query 64 False (\<lambda>_. True) = Some (Inr
     (assemble_result (rrf_ops 60) 2
       \<lparr> rf_hits = [sample_hit ''a'' 0, sample_hit ''b'' 1], rf_examined = 2, rf_exhausted = False, rf_saturated = False \<rparr>
       \<lparr> rf_hits = [], rf_examined = 0, rf_exhausted = True, rf_saturated = False \<rparr>))"
proof -
  have limit: "qi_limit sample_query \<noteq> 0" by (simp add: sample_query_def)
  show ?thesis
    unfolding query_hybrid_eq [OF limit]
    by (simp add: refill_loop.simps [of "lexical_fetch q" for q] refill_loop.simps [of "dense_fetch q" for q]
      lexical_fetch_def dense_fetch_def sample_hybrid_def sample_lexical_def sample_query_def
      brute_force_ops_def bf_query_def bf_new_def bf_scored_def sort_scored_def require_def query_budget_def numeral_2_eq_2)
qed

lemma hybrid_hits_match_witness:
  "\<exists>r h. query_hybrid_filtered sample_hybrid sample_query 64 False (\<lambda>_. True) = Some (Inr r)
    \<and> h \<in> set (qr_hits r) \<and> metadata_matches (hit_metadata h) []
    \<and> (\<exists>w hs g. (lexical_fetch (sample_hybrid, qi_text sample_query) w = Inr hs
          \<or> dense_fetch (sample_hybrid, qi_embedding sample_query, qi_filters sample_query) w = Inr hs)
        \<and> g \<in> set hs \<and> hit_chunk_id g = hit_chunk_id h)"
proof -
  let ?l = "\<lparr> rf_hits = [sample_hit ''a'' 0, sample_hit ''b'' 1], rf_examined = 2, rf_exhausted = False, rf_saturated = False \<rparr>"
  let ?d = "\<lparr> rf_hits = [], rf_examined = 0, rf_exhausted = True, rf_saturated = False \<rparr>"
  let ?r = "assemble_result (rrf_ops 60) 2 ?l ?d"
  have "qr_hits ?r \<noteq> []"
  proof
    assume "qr_hits ?r = []"
    then have "sorted_hits 60 (rerank [sample_hit ''a'' 0, sample_hit ''b'' 1]) (rerank []) = []"
      by (simp add: assemble_result_def Let_def rrf_ops_def rrf_fuse_eq flip: length_0_conv)
    then show False
      using sorted_hits_ids(1) [of 60 "rerank [sample_hit ''a'' 0, sample_hit ''b'' 1]" "rerank []"]
      by (simp add: rerank_def)
  qed
  then obtain h where h: "h \<in> set (qr_hits ?r)" by (metis last_in_set)
  have k: "hx_fusion sample_hybrid = rrf_ops 60" by (simp add: sample_hybrid_def)
  show ?thesis
    using hybrid_hits_match [OF sample_answer k sample_good h] sample_answer h
    by (intro exI [of _ ?r] exI [of _ h]) (auto simp: metadata_matches_def)
qed

lemma generation_roundtrip_witness:
  "\<exists>(x2 :: (hit list, brute_force) hybrid_index) m. load_from_manifest id (Inr m) (set_writer_identity (x2\<lparr>hx_manifest := None\<rparr>) ''w'' ''z'') (Some ''other'')
     = Inl (Typed (SourceHashDrift ''corpus'' ''other'')) \<and> mn_source_chunk_count m = 0"
proof -
  let ?st = "\<lparr> st_started = 0, st_completed = 1, st_wall_seconds = 0, st_generation_id = ''g'' \<rparr>"
  obtain x1 where x1: "hybrid_build id ?st sample_hybrid [] [] ''corpus'' = (x1, Inr ())"
    "dn_dim (hx_dense_ops x1) (hx_dense x1) = ef_dim (hx_fingerprint x1)" "hx_manifest x1 \<noteq> None"
    by (simp add: hybrid_build_def sample_hybrid_def sample_lexical_def brute_force_ops_def bf_build_def
      bf_new_def fingerprint_from_hash_def)
  then obtain x2 m where "hybrid_commit (\<lambda>_. Inr ()) ?st x1 = (x2, Inr m)"
    by (auto simp: hybrid_commit_def Let_def)
  from generation_roundtrip [OF x1(1) this x1(2), of "''w''" "''z''" "''other''"]
  have "load_from_manifest id (Inr m) (set_writer_identity (x2\<lparr>hx_manifest := None\<rparr>) ''w'' ''z'') (Some ''other'')
     = Inl (Typed (SourceHashDrift ''corpus'' ''other'')) \<and> mn_source_chunk_count m = 0" by simp
  then show ?thesis by blast
qed

end
