(* ===== verification/Lock_System.thy ===== *)
theory Lock_System
  imports Prelude
begin

text \<open>
  The locks of one lock file (\<^verbatim>\<open>src/locks.rs\<close>): every process keeps a readers-writer
  state for its own threads, behind a reference-counted entry of a registry, and takes the
  operating system's advisory lock on top. An acquisition opens the file, enters the registry,
  waits for the local state, tries the system lock, writes the holder record and ends with a handle.
  An acquisition that fails, at any of these points, and a dropped handle give everything back in
  the order the code does, the file descriptor last; one that fails on the holder record has the
  system lock already and gives it up only by closing the file. The
  operating system is a record of three operations. Several processes and threads interleave these
  steps; a process that dies is one whose steps stop coming, or come as drops.
\<close>

section \<open>One process\<close>

datatype lock_mode = LockShared | LockExclusive

definition mode_label :: "lock_mode \<Rightarrow> string" where
  "mode_label m = (case m of LockShared \<Rightarrow> ''shared'' | LockExclusive \<Rightarrow> ''exclusive'')"

record local_state =
  lc_readers :: usize
  lc_writer :: bool

definition local_default :: local_state where
  "local_default = \<lparr> lc_readers = 0, lc_writer = False \<rparr>"

definition can_acquire :: "lock_mode \<Rightarrow> local_state \<Rightarrow> bool" where
  "can_acquire m s =
     (case m of
        LockShared \<Rightarrow> \<not> lc_writer s
      | LockExclusive \<Rightarrow> \<not> lc_writer s \<and> lc_readers s = 0)"

definition local_take :: "lock_mode \<Rightarrow> local_state \<Rightarrow> local_state" where
  "local_take m s =
     (case m of
        LockShared \<Rightarrow> s\<lparr>lc_readers := lc_readers s + 1\<rparr>
      | LockExclusive \<Rightarrow> s\<lparr>lc_writer := True\<rparr>)"

text \<open>\<^verbatim>\<open>Drop for LocalGuard\<close>; subtraction of counters saturates at zero.\<close>

definition local_release :: "lock_mode \<Rightarrow> local_state \<Rightarrow> local_state" where
  "local_release m s =
     (case m of
        LockShared \<Rightarrow> s\<lparr>lc_readers := lc_readers s - 1\<rparr>
      | LockExclusive \<Rightarrow> s\<lparr>lc_writer := False\<rparr>)"

text \<open>A registry entry: the state and how many acquirers and guards still refer to it.\<close>

record local_lock =
  ll_state :: local_state
  ll_strong :: nat

text \<open>An entry nobody refers to is forgotten, and the next acquirer makes a fresh one.\<close>

definition local_enter :: "local_lock \<Rightarrow> local_lock" where
  "local_enter l =
     (if ll_strong l > 0 then l\<lparr>ll_strong := ll_strong l + 1\<rparr>
      else \<lparr> ll_state = local_default, ll_strong = 1 \<rparr>)"

section \<open>The system\<close>

type_synonym pid = nat
type_synonym hid = nat

record 'os os_ops =
  os_try :: "'os \<Rightarrow> pid \<Rightarrow> hid \<Rightarrow> lock_mode \<Rightarrow> 'os option"
  os_unlock :: "'os \<Rightarrow> pid \<Rightarrow> hid \<Rightarrow> 'os"
  os_close :: "'os \<Rightarrow> pid \<Rightarrow> hid \<Rightarrow> 'os"

text \<open>
  How far an acquisition has come: the file is open; the registry entry is referred to and the local
  state waited for; the local guard is held and the system lock tried; the system lock was granted
  and the holder record is being written; the handle was returned; the guard is given back and only
  the descriptor is still open.
\<close>

datatype stage = Opened | Waiting | Guarded | Granted | Held | Closing

record acquirer =
  aq_pid :: pid
  aq_mode :: lock_mode
  aq_stage :: stage

record 'os lock_system =
  sy_acquirers :: "hid \<rightharpoonup> acquirer"
  sy_local :: "pid \<Rightarrow> local_lock"
  sy_os :: 'os

definition lock_init :: "'os \<Rightarrow> 'os lock_system" where
  "lock_init os = \<lparr> sy_acquirers = Map.empty,
     sy_local = (\<lambda>p. \<lparr> ll_state = local_default, ll_strong = 0 \<rparr>), sy_os = os \<rparr>"

datatype lock_action =
    OpenFile hid pid lock_mode
  | EnterLocal hid
  | TakeLocal hid
  | LocalTimeout hid
  | TryOs hid
  | OsTimeout hid
  | OsError hid
  | WriteHolder hid
  | HolderFails hid
  | DropHandle hid
  | CloseFile hid

definition set_stage :: "hid \<Rightarrow> acquirer \<Rightarrow> stage \<Rightarrow> 'os lock_system \<Rightarrow> 'os lock_system" where
  "set_stage h a st s = s\<lparr>sy_acquirers := (sy_acquirers s)(h \<mapsto> a\<lparr>aq_stage := st\<rparr>)\<rparr>"

definition set_local :: "pid \<Rightarrow> local_lock \<Rightarrow> 'os lock_system \<Rightarrow> 'os lock_system" where
  "set_local p l s = s\<lparr>sy_local := (sy_local s)(p := l)\<rparr>"

text \<open>Dropping a guard: release the state, wake waiters, give up the reference.\<close>

definition drop_guard :: "lock_mode \<Rightarrow> local_lock \<Rightarrow> local_lock" where
  "drop_guard m l = \<lparr> ll_state = local_release m (ll_state l), ll_strong = ll_strong l - 1 \<rparr>"

text \<open>
  One step of the acquisition or the drop \<open>h\<close>, when it is at that point. \<open>OsError\<close>: the
  system call failed for another reason than a lock in the way, or the timeout handler did.
  \<open>HolderFails\<close>: only an exclusive acquisition writes a holder record; when that fails, the
  early return drops the local guard and then the file, without unlocking.
\<close>

definition at_stage :: "'os lock_system \<Rightarrow> hid \<Rightarrow> stage \<Rightarrow> (acquirer \<Rightarrow> 'os lock_system option) \<Rightarrow> 'os lock_system option" where
  "at_stage s h st k =
     (case sy_acquirers s h of
        None \<Rightarrow> None
      | Some a \<Rightarrow> (if aq_stage a = st then k a else None))"

fun lock_do :: "'os os_ops \<Rightarrow> lock_action \<Rightarrow> 'os lock_system \<Rightarrow> 'os lock_system option" where
  "lock_do os (OpenFile h p m) s =
     (if sy_acquirers s h = None
      then Some (s\<lparr>sy_acquirers := (sy_acquirers s)(h \<mapsto> \<lparr> aq_pid = p, aq_mode = m, aq_stage = Opened \<rparr>)\<rparr>)
      else None)"
| "lock_do os (EnterLocal h) s = at_stage s h Opened (\<lambda>a.
     Some (set_stage h a Waiting (set_local (aq_pid a) (local_enter (sy_local s (aq_pid a))) s)))"
| "lock_do os (TakeLocal h) s = at_stage s h Waiting (\<lambda>a.
     let l = sy_local s (aq_pid a) in
     if can_acquire (aq_mode a) (ll_state l)
     then Some (set_stage h a Guarded (set_local (aq_pid a) (l\<lparr>ll_state := local_take (aq_mode a) (ll_state l)\<rparr>) s))
     else None)"
| "lock_do os (LocalTimeout h) s = at_stage s h Waiting (\<lambda>a.
     let l = sy_local s (aq_pid a) in
     if can_acquire (aq_mode a) (ll_state l) then None
     else Some (set_stage h a Closing (set_local (aq_pid a) (l\<lparr>ll_strong := ll_strong l - 1\<rparr>) s)))"
| "lock_do os (TryOs h) s = at_stage s h Guarded (\<lambda>a.
     case os_try os (sy_os s) (aq_pid a) h (aq_mode a) of
       None \<Rightarrow> None
     | Some t \<Rightarrow> Some (set_stage h a Granted (s\<lparr>sy_os := t\<rparr>)))"
| "lock_do os (OsTimeout h) s = at_stage s h Guarded (\<lambda>a.
     case os_try os (sy_os s) (aq_pid a) h (aq_mode a) of
       None \<Rightarrow> Some (set_stage h a Closing
         (set_local (aq_pid a) (drop_guard (aq_mode a) (sy_local s (aq_pid a))) s))
     | Some t \<Rightarrow> None)"
| "lock_do os (OsError h) s = at_stage s h Guarded (\<lambda>a.
     Some (set_stage h a Closing (set_local (aq_pid a) (drop_guard (aq_mode a) (sy_local s (aq_pid a))) s)))"
| "lock_do os (WriteHolder h) s = at_stage s h Granted (\<lambda>a. Some (set_stage h a Held s))"
| "lock_do os (HolderFails h) s = at_stage s h Granted (\<lambda>a.
     if aq_mode a = LockExclusive
     then Some (set_stage h a Closing (set_local (aq_pid a) (drop_guard (aq_mode a) (sy_local s (aq_pid a))) s))
     else None)"
| "lock_do os (DropHandle h) s = at_stage s h Held (\<lambda>a.
     Some (set_stage h a Closing
       (set_local (aq_pid a) (drop_guard (aq_mode a) (sy_local s (aq_pid a)))
         (s\<lparr>sy_os := os_unlock os (sy_os s) (aq_pid a) h\<rparr>))))"
| "lock_do os (CloseFile h) s = at_stage s h Closing (\<lambda>a.
     Some (s\<lparr>sy_acquirers := (sy_acquirers s)(h := None), sy_os := os_close os (sy_os s) (aq_pid a) h\<rparr>))"

text \<open>The interleavings: any enabled step of any acquisition.\<close>

inductive lock_step :: "'os os_ops \<Rightarrow> 'os lock_system \<Rightarrow> 'os lock_system \<Rightarrow> bool" for os where
  act: "lock_do os a s = Some s' \<Longrightarrow> lock_step os s s'"

text \<open>The states reachable through states that all satisfy a condition on the use of the locks.\<close>

inductive reachable :: "'os os_ops \<Rightarrow> 'os \<Rightarrow> ('os lock_system \<Rightarrow> bool) \<Rightarrow> 'os lock_system \<Rightarrow> bool"
  for os start P where
  init: "reachable os start P (lock_init start)"
| step: "reachable os start P s \<Longrightarrow> lock_step os s s' \<Longrightarrow> P s' \<Longrightarrow> reachable os start P s'"

inductive_cases lock_stepE [elim]: "lock_step os s s'"


section \<open>The local invariant\<close>

definition members :: "(acquirer \<Rightarrow> bool) \<Rightarrow> 'os lock_system \<Rightarrow> hid set" where
  "members P s = {h. \<exists>a. sy_acquirers s h = Some a \<and> P a}"

text \<open>Who refers to a process's registry entry, and who holds a local guard in a mode.\<close>

definition refers :: "pid \<Rightarrow> acquirer \<Rightarrow> bool" where
  "refers p a \<longleftrightarrow> aq_pid a = p \<and> aq_stage a \<in> {Waiting, Guarded, Granted, Held}"

definition guards :: "pid \<Rightarrow> lock_mode \<Rightarrow> acquirer \<Rightarrow> bool" where
  "guards p m a \<longleftrightarrow> aq_pid a = p \<and> aq_mode a = m \<and> aq_stage a \<in> {Guarded, Granted, Held}"

definition local_ok :: "'os lock_system \<Rightarrow> pid \<Rightarrow> bool" where
  "local_ok s p \<longleftrightarrow>
     ll_strong (sy_local s p) = card (members (refers p) s)
     \<and> lc_readers (ll_state (sy_local s p)) = card (members (guards p LockShared) s)
     \<and> (lc_writer (ll_state (sy_local s p)) \<longleftrightarrow> members (guards p LockExclusive) s \<noteq> {})
     \<and> card (members (guards p LockExclusive) s) \<le> 1
     \<and> (members (guards p LockExclusive) s = {} \<or> members (guards p LockShared) s = {})"

definition system_ok :: "'os lock_system \<Rightarrow> bool" where
  "system_ok s \<longleftrightarrow> finite (dom (sy_acquirers s)) \<and> (\<forall>p. local_ok s p)"

lemma members_finite [simp]: "finite (dom (sy_acquirers s)) \<Longrightarrow> finite (members P s)"
  by (rule finite_subset [of _ "dom (sy_acquirers s)"]) (auto simp: members_def)

lemma members_at: "sy_acquirers s h = Some a \<Longrightarrow> h \<in> members P s \<longleftrightarrow> P a"
  by (simp add: members_def)

lemma members_absent: "sy_acquirers s h = None \<Longrightarrow> h \<notin> members P s"
  by (simp add: members_def)

lemma members_upd:
  "members P (s\<lparr>sy_acquirers := (sy_acquirers s)(h \<mapsto> a)\<rparr>) =
     (if P a then insert h (members P s) else members P s - {h})"
  by (auto simp: members_def)

lemma members_del: "members P (s\<lparr>sy_acquirers := (sy_acquirers s)(h := None)\<rparr>) = members P s - {h}"
  by (auto simp: members_def)

lemma members_set_stage:
  "members P (set_stage h a st s) =
     (if P (a\<lparr>aq_stage := st\<rparr>) then insert h (members P s) else members P s - {h})"
  by (simp add: set_stage_def members_upd)

lemma members_frame [simp]:
  "members P (set_local p l s) = members P s" "members P (s\<lparr>sy_os := t\<rparr>) = members P s"
  by (simp_all add: members_def set_local_def)

lemma set_frame [simp]:
  "sy_local (set_stage h a st s) = sy_local s" "sy_os (set_stage h a st s) = sy_os s"
  "sy_local (set_local p l s) = (sy_local s)(p := l)" "sy_os (set_local p l s) = sy_os s"
  "sy_acquirers (set_local p l s) = sy_acquirers s"
  "sy_acquirers (set_stage h a st s) = (sy_acquirers s)(h \<mapsto> a\<lparr>aq_stage := st\<rparr>)"
  by (simp_all add: set_stage_def set_local_def)

lemma at_stage_Some:
  "at_stage s h st k = Some s' \<longleftrightarrow> (\<exists>a. sy_acquirers s h = Some a \<and> aq_stage a = st \<and> k a = Some s')"
  by (auto simp: at_stage_def split: option.split)

lemmas local_defs = refers_def guards_def local_ok_def

text \<open>What each step does to one process: an acquirer moves between the sets.\<close>

lemma drop_guard_ok:
  assumes ok: "local_ok s p" and fin: "finite (dom (sy_acquirers s))"
    and a: "sy_acquirers s h = Some a" "aq_stage a \<in> {Guarded, Granted, Held}"
  shows "local_ok (set_stage h a Closing (set_local (aq_pid a) (drop_guard (aq_mode a) (sy_local s (aq_pid a)))
      (s\<lparr>sy_os := t\<rparr>))) p"
proof (cases "aq_pid a = p")
  case True
  note at = members_at [OF a(1), of "refers p"] members_at [OF a(1), of "guards p LockShared"]
    members_at [OF a(1), of "guards p LockExclusive"]
  show ?thesis
  proof (cases "aq_mode a")
    case LockShared
    then show ?thesis
      using ok fin at a(2) True
      by (auto simp: local_defs members_set_stage drop_guard_def local_release_def)
  next
    case LockExclusive
    then have "members (guards p LockExclusive) s = {h}"
      using ok fin at a(2) True by (auto simp: local_defs card_le_Suc0_iff_eq)
    then show ?thesis
      using ok fin at a(2) True LockExclusive
      by (auto simp: local_defs members_set_stage drop_guard_def local_release_def)
  qed
next
  case False
  then show ?thesis using ok by (auto simp: local_defs members_set_stage members_at [OF a(1)])
qed

lemma drop_guard_same:
  assumes "local_ok s p" and "finite (dom (sy_acquirers s))"
    and "sy_acquirers s h = Some a" "aq_stage a \<in> {Guarded, Granted, Held}"
  shows "local_ok (set_stage h a Closing (set_local (aq_pid a) (drop_guard (aq_mode a) (sy_local s (aq_pid a))) s)) p"
proof -
  have "s\<lparr>sy_os := sy_os s\<rparr> = s" by simp
  then show ?thesis using drop_guard_ok [OF assms, of "sy_os s"] by simp
qed

lemma local_ok_step:
  assumes ok: "local_ok s p" and fin: "finite (dom (sy_acquirers s))" and step: "lock_do os act s = Some s'"
  shows "local_ok s' p"
proof (cases act)
  case (OpenFile h q m)
  with step ok show ?thesis
    by (auto simp: local_defs members_upd members_absent split: if_splits)
next
  case (EnterLocal h)
  with step obtain a where a: "sy_acquirers s h = Some a" "aq_stage a = Opened"
    "s' = set_stage h a Waiting (set_local (aq_pid a) (local_enter (sy_local s (aq_pid a))) s)"
    by (auto simp: at_stage_Some)
  have empty: "members (guards p m) s = {}" if "members (refers p) s = {}" for m
    using that by (auto simp: members_def refers_def guards_def)
  show ?thesis
    using ok fin a(2) empty [of LockShared] empty [of LockExclusive] members_at [OF a(1), of "refers p"]
      members_at [OF a(1), of "guards p LockShared"] members_at [OF a(1), of "guards p LockExclusive"]
    by (auto simp: a(3) local_defs members_set_stage local_enter_def local_default_def)
next
  case (TakeLocal h)
  with step obtain a where a: "sy_acquirers s h = Some a" "aq_stage a = Waiting"
    "can_acquire (aq_mode a) (ll_state (sy_local s (aq_pid a)))"
    "s' = set_stage h a Guarded (set_local (aq_pid a)
      ((sy_local s (aq_pid a))\<lparr>ll_state := local_take (aq_mode a) (ll_state (sy_local s (aq_pid a)))\<rparr>) s)"
    by (auto simp: at_stage_Some Let_def split: if_splits)
  show ?thesis
    using ok fin a(2,3) members_at [OF a(1), of "refers p"]
      members_at [OF a(1), of "guards p LockShared"] members_at [OF a(1), of "guards p LockExclusive"]
    by (cases "aq_mode a")
      (auto simp: a(4) local_defs members_set_stage can_acquire_def local_take_def insert_absorb)
next
  case (LocalTimeout h)
  with step obtain a where a: "sy_acquirers s h = Some a" "aq_stage a = Waiting"
    "s' = set_stage h a Closing (set_local (aq_pid a)
      ((sy_local s (aq_pid a))\<lparr>ll_strong := ll_strong (sy_local s (aq_pid a)) - 1\<rparr>) s)"
    by (auto simp: at_stage_Some Let_def split: if_splits)
  show ?thesis
    using ok fin a(2) members_at [OF a(1), of "refers p"]
      members_at [OF a(1), of "guards p LockShared"] members_at [OF a(1), of "guards p LockExclusive"]
    by (auto simp: a(3) local_defs members_set_stage)
next
  case (TryOs h)
  with step obtain a t where a: "sy_acquirers s h = Some a" "aq_stage a = Guarded"
    "s' = set_stage h a Granted (s\<lparr>sy_os := t\<rparr>)"
    by (auto simp: at_stage_Some split: option.splits)
  show ?thesis
    using ok fin a(2) members_at [OF a(1), of "refers p"]
      members_at [OF a(1), of "guards p LockShared"] members_at [OF a(1), of "guards p LockExclusive"]
    by (auto simp: a(3) local_defs members_set_stage insert_absorb)
next
  case (OsTimeout h)
  with step obtain a where a: "sy_acquirers s h = Some a" "aq_stage a = Guarded"
    "s' = set_stage h a Closing (set_local (aq_pid a) (drop_guard (aq_mode a) (sy_local s (aq_pid a))) s)"
    by (auto simp: at_stage_Some split: option.splits)
  show ?thesis
    using drop_guard_same [OF ok fin a(1)] a(2) by (simp add: a(3))
next
  case (OsError h)
  with step obtain a where a: "sy_acquirers s h = Some a" "aq_stage a = Guarded"
    "s' = set_stage h a Closing (set_local (aq_pid a) (drop_guard (aq_mode a) (sy_local s (aq_pid a))) s)"
    by (auto simp: at_stage_Some)
  show ?thesis
    using drop_guard_same [OF ok fin a(1)] a(2) by (simp add: a(3))
next
  case (WriteHolder h)
  with step obtain a where a: "sy_acquirers s h = Some a" "aq_stage a = Granted" "s' = set_stage h a Held s"
    by (auto simp: at_stage_Some)
  show ?thesis
    using ok fin a(2) members_at [OF a(1), of "refers p"]
      members_at [OF a(1), of "guards p LockShared"] members_at [OF a(1), of "guards p LockExclusive"]
    by (auto simp: a(3) local_defs members_set_stage insert_absorb)
next
  case (HolderFails h)
  with step obtain a where a: "sy_acquirers s h = Some a" "aq_stage a = Granted"
    "s' = set_stage h a Closing (set_local (aq_pid a) (drop_guard (aq_mode a) (sy_local s (aq_pid a))) s)"
    by (auto simp: at_stage_Some split: if_splits)
  show ?thesis
    using drop_guard_same [OF ok fin a(1)] a(2) by (simp add: a(3))
next
  case (DropHandle h)
  with step obtain a t where a: "sy_acquirers s h = Some a" "aq_stage a = Held"
    "s' = set_stage h a Closing (set_local (aq_pid a) (drop_guard (aq_mode a) (sy_local s (aq_pid a))) (s\<lparr>sy_os := t\<rparr>))"
    by (auto simp: at_stage_Some)
  show ?thesis
    using drop_guard_ok [OF ok fin a(1)] a(2) by (simp add: a(3))
next
  case (CloseFile h)
  with step obtain a t where a: "sy_acquirers s h = Some a" "aq_stage a = Closing"
    "s' = s\<lparr>sy_acquirers := (sy_acquirers s)(h := None), sy_os := t\<rparr>"
    by (auto simp: at_stage_Some)
  have mem: "members P s' = members P s - {h}" for P by (auto simp: a(3) members_def)
  show ?thesis
    using ok a(2) members_at [OF a(1), of "refers p"]
      members_at [OF a(1), of "guards p LockShared"] members_at [OF a(1), of "guards p LockExclusive"]
    by (simp add: local_ok_def mem refers_def guards_def) (simp add: a(3))
qed

lemma finite_step:
  assumes "finite (dom (sy_acquirers s))" and "lock_do os act s = Some s'"
  shows "finite (dom (sy_acquirers s'))"
  using assms by (cases act) (auto simp: at_stage_Some Let_def split: if_splits option.splits)

lemma system_ok_step: "system_ok s \<Longrightarrow> lock_do os act s = Some s' \<Longrightarrow> system_ok s'"
  unfolding system_ok_def using local_ok_step finite_step by metis

lemma reachable_ok: "reachable os start P s \<Longrightarrow> system_ok s"
proof (induction rule: reachable.induct)
  case init
  show ?case by (simp add: lock_init_def system_ok_def local_ok_def members_def local_default_def)
next
  case (step s s')
  then show ?case using system_ok_step by blast
qed

section \<open>Runs\<close>

fun lock_run :: "'os os_ops \<Rightarrow> lock_action list \<Rightarrow> 'os lock_system \<Rightarrow> 'os lock_system option" where
  "lock_run os [] s = Some s"
| "lock_run os (act # acts) s =
     (case lock_do os act s of None \<Rightarrow> None | Some s' \<Rightarrow> lock_run os acts s')"

lemma lock_run_reachable:
  assumes "reachable os start (\<lambda>_. True) s" and "lock_run os acts s = Some s'"
  shows "reachable os start (\<lambda>_. True) s'"
  using assms
proof (induction acts arbitrary: s)
  case (Cons act acts)
  then obtain t where t: "lock_do os act s = Some t" "lock_run os acts t = Some s'"
    by (auto split: option.splits)
  have "reachable os start (\<lambda>_. True) t"
    using reachable.step [OF Cons.prems(1) lock_step.act [OF t(1)]] by simp
  from Cons.IH [OF this t(2)] show ?case .
qed simp

lemma lock_run_append:
  "lock_run os (xs @ ys) s = (case lock_run os xs s of None \<Rightarrow> None | Some t \<Rightarrow> lock_run os ys t)"
  by (induction xs arbitrary: s) (auto split: option.splits)

text \<open>The acquisition an action belongs to.\<close>

fun lock_hid :: "lock_action \<Rightarrow> hid" where
  "lock_hid (OpenFile h p m) = h"
| "lock_hid (EnterLocal h) = h"
| "lock_hid (TakeLocal h) = h"
| "lock_hid (LocalTimeout h) = h"
| "lock_hid (TryOs h) = h"
| "lock_hid (OsTimeout h) = h"
| "lock_hid (OsError h) = h"
| "lock_hid (WriteHolder h) = h"
| "lock_hid (HolderFails h) = h"
| "lock_hid (DropHandle h) = h"
| "lock_hid (CloseFile h) = h"

text \<open>Any acquisition can be brought to its end, wherever it is, without the others moving.\<close>

definition finishes :: "'os os_ops \<Rightarrow> hid \<Rightarrow> 'os lock_system \<Rightarrow> bool" where
  "finishes os h s \<longleftrightarrow>
     (\<exists>acts s'. list_all (\<lambda>act. lock_hid act = h) acts \<and> lock_run os acts s = Some s'
        \<and> sy_acquirers s' = (sy_acquirers s)(h := None))"

lemma finishes_step:
  assumes "lock_do os act s = Some t" and "finishes os h t"
    and "(sy_acquirers t)(h := None) = (sy_acquirers s)(h := None)" and "lock_hid act = h"
  shows "finishes os h s"
proof -
  from assms(2) obtain acts s' where "list_all (\<lambda>act. lock_hid act = h) acts"
    "lock_run os acts t = Some s'" "sy_acquirers s' = (sy_acquirers t)(h := None)"
    by (auto simp: finishes_def)
  with assms(1,3,4) show ?thesis
    unfolding finishes_def by (intro exI [of _ "act # acts"] exI [of _ s']) simp
qed

lemma finishes_closing:
  assumes "sy_acquirers s h = Some a" "aq_stage a = Closing"
  shows "finishes os h s"
  unfolding finishes_def using assms by (intro exI [of _ "[CloseFile h]"]) (simp add: at_stage_def)

lemma finishes_held:
  assumes "sy_acquirers s h = Some a" "aq_stage a = Held"
  shows "finishes os h s"
proof -
  let ?t = "set_stage h a Closing (set_local (aq_pid a) (drop_guard (aq_mode a) (sy_local s (aq_pid a)))
    (s\<lparr>sy_os := os_unlock os (sy_os s) (aq_pid a) h\<rparr>))"
  have "lock_do os (DropHandle h) s = Some ?t" using assms by (simp add: at_stage_def)
  moreover have "finishes os h ?t" by (rule finishes_closing [of _ _ "a\<lparr>aq_stage := Closing\<rparr>"]) simp_all
  ultimately show ?thesis by (rule finishes_step) simp_all
qed

lemma finishes_granted:
  assumes "sy_acquirers s h = Some a" "aq_stage a = Granted"
  shows "finishes os h s"
proof -
  let ?t = "set_stage h a Held s"
  have "lock_do os (WriteHolder h) s = Some ?t" using assms by (simp add: at_stage_def)
  moreover have "finishes os h ?t" by (rule finishes_held [of _ _ "a\<lparr>aq_stage := Held\<rparr>"]) simp_all
  ultimately show ?thesis by (rule finishes_step) simp_all
qed

lemma finishes_guarded:
  assumes "sy_acquirers s h = Some a" "aq_stage a = Guarded"
  shows "finishes os h s"
proof (cases "os_try os (sy_os s) (aq_pid a) h (aq_mode a)")
  case None
  let ?t = "set_stage h a Closing (set_local (aq_pid a) (drop_guard (aq_mode a) (sy_local s (aq_pid a))) s)"
  have "lock_do os (OsTimeout h) s = Some ?t" using assms None by (simp add: at_stage_def)
  moreover have "finishes os h ?t" by (rule finishes_closing [of _ _ "a\<lparr>aq_stage := Closing\<rparr>"]) simp_all
  ultimately show ?thesis by (rule finishes_step) simp_all
next
  case (Some t)
  let ?t = "set_stage h a Granted (s\<lparr>sy_os := t\<rparr>)"
  have "lock_do os (TryOs h) s = Some ?t" using assms Some by (simp add: at_stage_def)
  moreover have "finishes os h ?t" by (rule finishes_granted [of _ _ "a\<lparr>aq_stage := Granted\<rparr>"]) simp_all
  ultimately show ?thesis by (rule finishes_step) simp_all
qed

lemma finishes_waiting:
  assumes "sy_acquirers s h = Some a" "aq_stage a = Waiting"
  shows "finishes os h s"
proof (cases "can_acquire (aq_mode a) (ll_state (sy_local s (aq_pid a)))")
  case True
  let ?l = "sy_local s (aq_pid a)"
  let ?t = "set_stage h a Guarded (set_local (aq_pid a) (?l\<lparr>ll_state := local_take (aq_mode a) (ll_state ?l)\<rparr>) s)"
  have "lock_do os (TakeLocal h) s = Some ?t" using assms True by (simp add: at_stage_def Let_def)
  moreover have "finishes os h ?t" by (rule finishes_guarded [of _ _ "a\<lparr>aq_stage := Guarded\<rparr>"]) simp_all
  ultimately show ?thesis by (rule finishes_step) simp_all
next
  case False
  let ?l = "sy_local s (aq_pid a)"
  let ?t = "set_stage h a Closing (set_local (aq_pid a) (?l\<lparr>ll_strong := ll_strong ?l - 1\<rparr>) s)"
  have "lock_do os (LocalTimeout h) s = Some ?t" using assms False by (simp add: at_stage_def Let_def)
  moreover have "finishes os h ?t" by (rule finishes_closing [of _ _ "a\<lparr>aq_stage := Closing\<rparr>"]) simp_all
  ultimately show ?thesis by (rule finishes_step) simp_all
qed

lemma finishes_any:
  assumes "sy_acquirers s h = Some a"
  shows "finishes os h s"
proof (cases "aq_stage a")
  case Opened
  let ?t = "set_stage h a Waiting (set_local (aq_pid a) (local_enter (sy_local s (aq_pid a))) s)"
  have "lock_do os (EnterLocal h) s = Some ?t" using assms Opened by (simp add: at_stage_def)
  moreover have "finishes os h ?t" by (rule finishes_waiting [of _ _ "a\<lparr>aq_stage := Waiting\<rparr>"]) simp_all
  ultimately show ?thesis by (rule finishes_step) simp_all
qed (use assms finishes_waiting finishes_guarded finishes_granted finishes_held finishes_closing in blast)+

text \<open>So all acquisitions but one can be brought to their end while that one stays where it is.\<close>

lemma drains:
  assumes "finite (dom (sy_acquirers s))"
  shows "\<exists>acts s'. list_all (\<lambda>act. lock_hid act \<noteq> w) acts \<and> lock_run os acts s = Some s'
    \<and> sy_acquirers s' = sy_acquirers s |` {w}"
  using assms
proof (induction "card (dom (sy_acquirers s) - {w})" arbitrary: s)
  case 0
  then have "dom (sy_acquirers s) \<subseteq> {w}" by auto
  then have "sy_acquirers s = sy_acquirers s |` {w}"
    by (metis inf.absorb_iff1 map_le_antisym map_le_def restrict_in restrict_map_def domIff subset_iff dom_restrict)
  then show ?case by (intro exI [of _ "[]"] exI [of _ s]) simp
next
  case (Suc n)
  from Suc.hyps(2) have "dom (sy_acquirers s) - {w} \<noteq> {}" by (metis card.empty nat.distinct(1))
  then obtain h a where h: "sy_acquirers s h = Some a" "h \<noteq> w" by blast
  from finishes_any [OF h(1)] obtain acts t where t: "list_all (\<lambda>act. lock_hid act = h) acts"
    "lock_run os acts s = Some t" "sy_acquirers t = (sy_acquirers s)(h := None)" unfolding finishes_def by blast
  have "dom (sy_acquirers t) - {w} = dom (sy_acquirers s) - {w} - {h}" by (auto simp: t(3) split: if_splits)
  moreover have "h \<in> dom (sy_acquirers s) - {w}" using h by auto
  ultimately have "n = card (dom (sy_acquirers t) - {w})" "finite (dom (sy_acquirers t))"
    using Suc.hyps(2) Suc.prems by (simp_all add: t(3) card_Diff_singleton_if)
  from Suc.hyps(1) [OF this] obtain acts' s' where s': "list_all (\<lambda>act. lock_hid act \<noteq> w) acts'"
    "lock_run os acts' t = Some s'" "sy_acquirers s' = sy_acquirers t |` {w}" by blast
  have "list_all (\<lambda>act. lock_hid act \<noteq> w) (acts @ acts')" using t(1) s'(1) h(2) by (auto simp: list_all_iff)
  moreover have "lock_run os (acts @ acts') s = Some s'" using t(2) s'(2) by (simp add: lock_run_append)
  moreover have "sy_acquirers s' = sy_acquirers s |` {w}"
    using h(2) by (simp add: s'(3) t(3) fun_eq_iff restrict_map_def)
  ultimately show ?case by blast
qed

section \<open>The system lock\<close>

definition conflicts :: "lock_mode \<Rightarrow> lock_mode \<Rightarrow> bool" where
  "conflicts m m' \<longleftrightarrow> m = LockExclusive \<or> m' = LockExclusive"

text \<open>
  What the code relies on: a lock belongs to an owner, at most one per owner, owners never hold
  conflicting locks, unlocking or closing gives up the owner's lock, and a lock nobody else stands
  in the way of is granted.
\<close>

locale owned_locks =
  fixes os :: "'os os_ops" and start :: 'os
    and owned :: "'os \<Rightarrow> nat \<Rightarrow> lock_mode option" and owner :: "pid \<Rightarrow> hid \<Rightarrow> nat"
  assumes start_free: "owned start i = None"
    and try_owned: "os_try os t p h m = Some t' \<Longrightarrow> owned t' = (owned t)(owner p h \<mapsto> m)"
    and try_excludes: "os_try os t p h m = Some t' \<Longrightarrow> i \<noteq> owner p h \<Longrightarrow> owned t i = Some m' \<Longrightarrow> \<not> conflicts m m'"
    and try_granted: "(\<And>i. owned t i = None) \<Longrightarrow> os_try os t p h m \<noteq> None"
    and unlock_owned: "owned (os_unlock os t p h) = (owned t)(owner p h := None)"
    and close_owned: "owned (os_close os t p h) = (owned t)(owner p h := None)"
begin

definition owner_of :: "hid \<Rightarrow> acquirer \<Rightarrow> nat" where
  "owner_of h a = owner (aq_pid a) h"

definition distinct_owners :: "'os lock_system \<Rightarrow> bool" where
  "distinct_owners s \<longleftrightarrow> (\<forall>h h' a a'. sy_acquirers s h = Some a \<longrightarrow> sy_acquirers s h' = Some a' \<longrightarrow>
     owner_of h a = owner_of h' a' \<longrightarrow> h = h')"

text \<open>
  The table never holds conflicting locks, and every lock in it belongs to an acquisition that was
  granted one and has not closed its file.
\<close>

definition keeps_lock :: "acquirer \<Rightarrow> bool" where
  "keeps_lock a \<longleftrightarrow> aq_stage a \<in> {Granted, Held, Closing}"

definition table_ok :: "'os lock_system \<Rightarrow> bool" where
  "table_ok s \<longleftrightarrow>
     (\<forall>i j m m'. owned (sy_os s) i = Some m \<longrightarrow> owned (sy_os s) j = Some m' \<longrightarrow> i \<noteq> j \<longrightarrow> \<not> conflicts m m')
     \<and> (\<forall>i m. owned (sy_os s) i = Some m \<longrightarrow>
          (\<exists>h a. sy_acquirers s h = Some a \<and> keeps_lock a \<and> owner_of h a = i))"

definition held_ok :: "'os lock_system \<Rightarrow> bool" where
  "held_ok s \<longleftrightarrow> (\<forall>h a. sy_acquirers s h = Some a \<longrightarrow> aq_stage a \<in> {Granted, Held} \<longrightarrow>
     owned (sy_os s) (owner_of h a) = Some (aq_mode a))"

lemma conflicts_sym: "conflicts m m' = conflicts m' m"
  by (auto simp: conflicts_def)

text \<open>
  A step that gives the lock of an owner away, leaves the other locks and keeps every other
  acquisition that may have a lock keeps the table in order.
\<close>

lemma table_ok_less:
  assumes "table_ok s"
    and "owned (sy_os s') = (owned (sy_os s))(i := None)"
    and "\<And>h a. sy_acquirers s h = Some a \<Longrightarrow> keeps_lock a \<Longrightarrow> owner_of h a \<noteq> i \<Longrightarrow> sy_acquirers s' h = Some a"
  shows "table_ok s'"
  unfolding table_ok_def
proof (intro conjI allI impI)
  fix i' j m m'
  assume "owned (sy_os s') i' = Some m" "owned (sy_os s') j = Some m'" "i' \<noteq> j"
  then show "\<not> conflicts m m'"
    using assms(1) unfolding table_ok_def assms(2) by (metis fun_upd_apply option.distinct(1))
next
  fix j m assume "owned (sy_os s') j = Some m"
  then have "j \<noteq> i" "owned (sy_os s) j = Some m" by (auto simp: assms(2) split: if_splits)
  then obtain h a where "sy_acquirers s h = Some a" "keeps_lock a" "owner_of h a = j"
    using assms(1) unfolding table_ok_def by blast
  then show "\<exists>h a. sy_acquirers s' h = Some a \<and> keeps_lock a \<and> owner_of h a = j"
    using assms(3) \<open>j \<noteq> i\<close> by blast
qed

text \<open>So does a step that leaves all locks and lets no acquisition forget that it may have one.\<close>

lemma table_ok_same:
  assumes "table_ok s" and "sy_os s' = sy_os s"
    and "\<And>h a. sy_acquirers s h = Some a \<Longrightarrow> keeps_lock a \<Longrightarrow>
      \<exists>a'. sy_acquirers s' h = Some a' \<and> keeps_lock a' \<and> aq_pid a' = aq_pid a"
  shows "table_ok s'"
  using assms unfolding table_ok_def owner_of_def by metis

lemma table_ok_step:
  assumes ok: "table_ok s" and step: "lock_do os act s = Some s'"
  shows "table_ok s'"
proof (cases act)
  case (TryOs h)
  with step obtain a t where a: "sy_acquirers s h = Some a" "aq_stage a = Guarded"
    "os_try os (sy_os s) (aq_pid a) h (aq_mode a) = Some t" "s' = set_stage h a Granted (s\<lparr>sy_os := t\<rparr>)"
    by (auto simp: at_stage_Some split: option.splits)
  have t: "owned t = (owned (sy_os s))(owner_of h a \<mapsto> aq_mode a)"
    using try_owned [OF a(3)] by (simp add: owner_of_def)
  have new: "\<not> conflicts (aq_mode a) m'" if "i \<noteq> owner_of h a" "owned (sy_os s) i = Some m'" for i m'
    using try_excludes [OF a(3)] that by (simp add: owner_of_def)
  show ?thesis
    unfolding table_ok_def
  proof (intro conjI allI impI)
    fix i j m m'
    assume ij: "owned (sy_os s') i = Some m" "owned (sy_os s') j = Some m'" "i \<noteq> j"
    show "\<not> conflicts m m'"
    proof (cases "i = owner_of h a \<or> j = owner_of h a")
      case True
      with ij show ?thesis using new [of i m] new [of j m'] by (auto simp: a(4) t conflicts_def)
    next
      case False
      with ij have "owned (sy_os s) i = Some m" "owned (sy_os s) j = Some m'" by (simp_all add: a(4) t)
      with ok ij(3) show ?thesis unfolding table_ok_def by blast
    qed
  next
    fix i m assume i: "owned (sy_os s') i = Some m"
    show "\<exists>h a. sy_acquirers s' h = Some a \<and> keeps_lock a \<and> owner_of h a = i"
    proof (cases "i = owner_of h a")
      case True
      then show ?thesis by (intro exI [of _ h] exI [of _ "a\<lparr>aq_stage := Granted\<rparr>"]) (simp add: a(4) owner_of_def keeps_lock_def)
    next
      case False
      with i have "owned (sy_os s) i = Some m" by (simp add: a(4) t)
      then obtain h' a' where h': "sy_acquirers s h' = Some a'" "keeps_lock a'" "owner_of h' a' = i"
        using ok unfolding table_ok_def by blast
      with a(1,2) have "h' \<noteq> h" by (auto simp: keeps_lock_def)
      with h' show ?thesis by (intro exI [of _ h'] exI [of _ a']) (simp add: a(4))
    qed
  qed
next
  case (DropHandle h)
  with step obtain a where a: "sy_acquirers s h = Some a"
    "s' = set_stage h a Closing (set_local (aq_pid a) (drop_guard (aq_mode a) (sy_local s (aq_pid a)))
      (s\<lparr>sy_os := os_unlock os (sy_os s) (aq_pid a) h\<rparr>))"
    by (auto simp: at_stage_Some)
  show ?thesis
    by (rule table_ok_less [OF ok, of _ "owner_of h a"]) (use a in \<open>auto simp: unlock_owned owner_of_def\<close>)
next
  case (CloseFile h)
  with step obtain a where a: "sy_acquirers s h = Some a" "aq_stage a = Closing"
    "s' = s\<lparr>sy_acquirers := (sy_acquirers s)(h := None), sy_os := os_close os (sy_os s) (aq_pid a) h\<rparr>"
    by (auto simp: at_stage_Some)
  show ?thesis
    by (rule table_ok_less [OF ok, of _ "owner_of h a"]) (use a in \<open>auto simp: close_owned owner_of_def\<close>)
qed (use step in \<open>auto intro!: table_ok_same [OF ok] simp: at_stage_Some keeps_lock_def Let_def split: if_splits option.splits\<close>)

lemma held_ok_step:
  assumes ok: "held_ok s" and step: "lock_do os act s = Some s'"
    and distinct: "distinct_owners s"
  shows "held_ok s'"
proof (cases act)
  case (TryOs h)
  with step obtain a t where a: "sy_acquirers s h = Some a"
    "os_try os (sy_os s) (aq_pid a) h (aq_mode a) = Some t" "s' = set_stage h a Granted (s\<lparr>sy_os := t\<rparr>)"
    by (auto simp: at_stage_Some split: option.splits)
  have t: "owned t = (owned (sy_os s))(owner_of h a \<mapsto> aq_mode a)"
    using try_owned [OF a(2)] by (simp add: owner_of_def)
  have "owner_of h' a' \<noteq> owner_of h a" if "sy_acquirers s h' = Some a'" "h' \<noteq> h" for h' a'
    using distinct a(1) that unfolding distinct_owners_def by blast
  then show ?thesis
    using ok by (auto simp: held_ok_def a(3) t owner_of_def split: if_splits)
next
  case (DropHandle h)
  with step obtain a where a: "sy_acquirers s h = Some a"
    "s' = set_stage h a Closing (set_local (aq_pid a) (drop_guard (aq_mode a) (sy_local s (aq_pid a)))
      (s\<lparr>sy_os := os_unlock os (sy_os s) (aq_pid a) h\<rparr>))"
    by (auto simp: at_stage_Some)
  have "owner_of h' a' \<noteq> owner_of h a" if "sy_acquirers s h' = Some a'" "h' \<noteq> h" for h' a'
    using distinct a(1) that unfolding distinct_owners_def by blast
  then show ?thesis
    using ok by (auto simp: held_ok_def a(2) unlock_owned owner_of_def split: if_splits)
next
  case (CloseFile h)
  with step obtain a where a: "sy_acquirers s h = Some a"
    "s' = s\<lparr>sy_acquirers := (sy_acquirers s)(h := None), sy_os := os_close os (sy_os s) (aq_pid a) h\<rparr>"
    by (auto simp: at_stage_Some)
  have "owner_of h' a' \<noteq> owner_of h a" if "sy_acquirers s h' = Some a'" "h' \<noteq> h" for h' a'
    using distinct a(1) that unfolding distinct_owners_def by blast
  then show ?thesis
    using ok by (auto simp: held_ok_def a(2) close_owned owner_of_def split: if_splits)
qed (use ok step in \<open>auto simp: held_ok_def owner_of_def at_stage_Some Let_def split: if_splits option.splits\<close>)

lemma reachable_table_ok: "reachable os start P s \<Longrightarrow> table_ok s"
proof (induction rule: reachable.induct)
  case init
  show ?case by (simp add: table_ok_def lock_init_def start_free)
next
  case (step s s')
  then show ?case using table_ok_step by blast
qed

lemma reachable_held_ok:
  assumes "\<And>s. P s \<Longrightarrow> distinct_owners s"
  shows "reachable os start P s \<Longrightarrow> held_ok s \<and> distinct_owners s"
proof (induction rule: reachable.induct)
  case init
  show ?case by (simp add: held_ok_def distinct_owners_def lock_init_def)
next
  case (step s s')
  then show ?case using held_ok_step assms by blast
qed

text \<open>Handles of different owners never conflict.\<close>

lemma held_exclusion:
  assumes "\<And>s. P s \<Longrightarrow> distinct_owners s" and "reachable os start P s"
    and "sy_acquirers s h = Some a" "aq_stage a = Held"
    and "sy_acquirers s h' = Some a'" "aq_stage a' = Held" and "h \<noteq> h'"
  shows "\<not> conflicts (aq_mode a) (aq_mode a')"
proof -
  have ok: "held_ok s" "distinct_owners s" using reachable_held_ok [OF assms(1,2)] by simp_all
  then have "owner_of h a \<noteq> owner_of h' a'"
    using assms(3,5,7) unfolding distinct_owners_def by blast
  moreover have "owned (sy_os s) (owner_of h a) = Some (aq_mode a)"
    "owned (sy_os s) (owner_of h' a') = Some (aq_mode a')"
    using ok(1) assms(3-6) unfolding held_ok_def by auto
  ultimately show ?thesis
    using reachable_table_ok [OF assms(2)] unfolding table_ok_def by blast
qed

text \<open>When nobody but an acquisition that waits for the local state is left, no lock is.\<close>

lemma alone_free:
  assumes "reachable os start P s" and alone: "\<forall>h a. sy_acquirers s h = Some a \<longrightarrow> aq_stage a = Waiting"
  shows "owned (sy_os s) i = None" and "can_acquire m (ll_state (sy_local s p))"
proof -
  show "owned (sy_os s) i = None"
  proof (rule ccontr)
    assume "owned (sy_os s) i \<noteq> None"
    then obtain m' where "owned (sy_os s) i = Some m'" by blast
    moreover have "\<forall>i m. owned (sy_os s) i = Some m \<longrightarrow>
        (\<exists>h a. sy_acquirers s h = Some a \<and> keeps_lock a \<and> owner_of h a = i)"
      using reachable_table_ok [OF assms(1)] by (simp add: table_ok_def)
    ultimately obtain h a where "sy_acquirers s h = Some a" "keeps_lock a" by meson
    with alone show False by (auto simp: keeps_lock_def)
  qed
  have none: "members (guards p m') s = {}" for m'
    using alone by (auto simp: members_def guards_def)
  show "can_acquire m (ll_state (sy_local s p))"
    using reachable_ok [OF assms(1)] none
    by (cases m) (simp_all add: system_ok_def local_ok_def can_acquire_def)
qed

text \<open>So that acquisition goes through, whatever its mode.\<close>

lemma waiter_acquires:
  assumes "reachable os start P s" and "sy_acquirers s = [w \<mapsto> a]" and "aq_stage a = Waiting"
  shows "\<exists>s'. lock_run os [TakeLocal w, TryOs w, WriteHolder w] s = Some s'
    \<and> sy_acquirers s' w = Some (a\<lparr>aq_stage := Held\<rparr>)"
proof -
  have only: "\<forall>h b. sy_acquirers s h = Some b \<longrightarrow> aq_stage b = Waiting"
    using assms(2,3) by (auto split: if_splits)
  note free = alone_free [OF assms(1) only]
  have "os_try os (sy_os s) (aq_pid a) w (aq_mode a) \<noteq> None" by (rule try_granted) (rule free(1))
  then obtain t where "os_try os (sy_os s) (aq_pid a) w (aq_mode a) = Some t" by blast
  then show ?thesis
    using free(2) [of "aq_mode a" "aq_pid a"] assms(2,3) by (simp add: at_stage_def Let_def)
qed

text \<open>When every acquisition is over, one of either mode by any process goes through.\<close>

lemma drained_acquire:
  assumes "reachable os start (\<lambda>_. True) s" and "sy_acquirers s = Map.empty"
  shows "\<exists>s'. lock_run os [OpenFile h p m, EnterLocal h, TakeLocal h, TryOs h, WriteHolder h] s = Some s'
    \<and> sy_acquirers s' h = Some \<lparr> aq_pid = p, aq_mode = m, aq_stage = Held \<rparr>"
proof -
  obtain t where t: "lock_run os [OpenFile h p m, EnterLocal h] s = Some t"
    "sy_acquirers t = [h \<mapsto> \<lparr> aq_pid = p, aq_mode = m, aq_stage = Waiting \<rparr>]"
    using assms(2) by (simp add: at_stage_def)
  obtain s' where s': "lock_run os [TakeLocal h, TryOs h, WriteHolder h] t = Some s'"
    "sy_acquirers s' h = Some \<lparr> aq_pid = p, aq_mode = m, aq_stage = Held \<rparr>"
    using waiter_acquires [OF lock_run_reachable [OF assms(1) t(1)] t(2)] by auto
  have "lock_run os ([OpenFile h p m, EnterLocal h] @ [TakeLocal h, TryOs h, WriteHolder h]) s = Some s'"
    unfolding lock_run_append t(1) using s'(1) by simp
  with s'(2) show ?thesis by auto
qed

end


section \<open>Two systems\<close>

text \<open>
  A table of owners and modes. On Unix (\<^verbatim>\<open>fcntl\<close>, \<^verbatim>\<open>F_SETLK\<close>) the owner is the
  process, and unlocking or closing any descriptor of the file gives up the process's lock; on
  Windows (\<^verbatim>\<open>LockFileEx\<close>) the owner is the open handle.
\<close>

type_synonym lock_table = "(nat \<times> lock_mode) list"

definition table_drop :: "nat \<Rightarrow> lock_table \<Rightarrow> lock_table" where
  "table_drop i t = filter (\<lambda>(j, m). j \<noteq> i) t"

definition table_ops :: "(pid \<Rightarrow> hid \<Rightarrow> nat) \<Rightarrow> lock_table os_ops" where
  "table_ops owner =
     \<lparr> os_try = (\<lambda>t p h m.
         if list_ex (\<lambda>(j, m'). j \<noteq> owner p h \<and> conflicts m m') t then None
         else Some ((owner p h, m) # table_drop (owner p h) t)),
       os_unlock = (\<lambda>t p h. table_drop (owner p h) t),
       os_close = (\<lambda>t p h. table_drop (owner p h) t) \<rparr>"

definition fcntl_ops :: "lock_table os_ops" where
  "fcntl_ops = table_ops (\<lambda>p h. p)"

definition handle_ops :: "lock_table os_ops" where
  "handle_ops = table_ops (\<lambda>p h. h)"

lemma map_of_table_drop: "map_of (table_drop i t) = (map_of t)(i := None)"
  by (induction t) (auto simp: table_drop_def fun_eq_iff)

lemma table_laws: "owned_locks (table_ops owner) [] map_of owner"
proof
  fix t p h m t' i m'
  assume t: "os_try (table_ops owner) t p h m = Some t'"
  then show "map_of t' = (map_of t)(owner p h \<mapsto> m)"
    by (auto simp: table_ops_def map_of_table_drop fun_eq_iff split: if_splits)
  assume "i \<noteq> owner p h" "map_of t i = Some m'"
  with t show "\<not> conflicts m m'"
    by (force simp: table_ops_def list_ex_iff dest: map_of_SomeD split: if_splits)
next
  fix t :: lock_table and p h m assume "\<And>i. map_of t i = None"
  then have "t = []" by (metis list.exhaust map_of_Cons_code(2) option.distinct(1) surj_pair)
  then show "os_try (table_ops owner) t p h m \<noteq> None" by (simp add: table_ops_def)
qed (simp_all add: table_ops_def map_of_table_drop)

interpretation tables: owned_locks "table_ops owner" "[]" map_of owner for owner
  by (rule table_laws)

interpretation fcntl: owned_locks fcntl_ops "[]" map_of "\<lambda>p h. p"
  unfolding fcntl_ops_def by (rule table_laws)

interpretation handles: owned_locks handle_ops "[]" map_of "\<lambda>p h. h"
  unfolding handle_ops_def by (rule table_laws)

section \<open>Exclusion\<close>

definition holding :: "'os lock_system \<Rightarrow> hid \<Rightarrow> acquirer \<Rightarrow> bool" where
  "holding s h a \<longleftrightarrow> sy_acquirers s h = Some a \<and> aq_stage a = Held"

text \<open>
  Whatever the operating system does, two threads of one process never hold conflicting handles
  at once: beside an exclusive handle a process holds no other.
\<close>

theorem local_exclusion:
  assumes "reachable os start P s" and "holding s h a" and "holding s h' a'"
    and "h \<noteq> h'" and "aq_pid a = aq_pid a'"
  shows "\<not> conflicts (aq_mode a) (aq_mode a')"
proof
  let ?p = "aq_pid a"
  have ok: "local_ok s ?p" and fin: "finite (dom (sy_acquirers s))"
    using reachable_ok [OF assms(1)] by (auto simp: system_ok_def)
  have in_g: "h \<in> members (guards ?p (aq_mode a)) s" "h' \<in> members (guards ?p (aq_mode a')) s"
    using assms(2,3,5) by (auto simp: holding_def members_def guards_def)
  assume "conflicts (aq_mode a) (aq_mode a')"
  then consider "aq_mode a = LockExclusive" "aq_mode a' = LockExclusive"
    | "aq_mode a = LockExclusive" "aq_mode a' = LockShared"
    | "aq_mode a = LockShared" "aq_mode a' = LockExclusive"
    by (cases "aq_mode a"; cases "aq_mode a'") (auto simp: conflicts_def)
  then show False
  proof cases
    case 1
    then show ?thesis
      using ok in_g assms(4) fin by (auto simp: local_ok_def card_le_Suc0_iff_eq)
  qed (use ok in_g in \<open>auto simp: local_ok_def\<close>)
qed

text \<open>
  Where the system lock belongs to the open handle, no two handles anywhere conflict: an
  exclusive handle is the only handle, and shared handles keep exclusive ones out.
\<close>

theorem handle_exclusion:
  assumes "reachable handle_ops [] P s" and "holding s h a" and "holding s h' a'" and "h \<noteq> h'"
  shows "\<not> conflicts (aq_mode a) (aq_mode a')"
proof -
  have "handles.distinct_owners s" for s
    by (simp add: handles.distinct_owners_def handles.owner_of_def)
  then show ?thesis
    using handles.held_exclusion [of P] assms by (auto simp: holding_def)
qed

text \<open>Every process has the lock file open at most once.\<close>

definition one_descriptor :: "'os lock_system \<Rightarrow> bool" where
  "one_descriptor s \<longleftrightarrow> (\<forall>h h' a a'. sy_acquirers s h = Some a \<longrightarrow> sy_acquirers s h' = Some a' \<longrightarrow>
     aq_pid a = aq_pid a' \<longrightarrow> h = h')"

text \<open>
  C33: where the system lock belongs to the process, as on Unix, handles exclude each other across
  processes as long as no process ever has the lock file open twice at the same time.
\<close>

theorem fcntl_exclusion:
  assumes "reachable fcntl_ops [] one_descriptor s" and "holding s h a" and "holding s h' a'" and "h \<noteq> h'"
  shows "\<not> conflicts (aq_mode a) (aq_mode a')"
proof -
  have "fcntl.distinct_owners s" if "one_descriptor s" for s
    using that by (simp add: fcntl.distinct_owners_def fcntl.owner_of_def one_descriptor_def)
  then show ?thesis
    using fcntl.held_exclusion [of one_descriptor] assms by (auto simp: holding_def)
qed

text \<open>
  With process-owned locks the one-descriptor condition is needed: a second thread that only
  times out on the local lock closes its descriptor, which gives up the lock its process holds, and
  another process takes an exclusive handle beside the first.
\<close>

theorem fcntl_exclusion_lost:
  "\<exists>s a a'. reachable fcntl_ops [] (\<lambda>_. True) s \<and> holding s 0 a \<and> holding s 2 a'
     \<and> aq_mode a = LockExclusive \<and> aq_mode a' = LockExclusive"
proof -
  let ?acts = "[OpenFile 0 1 LockExclusive, EnterLocal 0, TakeLocal 0, TryOs 0, WriteHolder 0,
    OpenFile 1 1 LockExclusive, EnterLocal 1, LocalTimeout 1, CloseFile 1,
    OpenFile 2 2 LockExclusive, EnterLocal 2, TakeLocal 2, TryOs 2, WriteHolder 2]"
  let ?a = "\<lparr> aq_pid = 1, aq_mode = LockExclusive, aq_stage = Held \<rparr>"
    and ?b = "\<lparr> aq_pid = 2, aq_mode = LockExclusive, aq_stage = Held \<rparr>"
  have "\<exists>s. lock_run fcntl_ops ?acts (lock_init []) = Some s \<and> holding s 0 ?a \<and> holding s 2 ?b"
    by (simp add: lock_init_def at_stage_def set_stage_def set_local_def local_enter_def local_default_def
      can_acquire_def local_take_def fcntl_ops_def table_ops_def table_drop_def holding_def)
  then show ?thesis
    using lock_run_reachable [OF reachable.init] by fastforce
qed


text \<open>
  C34: nothing a failed or dropped acquisition leaves behind keeps the lock, with locks owned
  by processes or by handles, in every reachable state: all acquisitions but one can be run to
  their end while that one does not move; however they ended, an acquisition that then waits alone
  for the local state gets the lock; and once nobody is left any process can take it in either mode.
\<close>

theorem locks_released:
  assumes "reachable (table_ops owner) [] (\<lambda>_. True) s"
  shows "(\<exists>acts s'. list_all (\<lambda>act. lock_hid act \<noteq> w) acts \<and> lock_run (table_ops owner) acts s = Some s'
      \<and> sy_acquirers s' = sy_acquirers s |` {w})
    \<and> (sy_acquirers s = [w \<mapsto> a] \<longrightarrow> aq_stage a = Waiting \<longrightarrow>
        (\<exists>s'. lock_run (table_ops owner) [TakeLocal w, TryOs w, WriteHolder w] s = Some s'
          \<and> holding s' w (a\<lparr>aq_stage := Held\<rparr>)))
    \<and> (sy_acquirers s = Map.empty \<longrightarrow>
        (\<exists>s'. lock_run (table_ops owner) [OpenFile w p m, EnterLocal w, TakeLocal w, TryOs w, WriteHolder w] s
            = Some s'
          \<and> holding s' w \<lparr> aq_pid = p, aq_mode = m, aq_stage = Held \<rparr>))"
proof (intro conjI impI)
  have "finite (dom (sy_acquirers s))" using reachable_ok [OF assms] by (simp add: system_ok_def)
  then show "\<exists>acts s'. list_all (\<lambda>act. lock_hid act \<noteq> w) acts \<and> lock_run (table_ops owner) acts s = Some s'
      \<and> sy_acquirers s' = sy_acquirers s |` {w}" by (rule drains)
next
  assume w: "sy_acquirers s = [w \<mapsto> a]" "aq_stage a = Waiting"
  from tables.waiter_acquires [OF assms w]
  show "\<exists>s'. lock_run (table_ops owner) [TakeLocal w, TryOs w, WriteHolder w] s = Some s'
      \<and> holding s' w (a\<lparr>aq_stage := Held\<rparr>)" by (simp add: holding_def)
next
  assume "sy_acquirers s = Map.empty"
  from tables.drained_acquire [OF assms this, of w p m]
  show "\<exists>s'. lock_run (table_ops owner) [OpenFile w p m, EnterLocal w, TakeLocal w, TryOs w, WriteHolder w] s = Some s'
      \<and> holding s' w \<lparr> aq_pid = p, aq_mode = m, aq_stage = Held \<rparr>" by (simp add: holding_def)
qed

text \<open>Two readers of one process, and the sequence that empties the system again.\<close>

definition two_readers :: "lock_action list" where
  "two_readers = [OpenFile 0 1 LockShared, EnterLocal 0, TakeLocal 0, TryOs 0, WriteHolder 0,
     OpenFile 1 1 LockShared, EnterLocal 1, TakeLocal 1, TryOs 1, WriteHolder 1]"

lemmas run_eval = lock_init_def at_stage_def set_stage_def set_local_def local_enter_def local_default_def
  can_acquire_def local_take_def fcntl_ops_def handle_ops_def table_ops_def table_drop_def holding_def
  two_readers_def conflicts_def

lemma two_readers_run:
  assumes "os = fcntl_ops \<or> os = handle_ops"
  shows "\<exists>s. reachable os [] (\<lambda>_. True) s
    \<and> holding s 0 \<lparr> aq_pid = 1, aq_mode = LockShared, aq_stage = Held \<rparr>
    \<and> holding s 1 \<lparr> aq_pid = 1, aq_mode = LockShared, aq_stage = Held \<rparr>"
proof -
  have "\<exists>s. lock_run os two_readers (lock_init []) = Some s
      \<and> holding s 0 \<lparr> aq_pid = 1, aq_mode = LockShared, aq_stage = Held \<rparr>
      \<and> holding s 1 \<lparr> aq_pid = 1, aq_mode = LockShared, aq_stage = Held \<rparr>"
    using assms by (elim disjE) (simp_all add: run_eval)
  then obtain s where s: "lock_run os two_readers (lock_init []) = Some s"
    "holding s 0 \<lparr> aq_pid = 1, aq_mode = LockShared, aq_stage = Held \<rparr>"
    "holding s 1 \<lparr> aq_pid = 1, aq_mode = LockShared, aq_stage = Held \<rparr>" by blast
  from lock_run_reachable [OF reachable.init s(1)] s(2,3) show ?thesis by blast
qed

lemma local_exclusion_witness:
  "\<exists>s a a'. reachable fcntl_ops [] (\<lambda>_. True) s \<and> holding s 0 a \<and> holding s 1 a'
     \<and> aq_pid a = aq_pid a' \<and> \<not> conflicts (aq_mode a) (aq_mode a')"
proof -
  obtain s where s: "reachable fcntl_ops [] (\<lambda>_. True) s"
    "holding s 0 \<lparr> aq_pid = 1, aq_mode = LockShared, aq_stage = Held \<rparr>"
    "holding s 1 \<lparr> aq_pid = 1, aq_mode = LockShared, aq_stage = Held \<rparr>"
    using two_readers_run [of fcntl_ops] by auto
  have "\<not> conflicts (aq_mode \<lparr> aq_pid = 1, aq_mode = LockShared, aq_stage = Held \<rparr>)
      (aq_mode \<lparr> aq_pid = 1, aq_mode = LockShared, aq_stage = Held \<rparr>)"
    by (rule local_exclusion [OF s]) simp_all
  with s show ?thesis
    by (intro exI [of _ s] exI [of _ "\<lparr> aq_pid = 1, aq_mode = LockShared, aq_stage = Held \<rparr>"]) simp
qed

lemma handle_exclusion_witness:
  "\<exists>s a a'. reachable handle_ops [] (\<lambda>_. True) s \<and> holding s 0 a \<and> holding s 1 a'
     \<and> \<not> conflicts (aq_mode a) (aq_mode a')"
proof -
  obtain s where s: "reachable handle_ops [] (\<lambda>_. True) s"
    "holding s 0 \<lparr> aq_pid = 1, aq_mode = LockShared, aq_stage = Held \<rparr>"
    "holding s 1 \<lparr> aq_pid = 1, aq_mode = LockShared, aq_stage = Held \<rparr>"
    using two_readers_run [of handle_ops] by auto
  have "\<not> conflicts (aq_mode \<lparr> aq_pid = 1, aq_mode = LockShared, aq_stage = Held \<rparr>)
      (aq_mode \<lparr> aq_pid = 1, aq_mode = LockShared, aq_stage = Held \<rparr>)"
    by (rule handle_exclusion [OF s]) simp
  with s show ?thesis
    by (intro exI [of _ s] exI [of _ "\<lparr> aq_pid = 1, aq_mode = LockShared, aq_stage = Held \<rparr>"]) simp
qed

text \<open>
  One thread holds the lock and another of the same process waits for it; the first one is dropped,
  or fails on its holder record.
\<close>

definition holder_and_waiter :: "lock_action list" where
  "holder_and_waiter = [OpenFile 0 1 LockExclusive, EnterLocal 0, TakeLocal 0, TryOs 0,
     OpenFile 1 1 LockExclusive, EnterLocal 1]"

lemma locks_released_witness:
  "\<exists>s s' acts. lock_run fcntl_ops (holder_and_waiter @ [HolderFails 0, CloseFile 0]) (lock_init []) = Some s
    \<and> lock_run fcntl_ops [TakeLocal 1, TryOs 1, WriteHolder 1] s = Some s'
    \<and> holding s' 1 \<lparr> aq_pid = 1, aq_mode = LockExclusive, aq_stage = Held \<rparr>"
proof -
  let ?a = "\<lparr> aq_pid = 1, aq_mode = LockExclusive, aq_stage = Waiting \<rparr>"
  obtain s where s: "lock_run fcntl_ops (holder_and_waiter @ [HolderFails 0, CloseFile 0]) (lock_init []) = Some s"
    "sy_acquirers s = [1 \<mapsto> ?a]"
    by (simp add: run_eval holder_and_waiter_def drop_guard_def local_release_def fun_eq_iff)
  have "reachable (table_ops (\<lambda>p h. p)) [] (\<lambda>_. True) s"
    using lock_run_reachable [OF reachable.init s(1)] by (simp add: fcntl_ops_def)
  from locks_released [OF this, of 1 ?a] s(2) obtain s' where
    "lock_run fcntl_ops [TakeLocal 1, TryOs 1, WriteHolder 1] s = Some s'" "holding s' 1 (?a\<lparr>aq_stage := Held\<rparr>)"
    by (auto simp: fcntl_ops_def)
  with s(1) show ?thesis by auto
qed

text \<open>Two processes that both read, with one descriptor each.\<close>

definition paired :: "'os lock_system \<Rightarrow> bool" where
  "paired s \<longleftrightarrow> (\<forall>h a. sy_acquirers s h = Some a \<longrightarrow> aq_pid a = Suc h)"

definition opens_paired :: "lock_action \<Rightarrow> bool" where
  "opens_paired act = (case act of OpenFile h p m \<Rightarrow> p = Suc h | _ \<Rightarrow> True)"

lemma paired_step: "paired s \<Longrightarrow> lock_do os act s = Some t \<Longrightarrow> opens_paired act \<Longrightarrow> paired t"
  by (cases act) (auto simp: paired_def opens_paired_def at_stage_Some Let_def split: if_splits option.splits)

lemma paired_run:
  assumes "reachable os start one_descriptor s" "paired s"
    and "list_all opens_paired acts" "lock_run os acts s = Some t"
  shows "reachable os start one_descriptor t"
  using assms
proof (induction acts arbitrary: s)
  case (Cons act acts)
  then obtain u where u: "lock_do os act s = Some u" "lock_run os acts u = Some t"
    by (auto split: option.splits)
  have p: "paired u" using paired_step [OF Cons.prems(2) u(1)] Cons.prems(3) by simp
  then have "one_descriptor u" by (auto simp: paired_def one_descriptor_def)
  from Cons.IH [OF reachable.step [OF Cons.prems(1) lock_step.act [OF u(1)] this] p _ u(2)] Cons.prems(3)
  show ?case by simp
qed simp

lemma fcntl_exclusion_witness:
  "\<exists>s a a'. reachable fcntl_ops [] one_descriptor s \<and> holding s 0 a \<and> holding s 1 a'
     \<and> aq_pid a \<noteq> aq_pid a' \<and> \<not> conflicts (aq_mode a) (aq_mode a')"
proof -
  let ?acts = "[OpenFile 0 1 LockShared, EnterLocal 0, TakeLocal 0, TryOs 0, WriteHolder 0,
    OpenFile 1 2 LockShared, EnterLocal 1, TakeLocal 1, TryOs 1, WriteHolder 1]"
  let ?a = "\<lparr> aq_pid = 1, aq_mode = LockShared, aq_stage = Held \<rparr>"
    and ?b = "\<lparr> aq_pid = 2, aq_mode = LockShared, aq_stage = Held \<rparr>"
  have "\<exists>s. lock_run fcntl_ops ?acts (lock_init []) = Some s \<and> holding s 0 ?a \<and> holding s 1 ?b"
    by (simp add: run_eval)
  then obtain s where s: "lock_run fcntl_ops ?acts (lock_init []) = Some s" "holding s 0 ?a" "holding s 1 ?b"
    by blast
  have "reachable fcntl_ops [] one_descriptor s"
    by (rule paired_run [OF reachable.init _ _ s(1)]) (simp_all add: paired_def lock_init_def opens_paired_def)
  moreover from fcntl_exclusion [OF this s(2,3)] have "\<not> conflicts (aq_mode ?a) (aq_mode ?b)" by simp
  ultimately show ?thesis using s(2,3) by (intro exI [of _ s] exI [of _ ?a] exI [of _ ?b]) simp
qed

end
