(* ===== verification/Lock_Holder.thy ===== *)
theory Lock_Holder
  imports Lock_System Manifest
begin

text \<open>
  Who holds a lock (\<^verbatim>\<open>src/locks.rs\<close>): the record an exclusive holder writes beside the
  lock file, how a waiting process reads it when its time is up, and the loop that waits for the
  system lock. The lock file's path is what the code uses of it, its display and its file name; the
  sidecar beside it is absent, unreadable or has a content. Times are nanoseconds, before or after
  the epoch. The renderer and the parser of RFC 3339 (chrono), the process probe and the clock are
  arguments; the loop sees at each turn what the system answers then.
\<close>

section \<open>Text\<close>

text \<open>\<^verbatim>\<open>str::parse::<u32>\<close>: an optional plus sign and decimal digits.\<close>

definition u32_from_str :: "string \<Rightarrow> u32 option" where
  "u32_from_str s =
     (let d = (case s of c # cs \<Rightarrow> if c = CHR 0x2B then cs else s | [] \<Rightarrow> s) in
      if d \<noteq> [] \<and> list_all is_ascii_digit d then parse_u32 d else None)"

section \<open>The holder record\<close>

record holder =
  ho_pid :: u32
  ho_timestamp :: int
  ho_run_kind :: string
  ho_mode :: lock_mode
  ho_token :: string

record lock_path =
  lp_display :: string
  lp_file_name :: "string option"

definition sidecar_value :: "lock_mode \<Rightarrow> string" where
  "sidecar_value m = (case m of LockShared \<Rightarrow> ''shared'' | LockExclusive \<Rightarrow> ''exclusive'')"

definition mode_from_sidecar_value :: "string \<Rightarrow> lock_mode option" where
  "mode_from_sidecar_value s =
     (if s = ''shared'' then Some LockShared
      else if s = ''exclusive'' then Some LockExclusive
      else None)"

text \<open>The token: nanoseconds count as zero before the epoch, the counter is the process's own.\<close>

definition new_holder_token :: "u32 \<Rightarrow> int \<Rightarrow> lock_mode \<Rightarrow> nat \<Rightarrow> string" where
  "new_holder_token pid timestamp m counter =
     show_nat pid @ ''-'' @ sidecar_value m @ ''-'' @ show_nat (nat timestamp) @ ''-'' @ show_nat counter"

definition holder_new :: "u32 \<Rightarrow> int \<Rightarrow> string \<Rightarrow> lock_mode \<Rightarrow> nat \<Rightarrow> holder" where
  "holder_new pid timestamp run_kind m counter =
     \<lparr> ho_pid = pid, ho_timestamp = timestamp, ho_run_kind = run_kind, ho_mode = m,
       ho_token = new_holder_token pid timestamp m counter \<rparr>"

text \<open>How long ago, never negative.\<close>

definition holder_age :: "holder \<Rightarrow> int \<Rightarrow> nat" where
  "holder_age h now = nat (now - ho_timestamp h)"

definition age_minutes :: "nat \<Rightarrow> nat" where
  "age_minutes age = age div 1000000000 div 60"

definition holder_run_kind :: "lock_path \<Rightarrow> string" where
  "holder_run_kind p =
     (case lp_file_name p of
        None \<Rightarrow> ''unknown''
      | Some n \<Rightarrow>
          (if n = ''lance.lock'' \<or> n = ''index.lock'' then ''aicx index''
           else if n = ''state.lock'' then ''aicx state''
           else if n = ''steer.lock'' then ''aicx steer''
           else if n = ''mcp.lock'' then ''aicx mcp''
           else ''unknown''))"

definition should_write_holder_sidecar :: "lock_path \<Rightarrow> lock_mode \<Rightarrow> bool" where
  "should_write_holder_sidecar p m \<longleftrightarrow> m = LockExclusive \<and> lp_file_name p \<noteq> None"

section \<open>Reading and writing the sidecar\<close>

definition sidecar_content :: "(int \<Rightarrow> string) \<Rightarrow> holder \<Rightarrow> string" where
  "sidecar_content rfc3339_secs h =
     ''pid='' @ show_nat (ho_pid h) @ [lf]
     @ ''timestamp='' @ rfc3339_secs (ho_timestamp h) @ [lf]
     @ ''run_kind='' @ ho_run_kind h @ [lf]
     @ ''mode='' @ sidecar_value (ho_mode h) @ [lf]
     @ ''token='' @ ho_token h @ [lf]"

record holder_fields =
  hf_pid :: "u32 option"
  hf_timestamp :: "int option"
  hf_run_kind :: "string option"
  hf_mode :: "lock_mode option"
  hf_token :: "string option"

definition no_fields :: holder_fields where
  "no_fields = \<lparr> hf_pid = None, hf_timestamp = None, hf_run_kind = None, hf_mode = None, hf_token = None \<rparr>"

definition parse_holder_line :: "(string \<Rightarrow> int option) \<Rightarrow> holder_fields \<Rightarrow> string \<Rightarrow> holder_fields" where
  "parse_holder_line parse_rfc3339 f line =
     (case strip_prefix line ''pid='' of
        Some v \<Rightarrow> f\<lparr>hf_pid := u32_from_str (str_trim v)\<rparr>
      | None \<Rightarrow>
     (case strip_prefix line ''timestamp='' of
        Some v \<Rightarrow> f\<lparr>hf_timestamp := parse_rfc3339 (str_trim v)\<rparr>
      | None \<Rightarrow>
     (case strip_prefix line ''run_kind='' of
        Some v \<Rightarrow> f\<lparr>hf_run_kind := Some (str_trim v)\<rparr>
      | None \<Rightarrow>
     (case strip_prefix line ''mode='' of
        Some v \<Rightarrow> f\<lparr>hf_mode := mode_from_sidecar_value (str_trim v)\<rparr>
      | None \<Rightarrow>
     (case strip_prefix line ''token='' of
        Some v \<Rightarrow> f\<lparr>hf_token := Some (str_trim v)\<rparr>
      | None \<Rightarrow> f)))))"

definition parse_holder_sidecar :: "(string \<Rightarrow> int option) \<Rightarrow> string \<Rightarrow> holder option" where
  "parse_holder_sidecar parse_rfc3339 contents =
     (let f = foldl (parse_holder_line parse_rfc3339) no_fields (str_lines contents) in
      case (hf_pid f, hf_timestamp f) of
        (Some pid, Some timestamp) \<Rightarrow>
          Some \<lparr> ho_pid = pid, ho_timestamp = timestamp,
                 ho_run_kind = (case hf_run_kind f of None \<Rightarrow> ''unknown'' | Some k \<Rightarrow> k),
                 ho_mode = (case hf_mode f of None \<Rightarrow> LockExclusive | Some m \<Rightarrow> m),
                 ho_token = (case hf_token f of None \<Rightarrow> [] | Some t \<Rightarrow> t) \<rparr>
      | _ \<Rightarrow> None)"

datatype sidecar_file = SidecarAbsent | SidecarUnreadable | SidecarText string

definition read_holder_sidecar ::
  "(string \<Rightarrow> int option) \<Rightarrow> lock_path \<Rightarrow> sidecar_file \<Rightarrow> string + holder option" where
  "read_holder_sidecar parse_rfc3339 p f =
     (if lp_file_name p = None then Inr None
      else (case f of
              SidecarAbsent \<Rightarrow> Inr None
            | SidecarUnreadable \<Rightarrow> Inl (''read lock holder: '' @ lp_display p @ ''.holder'')
            | SidecarText contents \<Rightarrow> Inr (parse_holder_sidecar parse_rfc3339 contents)))"

text \<open>
  What an exclusive acquirer leaves beside the lock file, and the token its handle keeps. An
  unreadable sidecar or a clock before the epoch fails the acquisition.
\<close>

definition write_holder ::
  "(int \<Rightarrow> string) \<Rightarrow> (string \<Rightarrow> int option) \<Rightarrow> lock_path \<Rightarrow> lock_mode \<Rightarrow> u32 \<Rightarrow> int \<Rightarrow> nat \<Rightarrow> sidecar_file
   \<Rightarrow> string + sidecar_file \<times> string option" where
  "write_holder rfc3339_secs parse_rfc3339 p m pid now counter f =
     (if m \<noteq> LockExclusive then Inr (f, None)
      else (let h = holder_new pid now (holder_run_kind p) m counter;
                write_sidecar = should_write_holder_sidecar p m in
            bind_res (if write_sidecar then read_holder_sidecar parse_rfc3339 p f else Inr None) (\<lambda>_.
            bind_res (require (0 \<le> now) ''system clock is before Unix epoch'') (\<lambda>_.
              if write_sidecar
              then Inr (SidecarText (sidecar_content rfc3339_secs h), Some (ho_token h))
              else Inr (f, None)))))"

definition sidecar_belongs :: "(string \<Rightarrow> int option) \<Rightarrow> string \<Rightarrow> sidecar_file \<Rightarrow> bool" where
  "sidecar_belongs parse_rfc3339 token f =
     (case f of
        SidecarText contents \<Rightarrow>
          (case parse_holder_sidecar parse_rfc3339 contents of
             Some h \<Rightarrow> ho_token h = token
           | None \<Rightarrow> False)
      | _ \<Rightarrow> False)"

text \<open>\<^verbatim>\<open>Drop for LockHandle\<close>, the sidecar's part.\<close>

definition drop_sidecar :: "(string \<Rightarrow> int option) \<Rightarrow> string option \<Rightarrow> sidecar_file \<Rightarrow> sidecar_file" where
  "drop_sidecar parse_rfc3339 token f =
     (case token of
        None \<Rightarrow> f
      | Some t \<Rightarrow> (if sidecar_belongs parse_rfc3339 t f then SidecarAbsent else f))"

section \<open>Waiting for the system lock\<close>

text \<open>An impossible process counts as dead, an undecided probe as alive.\<close>

definition pid_is_alive :: "(u32 \<Rightarrow> bool option) \<Rightarrow> u32 \<Rightarrow> bool" where
  "pid_is_alive probe pid =
     (if pid = 0 then False else (case probe pid of None \<Rightarrow> True | Some b \<Rightarrow> b))"

datatype timeout_action = TimeoutRetry | TimeoutFail string

definition lock_timeout_error :: "lock_path \<Rightarrow> lock_mode \<Rightarrow> string" where
  "lock_timeout_error p m = ''timed out acquiring '' @ mode_label m @ '' lock: '' @ lp_display p"

definition handle_lock_timeout ::
  "(string \<Rightarrow> int option) \<Rightarrow> (u32 \<Rightarrow> bool option) \<Rightarrow> int \<Rightarrow> lock_path \<Rightarrow> lock_mode \<Rightarrow> sidecar_file
   \<Rightarrow> sidecar_file \<times> (string + timeout_action)" where
  "handle_lock_timeout parse_rfc3339 probe now p m f =
     (case read_holder_sidecar parse_rfc3339 p f of
        Inl e \<Rightarrow> (f, Inl e)
      | Inr None \<Rightarrow> (f, Inr (TimeoutFail (lock_timeout_error p m)))
      | Inr (Some h) \<Rightarrow>
          (if \<not> pid_is_alive probe (ho_pid h)
           then (if lp_file_name p = None then f else SidecarAbsent, Inr TimeoutRetry)
           else (f, Inr (TimeoutFail (lock_timeout_error p m @ ''; lock held by PID '' @ show_nat (ho_pid h)
                  @ '' (run_kind='' @ ho_run_kind h @ '') for '' @ show_nat (age_minutes (holder_age h now))
                  @ '' minutes; consider killing manually with `kill '' @ show_nat (ho_pid h) @ ''`'')))))"

text \<open>What one turn of the loop meets.\<close>

datatype os_answer = OsGranted | OsWouldBlock | OsError

record turn =
  tu_answer :: os_answer
  tu_clock :: nat
  tu_now :: int
  tu_sidecar :: sidecar_file
  tu_probe :: "u32 \<Rightarrow> bool option"

text \<open>The turn at which the lock was granted, or the error; not returning is \<^const>\<open>None\<close>.\<close>

partial_function (option) acquire_loop ::
  "(string \<Rightarrow> int option) \<Rightarrow> (nat \<Rightarrow> turn) \<Rightarrow> lock_path \<Rightarrow> lock_mode \<Rightarrow> nat \<Rightarrow> nat \<Rightarrow> (string + nat) option" where
  "acquire_loop parse_rfc3339 env p m deadline i =
     (case tu_answer (env i) of
        OsGranted \<Rightarrow> Some (Inr i)
      | OsError \<Rightarrow> Some (Inl (''failed to acquire lock: '' @ lp_display p))
      | OsWouldBlock \<Rightarrow>
          (if deadline \<le> tu_clock (env i)
           then (case snd (handle_lock_timeout parse_rfc3339 (tu_probe (env i)) (tu_now (env i)) p m (tu_sidecar (env i))) of
                   Inl e \<Rightarrow> Some (Inl e)
                 | Inr (TimeoutFail e) \<Rightarrow> Some (Inl e)
                 | Inr TimeoutRetry \<Rightarrow> acquire_loop parse_rfc3339 env p m deadline (i + 1))
           else acquire_loop parse_rfc3339 env p m deadline (i + 1)))"


section \<open>Visible text\<close>

definition visible :: "string \<Rightarrow> bool" where
  "visible s \<longleftrightarrow> list_all (\<lambda>c. 33 \<le> byte_of c \<and> byte_of c < 127) s"

lemma visible_append [simp]: "visible (s @ t) \<longleftrightarrow> visible s \<and> visible t"
  by (simp add: visible_def)

lemma visible_show_nat [simp]: "visible (show_nat n)"
  using show_nat_digits [of n] by (auto simp: visible_def list_all_iff is_ascii_digit_def)

lemma visible_chars: "visible s \<Longrightarrow> utf8_chars s = map (\<lambda>c. [c]) s"
proof (induction s rule: utf8_chars.induct)
  case (2 c cs)
  then have "\<forall>d \<in> set cs. \<not> utf8_cont d" by (auto simp: visible_def list_all_iff utf8_cont_def)
  then have "takeWhile utf8_cont cs = [] \<and> dropWhile utf8_cont cs = cs" by (cases cs) auto
  moreover have "visible cs" using 2(2) by (simp add: visible_def)
  ultimately show ?case using 2(1) by simp
qed simp

lemma dropWhile_none: "(\<And>x. x \<in> set xs \<Longrightarrow> \<not> P x) \<Longrightarrow> dropWhile P xs = xs"
  by (cases xs) auto

lemma visible_not_space: "33 \<le> byte_of c \<Longrightarrow> byte_of c < 127 \<Longrightarrow> \<not> char_is_whitespace [c]"
  by (auto simp: char_is_whitespace_def Let_def)

lemma str_trim_visible_id: "visible s \<Longrightarrow> str_trim s = s"
proof -
  assume v: "visible s"
  then have n: "\<not> char_is_whitespace x" if "x \<in> set (map (\<lambda>c. [c]) s)" for x
    using that by (auto simp: visible_def list_all_iff visible_not_space)
  have "dropWhile char_is_whitespace (map (\<lambda>c. [c]) s) = map (\<lambda>c. [c]) s"
    by (rule dropWhile_none [OF n])
  moreover have "dropWhile char_is_whitespace (rev (map (\<lambda>c. [c]) s)) = rev (map (\<lambda>c. [c]) s)"
    by (rule dropWhile_none) (use n in auto)
  ultimately show ?thesis by (simp add: str_trim_def visible_chars [OF v] del: rev_map)
qed

text \<open>A line that can be written and read back: visible, or one of the run kinds.\<close>

definition line_ok :: "string \<Rightarrow> bool" where
  "line_ok s \<longleftrightarrow> lf \<notin> set s \<and> CHR 0x0D \<notin> set s \<and> str_trim s = s"

lemma visible_line: "visible s \<Longrightarrow> line_ok s"
  by (auto simp: line_ok_def str_trim_visible_id visible_def list_all_iff lf_def byte_of_def)

lemma run_kind_line: "line_ok (holder_run_kind p)"
  by (simp add: holder_run_kind_def line_ok_def lf_def rust_eval split: option.split)

section \<open>What was written is read\<close>

lemma u32_from_show: "n < 2 ^ 32 \<Longrightarrow> u32_from_str (show_nat n) = Some n"
proof -
  assume n: "n < 2 ^ 32"
  have d: "list_all is_ascii_digit (show_nat n)" "digits_value (show_nat n) = n" "show_nat n \<noteq> []"
    using show_nat_digits [of n] by simp_all
  then obtain c cs where c: "show_nat n = c # cs" by (cases "show_nat n") auto
  with d(1) have "c \<noteq> CHR 0x2B" by (auto simp: is_ascii_digit_def byte_of_def)
  with c d n show ?thesis by (simp add: u32_from_str_def parse_u32_def)
qed

lemma sidecar_parsed:
  assumes "ho_pid h < 2 ^ 32" "line_ok (rfc3339_secs (ho_timestamp h))"
    and "parse_rfc3339 (rfc3339_secs (ho_timestamp h)) = Some t"
    and "line_ok (ho_run_kind h)" "line_ok (ho_token h)"
  shows "parse_holder_sidecar parse_rfc3339 (sidecar_content rfc3339_secs h) = Some (h\<lparr>ho_timestamp := t\<rparr>)"
proof -
  have pid: "line_ok (show_nat (ho_pid h))" by (simp add: visible_line)
  have mode: "line_ok (sidecar_value (ho_mode h))"
    by (rule visible_line) (simp add: sidecar_value_def visible_def byte_of_def split: lock_mode.split)
  have read_mode: "mode_from_sidecar_value (sidecar_value (ho_mode h)) = Some (ho_mode h)"
    by (simp add: mode_from_sidecar_value_def sidecar_value_def split: lock_mode.split)
  let ?lines = "[''pid='' @ show_nat (ho_pid h), ''timestamp='' @ rfc3339_secs (ho_timestamp h),
    ''run_kind='' @ ho_run_kind h, ''mode='' @ sidecar_value (ho_mode h), ''token='' @ ho_token h]"
  have "str_lines (sidecar_content rfc3339_secs h) = ?lines"
    using str_lines_unlines [of ?lines] assms(2,4,5) pid mode
    by (simp add: sidecar_content_def line_ok_def lf_def)
  then show ?thesis
    using assms pid mode read_mode
    by (simp add: parse_holder_sidecar_def parse_holder_line_def strip_prefix_def no_fields_def line_ok_def
      u32_from_show)
qed


section \<open>Tokens\<close>

lemma cut_at:
  "x \<notin> set a \<Longrightarrow> x \<notin> set b \<Longrightarrow> a @ x # c = b @ x # d \<longleftrightarrow> a = b \<and> c = d"
proof (induction a arbitrary: b)
  case Nil
  then show ?case by (cases b) auto
next
  case (Cons y a)
  then show ?case by (cases b) auto
qed

lemma show_nat_no_dash [simp]: "CHR 0x2D \<notin> set (show_nat n)"
  using show_nat_digits [of n] by (auto simp: list_all_iff is_ascii_digit_def byte_of_def)

lemma show_nat_inject [simp]: "show_nat m = show_nat n \<longleftrightarrow> m = n"
  using show_nat_digits by metis

lemma sidecar_value_no_dash [simp]: "CHR 0x2D \<notin> set (sidecar_value m)"
  by (simp add: sidecar_value_def split: lock_mode.split)

lemma holder_token_inject:
  "new_holder_token pid t m c = new_holder_token pid' t' m' c' \<Longrightarrow> pid = pid' \<and> c = c'"
  by (simp add: new_holder_token_def cut_at)

lemma visible_sidecar_value [simp]: "visible (sidecar_value m)"
  by (simp add: sidecar_value_def visible_def byte_of_def split: lock_mode.split)

lemma token_line: "line_ok (new_holder_token pid t m c)"
proof (rule visible_line)
  have "visible ''-''" by (simp add: visible_def byte_of_def)
  then show "visible (new_holder_token pid t m c)"
    unfolding new_holder_token_def by (simp only: visible_append visible_show_nat visible_sidecar_value)
qed

text \<open>
  The sidecar an exclusive acquirer writes is read back as it: process, run kind, mode and token,
  with the time as the two RFC 3339 routines give it back; its own handle removes it when dropped,
  and no other handle's drop does, of another process or of another acquisition.
\<close>

theorem sidecar_roundtrip:
  assumes "lp_file_name p \<noteq> None" and "0 \<le> now" and "pid < 2 ^ 32"
    and "line_ok (rfc3339_secs now)" and "parse_rfc3339 (rfc3339_secs now) = Some t"
  shows "\<exists>f'. write_holder rfc3339_secs parse_rfc3339 p LockExclusive pid now c SidecarAbsent
        = Inr (f', Some (new_holder_token pid now LockExclusive c))
    \<and> read_holder_sidecar parse_rfc3339 p f'
        = Inr (Some \<lparr> ho_pid = pid, ho_timestamp = t, ho_run_kind = holder_run_kind p, ho_mode = LockExclusive,
                      ho_token = new_holder_token pid now LockExclusive c \<rparr>)
    \<and> drop_sidecar parse_rfc3339 (Some (new_holder_token pid now LockExclusive c)) f' = SidecarAbsent
    \<and> ((pid', c') = (pid, c) \<or>
         drop_sidecar parse_rfc3339 (Some (new_holder_token pid' now' m' c')) f' = f')"
proof -
  let ?h = "holder_new pid now (holder_run_kind p) LockExclusive c"
  have parsed: "parse_holder_sidecar parse_rfc3339 (sidecar_content rfc3339_secs ?h) = Some (?h\<lparr>ho_timestamp := t\<rparr>)"
    by (rule sidecar_parsed) (use assms run_kind_line token_line in \<open>simp_all add: holder_new_def\<close>)
  have "(pid', c') = (pid, c) \<or> new_holder_token pid now LockExclusive c \<noteq> new_holder_token pid' now' m' c'"
    using holder_token_inject by blast
  with assms parsed show ?thesis
    by (auto simp: write_holder_def should_write_holder_sidecar_def read_holder_sidecar_def require_def
      drop_sidecar_def sidecar_belongs_def holder_new_def)
qed

definition sample_path :: lock_path where
  "sample_path = \<lparr> lp_display = ''/s/index.lock'', lp_file_name = Some ''index.lock'' \<rparr>"

lemma sidecar_roundtrip_witness:
  "\<exists>f'. write_holder (\<lambda>_. ''T'') (\<lambda>_. Some 7) sample_path LockExclusive 42 9 0 SidecarAbsent
        = Inr (f', Some (new_holder_token 42 9 LockExclusive 0))
    \<and> drop_sidecar (\<lambda>_. Some 7) (Some (new_holder_token 42 9 LockExclusive 0)) f' = SidecarAbsent
    \<and> drop_sidecar (\<lambda>_. Some 7) (Some (new_holder_token 43 9 LockExclusive 0)) f' = f'"
proof -
  have "line_ok ''T''" by (rule visible_line) (simp add: visible_def byte_of_def)
  with sidecar_roundtrip [of sample_path 9 42 "\<lambda>_. ''T''" "\<lambda>_. Some 7" 7 0 43 0 9 LockExclusive]
  show ?thesis by (auto simp: sample_path_def)
qed

section \<open>Waiting ends\<close>

text \<open>A turn that meets the record of a dead process after the deadline, and goes on.\<close>

definition recovers :: "(string \<Rightarrow> int option) \<Rightarrow> lock_path \<Rightarrow> turn \<Rightarrow> bool" where
  "recovers parse_rfc3339 p t \<longleftrightarrow>
     (case read_holder_sidecar parse_rfc3339 p (tu_sidecar t) of
        Inr (Some h) \<Rightarrow> \<not> pid_is_alive (tu_probe t) (ho_pid h)
      | _ \<Rightarrow> False)"

lemma timeout_retry_iff:
  "snd (handle_lock_timeout parse_rfc3339 (tu_probe t) (tu_now t) p m (tu_sidecar t)) = Inr TimeoutRetry
     \<longleftrightarrow> recovers parse_rfc3339 p t"
  by (auto simp: handle_lock_timeout_def recovers_def split: sum.split option.split)

definition keeps_waiting :: "(string \<Rightarrow> int option) \<Rightarrow> lock_path \<Rightarrow> nat \<Rightarrow> turn \<Rightarrow> bool" where
  "keeps_waiting parse_rfc3339 p deadline t \<longleftrightarrow>
     tu_answer t = OsWouldBlock \<and> (tu_clock t < deadline \<or> recovers parse_rfc3339 p t)"

lemma acquire_loop_goes_on:
  assumes "keeps_waiting parse_rfc3339 p deadline (env i)"
  shows "acquire_loop parse_rfc3339 env p m deadline i = acquire_loop parse_rfc3339 env p m deadline (Suc i)"
  using assms
  by (subst acquire_loop.simps) (auto simp: keeps_waiting_def timeout_retry_iff [THEN iffD2])

lemma acquire_loop_ends:
  assumes "\<not> keeps_waiting parse_rfc3339 p deadline (env i)"
  shows "if tu_answer (env i) = OsGranted then acquire_loop parse_rfc3339 env p m deadline i = Some (Inr i)
    else \<exists>e. acquire_loop parse_rfc3339 env p m deadline i = Some (Inl e)"
proof (cases "tu_answer (env i)")
  case OsWouldBlock
  with assms have d: "deadline \<le> tu_clock (env i)" "\<not> recovers parse_rfc3339 p (env i)"
    by (auto simp: keeps_waiting_def)
  from d(2) have "snd (handle_lock_timeout parse_rfc3339 (tu_probe (env i)) (tu_now (env i)) p m (tu_sidecar (env i)))
      \<noteq> Inr TimeoutRetry" by (simp add: timeout_retry_iff)
  with OsWouldBlock d(1) show ?thesis
    by (subst acquire_loop.simps) (auto split: sum.split timeout_action.split)
qed (subst acquire_loop.simps, simp)+

text \<open>
  Waiting for the system lock ends as soon as a turn is not blocked, or is blocked past the
  deadline without a dead holder's record to clear; at that turn, and not before, it returns the
  lock exactly if it was granted and an error otherwise. So it neither gives up before the deadline
  nor waits past it except to clear the records of dead processes.
\<close>

theorem acquire_loop_returns:
  assumes "i \<le> n" and "\<not> keeps_waiting parse_rfc3339 p deadline (env n)"
    and "\<And>j. i \<le> j \<Longrightarrow> j < n \<Longrightarrow> keeps_waiting parse_rfc3339 p deadline (env j)"
  shows "if tu_answer (env n) = OsGranted then acquire_loop parse_rfc3339 env p m deadline i = Some (Inr n)
    else \<exists>e. acquire_loop parse_rfc3339 env p m deadline i = Some (Inl e)"
  using assms
proof (induction "n - i" arbitrary: i)
  case 0
  then have "i = n" by simp
  with acquire_loop_ends [of parse_rfc3339 p deadline env n m] assms(2) show ?case by simp
next
  case (Suc k)
  then have "i < n" by simp
  with Suc.prems(3) [of i] have "acquire_loop parse_rfc3339 env p m deadline i
      = acquire_loop parse_rfc3339 env p m deadline (Suc i)" by (intro acquire_loop_goes_on) simp
  with Suc.hyps(1) [of "Suc i"] Suc.hyps(2) Suc.prems \<open>i < n\<close> show ?case by simp
qed

lemma acquire_loop_returns_witness:
  "acquire_loop (\<lambda>_. None)
     (\<lambda>i. \<lparr> tu_answer = (if i < 3 then OsWouldBlock else OsGranted), tu_clock = i, tu_now = 0,
            tu_sidecar = SidecarAbsent, tu_probe = (\<lambda>_. None) \<rparr>) sample_path LockShared 60 0 = Some (Inr 3)"
  using acquire_loop_returns [of 0 3 "\<lambda>_. None" sample_path 60
     "\<lambda>i. \<lparr> tu_answer = (if i < 3 then OsWouldBlock else OsGranted), tu_clock = i, tu_now = 0,
            tu_sidecar = SidecarAbsent, tu_probe = (\<lambda>_. None) \<rparr>" LockShared]
  by (simp add: keeps_waiting_def)

end
