(* ===== verification/Float64.thy ===== *)
theory Float64
  imports Float32
begin

text \<open>
  The 64-bit floating-point numbers, as far as rates and averages need them: a finite value is a
  sign and a whole number of units of \<open>2 ^ -1074\<close>, and an operation is exact and then rounded to 53
  significant bits, half to even, as in \<open>Float32\<close>.
\<close>

datatype binary64 = B64NaN | B64Inf bool | B64 bool nat

definition round_units64 :: "nat \<Rightarrow> nat \<Rightarrow> nat" where
  "round_units64 n d = (let k = nat_bits (n div d) - 53 in round_half_even n (d * 2 ^ k) * 2 ^ k)"

definition f64_limit :: nat where
  "f64_limit = 2 ^ 2098"

definition f64_round :: "bool \<Rightarrow> nat \<Rightarrow> nat \<Rightarrow> binary64" where
  "f64_round s n d =
     (let u = round_units64 n d in if u < f64_limit then B64 s u else B64Inf s)"

text \<open>The value nearest to a ratio: decimal literals, and the cast \<^verbatim>\<open>n as f64\<close>.\<close>

definition f64_of_ratio :: "nat \<Rightarrow> nat \<Rightarrow> binary64" where
  "f64_of_ratio n d = f64_round False (n * 2 ^ 1074) d"

definition f64_of_nat :: "nat \<Rightarrow> binary64" where
  "f64_of_nat n = f64_of_ratio n 1"

definition f64_zero :: binary64 where
  "f64_zero = B64 False 0"

fun f64_add :: "binary64 \<Rightarrow> binary64 \<Rightarrow> binary64" where
  "f64_add (B64 s a) (B64 t b) =
     (if s = t then f64_round s (a + b) 1
      else if a = b then f64_zero
      else if b < a then f64_round s (a - b) 1
      else f64_round t (b - a) 1)"
| "f64_add (B64Inf s) (B64Inf t) = (if s = t then B64Inf s else B64NaN)"
| "f64_add (B64Inf s) (B64 t b) = B64Inf s"
| "f64_add (B64 s a) (B64Inf t) = B64Inf t"
| "f64_add _ _ = B64NaN"

fun f64_div :: "binary64 \<Rightarrow> binary64 \<Rightarrow> binary64" where
  "f64_div (B64 s a) (B64 t b) =
     (if b = 0 then (if a = 0 then B64NaN else B64Inf (s \<noteq> t))
      else f64_round (s \<noteq> t) (a * 2 ^ 1074) b)"
| "f64_div (B64Inf s) (B64 t b) = B64Inf (s \<noteq> t)"
| "f64_div (B64 s a) (B64Inf t) = B64 (s \<noteq> t) 0"
| "f64_div _ _ = B64NaN"

fun f64_key :: "binary64 \<Rightarrow> int" where
  "f64_key (B64 s u) = (if s then - int u else int u)"
| "f64_key (B64Inf s) = (if s then - int f64_limit else int f64_limit)"
| "f64_key B64NaN = 0"

definition f64_less :: "binary64 \<Rightarrow> binary64 \<Rightarrow> bool" where
  "f64_less a b \<longleftrightarrow> a \<noteq> B64NaN \<and> b \<noteq> B64NaN \<and> f64_key a < f64_key b"

definition f64_le :: "binary64 \<Rightarrow> binary64 \<Rightarrow> bool" where
  "f64_le a b \<longleftrightarrow> a \<noteq> B64NaN \<and> b \<noteq> B64NaN \<and> f64_key a \<le> f64_key b"

text \<open>Zero over a positive number is zero.\<close>

lemma f64_round_zero [simp]: "f64_round s 0 d = B64 s 0"
  by (simp add: f64_round_def round_units64_def round_half_even_def f64_limit_def)

lemma f64_of_nat_zero [simp]: "f64_of_nat 0 = f64_zero"
  by (simp add: f64_of_nat_def f64_of_ratio_def f64_zero_def)

end
