(* ===== verification/Progress.thy ===== *)
theory Progress
  imports Float64
begin

text \<open>
  Pipeline progress (\<^verbatim>\<open>crates/aicx-progress-contracts/src/lib.rs\<close>): the event stream of a
  run, the snapshot it is folded into, and the rolling rate; and the monitor
  (\<^verbatim>\<open>crates/aicx-monitor/src/progress.rs\<close>) that derives rate and remaining time and settles the
  snapshot when the run is over. Instants and durations are nanoseconds; the clock is an argument.
\<close>

section \<open>Events and snapshots\<close>

datatype index_event =
    RunStarted (total_items: usize) (run_namespace: string) (run_source: string) (run_parallelism: usize) (run_at: int)
  | ItemStarted usize string "u64 option"
  | ItemIndexed usize string usize u64 "u64 option" "usize option" "string option"
  | ItemSkipped usize string string "string option"
  | ItemFailed usize string string
  | StatsTick usize usize usize usize usize binary64 "binary64 option" usize usize
  | RunCompleted usize usize usize usize usize nat bool
  | RunFailed string usize
  | Paused
  | Resumed
  | StopRequested
  | ParallelismChanged usize usize
  | Warning string string

record warning_entry =
  wa_code :: string
  wa_message :: string
  wa_at :: int

definition max_recent_warnings :: usize where
  "max_recent_warnings = 20"

record snapshot =
  sn_namespace :: string
  sn_source_label :: string
  sn_started_at :: "int option"
  sn_total :: usize
  sn_processed :: usize
  sn_indexed :: usize
  sn_skipped :: usize
  sn_failed :: usize
  sn_total_chunks :: usize
  sn_current_item :: "string option"
  sn_in_flight :: usize
  sn_parallelism :: usize
  sn_paused :: bool
  sn_stopping :: bool
  sn_items_per_sec :: binary64
  sn_eta_secs :: "binary64 option"
  sn_elapsed :: nat
  sn_avg_embedder_ms :: "binary64 option"
  sn_total_tokens_estimated :: usize
  sn_complete :: bool
  sn_stopped_early :: bool
  sn_fatal_error :: "string option"
  sn_recent_warnings :: "warning_entry list"

definition snapshot_default :: snapshot where
  "snapshot_default =
     \<lparr> sn_namespace = [], sn_source_label = [], sn_started_at = None, sn_total = 0, sn_processed = 0,
       sn_indexed = 0, sn_skipped = 0, sn_failed = 0, sn_total_chunks = 0, sn_current_item = None,
       sn_in_flight = 0, sn_parallelism = 1, sn_paused = False, sn_stopping = False,
       sn_items_per_sec = f64_zero, sn_eta_secs = None, sn_elapsed = 0, sn_avg_embedder_ms = None,
       sn_total_tokens_estimated = 0, sn_complete = False, sn_stopped_early = False,
       sn_fatal_error = None, sn_recent_warnings = [] \<rparr>"

text \<open>An item has ended: one processed more, one in flight fewer, neither past its bounds.\<close>

definition item_ended :: "string \<Rightarrow> snapshot \<Rightarrow> snapshot" where
  "item_ended label s =
     s\<lparr>sn_processed := u64_saturating_add (sn_processed s) 1, sn_in_flight := sn_in_flight s - 1,
       sn_current_item := Some label\<rparr>"

text \<open>Each sample counts as much as all before it.\<close>

definition running_average :: "binary64 option \<Rightarrow> u64 \<Rightarrow> binary64" where
  "running_average avg ms =
     (let sample = f64_of_nat ms in
      case avg of None \<Rightarrow> sample | Some prev \<Rightarrow> f64_div (f64_add prev sample) (f64_of_nat 2))"

text \<open>\<open>now\<close> stamps a warning.\<close>

fun apply_event :: "int \<Rightarrow> index_event \<Rightarrow> snapshot \<Rightarrow> snapshot" where
  "apply_event now (RunStarted n namespace source parallelism started_at) s =
     s\<lparr>sn_namespace := namespace, sn_source_label := source, sn_total := n,
       sn_parallelism := parallelism, sn_started_at := Some started_at, sn_complete := False,
       sn_stopped_early := False, sn_fatal_error := None, sn_processed := 0, sn_indexed := 0,
       sn_skipped := 0, sn_failed := 0, sn_total_chunks := 0, sn_in_flight := 0, sn_paused := False,
       sn_stopping := False, sn_items_per_sec := f64_zero, sn_eta_secs := None, sn_elapsed := 0,
       sn_avg_embedder_ms := None, sn_total_tokens_estimated := 0, sn_current_item := None,
       sn_recent_warnings := []\<rparr>"
| "apply_event now (ItemStarted i label size_bytes) s =
     s\<lparr>sn_in_flight := u64_saturating_add (sn_in_flight s) 1, sn_current_item := Some label\<rparr>"
| "apply_event now (ItemIndexed i label chunks duration embedder_ms tokens hash) s =
     (let s = item_ended label s;
          s = s\<lparr>sn_indexed := u64_saturating_add (sn_indexed s) 1,
                sn_total_chunks := u64_saturating_add (sn_total_chunks s) chunks\<rparr>;
          s = (case tokens of None \<Rightarrow> s
               | Some n \<Rightarrow> s\<lparr>sn_total_tokens_estimated := u64_saturating_add (sn_total_tokens_estimated s) n\<rparr>)
      in case embedder_ms of None \<Rightarrow> s
         | Some ms \<Rightarrow> s\<lparr>sn_avg_embedder_ms := Some (running_average (sn_avg_embedder_ms s) ms)\<rparr>)"
| "apply_event now (ItemSkipped i label reason hash) s =
     (let s = item_ended label s in s\<lparr>sn_skipped := u64_saturating_add (sn_skipped s) 1\<rparr>)"
| "apply_event now (ItemFailed i label error) s =
     (let s = item_ended label s in s\<lparr>sn_failed := u64_saturating_add (sn_failed s) 1\<rparr>)"
| "apply_event now (StatsTick processed indexed skipped failed n rate eta chunks in_flight) s =
     s\<lparr>sn_processed := processed, sn_indexed := indexed, sn_skipped := skipped, sn_failed := failed,
       sn_total := n, sn_items_per_sec := rate, sn_eta_secs := eta, sn_total_chunks := chunks,
       sn_in_flight := in_flight\<rparr>"
| "apply_event now (RunCompleted processed indexed skipped failed chunks elapsed stopped_early) s =
     s\<lparr>sn_processed := processed, sn_indexed := indexed, sn_skipped := skipped, sn_failed := failed,
       sn_total_chunks := chunks, sn_elapsed := elapsed, sn_stopped_early := stopped_early,
       sn_complete := True, sn_in_flight := 0, sn_stopping := False\<rparr>"
| "apply_event now (RunFailed error processed) s =
     s\<lparr>sn_fatal_error := Some error, sn_processed := processed, sn_complete := True, sn_in_flight := 0\<rparr>"
| "apply_event now Paused s = s\<lparr>sn_paused := True\<rparr>"
| "apply_event now Resumed s = s\<lparr>sn_paused := False\<rparr>"
| "apply_event now StopRequested s = s\<lparr>sn_stopping := True\<rparr>"
| "apply_event now (ParallelismChanged previous current) s = s\<lparr>sn_parallelism := current\<rparr>"
| "apply_event now (Warning code message) s =
     (let kept = (if max_recent_warnings \<le> length (sn_recent_warnings s)
                  then tl (sn_recent_warnings s) else sn_recent_warnings s) in
      s\<lparr>sn_recent_warnings := kept @ [\<lparr> wa_code = code, wa_message = message, wa_at = now \<rparr>]\<rparr>)"

text \<open>A stream of events, each with the time it is applied at.\<close>

definition apply_events :: "(int \<times> index_event) list \<Rightarrow> snapshot \<Rightarrow> snapshot" where
  "apply_events es s = foldl (\<lambda>s (now, e). apply_event now e s) s es"

section \<open>The monitor\<close>

record progress_monitor =
  pm_snapshot :: snapshot
  pm_started_at :: "nat option"

definition monitor_default :: progress_monitor where
  "monitor_default = \<lparr> pm_snapshot = snapshot_default, pm_started_at = None \<rparr>"

definition is_run_started :: "index_event \<Rightarrow> bool" where
  "is_run_started e = (case e of RunStarted _ _ _ _ _ \<Rightarrow> True | _ \<Rightarrow> False)"

definition is_stats_tick :: "index_event \<Rightarrow> bool" where
  "is_stats_tick e = (case e of StatsTick _ _ _ _ _ _ _ _ _ \<Rightarrow> True | _ \<Rightarrow> False)"

definition is_run_completed :: "index_event \<Rightarrow> bool" where
  "is_run_completed e = (case e of RunCompleted _ _ _ _ _ _ _ \<Rightarrow> True | _ \<Rightarrow> False)"

text \<open>\<^verbatim>\<open>Duration::as_secs_f64\<close>.\<close>

definition as_secs_f64 :: "nat \<Rightarrow> binary64" where
  "as_secs_f64 ns =
     f64_add (f64_of_nat (ns div 1000000000)) (f64_div (f64_of_nat (ns mod 1000000000)) (f64_of_nat 1000000000))"

definition elapsed_since :: "nat option \<Rightarrow> nat \<Rightarrow> nat" where
  "elapsed_since started instant = (case started of None \<Rightarrow> 0 | Some t \<Rightarrow> instant - t)"

definition derive_rate :: "nat \<Rightarrow> snapshot \<Rightarrow> snapshot" where
  "derive_rate elapsed s =
     (let seconds = as_secs_f64 elapsed;
          rate = (if f64_less f64_zero seconds then f64_div (f64_of_nat (sn_processed s)) seconds else f64_zero) in
      s\<lparr>sn_elapsed := elapsed, sn_items_per_sec := rate,
        sn_eta_secs := (if f64_less f64_zero rate
                        then Some (f64_div (f64_of_nat (sn_total s - sn_processed s)) rate) else None)\<rparr>)"

definition settle :: "snapshot \<Rightarrow> snapshot" where
  "settle s =
     s\<lparr>sn_current_item := None, sn_paused := False, sn_stopping := False,
       sn_eta_secs := (if sn_fatal_error s = None \<and> \<not> sn_stopped_early s then Some f64_zero else None)\<rparr>"

definition on_event :: "nat \<Rightarrow> int \<Rightarrow> index_event \<Rightarrow> progress_monitor \<Rightarrow> progress_monitor" where
  "on_event instant now e m =
     (let started = (if is_run_started e then Some instant else pm_started_at m);
          s = apply_event now e (pm_snapshot m);
          s = (if \<not> sn_complete s \<and> \<not> is_stats_tick e then derive_rate (elapsed_since started instant) s else s);
          s = (if sn_complete s
               then (let s = settle s in
                     if is_run_completed e then s else s\<lparr>sn_elapsed := elapsed_since started instant\<rparr>)
               else s)
      in \<lparr> pm_snapshot = s, pm_started_at = started \<rparr>)"

section \<open>The rolling rate\<close>

record rolling_rate =
  rr_window :: "(nat \<times> usize) list"
  rr_window_size :: nat

definition rolling_new :: "nat \<Rightarrow> rolling_rate" where
  "rolling_new window_size = \<lparr> rr_window = [], rr_window_size = window_size \<rparr>"

definition evict :: "nat \<Rightarrow> rolling_rate \<Rightarrow> rolling_rate" where
  "evict now r =
     (if rr_window_size r \<le> now
      then r\<lparr>rr_window := dropWhile (\<lambda>(t, c). t < now - rr_window_size r) (rr_window r)\<rparr>
      else r)"

definition rolling_record :: "nat \<Rightarrow> usize \<Rightarrow> rolling_rate \<Rightarrow> rolling_rate" where
  "rolling_record now count r = evict now (r\<lparr>rr_window := rr_window r @ [(now, count)]\<rparr>)"

definition rate_per_sec :: "nat \<Rightarrow> rolling_rate \<Rightarrow> binary64" where
  "rate_per_sec now r =
     (case rr_window r of
        [] \<Rightarrow> f64_zero
      | (oldest, c) # rest \<Rightarrow>
          (let items = u64_sum (map snd (rr_window r)); secs = as_secs_f64 (now - oldest) in
           if f64_less secs (f64_of_ratio 1 1000) then f64_zero
           else f64_div (f64_of_nat items) secs))"

definition rolling_eta_secs :: "nat \<Rightarrow> usize \<Rightarrow> rolling_rate \<Rightarrow> binary64 option" where
  "rolling_eta_secs now remaining r =
     (if remaining = 0 then Some f64_zero
      else (let rate = rate_per_sec now r in
            if f64_le rate f64_zero then None else Some (f64_div (f64_of_nat remaining) rate)))"


section \<open>What a stream of events leaves\<close>

lemma apply_events_simps [simp]:
  "apply_events [] s = s"
  "apply_events ((now, e) # es) s = apply_events es (apply_event now e s)"
  "apply_events (es @ [(now, e)]) s = apply_event now e (apply_events es s)"
  by (simp_all add: apply_events_def)

text \<open>
  A run starts from nothing: whatever was folded before, from the start event on the snapshot is
  the one a fresh observer of the same events has.
\<close>

theorem run_start_forgets:
  "apply_events ((now, RunStarted n namespace source par started_at) # es) s
     = apply_events ((now, RunStarted n namespace source par started_at) # es) snapshot_default"
  by (cases s) (simp add: snapshot_default_def)

definition warnings_of :: "(int \<times> index_event) list \<Rightarrow> warning_entry list" where
  "warnings_of es = List.map_filter (\<lambda>(now, e). case e of
     Warning code message \<Rightarrow> Some \<lparr> wa_code = code, wa_message = message, wa_at = now \<rparr> | _ \<Rightarrow> None) es"

definition last_n :: "nat \<Rightarrow> 'a list \<Rightarrow> 'a list" where
  "last_n n xs = drop (length xs - n) xs"

lemma last_n_snoc: "0 < n \<Longrightarrow> last_n n (xs @ [x]) = (if n \<le> length (last_n n xs) then tl (last_n n xs) else last_n n xs) @ [x]"
  by (auto simp: last_n_def drop_Suc [symmetric] tl_drop Suc_diff_le drop_tl)

text \<open>
  The snapshot keeps exactly the last twenty warnings of the run, in the order they came, each
  with the time it was applied.
\<close>

theorem recent_warnings_kept:
  assumes "list_all (\<lambda>(now, e). \<not> is_run_started e) es"
  shows "sn_recent_warnings (apply_events ((t, RunStarted n namespace source par started_at) # es) s)
    = last_n max_recent_warnings (warnings_of es)"
  using assms
proof (induction es rule: rev_induct)
  case Nil
  then show ?case by (simp add: warnings_of_def last_n_def)
next
  case (snoc te es)
  obtain now e where te: "te = (now, e)" by (cases te)
  let ?s = "apply_events ((t, RunStarted n namespace source par started_at) # es) s"
  have IH: "sn_recent_warnings ?s = last_n max_recent_warnings (warnings_of es)" using snoc by simp
  have step: "apply_events ((t, RunStarted n namespace source par started_at) # es @ [te]) s = apply_event now e ?s"
    by (simp add: te apply_events_def)
  show ?case
  proof (cases e)
    case (Warning code message)
    have w: "warnings_of (es @ [te]) = warnings_of es @ [\<lparr> wa_code = code, wa_message = message, wa_at = now \<rparr>]"
      by (simp add: warnings_of_def te Warning List.map_filter_def)
    show ?thesis
      unfolding step w using IH by (simp add: Warning Let_def last_n_snoc max_recent_warnings_def)
  qed (use snoc.prems IH in \<open>simp_all add: step te warnings_of_def List.map_filter_def item_ended_def
      is_run_started_def Let_def split: option.split\<close>)
qed

text \<open>Events between the start and the end of a run, other than the producer's own counts.\<close>

fun live_event :: "index_event \<Rightarrow> bool" where
  "live_event (RunStarted _ _ _ _ _) = False"
| "live_event (StatsTick _ _ _ _ _ _ _ _ _) = False"
| "live_event (RunCompleted _ _ _ _ _ _ _) = False"
| "live_event (RunFailed _ _) = False"
| "live_event _ = True"

fun starts_item :: "index_event \<Rightarrow> bool" where
  "starts_item (ItemStarted _ _ _) = True"
| "starts_item _ = False"

fun indexes_item :: "index_event \<Rightarrow> bool" where
  "indexes_item (ItemIndexed _ _ _ _ _ _ _) = True"
| "indexes_item _ = False"

fun skips_item :: "index_event \<Rightarrow> bool" where
  "skips_item (ItemSkipped _ _ _ _) = True"
| "skips_item _ = False"

fun fails_item :: "index_event \<Rightarrow> bool" where
  "fails_item (ItemFailed _ _ _) = True"
| "fails_item _ = False"

definition ends_item :: "index_event \<Rightarrow> bool" where
  "ends_item e \<longleftrightarrow> indexes_item e \<or> skips_item e \<or> fails_item e"

definition count_events :: "(index_event \<Rightarrow> bool) \<Rightarrow> (int \<times> index_event) list \<Rightarrow> nat" where
  "count_events P es = length (filter (\<lambda>(now, e). P e) es)"

text \<open>
  Items are started before they end, beside those in flight at first: at every point of the stream.
\<close>

definition items_paired :: "nat \<Rightarrow> (int \<times> index_event) list \<Rightarrow> bool" where
  "items_paired flying es \<longleftrightarrow>
     (\<forall>n \<le> length es. count_events ends_item (take n es) \<le> flying + count_events starts_item (take n es))"

text \<open>
  The two events that tell where the counts stand: the start of a run, with nothing done, and a tick
  with the producer's own counts.
\<close>

record run_counts =
  rc_processed :: usize
  rc_indexed :: usize
  rc_skipped :: usize
  rc_failed :: usize
  rc_total :: usize
  rc_in_flight :: usize

fun reported :: "index_event \<Rightarrow> run_counts option" where
  "reported (RunStarted n _ _ _ _) =
     Some \<lparr> rc_processed = 0, rc_indexed = 0, rc_skipped = 0, rc_failed = 0, rc_total = n, rc_in_flight = 0 \<rparr>"
| "reported (StatsTick processed indexed skipped failed n _ _ _ in_flight) =
     Some \<lparr> rc_processed = processed, rc_indexed = indexed, rc_skipped = skipped, rc_failed = failed,
       rc_total = n, rc_in_flight = in_flight \<rparr>"
| "reported _ = None"

text \<open>Counting \<open>n\<close> more events stays in 64 bits.\<close>

definition counts_fit :: "run_counts \<Rightarrow> nat \<Rightarrow> bool" where
  "counts_fit c n \<longleftrightarrow> rc_processed c + n \<le> u64_max \<and> rc_indexed c + n \<le> u64_max \<and> rc_skipped c + n \<le> u64_max
     \<and> rc_failed c + n \<le> u64_max \<and> rc_in_flight c + n \<le> u64_max"

lemma count_events_snoc:
  "count_events P (es @ [(now, e)]) = count_events P es + (if P e then 1 else 0)"
  by (simp add: count_events_def)

lemma count_events_Nil [simp]: "count_events P [] = 0"
  by (simp add: count_events_def)

lemma count_events_le: "count_events P es \<le> length es"
  by (simp add: count_events_def)

lemma count_ends:
  "count_events ends_item es
     = count_events indexes_item es + count_events skips_item es + count_events fails_item es"
proof (induction es)
  case (Cons x xs)
  then show ?case by (cases x; cases "snd x") (auto simp: count_events_def ends_item_def)
qed simp

lemma items_paired_snoc:
  "items_paired f (es @ [te]) \<Longrightarrow> items_paired f es"
  unfolding items_paired_def by (metis append_take_drop_id le_SucI length_append_singleton take_append
    diff_is_0_eq take_0 append_Nil2)

lemma items_paired_all: "items_paired f es \<Longrightarrow> count_events ends_item es \<le> f + count_events starts_item es"
  unfolding items_paired_def by (metis order_refl take_all_iff)

text \<open>What a report leaves does not depend on what was there before.\<close>

lemma reported_counts:
  assumes "reported r = Some c"
  shows "sn_processed (apply_event t r s) = rc_processed c" "sn_indexed (apply_event t r s) = rc_indexed c"
    "sn_skipped (apply_event t r s) = rc_skipped c" "sn_failed (apply_event t r s) = rc_failed c"
    "sn_total (apply_event t r s) = rc_total c" "sn_in_flight (apply_event t r s) = rc_in_flight c"
    "is_run_started r \<Longrightarrow> \<not> sn_complete (apply_event t r s)"
  using assms by (cases r; auto simp: is_run_started_def)+

text \<open>One event that is neither a report nor the end of the run.\<close>

lemma live_event_counts:
  assumes "live_event e" and "sn_processed s < u64_max" "sn_indexed s < u64_max" "sn_skipped s < u64_max"
    "sn_failed s < u64_max" "sn_in_flight s < u64_max"
  shows "sn_processed (apply_event t e s) = sn_processed s + (if ends_item e then 1 else 0)"
    "sn_indexed (apply_event t e s) = sn_indexed s + (if indexes_item e then 1 else 0)"
    "sn_skipped (apply_event t e s) = sn_skipped s + (if skips_item e then 1 else 0)"
    "sn_failed (apply_event t e s) = sn_failed s + (if fails_item e then 1 else 0)"
    "sn_total (apply_event t e s) = sn_total s"
    "sn_in_flight (apply_event t e s)
       = (if starts_item e then sn_in_flight s + 1 else if ends_item e then sn_in_flight s - 1 else sn_in_flight s)"
    "sn_complete (apply_event t e s) = sn_complete s"
  using assms by (cases e; auto simp: item_ended_def Let_def u64_saturating_add_def ends_item_def
      split: option.split)+

lemma counts_since:
  assumes "reported r = Some c" and "list_all (\<lambda>(now, e). live_event e) es" and "counts_fit c (length es)"
    and s': "s' = apply_events es (apply_event t r s)"
  shows "sn_processed s' = rc_processed c + count_events ends_item es
    \<and> sn_indexed s' = rc_indexed c + count_events indexes_item es
    \<and> sn_skipped s' = rc_skipped c + count_events skips_item es
    \<and> sn_failed s' = rc_failed c + count_events fails_item es
    \<and> sn_total s' = rc_total c
    \<and> sn_in_flight s' \<le> rc_in_flight c + count_events starts_item es
    \<and> (items_paired (rc_in_flight c) es \<longrightarrow>
        sn_in_flight s' + count_events ends_item es = rc_in_flight c + count_events starts_item es)
    \<and> (count_events starts_item es = 0 \<longrightarrow> sn_in_flight s' = rc_in_flight c - count_events ends_item es)
    \<and> (is_run_started r \<longrightarrow> \<not> sn_complete s')"
  using assms(2,3) unfolding s'
proof (induction es rule: rev_induct)
  case Nil
  then show ?case using reported_counts [OF assms(1)] by (simp add: apply_events_def)
next
  case (snoc te es)
  obtain now e where te: "te = (now, e)" by (cases te)
  let ?s = "apply_events es (apply_event t r s)"
  have fit: "counts_fit c (length es)" using snoc.prems(2) by (simp add: counts_fit_def)
  have IH: "sn_processed ?s = rc_processed c + count_events ends_item es"
    "sn_indexed ?s = rc_indexed c + count_events indexes_item es"
    "sn_skipped ?s = rc_skipped c + count_events skips_item es"
    "sn_failed ?s = rc_failed c + count_events fails_item es" "sn_total ?s = rc_total c"
    "sn_in_flight ?s \<le> rc_in_flight c + count_events starts_item es"
    "items_paired (rc_in_flight c) es \<Longrightarrow>
      sn_in_flight ?s + count_events ends_item es = rc_in_flight c + count_events starts_item es"
    "count_events starts_item es = 0 \<Longrightarrow> sn_in_flight ?s = rc_in_flight c - count_events ends_item es"
    "is_run_started r \<Longrightarrow> \<not> sn_complete ?s"
    using snoc.IH fit snoc.prems(1) by simp_all
  note le = count_events_le [of ends_item es] count_events_le [of indexes_item es]
    count_events_le [of skips_item es] count_events_le [of fails_item es] count_events_le [of starts_item es]
  have below: "sn_processed ?s < u64_max" "sn_indexed ?s < u64_max" "sn_skipped ?s < u64_max"
    "sn_failed ?s < u64_max" "sn_in_flight ?s < u64_max"
    using IH(1-4,6) le snoc.prems(2) unfolding counts_fit_def length_append_singleton by linarith+
  have live: "live_event e" using snoc.prems(1) by (simp add: te)
  note now = live_event_counts [OF live below, of now]
  have excl: "starts_item e \<Longrightarrow> \<not> ends_item e" by (cases e) (simp_all add: ends_item_def)
  have flight: "sn_in_flight (apply_event now e ?s) + count_events ends_item (es @ [te])
      = rc_in_flight c + count_events starts_item (es @ [te])" if "items_paired (rc_in_flight c) (es @ [te])"
    using IH(7) [OF items_paired_snoc [OF that]] items_paired_all [OF that] excl
    unfolding now te count_events_snoc by (auto split: if_splits)
  show ?case
    using IH(1-6,8,9) flight excl unfolding te apply_events_simps now count_events_snoc by auto
qed


definition sample_run :: "(int \<times> index_event) list" where
  "sample_run = [(1, ItemStarted 0 ''a'' None), (2, ItemStarted 1 ''b'' None), (3, Warning ''w'' ''m''),
     (4, ItemIndexed 0 ''a'' 3 5 None None None), (5, ItemFailed 1 ''b'' ''e'')]"

lemma recent_warnings_kept_witness:
  "sn_recent_warnings (apply_events ((0, RunStarted 2 [] [] 1 0) # sample_run) snapshot_default)
     = [\<lparr> wa_code = ''w'', wa_message = ''m'', wa_at = 3 \<rparr>]"
proof -
  have "list_all (\<lambda>(now, e). \<not> is_run_started e) sample_run"
    by (simp add: sample_run_def is_run_started_def)
  from recent_warnings_kept [OF this, of 0 2 "[]" "[]" 1 0 snapshot_default] show ?thesis
    by (simp add: sample_run_def warnings_of_def List.map_filter_def last_n_def max_recent_warnings_def)
qed


section \<open>The monitor settles\<close>

type_synonym monitored = "nat \<times> int \<times> index_event"

definition monitor_run :: "monitored list \<Rightarrow> progress_monitor \<Rightarrow> progress_monitor" where
  "monitor_run es m = foldl (\<lambda>m (instant, now, e). on_event instant now e m) m es"

text \<open>What a finished run shows: nothing current, paused or stopping, nothing left unless it was cut short.\<close>

definition settled :: "snapshot \<Rightarrow> bool" where
  "settled s \<longleftrightarrow> sn_current_item s = None \<and> \<not> sn_paused s \<and> \<not> sn_stopping s
     \<and> sn_eta_secs s = (if sn_fatal_error s = None \<and> \<not> sn_stopped_early s then Some f64_zero else None)"

lemma on_event_settled:
  "sn_complete (pm_snapshot (on_event instant now e m)) \<Longrightarrow> settled (pm_snapshot (on_event instant now e m))"
  by (auto simp: on_event_def Let_def settled_def settle_def derive_rate_def split: if_splits)

lemma apply_event_complete:
  "sn_complete s \<Longrightarrow> \<not> is_run_started e \<Longrightarrow> sn_complete (apply_event now e s)"
  by (cases e) (auto simp: is_run_started_def item_ended_def Let_def split: option.split)

lemma settle_complete [simp]: "sn_complete (settle s) = sn_complete s" "sn_complete (derive_rate t s) = sn_complete s"
  by (simp_all add: settle_def derive_rate_def Let_def)

lemma on_event_complete:
  "sn_complete (pm_snapshot m) \<Longrightarrow> \<not> is_run_started e \<Longrightarrow> sn_complete (pm_snapshot (on_event instant now e m))"
  using apply_event_complete by (auto simp: on_event_def Let_def)

lemma run_end_complete:
  "is_run_completed e \<or> (\<exists>error n. e = RunFailed error n) \<Longrightarrow> sn_complete (pm_snapshot (on_event instant now e m))"
  by (cases e) (auto simp: is_run_completed_def on_event_def Let_def)

text \<open>
  Once a run has completed or failed, the monitor shows it finished until another run starts,
  whatever late events arrive: nothing is current, paused or stopping, and no time is left unless it
  failed or was stopped, when none is claimed.
\<close>

theorem monitor_settles:
  assumes "is_run_completed e \<or> e = RunFailed error processed"
    and "list_all (\<lambda>(instant, now, e). \<not> is_run_started e) late"
  shows "sn_complete (pm_snapshot (monitor_run ((instant, now, e) # late) m))
    \<and> settled (pm_snapshot (monitor_run ((instant, now, e) # late) m))"
  using assms(2)
proof (induction late rule: rev_induct)
  case Nil
  have "is_run_completed e \<or> (\<exists>error n. e = RunFailed error n)" using assms(1) by blast
  from run_end_complete [OF this, of instant now m] show ?case
    by (simp add: monitor_run_def on_event_settled)
next
  case (snoc x late)
  obtain t u l where x: "x = (t, u, l)" by (cases x)
  with snoc have "sn_complete (pm_snapshot (on_event t u l (monitor_run ((instant, now, e) # late) m)))"
    by (intro on_event_complete) auto
  then show ?case by (simp add: monitor_run_def x on_event_settled)
qed

lemma monitor_settles_witness:
  "settled (pm_snapshot (monitor_run [(5, 0, RunFailed ''e'' 1), (6, 0, ItemStarted 0 ''late'' None)] monitor_default))"
  using monitor_settles [of "RunFailed ''e'' 1" "''e''" 1 "[(6, 0, ItemStarted 0 ''late'' None)]" 5 0 monitor_default]
  by (simp add: is_run_started_def)

section \<open>The window\<close>

definition record_all :: "(nat \<times> usize) list \<Rightarrow> rolling_rate \<Rightarrow> rolling_rate" where
  "record_all xs r = foldl (\<lambda>r (t, c). rolling_record t c r) r xs"

lemma dropWhile_sorted:
  fixes a :: nat
  shows "sorted (map fst xs) \<Longrightarrow> dropWhile (\<lambda>(t, c). t < a) xs = filter (\<lambda>(t, c). a \<le> t) xs"
proof (induction xs)
  case (Cons x xs)
  then show ?case by (cases x) (auto simp: filter_id_conv intro!: sym [OF filter_True])
qed simp

text \<open>
  With a clock that does not run back, the rolling window is exactly the observations within the
  window size of the latest one, at every moment.
\<close>

theorem rolling_window_exact:
  assumes "sorted (map fst (xs @ [(now, count)]))"
  shows "rr_window (record_all (xs @ [(now, count)]) (rolling_new w))
    = filter (\<lambda>(t, c). now \<le> t + w) (xs @ [(now, count)])"
proof -
  have size_kept: "rr_window_size (record_all ys (rolling_new w)) = w" for ys
  proof (induction ys rule: rev_induct)
    case (snoc y ys)
    then show ?case by (cases y) (simp add: record_all_def rolling_record_def evict_def)
  qed (simp add: record_all_def rolling_new_def)
  show ?thesis
    using assms
  proof (induction xs arbitrary: now count rule: rev_induct)
    case Nil
    then show ?case by (auto simp: record_all_def rolling_record_def evict_def rolling_new_def)
  next
    case (snoc x xs)
    obtain t c where x: "x = (t, c)" by (cases x)
    let ?r = "record_all (xs @ [x]) (rolling_new w)"
    have IH: "rr_window ?r = filter (\<lambda>(u, c). t \<le> u + w) (xs @ [x])"
      using snoc.IH [of t c] snoc.prems by (simp add: x sorted_append)
    have "t \<le> now" using snoc.prems by (simp add: x sorted_append)
    have all: "record_all ((xs @ [x]) @ [(now, count)]) (rolling_new w) = rolling_record now count ?r"
      by (simp add: record_all_def)
    have sorted: "sorted (map fst (filter (\<lambda>(u, c). t \<le> u + w) (xs @ [x]) @ [(now, count)]))"
      using snoc.prems by (auto simp: sorted_append intro!: sorted_filter)
    have "filter (\<lambda>(u, c). now - w \<le> u) (filter (\<lambda>(u, c). t \<le> u + w) ys) = filter (\<lambda>(u, c). now \<le> u + w) ys" for ys
      using \<open>t \<le> now\<close> by (induction ys) auto
    then show ?case
      unfolding all
      using dropWhile_sorted [OF sorted, of "now - w"] \<open>t \<le> now\<close> size_kept [of "xs @ [x]"]
      by (auto simp: rolling_record_def evict_def IH intro!: filter_cong)
  qed
qed

lemma rolling_window_exact_witness:
  "rr_window (record_all [(1, 5), (8, 2), (12, 1)] (rolling_new 5)) = [(8, 2), (12, 1)]"
  using rolling_window_exact [of "[(1, 5), (8, 2)]" 12 1 5] by simp

end
