(* ===== verification/Scope_Lexer.thy ===== *)
theory Scope_Lexer
  imports Rust_Text
begin

text \<open>
  The first pass over a script, from \<^verbatim>\<open>scope_evidence.rs\<close>: which bytes JavaScript reads as
  text (strings, templates, regular expressions, comments) and not as code. A script is its bytes;
  every character the lexer looks at is ASCII, so that a position it stops at is the start of a
  character. Loops over an index are functions of it.
\<close>

section \<open>Bytes the lexer looks at\<close>

definition ch_backslash :: char where "ch_backslash = CHR 0x5C"
definition ch_newline :: char where "ch_newline = CHR 0x0A"
definition ch_return :: char where "ch_return = CHR 0x0D"
definition ch_dquote :: char where "ch_dquote = CHR 0x22"
definition ch_squote :: char where "ch_squote = CHR 0x27"
definition ch_backtick :: char where "ch_backtick = CHR 0x60"
definition ch_slash :: char where "ch_slash = CHR 0x2F"
definition ch_star :: char where "ch_star = CHR 0x2A"

definition is_quote :: "char \<Rightarrow> bool" where
  "is_quote c \<longleftrightarrow> c = ch_dquote \<or> c = ch_squote \<or> c = ch_backtick"

definition ascii_space :: "char \<Rightarrow> bool" where
  "ascii_space c \<longleftrightarrow> (let b = byte_of c in b = 32 \<or> b = 9 \<or> b = 10 \<or> b = 12 \<or> b = 13)"

text \<open>The byte at an index, when there is one.\<close>

definition byte_at :: "string \<Rightarrow> nat \<Rightarrow> char option" where
  "byte_at s i = (if i < length s then Some (s ! i) else None)"

text \<open>\<^verbatim>\<open>str::find\<close> and \<^verbatim>\<open>str::rfind\<close> of a text.\<close>

fun str_find :: "string \<Rightarrow> string \<Rightarrow> nat option" where
  "str_find [] p = (if p = [] then Some 0 else None)"
| "str_find (c # s) p = (if prefix p (c # s) then Some 0 else map_option Suc (str_find s p))"

fun str_rfind :: "string \<Rightarrow> string \<Rightarrow> nat option" where
  "str_rfind [] p = (if p = [] then Some 0 else None)"
| "str_rfind (c # s) p =
     (case str_rfind s p of
        Some i \<Rightarrow> Some (Suc i)
      | None \<Rightarrow> if prefix p (c # s) then Some 0 else None)"

section \<open>Where a piece of text ends\<close>

function quoted_end :: "string \<Rightarrow> nat \<Rightarrow> char \<Rightarrow> nat" where
  "quoted_end s at quote =
     (if at < length s then
        (if s ! at = ch_backslash \<and> prefix [ch_return, ch_newline] (drop (at + 1) s)
         then quoted_end s (at + 3) quote
         else if s ! at = ch_backslash then quoted_end s (at + 2) quote
         else if s ! at = ch_newline \<or> s ! at = ch_return then at
         else if s ! at = quote then at + 1
         else quoted_end s (at + 1) quote)
      else length s)"
  by pat_completeness auto
termination by (relation "measure (\<lambda>(s, at, _). length s - at)") auto

text \<open>The second result says that the template was left at a \<^verbatim>\<open>${\<close>.\<close>

function template_end :: "string \<Rightarrow> nat \<Rightarrow> nat \<times> bool" where
  "template_end s at =
     (if at < length s then
        (if s ! at = ch_backslash then template_end s (at + 2)
         else if s ! at = ch_backtick then (at + 1, False)
         else if s ! at = CHR ''$'' \<and> byte_at s (at + 1) = Some (CHR ''{'') then (at + 2, True)
         else template_end s (at + 1))
      else (length s, False))"
  by pat_completeness auto
termination by (relation "measure (\<lambda>(s, at). length s - at)") auto

function regex_end :: "string \<Rightarrow> nat \<Rightarrow> bool \<Rightarrow> nat" where
  "regex_end s at in_class =
     (if at < length s then
        (if s ! at = ch_backslash then regex_end s (at + 2) in_class
         else if s ! at = ch_newline \<or> s ! at = ch_return then at
         else if s ! at = CHR ''['' then regex_end s (at + 1) True
         else if s ! at = CHR '']'' then regex_end s (at + 1) False
         else if s ! at = ch_slash \<and> \<not> in_class then at + 1
         else regex_end s (at + 1) in_class)
      else length s)"
  by pat_completeness auto
termination by (relation "measure (\<lambda>(s, at, _). length s - at)") auto

definition line_comment_end :: "string \<Rightarrow> nat \<Rightarrow> nat" where
  "line_comment_end s at = at + length (takeWhile (\<lambda>c. c \<noteq> ch_newline) (drop at s))"

definition block_comment_end :: "string \<Rightarrow> nat \<Rightarrow> nat" where
  "block_comment_end s at =
     (case str_find (drop (at + 2) s) [ch_star, ch_slash] of
        Some close \<Rightarrow> at + 2 + close + 2
      | None \<Rightarrow> length s)"

declare quoted_end.simps [simp del] template_end.simps [simp del] regex_end.simps [simp del]

lemma str_find_bound: "str_find s p = Some i \<Longrightarrow> i + length p \<le> length s"
proof (induction s arbitrary: i)
  case (Cons c s)
  show ?case
  proof (cases "prefix p (c # s)")
    case True
    with Cons.prems show ?thesis using prefix_length_le [OF True] by simp
  next
    case False
    with Cons show ?thesis by auto
  qed
qed (simp split: if_splits)

lemma quoted_end_min: "min at (length s) \<le> quoted_end s at q \<and> quoted_end s at q \<le> length s"
proof (induction s at q rule: quoted_end.induct)
  case (1 s at q)
  have eq: "quoted_end s at q = (if at < length s then
        (if s ! at = ch_backslash \<and> prefix [ch_return, ch_newline] (drop (at + 1) s)
         then quoted_end s (at + 3) q
         else if s ! at = ch_backslash then quoted_end s (at + 2) q
         else if s ! at = ch_newline \<or> s ! at = ch_return then at
         else if s ! at = q then at + 1
         else quoted_end s (at + 1) q)
      else length s)" by (rule quoted_end.simps)
  show ?case unfolding eq using 1 by (auto simp: min_def split: if_splits)
qed

lemma template_end_min:
  "min at (length s) \<le> fst (template_end s at) \<and> fst (template_end s at) \<le> length s"
proof (induction s at rule: template_end.induct)
  case (1 s at)
  have eq: "template_end s at = (if at < length s then
        (if s ! at = ch_backslash then template_end s (at + 2)
         else if s ! at = ch_backtick then (at + 1, False)
         else if s ! at = CHR ''$'' \<and> byte_at s (at + 1) = Some (CHR ''{'') then (at + 2, True)
         else template_end s (at + 1))
      else (length s, False))" by (rule template_end.simps)
  show ?case unfolding eq using 1 by (auto simp: min_def byte_at_def split: if_splits)
qed

lemma regex_end_min: "min at (length s) \<le> regex_end s at k \<and> regex_end s at k \<le> length s"
proof (induction s at k rule: regex_end.induct)
  case (1 s at k)
  have eq: "regex_end s at k = (if at < length s then
        (if s ! at = ch_backslash then regex_end s (at + 2) k
         else if s ! at = ch_newline \<or> s ! at = ch_return then at
         else if s ! at = CHR ''['' then regex_end s (at + 1) True
         else if s ! at = CHR '']'' then regex_end s (at + 1) False
         else if s ! at = ch_slash \<and> \<not> k then at + 1
         else regex_end s (at + 1) k)
      else length s)" by (rule regex_end.simps)
  show ?case unfolding eq using 1 by (auto simp: min_def split: if_splits)
qed

lemma quoted_end_bounds: "at < length s \<Longrightarrow> at < quoted_end s (at + 1) q \<and> quoted_end s (at + 1) q \<le> length s"
  using quoted_end_min [of "at + 1" s q] by simp

lemma template_end_bounds:
  "at < length s \<Longrightarrow> at < fst (template_end s (at + 1)) \<and> fst (template_end s (at + 1)) \<le> length s"
  using template_end_min [of "at + 1" s] by simp

lemma regex_end_bounds:
  "at < length s \<Longrightarrow> at < regex_end s (at + 1) k \<and> regex_end s (at + 1) k \<le> length s"
  using regex_end_min [of "at + 1" s k] by simp

lemma line_comment_bounds:
  assumes "at < length s" "s ! at = ch_slash"
  shows "at < line_comment_end s at \<and> line_comment_end s at \<le> length s"
proof -
  obtain t where t: "drop at s = ch_slash # t" using assms by (metis Cons_nth_drop_Suc)
  have "length (takeWhile (\<lambda>c. c \<noteq> ch_newline) (drop at s)) \<le> length (drop at s)"
    by (rule length_takeWhile_le)
  moreover have "takeWhile (\<lambda>c. c \<noteq> ch_newline) (drop at s) \<noteq> []"
    unfolding t by (simp add: ch_slash_def ch_newline_def)
  ultimately show ?thesis using assms(1) by (simp add: line_comment_end_def)
qed

lemma block_comment_bounds:
  assumes "at + 2 \<le> length s"
  shows "at < block_comment_end s at \<and> block_comment_end s at \<le> length s"
  using assms str_find_bound [of "drop (at + 2) s" "[ch_star, ch_slash]"]
  by (auto simp: block_comment_end_def split: option.split)


section \<open>Text and code\<close>

text \<open>
  A slash opens a regular expression where no value has just ended; these bytes end none.
\<close>

definition regex_may_follow :: "char \<Rightarrow> bool" where
  "regex_may_follow c \<longleftrightarrow> c \<in> set ''([{},;:=!&|?+-*%<>~^''"

type_synonym span = "nat \<times> nat"

text \<open>
  The loop of \<^verbatim>\<open>inert_spans\<close>. \<open>depths\<close> holds the brace depth inside each open
  interpolation, innermost first; a closing brace at depth zero ends the interpolation, so the
  depth never goes below it.
\<close>

definition deepen :: "char \<Rightarrow> nat list \<Rightarrow> nat list" where
  "deepen c depths =
     (case depths of
        [] \<Rightarrow> []
      | d # ds \<Rightarrow>
          (if c = CHR ''{'' then d + 1 else if c = CHR ''}'' then d - 1 else d) # ds)"

function inert_from :: "string \<Rightarrow> bool \<Rightarrow> nat list \<Rightarrow> nat \<Rightarrow> span list" where
  "inert_from s regex depths at =
     (if at < length s then
        (let c = s ! at in
         if c = ch_dquote \<or> c = ch_squote then
           (let e = quoted_end s (at + 1) c in (at, e) # inert_from s False depths e)
         else if c = ch_backtick then
           (let (e, open) = template_end s (at + 1) in
            (at, e) # inert_from s False (if open then 0 # depths else depths) e)
         else if c = CHR ''}'' \<and> depths \<noteq> [] \<and> hd depths = 0 then
           (let (e, open) = template_end s (at + 1) in
            (at, e) # inert_from s False (if open then 0 # tl depths else tl depths) e)
         else if c = ch_slash \<and> byte_at s (at + 1) = Some ch_slash then
           (let e = line_comment_end s at in (at, e) # inert_from s regex depths e)
         else if c = ch_slash \<and> byte_at s (at + 1) = Some ch_star then
           (let e = block_comment_end s at in (at, e) # inert_from s regex depths e)
         else if c = ch_slash \<and> regex then
           (let e = regex_end s (at + 1) False in (at, e) # inert_from s False depths e)
         else inert_from s (if ascii_space c then regex else regex_may_follow c) (deepen c depths) (at + 1))
      else [])"
  by pat_completeness auto
termination
proof (relation "measure (\<lambda>(s, _, _, at). length s - at)", goal_cases)
  case (2 s regex depths at c e)
  then show ?case using quoted_end_bounds [of at s c] by auto
next
  case (3 s regex depths at c p e op)
  then have "e = fst (template_end s (at + 1))" by (metis fst_conv)
  with 3 show ?case using template_end_bounds [of at s] by auto
next
  case (4 s regex depths at c p e op)
  then have "e = fst (template_end s (at + 1))" by (metis fst_conv)
  with 4 show ?case using template_end_bounds [of at s] by auto
next
  case (5 s regex depths at c e)
  then show ?case using line_comment_bounds [of at s] by auto
next
  case (6 s regex depths at c e)
  then show ?case using block_comment_bounds [of at s] by (auto simp: byte_at_def split: if_splits)
next
  case (7 s regex depths at c e)
  then show ?case using regex_end_bounds [of at s False] by auto
qed auto

declare inert_from.simps [simp del]

definition inert_spans :: "string \<Rightarrow> span list" where
  "inert_spans s = inert_from s True [] 0"

section \<open>The spans are in order\<close>

text \<open>
  Every search among the spans is a binary one: they must be nonempty, apart, in order and inside
  the script.
\<close>

fun spans_from :: "nat \<Rightarrow> nat \<Rightarrow> span list \<Rightarrow> bool" where
  "spans_from len lo [] = True"
| "spans_from len lo ((a, b) # sp) = (lo \<le> a \<and> a < b \<and> b \<le> len \<and> spans_from len b sp)"

lemma spans_from_mono: "spans_from len hi sp \<Longrightarrow> lo \<le> hi \<Longrightarrow> spans_from len lo sp"
  by (cases sp) auto

lemma inert_from_ok: "spans_from (length s) at (inert_from s regex depths at)"
proof (induction s regex depths at rule: inert_from.induct)
  case (1 s regex depths at)
  show ?case
  proof (cases "at < length s")
    case False
    then show ?thesis by (simp add: inert_from.simps)
  next
    case True
    note IH = "1.IH" [OF True refl]
    let ?c = "s ! at"
    obtain te to where te: "template_end s (at + 1) = (te, to)" by fastforce
    have tb: "at < te" "te \<le> length s" using template_end_bounds [OF True] te by auto
    have bc: "at < block_comment_end s at" "block_comment_end s at \<le> length s"
      if "byte_at s (at + 1) = Some ch_star"
      using block_comment_bounds [of at s] that by (auto simp: byte_at_def split: if_splits)
    consider "?c = ch_dquote \<or> ?c = ch_squote"
      | "\<not> (?c = ch_dquote \<or> ?c = ch_squote)" "?c = ch_backtick"
      | "\<not> (?c = ch_dquote \<or> ?c = ch_squote)" "?c \<noteq> ch_backtick" "?c = CHR ''}'' \<and> depths \<noteq> [] \<and> hd depths = 0"
      | "\<not> (?c = ch_dquote \<or> ?c = ch_squote)" "?c \<noteq> ch_backtick" "\<not> (?c = CHR ''}'' \<and> depths \<noteq> [] \<and> hd depths = 0)"
        "?c = ch_slash \<and> byte_at s (at + 1) = Some ch_slash"
      | "\<not> (?c = ch_dquote \<or> ?c = ch_squote)" "?c \<noteq> ch_backtick" "\<not> (?c = CHR ''}'' \<and> depths \<noteq> [] \<and> hd depths = 0)"
        "\<not> (?c = ch_slash \<and> byte_at s (at + 1) = Some ch_slash)" "?c = ch_slash \<and> byte_at s (at + 1) = Some ch_star"
      | "\<not> (?c = ch_dquote \<or> ?c = ch_squote)" "?c \<noteq> ch_backtick" "\<not> (?c = CHR ''}'' \<and> depths \<noteq> [] \<and> hd depths = 0)"
        "\<not> (?c = ch_slash \<and> byte_at s (at + 1) = Some ch_slash)" "\<not> (?c = ch_slash \<and> byte_at s (at + 1) = Some ch_star)"
        "?c = ch_slash \<and> regex"
      | "\<not> (?c = ch_dquote \<or> ?c = ch_squote)" "?c \<noteq> ch_backtick" "\<not> (?c = CHR ''}'' \<and> depths \<noteq> [] \<and> hd depths = 0)"
        "\<not> (?c = ch_slash \<and> byte_at s (at + 1) = Some ch_slash)" "\<not> (?c = ch_slash \<and> byte_at s (at + 1) = Some ch_star)"
        "\<not> (?c = ch_slash \<and> regex)"
      by blast
    then show ?thesis
    proof cases
      case 1
      then show ?thesis using IH(1) [OF 1 refl] True quoted_end_bounds [OF True, of ?c]
        by (subst inert_from.simps) (simp add: Let_def)
    next
      case 2
      then show ?thesis using IH(2) [OF 2 te [symmetric] refl] True tb
        by (subst inert_from.simps) (simp add: Let_def te del: One_nat_def)
    next
      case 3
      then show ?thesis using IH(3) [OF 3 te [symmetric] refl] True tb
        by (subst inert_from.simps) (simp add: Let_def te del: One_nat_def)
    next
      case 4
      then show ?thesis using IH(4) [OF 4 refl] True line_comment_bounds [OF True]
        by (subst inert_from.simps) (auto simp: Let_def simp del: One_nat_def)
    next
      case 5
      then show ?thesis using IH(5) [OF 5 refl] True bc
        by (subst inert_from.simps) (auto simp: Let_def simp del: One_nat_def)
    next
      case 6
      then show ?thesis using IH(6) [OF 6 refl] True regex_end_bounds [OF True, of False]
        by (subst inert_from.simps) (auto simp: Let_def simp del: One_nat_def)
    next
      case 7
      then show ?thesis using IH(7) [OF 7] True
        by (subst inert_from.simps) (auto simp: Let_def simp del: One_nat_def intro: spans_from_mono)
    qed
  qed
qed


section \<open>Searching the spans\<close>

text \<open>\<^verbatim>\<open>partition_point\<close> on spans in order: how many of them start before a position.\<close>

definition spans_before :: "span list \<Rightarrow> nat \<Rightarrow> nat" where
  "spans_before spans at = length (takeWhile (\<lambda>(a, _). a < at) spans)"

definition within :: "span list \<Rightarrow> nat \<Rightarrow> bool" where
  "within spans at \<longleftrightarrow>
     (let n = spans_before spans at in 0 < n \<and> at < snd (spans ! (n - 1)))"

lemma within_Cons:
  "within ((a, b) # sp) at \<longleftrightarrow>
     a < at \<and> (if spans_before sp at = 0 then at < b else within sp at)"
  by (auto simp: within_def spans_before_def Let_def nth_Cons')

lemma spans_before_0: "spans_before ((a, b) # sp) at = 0 \<longleftrightarrow> at \<le> a"
  by (auto simp: spans_before_def)

lemma spans_from_fst: "spans_from len lo sp \<Longrightarrow> y \<in> set sp \<Longrightarrow> lo \<le> fst y"
proof (induction sp arbitrary: lo)
  case (Cons z sp)
  then show ?case by (cases z) fastforce
qed simp

lemma within_member:
  "spans_from len lo sp \<Longrightarrow> within sp at \<longleftrightarrow> (\<exists>(a, b)\<in>set sp. a < at \<and> at < b)"
proof (induction sp arbitrary: lo)
  case Nil
  then show ?case by (simp add: within_def spans_before_def)
next
  case (Cons x sp)
  obtain a b where x: "x = (a, b)" by fastforce
  with Cons.prems have ok: "a < b" "spans_from len b sp" by simp_all
  show ?case
  proof (cases "spans_before sp at = 0")
    case True
    then have "\<forall>y\<in>set sp. at \<le> fst y"
    proof (cases sp)
      case (Cons z zs)
      obtain c d where z: "z = (c, d)" by fastforce
      with True Cons have "at \<le> c" by (simp add: spans_before_0)
      moreover have "\<forall>y\<in>set zs. d \<le> fst y" "c < d" using ok(2) Cons z spans_from_fst by auto
      ultimately show ?thesis by (fastforce simp: Cons z)
    qed simp
    with True show ?thesis by (auto simp: x within_Cons)
  next
    case False
    then obtain z zs where z: "sp = z # zs" "fst z < at"
      by (cases sp) (auto simp: spans_before_def split: if_splits)
    have "b \<le> fst z" using spans_from_fst [OF ok(2), of z] z(1) by simp
    with z(2) ok(1) have "a < at" "\<not> at < b" by auto
    then show ?thesis using False Cons.IH [OF ok(2)] by (auto simp: x within_Cons)
  qed
qed

text \<open>
  C8: The spans of a script are nonempty, disjoint, in order and inside it, whatever its bytes; so
  the binary search for the span around a position finds it exactly when one of them holds the
  position past its first byte.
\<close>

theorem inert_spans_ordered:
  "spans_from (length s) 0 (inert_spans s)
   \<and> within (inert_spans s) at = (\<exists>(a, b)\<in>set (inert_spans s). a < at \<and> at < b)"
  using inert_from_ok [of s 0 True "[]"] within_member by (auto simp: inert_spans_def)

end
