(* ===== verification/Scope_Paths.thy ===== *)
theory Scope_Paths
  imports Rust_Text
begin

text \<open>
  Recorded working directories, from \<^verbatim>\<open>scope_evidence.rs\<close>: the spelling of a path as a session
  wrote it, on whatever platform it ran. A directory is joined onto its baseline, its dots are
  collapsed and containment is decided on the text alone. Only ASCII separators are looked at, so
  paths are taken apart bytewise; trimming is on characters.
\<close>

section \<open>Shapes of a path\<close>

definition ascii_alphabetic :: "char \<Rightarrow> bool" where
  "ascii_alphabetic c \<longleftrightarrow>
     (let b = byte_of c in (65 \<le> b \<and> b \<le> 90) \<or> (97 \<le> b \<and> b \<le> 122))"

definition slash :: char where "slash = CHR 0x2F"
definition backslash :: char where "backslash = CHR 0x5C"

definition either_separator :: "char \<Rightarrow> bool" where
  "either_separator c \<longleftrightarrow> c = slash \<or> c = backslash"

text \<open>\<^verbatim>\<open>bytes[0].is_ascii_alphabetic() && bytes[1] == b':'\<close>.\<close>

fun drive_prefix :: "string \<Rightarrow> bool" where
  "drive_prefix (d # c # _) = (ascii_alphabetic d \<and> c = CHR '':'')"
| "drive_prefix _ = False"

fun windows_drive_root :: "string \<Rightarrow> bool" where
  "windows_drive_root (d # c # s # _) =
     (ascii_alphabetic d \<and> c = CHR '':'' \<and> either_separator s)"
| "windows_drive_root _ = False"

definition absolute_anywhere :: "string \<Rightarrow> bool" where
  "absolute_anywhere path \<longleftrightarrow>
     (path \<noteq> [] \<and> either_separator (hd path)) \<or> windows_drive_root path"

fun forward_slash_unc :: "string \<Rightarrow> bool" where
  "forward_slash_unc (a # b # c # _) = (a = slash \<and> b = slash \<and> \<not> either_separator c)"
| "forward_slash_unc _ = False"

definition windows_shaped :: "string \<Rightarrow> bool" where
  "windows_shaped path \<longleftrightarrow>
     (path \<noteq> [] \<and> hd path = backslash) \<or> forward_slash_unc path \<or> drive_prefix path"

definition separator_of :: "string \<Rightarrow> char" where
  "separator_of path =
     (if windows_shaped path \<and> (backslash \<in> set path \<or> slash \<notin> set path) then backslash else slash)"

text \<open>\<^verbatim>\<open>trim_end_matches(['/', '\\'])\<close>.\<close>

definition trim_end_separators :: "string \<Rightarrow> string" where
  "trim_end_separators s = rev (dropWhile either_separator (rev s))"

definition trim_path :: "string \<Rightarrow> string" where
  "trim_path path =
     (let trimmed = trim_end_separators (str_trim path) in
      if trimmed = [] then str_trim path else trimmed)"

section \<open>Collapsing dots\<close>

text \<open>\<open>is_separator\<close> of the code: a backslash separates in a Windows spelling only.\<close>

definition is_separator :: "bool \<Rightarrow> char \<Rightarrow> bool" where
  "is_separator windows c \<longleftrightarrow> c = slash \<or> (windows \<and> c = backslash)"

text \<open>\<^verbatim>\<open>str::split\<close> with a predicate: never empty.\<close>

fun split_where :: "(char \<Rightarrow> bool) \<Rightarrow> string \<Rightarrow> string list" where
  "split_where p [] = [[]]"
| "split_where p (c # s) =
     (if p c then [] # split_where p s
      else (case split_where p s of [] \<Rightarrow> [[c]] | x # xs \<Rightarrow> (c # x) # xs))"

text \<open>\<^verbatim>\<open>unc_root_len\<close>: the scan after the two opening separators, at byte \<open>at\<close>.\<close>

fun unc_root_scan :: "bool \<Rightarrow> nat \<Rightarrow> nat \<Rightarrow> bool \<Rightarrow> string \<Rightarrow> nat" where
  "unc_root_scan windows at names in_name [] = at"
| "unc_root_scan windows at names in_name (c # s) =
     (if \<not> is_separator windows c then unc_root_scan windows (at + 1) names True s
      else if in_name then
        (if names + 1 = 2 then at else unc_root_scan windows (at + 1) (names + 1) False s)
      else unc_root_scan windows (at + 1) names False s)"

definition unc_root_len :: "bool \<Rightarrow> string \<Rightarrow> nat" where
  "unc_root_len windows path = unc_root_scan windows 2 0 False (drop 2 path)"

text \<open>One part of the loop over the components, \<open>parts\<close> the stack.\<close>

definition collapse_part :: "bool \<Rightarrow> string list \<Rightarrow> string \<Rightarrow> string list" where
  "collapse_part rooted parts part =
     (if part = [] \<or> part = ''.'' then parts
      else if part = ''..'' then
        (if parts \<noteq> [] \<and> last parts \<noteq> ''..'' then butlast parts
         else if \<not> rooted then parts @ [''..''] else parts)
      else parts @ [part])"

definition root_len :: "string \<Rightarrow> nat" where
  "root_len path =
     (let windows = windows_shaped path;
          unc = windows \<and> (prefix [backslash, backslash] path \<or> prefix [slash, slash] path) in
      if windows_drive_root path then 3
      else if unc then unc_root_len windows path
      else if path \<noteq> [] \<and> is_separator windows (hd path) then 1
      else if windows then 2
      else 0)"

definition lexically_normalized :: "string \<Rightarrow> string" where
  "lexically_normalized path0 =
     (let path = str_trim path0;
          windows = windows_shaped path;
          separator = separator_of path;
          unc = windows \<and> (prefix [backslash, backslash] path \<or> prefix [slash, slash] path);
          n = root_len path;
          root = map (\<lambda>c. if is_separator windows c then separator else c) (take n path);
          parts = foldl (collapse_part (root \<noteq> [])) [] (split_where (is_separator windows) (drop n path));
          body = join [separator] parts in
      if root = [] \<and> body = [] then ''.''
      else if unc \<and> body \<noteq> [] then root @ [separator] @ body
      else root @ body)"

section \<open>Joining onto the baseline\<close>

definition relative_to_baseline_drive :: "string \<Rightarrow> string \<Rightarrow> string option" where
  "relative_to_baseline_drive path base =
     (if \<not> drive_prefix path \<or> \<not> windows_shaped base then Some path
      else if 2 \<le> length base \<and> base ! 1 = CHR '':'' \<and> ascii_lower (base ! 0) = ascii_lower (path ! 0)
      then Some (drop 2 path) else None)"

definition on_baseline_drive :: "string \<Rightarrow> string option \<Rightarrow> string option" where
  "on_baseline_drive path baseline =
     (let rooted = path \<noteq> [] \<and> either_separator (hd path)
            \<and> \<not> (tl path \<noteq> [] \<and> either_separator (hd (tl path))) in
      if \<not> rooted then None
      else case baseline of
        None \<Rightarrow> None
      | Some b \<Rightarrow>
          (let base = str_trim b in
           if drive_prefix base then Some (take 2 base @ path) else None))"

definition resolve_candidate :: "string \<Rightarrow> string option \<Rightarrow> string option" where
  "resolve_candidate path0 baseline =
     (let path = str_trim path0 in
      case on_baseline_drive path baseline of
        Some on_drive \<Rightarrow> Some (lexically_normalized on_drive)
      | None \<Rightarrow>
          if absolute_anywhere path then Some (lexically_normalized path)
          else case baseline of
            None \<Rightarrow> None
          | Some b \<Rightarrow>
              (let base = str_trim b in
               if \<not> absolute_anywhere base then None
               else case relative_to_baseline_drive path base of
                 None \<Rightarrow> None
               | Some rel \<Rightarrow>
                   Some (lexically_normalized
                     (trim_end_separators base @ [separator_of base] @ rel))))"

definition recorded_workdir :: "string \<Rightarrow> string option \<Rightarrow> string" where
  "recorded_workdir path baseline =
     (case resolve_candidate path baseline of
        Some candidate \<Rightarrow> trim_path candidate
      | None \<Rightarrow> trim_path path)"

text \<open>
  \<^verbatim>\<open>host_path\<close> on a host that is not Windows: the spelling may be asked of the file system when
  it is absolute there and does not read as a Windows one.
\<close>

definition host_path :: "string \<Rightarrow> string option" where
  "host_path path =
     (if windows_shaped path then None
      else if path \<noteq> [] \<and> hd path = slash then Some path else None)"

section \<open>Containment on the text\<close>

definition comparable_spelling :: "string \<Rightarrow> string" where
  "comparable_spelling path =
     (if \<not> windows_shaped path then path
      else map (\<lambda>c. if c = slash then backslash else ascii_lower c) path)"

definition lexically_within :: "string \<Rightarrow> string \<Rightarrow> bool" where
  "lexically_within candidate0 scope_root =
     (let candidate1 = comparable_spelling (lexically_normalized candidate0);
          scope1 = comparable_spelling (lexically_normalized scope_root);
          windows = windows_shaped scope1;
          candidate = trim_path candidate1;
          scope = trim_path scope1 in
      candidate = scope
      \<or> (case strip_prefix candidate scope of
           None \<Rightarrow> False
         | Some rest \<Rightarrow> rest \<noteq> [] \<and> (hd rest = slash \<or> (windows \<and> hd rest = backslash))))"

lemmas [rust_eval] =
  ascii_alphabetic_def slash_def backslash_def either_separator_def absolute_anywhere_def
  windows_shaped_def separator_of_def trim_end_separators_def trim_path_def is_separator_def
  unc_root_len_def collapse_part_def root_len_def lexically_normalized_def
  relative_to_baseline_drive_def on_baseline_drive_def resolve_candidate_def recorded_workdir_def
  host_path_def comparable_spelling_def lexically_within_def


section \<open>Unix paths as lists of names\<close>

text \<open>
  A path of a Unix host, rooted and not in the UNC form. Its parts are the names between slashes;
  walking them from the root, empty names and dots stay, two dots climb, every other name descends.
  A name that ends in white space or a backslash is left out: trimming takes those bytes off the
  text whatever they belong to.
\<close>

definition part_ok :: "string \<Rightarrow> bool" where
  "part_ok x \<longleftrightarrow> x = [] \<or>
     (\<not> utf8_cont (hd x) \<and> \<not> char_is_whitespace (last (utf8_chars x)) \<and> last x \<noteq> backslash)"

definition unix_parts :: "string \<Rightarrow> string list" where
  "unix_parts p = split_where (\<lambda>c. c = slash) (tl p)"

definition unix_path :: "string \<Rightarrow> bool" where
  "unix_path p \<longleftrightarrow>
     p \<noteq> [] \<and> hd p = slash \<and> \<not> forward_slash_unc p \<and> list_all part_ok (unix_parts p)"

abbreviation walk_from :: "string list \<Rightarrow> string list \<Rightarrow> string list" where
  "walk_from \<equiv> foldl (collapse_part True)"

definition unix_walk :: "string \<Rightarrow> string list" where
  "unix_walk p = walk_from [] (unix_parts p)"

definition unix_spell :: "string list \<Rightarrow> string" where
  "unix_spell names = slash # join [slash] names"

definition slashed :: "string list \<Rightarrow> string" where
  "slashed parts = concat (map (\<lambda>c. slash # c) parts)"

definition plain_name :: "string \<Rightarrow> bool" where
  "plain_name x \<longleftrightarrow> x \<noteq> [] \<and> x \<noteq> ''.'' \<and> x \<noteq> ''..'' \<and> slash \<notin> set x \<and> part_ok x"

lemma slashed_simps [simp]:
  "slashed [] = []" "slashed (x # xs) = slash # x @ slashed xs"
  "slashed (xs @ ys) = slashed xs @ slashed ys"
  by (simp_all add: slashed_def)

lemma split_where_nonempty [simp]: "split_where p s \<noteq> []"
  by (induction s) (auto split: list.splits)

lemma slashed_split: "slashed (split_where (\<lambda>c. c = slash) s) = slash # s"
  by (induction s) (auto split: list.splits)

lemma split_where_parts_free: "\<forall>x\<in>set (split_where p s). \<forall>c\<in>set x. \<not> p c"
  by (induction s) (auto split: list.splits)

lemma split_where_free: "x \<in> set (split_where p s) \<Longrightarrow> c \<in> set x \<Longrightarrow> \<not> p c"
  using split_where_parts_free by blast

lemma split_where_append:
  "p c \<Longrightarrow> split_where p (s @ c # t) = split_where p s @ split_where p t"
proof (induction s)
  case Nil
  then show ?case by simp
next
  case (Cons d s)
  then show ?case by (cases "split_where p s") auto
qed

lemma split_where_single: "\<forall>c\<in>set x. \<not> p c \<Longrightarrow> split_where p x = [x]"
  by (induction x) auto

lemma split_join:
  "names \<noteq> [] \<Longrightarrow> \<forall>x\<in>set names. slash \<notin> set x \<Longrightarrow>
   split_where (\<lambda>c. c = slash) (join [slash] names) = names"
proof (induction "[slash]" names rule: join.induct)
  case (2 s)
  then show ?case by (auto intro: split_where_single)
next
  case (3 s t ss)
  have "split_where (\<lambda>c. c = slash) s = [s]"
    using "3.prems" by (auto intro: split_where_single)
  with 3 show ?case
    using split_where_append [of "\<lambda>c. c = slash" slash s] by simp
qed simp

lemma slashed_join: "names \<noteq> [] \<Longrightarrow> slashed names = unix_spell names"
  by (induction "[slash]" names rule: join.induct) (simp_all add: unix_spell_def)

lemma unix_parts_slashed: "unix_path p \<Longrightarrow> p = slashed (unix_parts p)"
  by (cases p) (auto simp: unix_path_def unix_parts_def slashed_split)

subsection \<open>Trimming leaves a Unix path alone\<close>

lemma utf8_chars_append:
  assumes "t = [] \<or> \<not> utf8_cont (hd t)"
  shows "utf8_chars (s @ t) = utf8_chars s @ utf8_chars t"
proof (induction s rule: utf8_chars.induct)
  case 1
  then show ?case by simp
next
  case (2 c cs)
  have "takeWhile utf8_cont (cs @ t) = takeWhile utf8_cont cs"
    using assms by (induction cs) (auto simp: takeWhile_eq_Nil_iff)
  moreover have "dropWhile utf8_cont (cs @ t) = dropWhile utf8_cont cs @ t"
    using assms by (induction cs) (auto simp: dropWhile_eq_self_iff)
  ultimately show ?case using 2 by simp
qed

lemma dropWhile_id: "xs = [] \<or> \<not> P (hd xs) \<Longrightarrow> dropWhile P xs = xs"
  by (cases xs) auto

lemma str_trim_id:
  assumes "s = [] \<or> \<not> char_is_whitespace (hd (utf8_chars s)) \<and> \<not> char_is_whitespace (last (utf8_chars s))"
  shows "str_trim s = s"
proof -
  have 1: "dropWhile char_is_whitespace (utf8_chars s) = utf8_chars s"
    using assms by (intro dropWhile_id) auto
  have 2: "dropWhile char_is_whitespace (rev (utf8_chars s)) = rev (utf8_chars s)"
    using assms by (intro dropWhile_id) (auto simp: hd_rev)
  show ?thesis by (simp add: str_trim_def 1 2)
qed

lemma slash_visible [simp]: "\<not> utf8_cont slash" "\<not> char_is_whitespace [slash]"
  by (simp_all add: slash_def utf8_cont_def byte_of_def char_is_whitespace_def)

lemma part_ok_start: "part_ok x \<Longrightarrow> x = [] \<or> \<not> utf8_cont (hd x)"
  by (auto simp: part_ok_def)

lemma utf8_chars_slash:
  assumes "part_ok x"
  shows "utf8_chars (slash # x) = [slash] # utf8_chars x"
proof -
  have "utf8_chars ([slash] @ x) = utf8_chars [slash] @ utf8_chars x"
    using part_ok_start [OF assms] by (rule utf8_chars_append)
  moreover have "utf8_chars [slash] = [[slash]]" by simp
  ultimately show ?thesis by (simp del: utf8_chars.simps)
qed

lemma utf8_chars_slashed:
  "list_all part_ok parts \<Longrightarrow> utf8_chars (slashed parts) = concat (map (\<lambda>x. [slash] # utf8_chars x) parts)"
proof (induction parts)
  case Nil
  then show ?case by simp
next
  case (Cons x xs)
  have "utf8_chars ((slash # x) @ slashed xs) = utf8_chars (slash # x) @ utf8_chars (slashed xs)"
    by (rule utf8_chars_append) (cases xs; simp)
  with Cons show ?case by (simp add: utf8_chars_slash del: utf8_chars.simps)
qed

lemma last_char_slashed:
  assumes "list_all part_ok parts" "parts \<noteq> []"
  shows "\<not> char_is_whitespace (last (utf8_chars (slashed parts)))"
proof -
  obtain xs x where p: "parts = xs @ [x]" using assms(2) by (metis append_butlast_last_id)
  with assms(1) have "part_ok x" by simp
  then show ?thesis
    using assms(1) by (cases "x = []")
      (auto simp: p utf8_chars_slashed part_ok_def simp del: slashed_simps utf8_chars.simps(2))
qed

lemma str_trim_slashed:
  assumes "list_all part_ok parts"
  shows "str_trim (slashed parts) = slashed parts"
proof (cases parts)
  case Nil
  then show ?thesis by (simp add: str_trim_id)
next
  case (Cons x xs)
  have "hd (utf8_chars (slashed parts)) = [slash]"
    using assms by (simp add: utf8_chars_slashed Cons del: slashed_simps utf8_chars.simps)
  then show ?thesis using assms last_char_slashed [OF assms] by (intro str_trim_id) (simp add: Cons)
qed

lemma unix_path_trim: "unix_path p \<Longrightarrow> str_trim p = p"
  using str_trim_slashed [of "unix_parts p"] unix_parts_slashed [of p] by (simp add: unix_path_def)

lemma not_alphabetic_slash [simp]: "\<not> ascii_alphabetic slash"
  by (simp add: ascii_alphabetic_def slash_def byte_of_def)

lemma slash_neq_backslash [simp]: "slash \<noteq> backslash" "backslash \<noteq> slash"
  by (simp_all add: slash_def backslash_def)

lemma slash_shape [simp]:
  "drive_prefix (slash # s) = False" "windows_drive_root (slash # s) = False"
  "windows_shaped (slash # s) = forward_slash_unc (slash # s)"
proof -
  show "drive_prefix (slash # s) = False" by (cases s) auto
  then show "windows_shaped (slash # s) = forward_slash_unc (slash # s)"
    by (simp add: windows_shaped_def)
  show "windows_drive_root (slash # s) = False"
    by (cases "slash # s" rule: windows_drive_root.cases) auto
qed

lemma not_unc_second: "c \<noteq> slash \<Longrightarrow> \<not> forward_slash_unc (d # c # s)"
  by (cases s) auto

lemma unix_path_Cons: "unix_path p \<Longrightarrow> \<exists>s. p = slash # s \<and> \<not> windows_shaped p"
  by (cases p) (auto simp: unix_path_def)

subsection \<open>The normal form\<close>

lemma join_eq_Nil: "join sep xs = [] \<Longrightarrow> list_all (\<lambda>x. x \<noteq> []) xs \<Longrightarrow> xs = []"
  by (induction sep xs rule: join.induct) auto

lemma unix_normalized:
  assumes "unix_path p"
  shows "lexically_normalized p = unix_spell (unix_walk p)"
proof -
  obtain s where p: "p = slash # s" and w: "\<not> windows_shaped p"
    using unix_path_Cons [OF assms] by blast
  have t: "str_trim (slash # s) = slash # s" using unix_path_trim [OF assms] p by simp
  have f: "\<not> forward_slash_unc (slash # s)" using w p by simp
  have sep: "is_separator False = (\<lambda>c. c = slash)" by (simp add: is_separator_def fun_eq_iff)
  have r: "root_len (slash # s) = 1" using f by (simp add: root_len_def Let_def is_separator_def)
  show ?thesis
    using f by (simp add: p lexically_normalized_def Let_def t r separator_of_def sep unix_spell_def
      unix_walk_def unix_parts_def is_separator_def)
qed

lemma collapse_plain:
  "list_all plain_name acc \<Longrightarrow> slash \<notin> set x \<Longrightarrow> part_ok x \<Longrightarrow>
   list_all plain_name (collapse_part True acc x)"
  by (auto simp: collapse_part_def plain_name_def list_all_iff dest: in_set_butlastD)

lemma walk_plain:
  "list_all plain_name acc \<Longrightarrow> \<forall>x\<in>set parts. slash \<notin> set x \<and> part_ok x \<Longrightarrow>
   list_all plain_name (walk_from acc parts)"
  by (induction parts arbitrary: acc) (simp_all add: collapse_plain)

lemma unix_walk_plain: "unix_path p \<Longrightarrow> list_all plain_name (unix_walk p)"
  unfolding unix_walk_def
  by (rule walk_plain) (auto simp: unix_path_def unix_parts_def list_all_iff dest: split_where_free)

lemma walk_plain_id: "list_all plain_name parts \<Longrightarrow> walk_from acc parts = acc @ parts"
  by (induction parts arbitrary: acc) (auto simp: collapse_part_def plain_name_def)

lemma unix_parts_spell:
  "list_all plain_name names \<Longrightarrow> unix_parts (unix_spell names) = (if names = [] then [[]] else names)"
  by (auto simp: unix_parts_def unix_spell_def plain_name_def list_all_iff intro!: split_join)

lemma spell_second:
  assumes "list_all plain_name (n # ns)"
  shows "\<exists>c r. unix_spell (n # ns) = slash # c # r \<and> c \<noteq> slash"
proof -
  from assms obtain c cs where n: "n = c # cs" "c \<noteq> slash" by (cases n) (auto simp: plain_name_def)
  have "unix_spell (n # ns) = slashed (n # ns)" by (intro slashed_join [symmetric]) simp
  also have "\<dots> = slash # c # cs @ slashed ns" by (simp add: n)
  finally show ?thesis using n(2) by blast
qed

lemma unix_path_spell:
  assumes "list_all plain_name names"
  shows "unix_path (unix_spell names)"
proof -
  have "\<not> forward_slash_unc (unix_spell names)"
  proof (cases names)
    case Nil
    then show ?thesis by (simp add: unix_spell_def)
  next
    case (Cons n ns)
    then obtain c r where eq: "unix_spell names = slash # c # r" and c: "c \<noteq> slash"
      using spell_second [of n ns] assms by blast
    show ?thesis unfolding eq using c by (rule not_unc_second)
  qed
  moreover have "list_all part_ok (unix_parts (unix_spell names))"
  proof -
    have "list_all part_ok names"
      using assms by (rule list.pred_mono_strong) (simp add: plain_name_def)
    then show ?thesis by (simp add: unix_parts_spell [OF assms] part_ok_def)
  qed
  ultimately show ?thesis by (simp add: unix_path_def unix_spell_def)
qed

lemma unix_walk_spell: "list_all plain_name names \<Longrightarrow> unix_walk (unix_spell names) = names"
  using walk_plain_id [of names "[]"]
  by (cases "names = []") (simp_all add: unix_walk_def unix_parts_spell collapse_part_def)


subsection \<open>Containment is containment of names\<close>

lemma slash_free_prefix:
  "slash \<notin> set x \<Longrightarrow> slash \<notin> set y \<Longrightarrow> (r = [] \<or> hd r = slash) \<Longrightarrow> (t = [] \<or> hd t = slash) \<Longrightarrow>
   x @ r = y @ t \<longleftrightarrow> x = y \<and> r = t"
proof (induction x arbitrary: y)
  case Nil
  then show ?case by (cases y) auto
next
  case (Cons c x)
  show ?case
  proof (cases y)
    case Nil
    with Cons.prems show ?thesis by auto
  next
    case (Cons d y')
    with Cons.prems Cons.IH [of y'] show ?thesis by auto
  qed
qed

lemma slashed_start: "slashed xs = [] \<or> hd (slashed xs) = slash"
  by (cases xs) simp_all

lemma slashed_prefix:
  "\<forall>x\<in>set cs. slash \<notin> set x \<Longrightarrow> \<forall>x\<in>set ds. slash \<notin> set x \<Longrightarrow>
   (\<exists>r. slashed cs = slashed ds @ r \<and> (r = [] \<or> hd r = slash)) \<longleftrightarrow> prefix ds cs"
proof (induction cs arbitrary: ds)
  case Nil
  then show ?case by (cases ds) auto
next
  case (Cons c cs)
  show ?case
  proof (cases ds)
    case Nil
    then show ?thesis using slashed_start [of "c # cs"] by auto
  next
    case (Cons d ds')
    have step: "(c @ slashed cs = d @ (slashed ds' @ r)) = (c = d \<and> slashed cs = slashed ds' @ r)"
      if "r = [] \<or> hd r = slash" for r
    proof (rule slash_free_prefix)
      show "slashed ds' @ r = [] \<or> hd (slashed ds' @ r) = slash"
        using that slashed_start [of ds'] by (cases "slashed ds'") auto
    qed (use Cons.prems Cons slashed_start in auto)
    have "(\<exists>r. slashed (c # cs) = slashed ds @ r \<and> (r = [] \<or> hd r = slash))
        = (\<exists>r. c @ slashed cs = d @ (slashed ds' @ r) \<and> (r = [] \<or> hd r = slash))"
      by (simp add: Cons)
    also have "\<dots> = (c = d \<and> (\<exists>r. slashed cs = slashed ds' @ r \<and> (r = [] \<or> hd r = slash)))"
      using step by blast
    also have "\<dots> = (c = d \<and> prefix ds' cs)"
      using Cons.IH [of ds'] Cons.prems Cons by auto
    finally show ?thesis by (auto simp: Cons)
  qed
qed

lemma unix_spell_trim:
  assumes "list_all plain_name names"
  shows "trim_path (unix_spell names) = unix_spell names"
proof (cases "names = []")
  case True
  then show ?thesis
    by (simp add: trim_path_def unix_spell_def trim_end_separators_def either_separator_def
      str_trim_id Let_def)
next
  case False
  have t: "str_trim (unix_spell names) = unix_spell names"
    by (rule unix_path_trim [OF unix_path_spell [OF assms]])
  obtain xs x where n: "names = xs @ [x]" using False by (metis append_butlast_last_id)
  then have x: "x \<noteq> []" "slash \<notin> set x" "last x \<noteq> backslash"
    using assms by (auto simp: plain_name_def part_ok_def)
  from x(1,2) have "last x \<noteq> slash" by (metis last_in_set)
  have "unix_spell names = slashed xs @ slash # x" using slashed_join [OF False] by (simp add: n)
  then have "trim_end_separators (unix_spell names) = unix_spell names"
    using x \<open>last x \<noteq> slash\<close>
    by (simp add: trim_end_separators_def either_separator_def hd_rev dropWhile_id)
  moreover have "unix_spell names \<noteq> []" by (simp add: unix_spell_def)
  ultimately show ?thesis by (simp add: trim_path_def t Let_def)
qed

lemma unix_comparable:
  assumes "list_all plain_name names"
  shows "comparable_spelling (unix_spell names) = unix_spell names" "\<not> windows_shaped (unix_spell names)"
  using unix_path_Cons [OF unix_path_spell [OF assms]] by (auto simp: comparable_spelling_def)

lemma within_names:
  assumes "list_all plain_name cs" "list_all plain_name ds"
  shows "(let c = unix_spell cs; d = unix_spell ds in
           c = d \<or> (\<exists>r. c = d @ r \<and> r \<noteq> [] \<and> hd r = slash))
         \<longleftrightarrow> (if ds = [] then cs = [] else prefix ds cs)"
proof -
  have free: "\<forall>x\<in>set cs. slash \<notin> set x" "\<forall>x\<in>set ds. slash \<notin> set x"
    using assms by (auto simp: list_all_iff plain_name_def)
  have first: "cs \<noteq> [] \<Longrightarrow> \<exists>c r. unix_spell cs = slash # c # r \<and> c \<noteq> slash"
    using assms(1) spell_second by (cases cs) auto
  consider "ds = []" "cs = []" | "ds = []" "cs \<noteq> []" | "ds \<noteq> []" "cs = []" | "ds \<noteq> []" "cs \<noteq> []" by blast
  then show ?thesis
  proof cases
    case 1
    then show ?thesis by (simp add: unix_spell_def)
  next
    case 2
    then show ?thesis using first by (auto simp: unix_spell_def)
  next
    case 3
    have "unix_spell ds = slashed ds" using 3 by (intro slashed_join [symmetric])
    moreover obtain d ds' where "ds = d # ds'" "d \<noteq> []"
      using 3 assms(2) by (cases ds) (auto simp: plain_name_def)
    ultimately show ?thesis using 3 by (cases d) (auto simp: unix_spell_def)
  next
    case 4
    then have "unix_spell ds = slashed ds" "unix_spell cs = slashed cs"
      by (simp_all add: slashed_join)
    then show ?thesis using slashed_prefix [OF free] 4 by (auto simp: Let_def)
  qed
qed

lemma within_unix:
  assumes "unix_path p" "unix_path s"
  shows "lexically_within p s \<longleftrightarrow>
    (if unix_walk s = [] then unix_walk p = [] else prefix (unix_walk s) (unix_walk p))"
proof -
  note w = unix_walk_plain [OF assms(1)] unix_walk_plain [OF assms(2)]
  show ?thesis
    unfolding within_names [OF w, symmetric]
    by (auto simp: lexically_within_def Let_def unix_normalized assms unix_comparable w
      unix_spell_trim strip_prefix_def prefix_def)
qed


subsection \<open>A relative directory is walked from the baseline\<close>

definition relative_path :: "string \<Rightarrow> bool" where
  "relative_path p \<longleftrightarrow>
     (p = [] \<or> \<not> char_is_whitespace (hd (utf8_chars p)) \<and> hd p \<noteq> slash \<and> hd p \<noteq> backslash)
     \<and> \<not> windows_drive_root p \<and> list_all part_ok (split_where (\<lambda>c. c = slash) p)"

lemma walk_skips_empty: "walk_from acc (replicate n []) = acc"
  by (induction n) (simp_all add: collapse_part_def)

lemma slashed_replicate [simp]: "slashed (replicate n []) = replicate n slash"
  by (induction n) simp_all

lemma trailing_empties: "\<exists>xs n. parts = xs @ replicate n [] \<and> (xs = [] \<or> last xs \<noteq> [])"
proof (induction parts rule: rev_induct)
  case Nil
  then show ?case by (intro exI [of _ "[]"] exI [of _ 0]) simp
next
  case (snoc x ps)
  then obtain xs n where p: "ps = xs @ replicate n []" "xs = [] \<or> last xs \<noteq> []" by blast
  show ?case
  proof (cases "x = []")
    case True
    have "ps @ [x] = xs @ replicate (Suc n) []" by (simp add: True p(1) replicate_append_same)
    with p(2) show ?thesis by blast
  next
    case False
    then show ?thesis by (intro exI [of _ "ps @ [x]"] exI [of _ 0]) simp
  qed
qed

lemma trim_end_slashed:
  assumes "xs = [] \<or> last xs \<noteq> []" "list_all part_ok xs" "\<forall>x\<in>set xs. slash \<notin> set x"
  shows "trim_end_separators (slashed xs @ replicate n slash) = slashed xs"
proof -
  have "dropWhile either_separator (replicate n slash @ r) = dropWhile either_separator r" for r
    by (induction n) (simp_all add: either_separator_def)
  moreover have "dropWhile either_separator (rev (slashed xs)) = rev (slashed xs)"
  proof (cases xs rule: rev_cases)
    case (snoc ys y)
    with assms have "y \<noteq> []" "slash \<notin> set y" "last y \<noteq> backslash" by (auto simp: part_ok_def)
    moreover from this have "last y \<noteq> slash" by (metis last_in_set)
    ultimately show ?thesis
      by (intro dropWhile_id) (simp add: snoc hd_rev either_separator_def)
  qed simp
  ultimately show ?thesis by (simp add: trim_end_separators_def)
qed

lemma joined_not_unc:
  assumes "\<not> forward_slash_unc (slashed xs @ replicate n slash)" "xs = [] \<or> last xs \<noteq> []"
    and "r = [] \<or> hd r \<noteq> slash"
  shows "\<not> forward_slash_unc (slashed xs @ slash # r)"
proof (cases xs)
  case Nil
  then show ?thesis using assms(3) by (cases r rule: list.exhaust) (auto simp: not_unc_second)
next
  case (Cons x ys)
  show ?thesis
  proof (cases x)
    case Nil
    with assms(2) Cons obtain y zs where ys: "ys = y # zs" by (cases ys) auto
    show ?thesis
      using assms(1) by (cases y; cases "y @ slashed zs") (auto simp: Cons ys Nil either_separator_def)
  next
    case (Cons c x')
    then show ?thesis using assms(1) \<open>xs = x # ys\<close>
      by (cases "c = slash"; cases "x' @ slashed ys"; cases ys)
         (auto simp: either_separator_def intro: not_unc_second)
  qed
qed

lemma relative_trim:
  assumes "relative_path p"
  shows "str_trim p = p"
proof (rule str_trim_id, cases "p = []")
  case False
  obtain c s where p: "p = c # s" using False by (cases p) auto
  define parts where "parts = split_where (\<lambda>c. c = slash) p"
  have ok: "list_all part_ok parts" using assms by (simp add: relative_path_def parts_def)
  have "utf8_chars (slash # p) = [slash] # utf8_chars p"
  proof -
    have "\<not> utf8_cont c"
      using ok assms p by (auto simp: parts_def relative_path_def part_ok_def split: list.splits)
    then show ?thesis using utf8_chars_append [of p "[slash]"] by (simp add: p)
  qed
  moreover have "\<not> char_is_whitespace (last (utf8_chars (slash # p)))"
    using last_char_slashed [OF ok] by (simp add: parts_def slashed_split)
  ultimately show "p = [] \<or> \<not> char_is_whitespace (hd (utf8_chars p)) \<and> \<not> char_is_whitespace (last (utf8_chars p))"
    using assms False by (simp add: relative_path_def)
qed simp

lemma resolve_relative:
  assumes "unix_path base" "relative_path rel"
  shows "resolve_candidate rel (Some base) =
    Some (unix_spell (walk_from (unix_walk base) (split_where (\<lambda>c. c = slash) rel)))"
proof -
  obtain b where b: "base = slash # b" and w: "\<not> windows_shaped base"
    using unix_path_Cons [OF assms(1)] by blast
  obtain xs n where parts: "unix_parts base = xs @ replicate n []" "xs = [] \<or> last xs \<noteq> []"
    using trailing_empties by blast
  have ok: "list_all part_ok xs" "\<forall>x\<in>set xs. slash \<notin> set x"
    using assms(1) parts(1) split_where_free [of _ "\<lambda>c. c = slash" b]
    by (auto simp: unix_path_def unix_parts_def b)
  have base: "base = slashed xs @ replicate n slash"
    using unix_parts_slashed [OF assms(1)] parts(1) by simp
  define joined where "joined = slashed xs @ slash # rel"
  have joined: "joined = slashed (xs @ split_where (\<lambda>c. c = slash) rel)"
    by (simp add: joined_def slashed_split)
  have jp: "unix_parts joined = xs @ split_where (\<lambda>c. c = slash) rel"
  proof (cases xs)
    case (Cons x ys)
    then have "tl joined = join [slash] xs @ slash # rel"
      using slashed_join [of xs] by (simp add: joined_def unix_spell_def)
    then show ?thesis using split_join [of xs] ok(2) Cons
      by (simp add: unix_parts_def split_where_append)
  qed (simp add: joined_def unix_parts_def)
  have "unix_path joined"
    unfolding unix_path_def jp
    using joined_not_unc [of xs n rel] parts(2) w base assms(2) ok
    by (auto simp: joined_def relative_path_def b) (cases xs; simp)+
  moreover have "unix_walk joined = walk_from (unix_walk base) (split_where (\<lambda>c. c = slash) rel)"
    by (simp add: unix_walk_def jp parts(1) walk_skips_empty)
  ultimately have norm: "lexically_normalized joined =
      unix_spell (walk_from (unix_walk base) (split_where (\<lambda>c. c = slash) rel))"
    by (simp add: unix_normalized)
  have "on_baseline_drive rel (Some base) = None" "\<not> absolute_anywhere rel"
    using assms(2) by (auto simp: on_baseline_drive_def relative_path_def absolute_anywhere_def
      either_separator_def Let_def)
  moreover have "absolute_anywhere base" by (simp add: b absolute_anywhere_def either_separator_def)
  moreover have "relative_to_baseline_drive rel base = Some rel"
    using w by (simp add: relative_to_baseline_drive_def)
  moreover have "trim_end_separators base @ [separator_of base] @ rel = joined"
  proof -
    have "trim_end_separators base = slashed xs" unfolding base using parts(2) ok by (rule trim_end_slashed)
    with w show ?thesis by (simp add: joined_def separator_of_def)
  qed
  ultimately show ?thesis
    using norm by (simp add: resolve_candidate_def Let_def relative_trim [OF assms(2)] unix_path_trim [OF assms(1)])
qed


section \<open>What recorded spellings promise\<close>

lemma walk_from_plain:
  assumes "unix_path base" "list_all part_ok parts" "\<forall>x\<in>set parts. slash \<notin> set x"
  shows "list_all plain_name (walk_from (unix_walk base) parts)"
  using assms by (intro walk_plain unix_walk_plain) (auto simp: list_all_iff)

text \<open>
  A relative working directory recorded in a turn is the directory reached by walking its
  names, dots included, from the turn's baseline, and never climbs above the root; the result is
  itself in normal form, so that recording it again changes nothing.
\<close>

theorem recorded_is_walked:
  assumes "unix_path base" "relative_path rel"
  shows "recorded_workdir rel (Some base) =
           unix_spell (walk_from (unix_walk base) (split_where (\<lambda>c. c = slash) rel))
         \<and> recorded_workdir (recorded_workdir rel (Some base)) (Some base) = recorded_workdir rel (Some base)"
proof -
  define names where "names = walk_from (unix_walk base) (split_where (\<lambda>c. c = slash) rel)"
  have plain: "list_all plain_name names"
    unfolding names_def using assms(1)
    by (rule walk_from_plain) (use assms(2) in \<open>auto simp: relative_path_def dest: split_where_free\<close>)
  have rec: "recorded_workdir rel (Some base) = unix_spell names"
    by (simp add: recorded_workdir_def resolve_relative assms unix_spell_trim plain flip: names_def)
  have "\<not> drive_prefix base" using unix_path_Cons [OF assms(1)] by (auto simp: windows_shaped_def)
  then have "on_baseline_drive (unix_spell names) (Some base) = None"
    by (simp add: on_baseline_drive_def Let_def unix_path_trim assms(1))
  moreover have "absolute_anywhere (unix_spell names)"
    by (simp add: unix_spell_def absolute_anywhere_def either_separator_def)
  ultimately have "recorded_workdir (unix_spell names) (Some base) = unix_spell names"
    by (simp add: recorded_workdir_def resolve_candidate_def Let_def unix_path_trim unix_path_spell
      unix_normalized unix_walk_spell unix_spell_trim plain)
  with rec show ?thesis by (simp add: names_def)
qed

text \<open>
  C9: Containment on the text is containment of the walked names: \<^verbatim>\<open>/repo-old\<close> is not in
  \<^verbatim>\<open>/repo\<close>, and \<^verbatim>\<open>/repo/./a/..\<close> is. The root is the exception: nothing but itself is
  found within it.
\<close>

theorem within_is_name_prefix:
  assumes "unix_path p" "unix_path s"
  shows "lexically_within p s \<longleftrightarrow>
    (if unix_walk s = [] then unix_walk p = [] else prefix (unix_walk s) (unix_walk p))"
  using assms by (rule within_unix)

text \<open>The scan for the declarations of submodules does treat the root as containing what it roots.\<close>

lemma root_contains_nothing: "lexically_within ''/repo'' ''/'' = False"
  by (simp add: rust_eval)

lemma unix_backslash_lost: "lexically_within (''/repo'' @ [backslash]) ''/repo'' = True"
  by (simp add: rust_eval)

text \<open>
  A path rooted on a drive that the baseline does not name stays unknown, whatever it says.
\<close>

lemma other_drive_unknown:
  assumes "drive_prefix (str_trim path)" "\<not> windows_drive_root (str_trim path)"
    and "drive_prefix (str_trim base)"
    and "ascii_lower (hd (str_trim base)) \<noteq> ascii_lower (hd (str_trim path))"
  shows "resolve_candidate path (Some base) = None"
proof -
  obtain d s where p: "str_trim path = d # CHR '':'' # s" "ascii_alphabetic d"
    using assms(1) by (cases "str_trim path" rule: drive_prefix.cases) auto
  obtain e t where b: "str_trim base = e # CHR '':'' # t"
    using assms(3) by (cases "str_trim base" rule: drive_prefix.cases) auto
  have "\<not> either_separator d"
    using p(2) by (auto simp: either_separator_def slash_def backslash_def ascii_alphabetic_def byte_of_def)
  then have "on_baseline_drive (str_trim path) (Some base) = None" "\<not> absolute_anywhere (str_trim path)"
    using assms(2) by (simp_all add: on_baseline_drive_def absolute_anywhere_def p(1) Let_def)
  moreover have "relative_to_baseline_drive (str_trim path) (str_trim base) = None"
    using assms(1,3,4) by (simp add: relative_to_baseline_drive_def p(1) b windows_shaped_def)
  ultimately show ?thesis by (simp add: resolve_candidate_def Let_def)
qed

lemmas unix_eval = unix_path_def unix_parts_def unix_walk_def unix_spell_def part_ok_def
  relative_path_def rust_eval

lemma recorded_is_walked_witness:
  "recorded_workdir ''../../b/./c'' (Some ''/repo/a/x/'') = ''/repo/b/c''"
proof -
  have "unix_path ''/repo/a/x/''" "relative_path ''../../b/./c''"
    by (simp_all add: unix_eval)
  from recorded_is_walked [OF this] have
    "recorded_workdir ''../../b/./c'' (Some ''/repo/a/x/'') =
       unix_spell (walk_from (unix_walk ''/repo/a/x/'') (split_where (\<lambda>c. c = slash) ''../../b/./c''))"
    by (rule conjunct1)
  then show ?thesis by (simp add: unix_eval)
qed

lemma within_is_name_prefix_witness:
  "lexically_within ''/repo/a/../b'' ''/repo/'' \<and> \<not> lexically_within ''/repo-old'' ''/repo/''"
proof -
  have "unix_path ''/repo/a/../b''" "unix_path ''/repo-old''" "unix_path ''/repo/''"
    by (simp_all add: unix_eval)
  with within_is_name_prefix [of "''/repo/a/../b''" "''/repo/''"]
    within_is_name_prefix [of "''/repo-old''" "''/repo/''"]
  show ?thesis by (simp add: unix_walk_def unix_parts_def slash_def collapse_part_def)
qed

end
