(* ===== verification/Scope_Records.thy ===== *)
theory Scope_Records
  imports Scope_Paths
begin

text \<open>
  Text that scope evidence is read from, in \<^verbatim>\<open>scope_evidence.rs\<close>: the visible head of a record
  that was cut off at the reader's cap, scanned for the discriminators of a tool call, and the
  \<^verbatim>\<open>.gitmodules\<close> of a checkout, scanned for the submodules it declares.
\<close>

section \<open>A record cut off by the cap\<close>

definition is_tool_call_payload_type :: "string \<Rightarrow> bool" where
  "is_tool_call_payload_type t \<longleftrightarrow>
     t \<in> {''function_call'', ''custom_tool_call'', ''web_search_call'', ''tool_call'', ''mcp_tool_call''}"

definition quote_char :: char where "quote_char = CHR 0x22"

definition is_ascii_whitespace :: "char \<Rightarrow> bool" where
  "is_ascii_whitespace c \<longleftrightarrow> (let b = byte_of c in b = 32 \<or> b = 9 \<or> b = 10 \<or> b = 12 \<or> b = 13)"

text \<open>\<^verbatim>\<open>byte as char\<close>, pushed onto a string.\<close>

definition latin1 :: "char \<Rightarrow> string" where
  "latin1 c = (let b = byte_of c in
     if b < 128 then [c] else [char_of (192 + b div 64), char_of (128 + b mod 64 :: nat)])"

text \<open>\<^verbatim>\<open>read_string\<close>, from behind the opening quote: the contents and the text after it.\<close>

fun read_string :: "string \<Rightarrow> (string \<times> string) option" where
  "read_string [] = None"
| "read_string (c # s) =
     (if c = backslash then (case s of [] \<Rightarrow> None | _ # s' \<Rightarrow> read_string s')
      else if c = quote_char then Some ([], s)
      else map_option (\<lambda>(out, rest). (latin1 c @ out, rest)) (read_string s))"

lemma read_string_shorter: "read_string s = Some (out, rest) \<Longrightarrow> length rest < length s"
  by (induction s arbitrary: out rule: read_string.induct)
     (fastforce split: if_splits list.splits)+

lemma dropWhile_Cons_shorter: "dropWhile P xs = y # ys \<Longrightarrow> length ys < length xs"
  using length_dropWhile_le [of P xs] by simp

text \<open>
  The scan of \<^verbatim>\<open>record_type_discriminators\<close>: \<open>containers\<close> says of every open container
  whether it is the payload, \<open>envelope_key\<close> is the envelope's last key.
\<close>

function discriminators :: "bool list \<Rightarrow> string option \<Rightarrow> string \<Rightarrow> string list" where
  "discriminators containers envelope_key [] = []"
| "discriminators containers envelope_key (c # s) =
     (if c = CHR ''{'' \<or> c = CHR ''['' then
        discriminators
          (containers @ [c = CHR ''{'' \<and> length containers = 1 \<and> envelope_key = Some ''payload''])
          None s
      else if c = CHR ''}'' \<or> c = CHR '']'' then discriminators (butlast containers) envelope_key s
      else if c \<noteq> quote_char then discriminators containers envelope_key s
      else case read_string s of
        None \<Rightarrow> []
      | Some (token, rest) \<Rightarrow>
          (case dropWhile is_ascii_whitespace rest of
             [] \<Rightarrow> discriminators containers envelope_key rest
           | d # after_key \<Rightarrow>
               if d \<noteq> CHR '':'' then discriminators containers envelope_key rest
               else
                 (let discriminator = token = ''type''
                        \<and> (case containers of [_] \<Rightarrow> True | [_, p] \<Rightarrow> p | _ \<Rightarrow> False);
                      key = (if length containers = 1 then Some token else envelope_key) in
                  if \<not> discriminator then discriminators containers key rest
                  else (case dropWhile is_ascii_whitespace after_key of
                      [] \<Rightarrow> [] # discriminators containers key rest
                    | v # vs \<Rightarrow>
                        if v \<noteq> quote_char then [] # discriminators containers key rest
                        else case read_string vs of
                          None \<Rightarrow> [[]]
                        | Some (v', after_value) \<Rightarrow>
                            v' # discriminators containers key after_value))))"
  by pat_completeness auto
termination
  by (relation "measure (\<lambda>(_, _, s). length s)")
     (auto dest!: read_string_shorter dropWhile_Cons_shorter)

definition record_type_discriminators :: "string \<Rightarrow> string list" where
  "record_type_discriminators s = discriminators [] None s"

definition truncated_record_is_tool_call :: "string \<Rightarrow> bool" where
  "truncated_record_is_tool_call s \<longleftrightarrow>
     (let ds = record_type_discriminators s in
      list_ex is_tool_call_payload_type ds
      \<or> length (filter (\<lambda>v. v \<noteq> []) ds) < 2)"


subsection \<open>Cutting a record\<close>

text \<open>
  What the scan finds in a cut record is what it finds in the whole one, up to some point; the one
  whose value was being read counts as found and unread.
\<close>

definition cut_of :: "string list \<Rightarrow> string list \<Rightarrow> bool" where
  "cut_of whole seen \<longleftrightarrow> (\<exists>ds. prefix ds whole \<and> (seen = ds \<or> seen = ds @ [[]]))"

lemma cut_of_intros [intro]:
  "cut_of whole []" "cut_of whole [[]]" "cut_of whole seen \<Longrightarrow> cut_of (d # whole) (d # seen)"
  unfolding cut_of_def by (auto intro: exI [of _ "[]"]) (metis Cons_prefix_Cons append_Cons)+

lemma read_string_append:
  "read_string t = Some (out, rest) \<Longrightarrow> read_string (t @ u) = Some (out, rest @ u)"
  by (induction t arbitrary: out rule: read_string.induct) (auto split: if_splits list.splits)

lemma dropWhile_append_Cons: "dropWhile P xs = y # ys \<Longrightarrow> dropWhile P (xs @ zs) = y # ys @ zs"
  by (induction xs) (auto split: if_splits)

lemma discriminators_blank:
  "\<forall>c\<in>set s. is_ascii_whitespace c \<or> c = CHR '':'' \<Longrightarrow> discriminators containers key s = []"
  by (induction s) (auto simp: is_ascii_whitespace_def quote_char_def byte_of_def)

lemma discriminators_cut:
  "cut_of (discriminators containers key (t @ u)) (discriminators containers key t)"
proof (induction containers key t rule: discriminators.induct)
  case (1 containers key)
  then show ?case by auto
next
  case (2 containers key c s)
  note IH = "2.IH"
  consider "c = CHR ''{'' \<or> c = CHR ''[''"
    | "\<not> (c = CHR ''{'' \<or> c = CHR ''['')" "c = CHR ''}'' \<or> c = CHR '']''"
    | "\<not> (c = CHR ''{'' \<or> c = CHR ''['')" "\<not> (c = CHR ''}'' \<or> c = CHR '']'')" "c \<noteq> quote_char"
    | "\<not> (c = CHR ''{'' \<or> c = CHR ''['')" "\<not> (c = CHR ''}'' \<or> c = CHR '']'')" "c = quote_char"
    by blast
  then show ?case
  proof cases
    case 4
    then have c: "\<not> (c = CHR ''{'' \<or> c = CHR ''['')" "\<not> (c = CHR ''}'' \<or> c = CHR '']'')"
      "\<not> c \<noteq> quote_char" by blast+
    note IH = IH(4-) [OF c]
    show ?thesis
    proof (cases "read_string s")
      case None
      with c show ?thesis by auto
    next
      case (Some p)
      obtain token rest where p: "read_string s = Some (token, rest)" "p = (token, rest)"
        using Some by (cases p) auto
      note pu = read_string_append [OF p(1), of u]
      note IH = IH [OF p(1) refl]
      show ?thesis
      proof (cases "dropWhile is_ascii_whitespace rest")
        case Nil
        then have "\<forall>c\<in>set rest. is_ascii_whitespace c" by (simp add: dropWhile_eq_Nil_conv)
        then have "discriminators containers key rest = []" by (simp add: discriminators_blank)
        with c p(1) Nil have "discriminators containers key (c # s) = []"
          by (simp del: dropWhile_eq_Nil_conv)
        then show ?thesis by (metis cut_of_intros(1))
      next
        case (Cons d after_key)
        note du = dropWhile_append_Cons [OF Cons, of u]
        note IH = IH(2-) [OF Cons]
        show ?thesis
        proof (cases "d = CHR '':''")
          case False
          with c p pu Cons du IH(1) show ?thesis by simp
        next
          case True
          then have d: "\<not> d \<noteq> CHR '':''" by simp
          note IH = IH(2-) [OF d refl refl]
          show ?thesis
          proof (cases "dropWhile is_ascii_whitespace after_key")
            case Nil
            then have "\<forall>c\<in>set after_key. is_ascii_whitespace c" by (simp add: dropWhile_eq_Nil_conv)
            moreover have "rest = takeWhile is_ascii_whitespace rest @ d # after_key"
              using Cons by (metis takeWhile_dropWhile_id)
            ultimately have "\<forall>c\<in>set rest. is_ascii_whitespace c \<or> c = CHR '':''"
              using d by (metis Un_iff set_ConsD set_append set_takeWhileD)
            then have "discriminators containers k rest = []" for k by (simp add: discriminators_blank)
            with c p(1) Cons d Nil have "discriminators containers key (c # s) \<in> {[], [[]]}"
              by (simp add: Let_def del: dropWhile_eq_Nil_conv)
            then show ?thesis by (metis cut_of_intros(1,2) empty_iff insert_iff)
          next
            case inner: (Cons v vs)
            note vu = dropWhile_append_Cons [OF inner, of u]
            show ?thesis
            proof (cases "v = quote_char")
              case False
              then show ?thesis using c p pu Cons du d inner vu IH(1,3) by (auto simp: Let_def)
            next
              case vq: True
              show ?thesis
              proof (cases "read_string vs")
                case None
                then show ?thesis using c p pu Cons du d inner vu vq IH(1) by (auto simp: Let_def)
              next
                case (Some q)
                then obtain val rst where q: "read_string vs = Some (val, rst)" by (cases q) auto
                show ?thesis using c p pu Cons du d inner vu vq q read_string_append [OF q, of u] IH(1,4)
                  by (auto simp: Let_def)
              qed
            qed
          qed
        qed
      qed
    qed
  qed (use IH(1-3) in simp_all)
qed


text \<open>
  A record that names a tool call, cut anywhere, is taken for one: wherever the cap falls, no
  tool call's working directory is lost without the window being marked. All that is asked is that
  fewer than two other discriminators come before the tool call's, as in every record the client
  writes.
\<close>

theorem truncation_fails_closed:
  assumes "record_type_discriminators r = a @ t # b" "is_tool_call_payload_type t"
    and "length (filter (\<lambda>v. v \<noteq> []) a) < 2"
  shows "truncated_record_is_tool_call (take n r)"
proof -
  define seen where "seen = record_type_discriminators (take n r)"
  have "cut_of (a @ t # b) seen"
    using discriminators_cut [of "[]" None "take n r" "drop n r"] assms(1)
    by (simp add: seen_def record_type_discriminators_def)
  then obtain ds where ds: "prefix ds (a @ t # b)" "seen = ds \<or> seen = ds @ [[]]"
    by (auto simp: cut_of_def)
  have "t \<in> set ds \<or> prefix ds a"
    using ds(1) by (auto simp: prefix_append prefix_Cons)
  then show ?thesis
  proof
    assume "t \<in> set ds"
    with ds(2) assms(2) show ?thesis
      by (auto simp: truncated_record_is_tool_call_def Let_def list_ex_iff simp flip: seen_def)
  next
    assume "prefix ds a"
    then obtain e where "a = ds @ e" by (auto simp: prefix_def)
    with assms(3) have "length (filter (\<lambda>v. v \<noteq> []) ds) < 2" by simp
    with ds(2) have "length (filter (\<lambda>v. v \<noteq> []) seen) < 2" by auto
    then show ?thesis by (simp add: truncated_record_is_tool_call_def Let_def flip: seen_def)
  qed
qed

text \<open>A record as the client writes it, on one concrete text and each of its cuts.\<close>

definition json_quoted :: "string \<Rightarrow> string" where
  "json_quoted s = quote_char # s @ [quote_char]"

definition sample_record :: string where
  "sample_record =
     ''{'' @ json_quoted ''type'' @ '':'' @ json_quoted ''response_item'' @ '','' @ json_quoted ''payload''
     @ '':{'' @ json_quoted ''type'' @ '':'' @ json_quoted ''function_call'' @ ''}}''"

lemmas record_eval = record_type_discriminators_def quote_char_def is_ascii_whitespace_def
  latin1_def json_quoted_def sample_record_def backslash_def byte_of_def Let_def

lemma sample_discriminators:
  "record_type_discriminators sample_record = [''response_item'', ''function_call'']"
  by (simp add: record_eval)

lemma truncation_fails_closed_witness:
  "list_all (\<lambda>n. truncated_record_is_tool_call (take n sample_record)) [0, 20, 60, 80]"
  using truncation_fails_closed [of sample_record "[''response_item'']" "''function_call''" "[]"]
  by (simp add: sample_discriminators is_tool_call_payload_type_def)

subsection \<open>Text is not structure\<close>

text \<open>A JSON writer escapes quotes and backslashes; what it wrote is one token to the scan.\<close>

definition json_escape :: "string \<Rightarrow> string" where
  "json_escape s = concat (map (\<lambda>c. if c = quote_char \<or> c = backslash then [backslash, c] else [c]) s)"

lemma quote_neq_backslash [simp]: "quote_char \<noteq> backslash" "backslash \<noteq> quote_char"
  by (simp_all add: quote_char_def backslash_def)

lemma read_string_escaped:
  "\<exists>out. read_string (json_escape s @ quote_char # rest) = Some (out, rest)"
  by (induction s) (auto simp: json_escape_def)

lemma text_is_no_discriminator:
  assumes "dropWhile is_ascii_whitespace rest = [] \<or> hd (dropWhile is_ascii_whitespace rest) \<noteq> CHR '':''"
  shows "discriminators containers key (quote_char # json_escape s @ quote_char # rest)
       = discriminators containers key rest"
proof -
  obtain out where "read_string (json_escape s @ quote_char # rest) = Some (out, rest)"
    using read_string_escaped by blast
  moreover have "quote_char \<notin> {CHR ''{'', CHR ''['', CHR ''}'', CHR '']''}" by (simp add: quote_char_def)
  ultimately show ?thesis
    using assms by (cases "dropWhile is_ascii_whitespace rest")
      (simp_all del: dropWhile_eq_Nil_conv)
qed

section \<open>Declared submodules\<close>

text \<open>Characters are the byte groups of \<open>utf8_chars\<close>.\<close>

definition newline_ch :: string where "newline_ch = [CHR 0x0A]"

definition skip_config_line :: "string list \<Rightarrow> string list" where
  "skip_config_line cs = tl (dropWhile (\<lambda>c. c \<noteq> newline_ch) cs)"

text \<open>
  \<^verbatim>\<open>config_value\<close>: the state is the value so far, whether a quote or a comment is open, and
  the length to cut a trailing run of white space back to.
\<close>

definition cut_value :: "string \<Rightarrow> nat option \<Rightarrow> string" where
  "cut_value v trim_len = (case trim_len of Some n \<Rightarrow> take n v | None \<Rightarrow> v)"

text \<open>What a backslash stands for: the text pushed, and the characters after it.\<close>

definition config_escape :: "string list \<Rightarrow> (string \<times> string list) option" where
  "config_escape cs =
     (case cs of
        [] \<Rightarrow> None
      | d # ds \<Rightarrow> Some (
          if d = newline_ch then ([], ds)
          else if d = [CHR 0x0D] \<and> ds \<noteq> [] \<and> hd ds = newline_ch then ([], tl ds)
          else if d = ''n'' then (newline_ch, ds)
          else if d = ''t'' then ([CHR 0x09], ds)
          else if d = ''b'' then ([CHR 0x08], ds)
          else (d, ds)))"

lemma config_escape_shorter: "config_escape cs = Some (push, ds) \<Longrightarrow> length ds < length cs"
  by (auto simp: config_escape_def split: list.splits if_splits)

function config_value_from ::
    "string \<Rightarrow> bool \<Rightarrow> bool \<Rightarrow> nat option \<Rightarrow> string list \<Rightarrow> string \<times> string list" where
  "config_value_from v quoted comment trim_len [] = (cut_value v trim_len, [])"
| "config_value_from v quoted comment trim_len (c # cs) =
     (if c = newline_ch then (cut_value v trim_len, cs)
      else if comment then config_value_from v quoted comment trim_len cs
      else if char_is_whitespace c \<and> \<not> quoted then
        config_value_from (if v \<noteq> [] then v @ c else v) quoted comment
          (case trim_len of None \<Rightarrow> Some (length v) | Some n \<Rightarrow> Some n) cs
      else if \<not> quoted \<and> (c = '';'' \<or> c = ''#'') then config_value_from v quoted True trim_len cs
      else if c = [backslash] then
        (case config_escape cs of
           None \<Rightarrow> (cut_value v None, [])
         | Some (push, ds) \<Rightarrow> config_value_from (v @ push) quoted comment None ds)
      else if c = [CHR 0x22] then config_value_from v (\<not> quoted) comment None cs
      else config_value_from (v @ c) quoted comment None cs)"
  by pat_completeness auto
termination
  by (relation "measure (\<lambda>(_, _, _, _, cs). length cs)") (auto dest: config_escape_shorter)

definition config_value :: "string list \<Rightarrow> string \<times> string list" where
  "config_value cs = config_value_from [] False False None cs"

text \<open>The section a header names: the text before the first white space, quote or dot.\<close>

definition is_submodule_header :: "string list \<Rightarrow> bool" where
  "is_submodule_header header \<longleftrightarrow>
     to_ascii_lowercase (concat (takeWhile
       (\<lambda>c. \<not> (char_is_whitespace c \<or> c = [CHR 0x22] \<or> c = ''.''))
       (dropWhile char_is_whitespace header))) = ''submodule''"

definition is_config_key_char :: "string \<Rightarrow> bool" where
  "is_config_key_char c \<longleftrightarrow>
     length c = 1 \<and> (ascii_alphabetic (hd c) \<or> (48 \<le> byte_of (hd c) \<and> byte_of (hd c) \<le> 57))
     \<or> c = ''-''"

lemma backslash_visible [simp]: "\<not> char_is_whitespace [backslash]"
  by (simp add: backslash_def byte_of_def char_is_whitespace_def)

lemma config_value_from_shorter:
  "length (snd (config_value_from v quoted comment trim_len cs)) \<le> length cs"
proof (induction v quoted comment trim_len cs rule: config_value_from.induct)
  case (1 v quoted comment trim_len)
  then show ?case by simp
next
  case (2 v quoted comment trim_len c cs)
  show ?case
  proof (cases "c = [backslash] \<and> \<not> comment \<and> \<not> (char_is_whitespace c \<and> \<not> quoted)")
    case True
    moreover have c: "c \<noteq> newline_ch" "c \<noteq> '';''" "c \<noteq> ''#''"
      using True by (auto simp: newline_ch_def backslash_def)
    ultimately have eq: "config_value_from v quoted comment trim_len (c # cs) =
        (case config_escape cs of
           None \<Rightarrow> (cut_value v None, [])
         | Some (push, ds) \<Rightarrow> config_value_from (v @ push) quoted comment None ds)"
      by (simp split: option.split)
    show ?thesis
    proof (cases "config_escape cs")
      case None
      then show ?thesis unfolding eq by simp
    next
      case (Some p)
      then obtain push ds where p: "config_escape cs = Some (push, ds)" by (cases p) auto
      have "length (snd (config_value_from (v @ push) quoted comment None ds)) \<le> length ds"
        using "2.IH"(4) True c p by blast
      moreover have "length ds < length cs" using p by (rule config_escape_shorter)
      ultimately show ?thesis unfolding eq p by simp
    qed
  next
    case False
    then show ?thesis using "2.IH"(1-3,5-) by (cases quoted; cases comment; cases "c = [CHR 0x22]") (auto simp: le_SucI)
  qed
qed

lemma skip_config_line_shorter:
  assumes "cs \<noteq> []"
  shows "length (skip_config_line cs) < length cs"
proof -
  let ?d = "dropWhile (\<lambda>c. c \<noteq> newline_ch) cs"
  have "length ?d \<le> length cs" by (rule length_dropWhile_le)
  moreover have "length (skip_config_line cs) = length ?d - 1" by (simp add: skip_config_line_def)
  moreover have "length cs > 0" using assms by simp
  ultimately show ?thesis by linarith
qed

lemma dropWhile2_le: "length (dropWhile Q (dropWhile R xs)) \<le> length xs"
  by (meson le_trans length_dropWhile_le)

lemma skip_after:
  assumes "dropWhile P cs0 = c # rest" "y = dropWhile Q (dropWhile R (c # rest))"
  shows "length (skip_config_line y) < length cs0"
proof -
  have "length y \<le> length (c # rest)" unfolding assms(2) by (rule dropWhile2_le)
  moreover have "length (c # rest) \<le> length cs0" by (metis assms(1) length_dropWhile_le)
  moreover have "length (skip_config_line y) < length y \<or> skip_config_line y = [] \<and> cs0 \<noteq> []"
    using skip_config_line_shorter [of y] assms(1) by (cases "y = []") (auto simp: skip_config_line_def)
  ultimately show ?thesis by auto
qed

lemma value_after:
  assumes "dropWhile P cs0 = c # rest" "y = dropWhile Q (dropWhile R (c # rest))" "y \<noteq> []"
    and "(v, r) = config_value (tl y)"
  shows "length r < length cs0"
proof -
  have "length y \<le> length (c # rest)" unfolding assms(2) by (rule dropWhile2_le)
  moreover have "length (c # rest) \<le> length cs0" by (metis assms(1) length_dropWhile_le)
  moreover have "length r \<le> length (tl y)"
    using config_value_from_shorter [of "[]" False False None "tl y"] assms(4)
    by (metis config_value_def snd_conv)
  moreover have "length (tl y) < length y" using assms(3) by simp
  ultimately show ?thesis by linarith
qed

text \<open>
  \<^verbatim>\<open>gitmodules_paths\<close>: one turn of the loop for a blank line, a comment, a section header,
  or a key with its value.
\<close>

function gitmodules_scan :: "bool \<Rightarrow> string list \<Rightarrow> string list" where
  "gitmodules_scan in_submodule cs0 =
     (case dropWhile (\<lambda>c. c \<noteq> newline_ch \<and> char_is_whitespace c) cs0 of
        [] \<Rightarrow> []
      | c # rest \<Rightarrow>
          if c = newline_ch then gitmodules_scan in_submodule rest
          else if c = ''#'' \<or> c = '';'' then gitmodules_scan in_submodule (skip_config_line (c # rest))
          else if c = ''['' then
            (case dropWhile (\<lambda>c. c \<noteq> '']'' \<and> c \<noteq> newline_ch) rest of
               [] \<Rightarrow> gitmodules_scan False []
             | d # after_header \<Rightarrow>
                 if d \<noteq> '']'' then gitmodules_scan False (d # after_header)
                 else gitmodules_scan
                   (is_submodule_header (takeWhile (\<lambda>c. c \<noteq> '']'' \<and> c \<noteq> newline_ch) rest))
                   after_header)
          else
            (let key = takeWhile is_config_key_char (c # rest);
                 after_key = dropWhile (\<lambda>c. c = '' '' \<or> c = [CHR 0x09])
                   (dropWhile is_config_key_char (c # rest)) in
             if key = [] \<or> after_key = [] \<or> hd after_key \<noteq> ''=''
             then gitmodules_scan in_submodule (skip_config_line after_key)
             else
               (let (v, rest') = config_value (tl after_key) in
                if in_submodule \<and> to_ascii_lowercase (concat key) = ''path''
                then v # gitmodules_scan in_submodule rest'
                else gitmodules_scan in_submodule rest')))"
  by pat_completeness auto
termination
proof (relation "measure (\<lambda>(_, cs). length cs)", goal_cases)
  case (3 _ cs0 c rest)
  have "length (skip_config_line (c # rest)) < length (c # rest)" by (rule skip_config_line_shorter) simp
  with 3 show ?case by (auto dest: dropWhile_Cons_shorter)
next
  case 4
  then show ?case by (auto dest: dropWhile_Cons_shorter)
next
  case 5
  then show ?case by (auto dest!: dropWhile_Cons_shorter)
next
  case 7
  then show ?case using skip_after by simp
next
  case 8
  then show ?case using value_after by simp
next
  case 9
  then show ?case using value_after by simp
qed (auto dest!: dropWhile_Cons_shorter)


declare gitmodules_scan.simps [simp del]

definition gitmodules_paths :: "string \<Rightarrow> string list" where
  "gitmodules_paths raw = gitmodules_scan False (utf8_chars raw)"

text \<open>\<^verbatim>\<open>declares_submodule\<close>.\<close>

definition fold_spelling :: "bool \<Rightarrow> string \<Rightarrow> string" where
  "fold_spelling windows spelling =
     (if windows then to_ascii_lowercase (map (\<lambda>c. if c = backslash then slash else c) spelling)
      else spelling)"

definition declares_submodule :: "string \<Rightarrow> string \<Rightarrow> string \<Rightarrow> bool" where
  "declares_submodule raw root0 path0 =
     (let root1 = comparable_spelling (lexically_normalized root0);
          path = comparable_spelling (lexically_normalized path0);
          windows = windows_shaped root1;
          root = trim_path root1 in
      case strip_prefix (trim_path path) root of
        None \<Rightarrow> False
      | Some rest \<Rightarrow>
          (case (if root \<noteq> [] \<and> is_separator windows (last root) then Some rest
                 else if rest \<noteq> [] \<and> is_separator windows (hd rest) then Some (tl rest) else None) of
             None \<Rightarrow> False
           | Some relative0 \<Rightarrow>
               (let relative = trim_path (fold_spelling windows relative0);
                    declared = filter (\<lambda>d. d \<noteq> [])
                      (map (\<lambda>d. fold_spelling windows (trim_path d)) (gitmodules_paths raw)) in
                list_ex (\<lambda>d. relative = d
                  \<or> (case strip_prefix relative d of None \<Rightarrow> False
                     | Some below \<Rightarrow> starts_with below [slash])) declared)))"

subsection \<open>What git writes is read back\<close>

definition quote_config_char :: "string \<Rightarrow> string list" where
  "quote_config_char c =
     (if c = [CHR 0x22] \<or> c = [backslash] then [[backslash], c]
      else if c = newline_ch then [[backslash], ''n''] else [c])"

definition quoted_value :: "string \<Rightarrow> string list" where
  "quoted_value v = [[CHR 0x22]] @ concat (map quote_config_char (utf8_chars v)) @ [[CHR 0x22]]"

definition submodule_entry :: "string \<times> string \<Rightarrow> string list" where
  "submodule_entry e =
     [''['', ''s'', ''u'', ''b'', ''m'', ''o'', ''d'', ''u'', ''l'', ''e'', '' '', [CHR 0x22]]
     @ utf8_chars (fst e) @ [[CHR 0x22], '']'', newline_ch, [CHR 0x09], ''p'', ''a'', ''t'', ''h'', '' '', ''='', '' '']
     @ quoted_value (snd e) @ [newline_ch]"

definition submodule_file :: "(string \<times> string) list \<Rightarrow> string" where
  "submodule_file es = concat (concat (map submodule_entry es))"

lemma config_chars [simp]:
  "newline_ch \<noteq> [CHR 0x22]" "newline_ch \<noteq> [backslash]" "[backslash] \<noteq> newline_ch"
  "backslash \<noteq> CHR 0x22" "CHR 0x22 \<noteq> backslash" "backslash \<noteq> CHR '';''" "backslash \<noteq> CHR ''#''" "[CHR 0x22] \<noteq> newline_ch"
  by (simp_all add: newline_ch_def backslash_def)

lemma config_value_quoted:
  "config_value_from v True False None (concat (map quote_config_char cs) @ [[CHR 0x22], newline_ch] @ rest)
   = (v @ concat cs, rest)"
proof (induction cs arbitrary: v)
  case Nil
  then show ?case by (simp add: cut_value_def)
next
  case (Cons c cs)
  consider "c = newline_ch" | "c = [CHR 0x22]" | "c = [backslash]"
    | "c \<noteq> newline_ch" "c \<noteq> [CHR 0x22]" "c \<noteq> [backslash]" by blast
  then show ?case
    using Cons.IH by cases (auto simp: quote_config_char_def config_escape_def newline_ch_def backslash_def)
qed

lemma config_value_entry:
  "config_value ('' '' # quoted_value v @ newline_ch # rest) = (v, rest)"
  using config_value_quoted [of "[]" "utf8_chars v" rest]
  by (simp add: config_value_def quoted_value_def newline_ch_def backslash_def char_is_whitespace_def byte_of_def)

lemma scan_entry:
  assumes "newline_ch \<notin> set (utf8_chars (fst e))" "'']'' \<notin> set (utf8_chars (fst e))"
  shows "gitmodules_scan b (submodule_entry e @ rest) = snd e # gitmodules_scan True rest"
proof -
  let ?header = "[''s'', ''u'', ''b'', ''m'', ''o'', ''d'', ''u'', ''l'', ''e'', '' '', [CHR 0x22]] @ utf8_chars (fst e) @ [[CHR 0x22]]"
  let ?valued = "'' '' # quoted_value (snd e) @ newline_ch # rest"
  let ?line = "[[CHR 0x09], ''p'', ''a'', ''t'', ''h'', '' '', ''=''] @ ?valued"
  have ws: "\<not> char_is_whitespace ''[''" "\<not> char_is_whitespace ''p''" "char_is_whitespace [CHR 0x09]"
    "''['' \<noteq> newline_ch" "''p'' \<noteq> newline_ch" "[CHR 0x09] \<noteq> newline_ch" "'']'' \<noteq> newline_ch"
    by (simp_all add: char_is_whitespace_def byte_of_def newline_ch_def)
  have all: "\<forall>c\<in>set ?header. c \<noteq> '']'' \<and> c \<noteq> newline_ch"
    using assms by (auto simp: newline_ch_def)
  have drop: "dropWhile (\<lambda>c. c \<noteq> '']'' \<and> c \<noteq> newline_ch) (?header @ '']'' # newline_ch # ?line)
      = '']'' # newline_ch # ?line"
    using all by (subst dropWhile_append2) auto
  have take: "takeWhile (\<lambda>c. c \<noteq> '']'' \<and> c \<noteq> newline_ch) (?header @ '']'' # newline_ch # ?line) = ?header"
    using all by (subst takeWhile_append2) auto
  have header: "is_submodule_header ?header"
    by (simp add: is_submodule_header_def char_is_whitespace_def byte_of_def to_ascii_lowercase_def
      ascii_lower_def Let_def)
  have "submodule_entry e @ rest = ''['' # (?header @ '']'' # newline_ch # ?line)"
    by (simp add: submodule_entry_def)
  then have "gitmodules_scan b (submodule_entry e @ rest)
      = gitmodules_scan b (''['' # (?header @ '']'' # newline_ch # ?line))" by simp
  also have "\<dots> = gitmodules_scan True (newline_ch # ?line)"
    unfolding gitmodules_scan.simps [of b "''['' # _"]
    using drop take header ws by simp
  also have "\<dots> = gitmodules_scan True ?line"
    by (subst gitmodules_scan.simps) simp
  also have "\<dots> = snd e # gitmodules_scan True rest"
    using config_value_entry [of "snd e" rest] ws
    by (subst gitmodules_scan.simps)
       (simp add: Let_def is_config_key_char_def ascii_alphabetic_def byte_of_def to_ascii_lowercase_def
         ascii_lower_def)
  finally show ?thesis .
qed


text \<open>One character of a text: a byte that starts it and the bytes that continue it.\<close>

definition one_char :: "string \<Rightarrow> bool" where
  "one_char c \<longleftrightarrow> c \<noteq> [] \<and> \<not> utf8_cont (hd c) \<and> list_all utf8_cont (tl c)"

lemma utf8_chars_one:
  assumes "one_char c"
  shows "utf8_chars c = [c]"
proof (cases c)
  case (Cons b bs)
  with assms have "takeWhile utf8_cont bs = bs" "dropWhile utf8_cont bs = []"
    by (auto simp: one_char_def list_all_iff takeWhile_eq_all_conv dropWhile_eq_Nil_conv)
  then show ?thesis by (simp add: Cons)
qed (use assms in \<open>simp add: one_char_def\<close>)

lemma utf8_chars_concat: "list_all one_char cs \<Longrightarrow> utf8_chars (concat cs) = cs"
proof (induction cs)
  case (Cons c cs)
  have "concat cs = [] \<or> \<not> utf8_cont (hd (concat cs))"
    using Cons.prems by (cases cs) (auto simp: one_char_def)
  then have "utf8_chars (c @ concat cs) = utf8_chars c @ utf8_chars (concat cs)"
    by (rule utf8_chars_append)
  with Cons show ?case by (simp add: utf8_chars_one)
qed simp

lemma one_chars_of: "s = [] \<or> \<not> utf8_cont (hd s) \<Longrightarrow> list_all one_char (utf8_chars s)"
proof (induction s rule: utf8_chars.induct)
  case (2 c cs)
  have "dropWhile utf8_cont cs = [] \<or> \<not> utf8_cont (hd (dropWhile utf8_cont cs))"
    using hd_dropWhile by blast
  then show ?case using 2 by (auto simp: one_char_def list_all_iff dest: set_takeWhileD)
qed simp

lemma one_char_ascii [simp]: "one_char [c] = (\<not> utf8_cont c)"
  by (simp add: one_char_def)

lemma one_char_quoted: "one_char c \<Longrightarrow> list_all one_char (quote_config_char c)"
  by (auto simp: quote_config_char_def newline_ch_def backslash_def utf8_cont_def byte_of_def)

definition text_ok :: "string \<Rightarrow> bool" where
  "text_ok s \<longleftrightarrow> s = [] \<or> \<not> utf8_cont (hd s)"

definition entry_ok :: "string \<times> string \<Rightarrow> bool" where
  "entry_ok e \<longleftrightarrow> text_ok (fst e) \<and> text_ok (snd e)
     \<and> newline_ch \<notin> set (utf8_chars (fst e)) \<and> '']'' \<notin> set (utf8_chars (fst e))"

lemma entry_chars:
  assumes "entry_ok e"
  shows "list_all one_char (submodule_entry e)"
proof -
  have "list_all one_char (concat (map quote_config_char cs))" if "list_all one_char cs" for cs
    using that by (induction cs) (simp_all add: one_char_quoted)
  moreover have "list_all one_char (utf8_chars (fst e))" "list_all one_char (utf8_chars (snd e))"
    using assms by (auto simp: entry_ok_def text_ok_def intro: one_chars_of)
  ultimately show ?thesis
    by (simp add: submodule_entry_def quoted_value_def newline_ch_def utf8_cont_def byte_of_def)
qed

lemma gitmodules_read:
  assumes "list_all entry_ok es"
  shows "gitmodules_paths (submodule_file es) = map snd es"
proof -
  have "list_all one_char (concat (map submodule_entry es))"
    using assms by (induction es) (simp_all add: entry_chars)
  then have chars: "utf8_chars (submodule_file es) = concat (map submodule_entry es)"
    by (simp add: submodule_file_def utf8_chars_concat)
  have "gitmodules_scan b (concat (map submodule_entry es)) = map snd es" for b
    using assms
  proof (induction es arbitrary: b)
    case Nil
    then show ?case by (simp add: gitmodules_scan.simps)
  next
    case (Cons e es)
    then show ?case by (simp add: scan_entry entry_ok_def)
  qed
  then show ?thesis by (simp add: gitmodules_paths_def chars)
qed

text \<open>
  Every path that \<^verbatim>\<open>.gitmodules\<close> declares, whatever quotes, backslashes, line breaks,
  comment signs or white space it contains, is read back as it was, in order, under names that
  can stand in a section header.
\<close>

theorem gitmodules_roundtrip:
  assumes "list_all entry_ok es"
  shows "gitmodules_paths (submodule_file es) = map snd es"
  using assms by (rule gitmodules_read)

lemma gitmodules_roundtrip_witness:
  "gitmodules_paths (submodule_file [(''bus'', ''vendor/fleet bus ''), (''b;'', ''a # b'')])
   = [''vendor/fleet bus '', ''a # b'']"
  using gitmodules_roundtrip [of "[(''bus'', ''vendor/fleet bus ''), (''b;'', ''a # b'')]"]
  by (simp add: entry_ok_def text_ok_def utf8_cont_def byte_of_def newline_ch_def)

subsection \<open>Which paths a declaration covers\<close>

lemma join_prefix:
  assumes "list_all plain_name names" "list_all plain_name d" "names \<noteq> []" "d \<noteq> []"
  shows "(join [slash] names = join [slash] d
      \<or> (\<exists>r. join [slash] names = join [slash] d @ r \<and> r \<noteq> [] \<and> hd r = slash)) \<longleftrightarrow> prefix d names"
proof -
  have "slashed names = slash # join [slash] names" "slashed d = slash # join [slash] d"
    using assms(3,4) by (simp_all add: slashed_join unix_spell_def)
  moreover have "\<forall>x\<in>set names. slash \<notin> set x" "\<forall>x\<in>set d. slash \<notin> set x"
    using assms(1,2) by (auto simp: list_all_iff plain_name_def)
  ultimately show ?thesis using slashed_prefix [of names d] by auto
qed

lemma below_root:
  assumes "list_all plain_name R" "list_all plain_name P" "R \<noteq> []"
  shows "(\<exists>x. unix_spell P = unix_spell R @ slash # x) \<longleftrightarrow> (\<exists>names. names \<noteq> [] \<and> P = R @ names)"
    and "names \<noteq> [] \<Longrightarrow> P = R @ names \<Longrightarrow> unix_spell P = unix_spell R @ slash # join [slash] names"
proof -
  have free: "\<forall>x\<in>set P. slash \<notin> set x" "\<forall>x\<in>set R. slash \<notin> set x"
    using assms(1,2) by (auto simp: list_all_iff plain_name_def)
  show *: "unix_spell P = unix_spell R @ slash # join [slash] names" if "names \<noteq> []" "P = R @ names" for names
    using slashed_join [of "R @ names"] slashed_join [of R] slashed_join [of names] that assms(3)
    by (simp add: unix_spell_def)
  show "(\<exists>x. unix_spell P = unix_spell R @ slash # x) \<longleftrightarrow> (\<exists>names. names \<noteq> [] \<and> P = R @ names)"
  proof
    assume "\<exists>x. unix_spell P = unix_spell R @ slash # x"
    then obtain x where x: "unix_spell P = unix_spell R @ slash # x" by blast
    obtain c r where "unix_spell R = slash # c # r"
      using spell_second [of "hd R" "tl R"] assms(1,3) by fastforce
    with x have "P \<noteq> []" by (auto simp: unix_spell_def)
    then have "slashed P = slashed R @ slash # x" using x assms(3) by (simp add: slashed_join)
    then have "prefix R P" and ne: "slashed P \<noteq> slashed R"
      using slashed_prefix [OF free] by fastforce+
    then obtain names where "P = R @ names" by (auto simp: prefix_def)
    with ne show "\<exists>names. names \<noteq> [] \<and> P = R @ names" by auto
  qed (use * in blast)
qed

lemma root_last: "list_all plain_name R \<Longrightarrow> R \<noteq> [] \<Longrightarrow> last (unix_spell R) \<noteq> slash"
proof (cases R rule: rev_cases)
  case (snoc xs x)
  assume "list_all plain_name R" "R \<noteq> []"
  then have "x \<noteq> []" "slash \<notin> set x" by (auto simp: snoc plain_name_def)
  moreover have "unix_spell R = slashed xs @ slash # x"
    using slashed_join [of R] by (simp add: snoc)
  ultimately show ?thesis using last_in_set by fastforce
qed simp

lemma strip_below:
  assumes "root \<noteq> []" "last root \<noteq> slash"
  shows "(case strip_prefix p root of
      None \<Rightarrow> False
    | Some rest \<Rightarrow>
        (case (if root \<noteq> [] \<and> last root = slash then Some rest
               else if rest \<noteq> [] \<and> hd rest = slash then Some (tl rest) else None) of
           None \<Rightarrow> False | Some r \<Rightarrow> Q r))
    \<longleftrightarrow> (\<exists>x. p = root @ slash # x \<and> Q x)"
  using assms by (auto simp: strip_prefix_def prefix_def neq_Nil_conv)

text \<open>
  On Unix paths, a \<^verbatim>\<open>.gitmodules\<close> covers a path exactly when the path is one of the
  directories it declares under its checkout, or lies below one, by whole names.
\<close>

theorem declares_by_names:
  assumes root: "unix_path root" "unix_walk root \<noteq> []" and path: "unix_path path"
    and decl: "gitmodules_paths raw = map (join [slash]) ds"
      "list_all (\<lambda>d. d \<noteq> [] \<and> list_all plain_name d \<and> trim_path (join [slash] d) = join [slash] d) ds"
    and rel: "\<And>names. unix_walk path = unix_walk root @ names \<Longrightarrow>
      trim_path (join [slash] names) = join [slash] names"
  shows "declares_submodule raw root path \<longleftrightarrow>
    list_ex (\<lambda>d. prefix (unix_walk root @ d) (unix_walk path)) ds"
proof -
  let ?R = "unix_walk root" and ?P = "unix_walk path"
  note plain = unix_walk_plain [OF root(1)] unix_walk_plain [OF path]
  have sep: "is_separator False = (\<lambda>c. c = slash)" by (simp add: is_separator_def fun_eq_iff)
  have fold_id: "fold_spelling False s = s" for s by (simp add: fold_spelling_def)
  have w: "windows_shaped (unix_spell ?R) = False" using unix_comparable(2) [OF plain(1)] by simp
  have "map trim_path (gitmodules_paths raw) = map (join [slash]) ds"
    using decl(2) by (simp add: decl(1) list_all_iff)
  moreover have "filter (\<lambda>d. d \<noteq> []) (map (join [slash]) ds) = map (join [slash]) ds"
    using decl(2) join_eq_Nil by (intro filter_True) (auto simp: list_all_iff plain_name_def)
  ultimately have declared:
    "filter (\<lambda>d. d \<noteq> []) (map trim_path (gitmodules_paths raw)) = map (join [slash]) ds"
    by simp
  have nonempty: "unix_spell ?R \<noteq> []" by (simp add: unix_spell_def)
  have below: "(case strip_prefix t d of None \<Rightarrow> False | Some below \<Rightarrow> starts_with below [slash])
      \<longleftrightarrow> (\<exists>r. t = d @ r \<and> r \<noteq> [] \<and> hd r = slash)" for t d
    by (auto simp: strip_prefix_def prefix_def starts_with_def neq_Nil_conv)
  have "declares_submodule raw root path \<longleftrightarrow>
    (\<exists>x. unix_spell ?P = unix_spell ?R @ slash # x
       \<and> list_ex (\<lambda>d. trim_path x = d \<or> (\<exists>r. trim_path x = d @ r \<and> r \<noteq> [] \<and> hd r = slash))
           (map (join [slash]) ds))"
    unfolding declares_submodule_def Let_def unix_normalized [OF root(1)] unix_normalized [OF path]
      unix_comparable(1) [OF plain(1)] unix_comparable(1) [OF plain(2)] w unix_spell_trim [OF plain(1)]
      unix_spell_trim [OF plain(2)] sep declared below fold_id
    by (rule strip_below [OF nonempty root_last [OF plain(1) root(2)]])
  also have "\<dots> \<longleftrightarrow> (\<exists>names. names \<noteq> [] \<and> ?P = ?R @ names \<and> list_ex (\<lambda>d. prefix d names) ds)"
  proof -
    have step: "list_ex (\<lambda>d. trim_path x = d \<or> (\<exists>r. trim_path x = d @ r \<and> r \<noteq> [] \<and> hd r = slash))
        (map (join [slash]) ds) \<longleftrightarrow> list_ex (\<lambda>d. prefix d names) ds"
      if "names \<noteq> []" "?P = ?R @ names" "x = join [slash] names" for x names
    proof -
      have "list_all plain_name names" using plain(2) that(2) by simp
      then have "(trim_path x = join [slash] d \<or>
          (\<exists>r. trim_path x = join [slash] d @ r \<and> r \<noteq> [] \<and> hd r = slash)) \<longleftrightarrow> prefix d names"
        if "d \<in> set ds" for d
        using join_prefix [of names d] rel [of names] \<open>names \<noteq> []\<close> \<open>?P = ?R @ names\<close>
          \<open>x = join [slash] names\<close> decl(2) that by (simp add: list_all_iff)
      then show ?thesis by (auto simp: list_ex_iff)
    qed
    show ?thesis
    proof
      assume "\<exists>x. unix_spell ?P = unix_spell ?R @ slash # x \<and>
        list_ex (\<lambda>d. trim_path x = d \<or> (\<exists>r. trim_path x = d @ r \<and> r \<noteq> [] \<and> hd r = slash))
          (map (join [slash]) ds)"
      then obtain x where x: "unix_spell ?P = unix_spell ?R @ slash # x"
        "list_ex (\<lambda>d. trim_path x = d \<or> (\<exists>r. trim_path x = d @ r \<and> r \<noteq> [] \<and> hd r = slash))
          (map (join [slash]) ds)" by blast
      then obtain names where names: "names \<noteq> []" "?P = ?R @ names"
        using below_root(1) [OF plain root(2)] by blast
      moreover from this x(1) have "x = join [slash] names"
        using below_root(2) [OF plain root(2)] by simp
      ultimately show "\<exists>names. names \<noteq> [] \<and> ?P = ?R @ names \<and> list_ex (\<lambda>d. prefix d names) ds"
        using step x(2) by blast
    next
      assume "\<exists>names. names \<noteq> [] \<and> ?P = ?R @ names \<and> list_ex (\<lambda>d. prefix d names) ds"
      then show "\<exists>x. unix_spell ?P = unix_spell ?R @ slash # x \<and>
        list_ex (\<lambda>d. trim_path x = d \<or> (\<exists>r. trim_path x = d @ r \<and> r \<noteq> [] \<and> hd r = slash))
          (map (join [slash]) ds)"
        using step below_root(2) [OF plain root(2)] by blast
    qed
  qed
  also have "\<dots> \<longleftrightarrow> list_ex (\<lambda>d. prefix (?R @ d) ?P) ds"
    using decl(2) by (auto simp: list_ex_iff list_all_iff prefix_def)
  finally show ?thesis .
qed

lemma declares_by_names_witness:
  "declares_submodule (submodule_file [(''bus'', ''vendor/bus'')]) ''/repo'' ''/repo/vendor/bus/src''
   \<and> \<not> declares_submodule (submodule_file [(''bus'', ''vendor/bus'')]) ''/repo'' ''/repo/vendor/bus-old''"
proof -
  have paths: "gitmodules_paths (submodule_file [(''bus'', ''vendor/bus'')]) = map (join [slash]) [[''vendor'', ''bus'']]"
    by (subst gitmodules_read) (simp_all add: entry_ok_def text_ok_def rust_eval newline_ch_def)
  have ok: "list_all (\<lambda>d. d \<noteq> [] \<and> list_all plain_name d \<and> trim_path (join [slash] d) = join [slash] d)
      [[''vendor'', ''bus'']]"
    by (simp add: plain_name_def part_ok_def rust_eval)
  have u: "unix_path ''/repo''" "unix_path ''/repo/vendor/bus/src''" "unix_path ''/repo/vendor/bus-old''"
    by (simp_all add: unix_eval)
  have w: "unix_walk ''/repo'' = [''repo'']" "unix_walk ''/repo/vendor/bus/src'' = [''repo'', ''vendor'', ''bus'', ''src'']"
    "unix_walk ''/repo/vendor/bus-old'' = [''repo'', ''vendor'', ''bus-old'']"
    by (simp_all add: unix_walk_def unix_parts_def slash_def collapse_part_def)
  have r: "unix_walk ''/repo'' \<noteq> []" by (simp add: w)
  have rel1: "trim_path (join [slash] names) = join [slash] names"
    if "unix_walk ''/repo/vendor/bus/src'' = unix_walk ''/repo'' @ names" for names
    using that unfolding w by (cases names) (auto simp: rust_eval)
  have rel2: "trim_path (join [slash] names) = join [slash] names"
    if "unix_walk ''/repo/vendor/bus-old'' = unix_walk ''/repo'' @ names" for names
    using that unfolding w by (cases names) (auto simp: rust_eval)
  show ?thesis
    using declares_by_names [OF u(1) r u(2) paths ok rel1] declares_by_names [OF u(1) r u(3) paths ok rel2]
    by (simp add: w)
qed

end
