(* ===== verification/Scope_Window.thy ===== *)
theory Scope_Window
  imports Scope_Records
begin

text \<open>
  Which repository a turn ran in, from \<^verbatim>\<open>scope_evidence.rs\<close> and \<^verbatim>\<open>discover_git_root\<close> of
  \<^verbatim>\<open>segmentation.rs\<close>: the identity of a working directory on this host, membership of a
  project, the number of repositories a session names, and the verdict on a window of tool calls.
  The host's file system is an argument, a record of the questions the code asks it. The host is a
  Unix one; paths keep the spelling the standard library gives them.
\<close>

section \<open>Paths of the standard library on Unix\<close>

text \<open>
  A path is its bytes. Its components leave out empty names and single dots, except a dot that
  opens a relative path; \<^verbatim>\<open>parent\<close> and \<^verbatim>\<open>ancestors\<close> cut the text behind a component.
\<close>

definition path_rooted :: "string \<Rightarrow> bool" where
  "path_rooted p \<longleftrightarrow> p \<noteq> [] \<and> hd p = slash"

definition path_names :: "string \<Rightarrow> string list" where
  "path_names p = split_where (\<lambda>c. c = slash) (if path_rooted p then tl p else p)"

definition trim_names :: "bool \<Rightarrow> string list \<Rightarrow> string list" where
  "trim_names rooted ps =
     (let t = rev (dropWhile (\<lambda>x. x = [] \<or> x = ''.'') (rev ps)) in
      if t = [] \<and> \<not> rooted \<and> ps \<noteq> [] \<and> hd ps = ''.'' then [''.''] else t)"

definition spell_names :: "bool \<Rightarrow> string list \<Rightarrow> string" where
  "spell_names rooted ps = (if rooted then [slash] else []) @ join [slash] ps"

lemma trim_names_length: "length (trim_names rooted ps) \<le> length ps"
proof -
  have "length (dropWhile (\<lambda>x. x = [] \<or> x = ''.'') (rev ps)) \<le> length ps"
    by (metis length_dropWhile_le length_rev)
  then show ?thesis by (cases ps) (auto simp: trim_names_def Let_def)
qed

definition path_parent :: "string \<Rightarrow> string option" where
  "path_parent p =
     (let t = trim_names (path_rooted p) (path_names p) in
      if t = [] then None
      else Some (spell_names (path_rooted p) (trim_names (path_rooted p) (butlast t))))"

function ancestors_of :: "bool \<Rightarrow> string list \<Rightarrow> string list" where
  "ancestors_of rooted t =
     (if t = [] then []
      else (let u = trim_names rooted (butlast t) in spell_names rooted u # ancestors_of rooted u))"
  by pat_completeness auto
termination
proof (relation "measure (\<lambda>(_, t). length t)", goal_cases)
  case (2 rooted t u)
  have "length u \<le> length (butlast t)" using 2 trim_names_length [of rooted "butlast t"] by simp
  moreover have "length (butlast t) < length t" using 2 by simp
  ultimately have "length u < length t" by (rule le_less_trans)
  then show ?case by simp
qed simp

declare ancestors_of.simps [simp del]

definition path_ancestors :: "string \<Rightarrow> string list" where
  "path_ancestors p = p # ancestors_of (path_rooted p) (trim_names (path_rooted p) (path_names p))"

definition path_join :: "string \<Rightarrow> string \<Rightarrow> string" where
  "path_join p q =
     (if path_rooted q then q
      else p @ (if p \<noteq> [] \<and> last p \<noteq> slash then [slash] else []) @ q)"

text \<open>\<^verbatim>\<open>components()\<close>, each as its text, and equality of paths, which is equality of these.\<close>

definition path_components :: "string \<Rightarrow> string list" where
  "path_components p =
     (let names = path_names p in
      if path_rooted p then [slash] # filter (\<lambda>x. x \<noteq> [] \<and> x \<noteq> ''.'') names
      else (if hd names = ''.'' then [''.''] else []) @ filter (\<lambda>x. x \<noteq> [] \<and> x \<noteq> ''.'') names)"

definition path_eq :: "string \<Rightarrow> string \<Rightarrow> bool" where
  "path_eq p q \<longleftrightarrow> path_components p = path_components q"

section \<open>The host\<close>

record host =
  h_exists :: "string \<Rightarrow> bool"
  h_is_file :: "string \<Rightarrow> bool"
  h_read_to_string :: "string \<Rightarrow> string option"
  h_read :: "string \<Rightarrow> string option"
  h_canonicalize :: "string \<Rightarrow> string option"

text \<open>\<^verbatim>\<open>segmentation::discover_git_root\<close>.\<close>

definition discover_git_root :: "host \<Rightarrow> string \<Rightarrow> string option" where
  "discover_git_root h path =
     (let find_root = (\<lambda>seed. find (\<lambda>a. h_exists h (path_join a ''.git'')) (path_ancestors seed)) in
      if h_is_file h path then
        (case path_parent path of None \<Rightarrow> None | Some p \<Rightarrow> find_root p)
      else find_root path)"

section \<open>Identity of a working directory\<close>

datatype workdir_evidence = Explicit string | Opaque

fun evidence_path :: "workdir_evidence \<Rightarrow> string option" where
  "evidence_path (Explicit p) = Some p"
| "evidence_path Opaque = None"

datatype workdir_identity = Resolved string | Unresolved string

fun scope_path :: "workdir_identity \<Rightarrow> string" where
  "scope_path (Resolved root) = root"
| "scope_path (Unresolved p) = p"

fun is_resolved :: "workdir_identity \<Rightarrow> bool" where
  "is_resolved (Resolved _) = True"
| "is_resolved (Unresolved _) = False"

fun identity_eq :: "workdir_identity \<Rightarrow> workdir_identity \<Rightarrow> bool" where
  "identity_eq (Resolved a) (Resolved b) = path_eq a b"
| "identity_eq (Unresolved a) (Unresolved b) = (a = b)"
| "identity_eq _ _ = False"

text \<open>\<^verbatim>\<open>principal_repo_root\<close>: a linked worktree is folded into its principal checkout.\<close>

fun first_gitdir :: "string list \<Rightarrow> string option" where
  "first_gitdir [] = None"
| "first_gitdir (line # ls) =
     (case strip_prefix (str_trim line) ''gitdir:'' of
        Some rest \<Rightarrow> Some rest
      | None \<Rightarrow> first_gitdir ls)"

definition principal_repo_root :: "host \<Rightarrow> string \<Rightarrow> string" where
  "principal_repo_root h root =
     (let marker = path_join root ''.git'' in
      if \<not> h_is_file h marker then root
      else case h_read_to_string h marker of
        None \<Rightarrow> root
      | Some contents \<Rightarrow>
          (case first_gitdir (str_lines contents) of
             None \<Rightarrow> root
           | Some rest \<Rightarrow>
               (let gitdir = str_trim rest in
                if gitdir = [] then root
                else
                  (let gitdir_path = (if path_rooted gitdir then gitdir else path_join root gitdir) in
                   case rev (path_components gitdir_path) of
                     name # wt # dg # _ \<Rightarrow>
                       if wt = ''worktrees'' \<and> dg = ''.git'' then
                         (case Option.bind (Option.bind (path_parent gitdir_path) path_parent) path_parent of
                            None \<Rightarrow> root
                          | Some checkout \<Rightarrow>
                              if h_exists h (path_join checkout ''.git'') then checkout else root)
                       else root
                   | _ \<Rightarrow> root))))"

definition normalize_workdir :: "host \<Rightarrow> string \<Rightarrow> string option \<Rightarrow> workdir_identity" where
  "normalize_workdir h path baseline =
     (case resolve_candidate path baseline of
        None \<Rightarrow> Unresolved (trim_path path)
      | Some candidate \<Rightarrow>
          (case host_path candidate of
             None \<Rightarrow> Unresolved candidate
           | Some on_host \<Rightarrow>
               if \<not> h_exists h on_host then Unresolved candidate
               else (case discover_git_root h on_host of
                   None \<Rightarrow> Unresolved candidate
                 | Some root0 \<Rightarrow>
                     (let root = principal_repo_root h root0 in
                      Resolved (case h_canonicalize h root of Some c \<Rightarrow> c | None \<Rightarrow> root)))))"

section \<open>Membership\<close>

definition workdir_within_scope :: "host \<Rightarrow> string \<Rightarrow> string \<Rightarrow> bool" where
  "workdir_within_scope h candidate scope_root =
     (case normalize_workdir h candidate (Some scope_root) of
        Resolved candidate_root \<Rightarrow>
          (case normalize_workdir h scope_root None of
             Resolved scope \<Rightarrow> path_eq candidate_root scope
           | Unresolved scope \<Rightarrow> trim_path candidate_root = trim_path scope)
      | Unresolved cand \<Rightarrow>
          (case normalize_workdir h scope_root None of
             Resolved _ \<Rightarrow> False
           | Unresolved scope \<Rightarrow> lexically_within cand scope))"

definition submodule_declarations_root :: "host \<Rightarrow> string \<Rightarrow> string" where
  "submodule_declarations_root h scope =
     (case discover_git_root h scope of Some root \<Rightarrow> root | None \<Rightarrow> scope)"

definition declared_submodule :: "host \<Rightarrow> string \<Rightarrow> string \<Rightarrow> bool" where
  "declared_submodule h scope_root path =
     (case host_path (trim_path scope_root) of
        None \<Rightarrow> False
      | Some scope \<Rightarrow>
          (let root = submodule_declarations_root h scope in
           case h_read_to_string h (path_join root ''.gitmodules'') of
             None \<Rightarrow> False
           | Some raw \<Rightarrow> declares_submodule raw root path))"

definition plausibly_within_scope :: "host \<Rightarrow> string \<Rightarrow> string \<Rightarrow> bool" where
  "plausibly_within_scope h candidate scope_root =
     (case normalize_workdir h candidate (Some scope_root) of
        Resolved _ \<Rightarrow> workdir_within_scope h candidate scope_root
      | Unresolved path \<Rightarrow>
          if \<not> lexically_within path (trim_path scope_root) then False
          else \<not> declared_submodule h scope_root path)"

definition distinct_repo_identity :: "host \<Rightarrow> string \<Rightarrow> string \<Rightarrow> bool" where
  "distinct_repo_identity h candidate scope_root =
     (case (normalize_workdir h candidate (Some scope_root), normalize_workdir h scope_root None) of
        (Resolved left, Resolved right) \<Rightarrow> \<not> path_eq left right
      | _ \<Rightarrow> False)"

section \<open>The number of repositories\<close>

text \<open>The first loop, its variables \<open>(roots, anchors, unproven)\<close>.\<close>

definition count_step ::
    "host \<Rightarrow> string list \<times> string list \<times> string list \<Rightarrow> string
     \<Rightarrow> string list \<times> string list \<times> string list" where
  "count_step h st raw0 =
     (case st of (roots, anchors, unproven) \<Rightarrow>
      (let raw = trim_path raw0 in
       if raw = [] then st
       else (case normalize_workdir h raw None of
           Resolved root \<Rightarrow>
             (if list_ex (path_eq root) roots then roots else roots @ [root],
              anchors @ [raw]
                @ (case Option.bind (host_path raw) (discover_git_root h) of
                     Some walked \<Rightarrow> [walked] | None \<Rightarrow> [])
                @ [root],
              unproven)
         | Unresolved path \<Rightarrow> (roots, anchors, unproven @ [path]))))"

definition absorb_step :: "host \<Rightarrow> string list \<Rightarrow> string list \<Rightarrow> string \<Rightarrow> string list" where
  "absorb_step h anchors unproven_roots path =
     (if list_ex (plausibly_within_scope h path) (anchors @ unproven_roots) then unproven_roots
      else unproven_roots @ [path])"

definition repository_count :: "host \<Rightarrow> string list \<Rightarrow> nat" where
  "repository_count h workdirs =
     (case foldl (count_step h) ([], [], []) workdirs of (roots, anchors, unproven) \<Rightarrow>
        length roots + length (foldl (absorb_step h anchors) [] (sort_key length unproven)))"

section \<open>The verdict on a window\<close>

datatype window_scope = Baseline | Consistent | Conflict | Unattributed

definition window_step ::
    "host \<Rightarrow> string option \<Rightarrow> bool \<times> workdir_identity list \<Rightarrow> string \<Rightarrow> bool \<times> workdir_identity list" where
  "window_step h baseline st raw =
     (case st of (saw_baseline, found) \<Rightarrow>
      if (case baseline of Some base \<Rightarrow> plausibly_within_scope h raw base | None \<Rightarrow> False)
      then (True, found)
      else
        (let identity = normalize_workdir h raw baseline in
         (saw_baseline, if list_ex (identity_eq identity) found then found else found @ [identity])))"

fun resolved_root :: "workdir_identity \<Rightarrow> string option" where
  "resolved_root (Resolved root) = Some root"
| "resolved_root (Unresolved _) = None"

definition absorbed_by :: "host \<Rightarrow> string list \<Rightarrow> workdir_identity \<Rightarrow> bool" where
  "absorbed_by h roots identity =
     (case identity of
        Resolved _ \<Rightarrow> False
      | Unresolved path \<Rightarrow> list_ex (plausibly_within_scope h path) roots)"

definition effective_window_scope ::
    "host \<Rightarrow> workdir_evidence list \<Rightarrow> string option \<Rightarrow> window_scope \<times> string option" where
  "effective_window_scope h workdirs baseline0 =
     (let baseline = (case map_option str_trim baseline0 of
                        Some b \<Rightarrow> if b = [] then None else Some b | None \<Rightarrow> None) in
      if Opaque \<in> set workdirs then (Unattributed, None)
      else
        (let (saw_baseline, found0) =
               foldl (window_step h baseline) (False, []) (List.map_filter evidence_path workdirs);
             roots = List.map_filter resolved_root found0;
             found = filter (\<lambda>i. \<not> absorbed_by h roots i) found0;
             resolved = filter is_resolved found in
         if 2 \<le> length resolved then (Conflict, None)
         else if length resolved = 1 \<and> saw_baseline then
           (if (case baseline of Some base \<Rightarrow> is_resolved (normalize_workdir h base None) | None \<Rightarrow> False)
            then (Conflict, None) else (Unattributed, None))
         else if list_ex (\<lambda>i. \<not> is_resolved i) found then (Unattributed, None)
         else (case found of [] \<Rightarrow> (Baseline, None) | i # _ \<Rightarrow> (Consistent, Some (scope_path i)))))"

section \<open>The layout as a cache key\<close>

definition le_bytes_u64 :: "nat \<Rightarrow> string" where
  "le_bytes_u64 n = map (\<lambda>i. char_of (n div 256 ^ i mod 256)) [0..<8]"

definition nul :: char where "nul = CHR 0x00"

definition scope_layout_evidence :: "host \<Rightarrow> string \<Rightarrow> string" where
  "scope_layout_evidence h path =
     (case normalize_workdir h path None of
        Resolved root \<Rightarrow> ''resolved'' @ [nul] @ root
      | Unresolved candidate \<Rightarrow> ''unresolved'' @ [nul] @ candidate)
     @ [nul]
     @ (case host_path (trim_path path) of
          None \<Rightarrow> []
        | Some scope \<Rightarrow>
            (case h_read h (path_join (submodule_declarations_root h scope) ''.gitmodules'') of
               Some body \<Rightarrow> ''gitmodules'' @ [nul] @ le_bytes_u64 (length body) @ body
             | None \<Rightarrow> ''no-gitmodules'' @ [nul]))"


section \<open>Canonical paths\<close>

text \<open>A name a directory can have.\<close>

definition dir_name :: "string \<Rightarrow> bool" where
  "dir_name x \<longleftrightarrow> x \<noteq> [] \<and> x \<noteq> ''.'' \<and> x \<noteq> ''..'' \<and> slash \<notin> set x"

lemma spell_rooted [simp]: "path_rooted (unix_spell names)"
  by (simp add: unix_spell_def path_rooted_def)

lemma spell_path_names:
  assumes "list_all dir_name names"
  shows "path_names (unix_spell names) = (if names = [] then [[]] else names)"
proof -
  have "\<forall>x\<in>set names. slash \<notin> set x"
    using assms unfolding list_all_iff dir_name_def by blast
  then have "names \<noteq> [] \<Longrightarrow> split_where (\<lambda>c. c = slash) (join [slash] names) = names"
    by (rule split_join [rotated])
  then show ?thesis by (simp add: path_names_def unix_spell_def path_rooted_def)
qed

lemma trim_names_id:
  assumes "list_all dir_name names"
  shows "trim_names rooted names = names"
proof -
  have "dropWhile (\<lambda>x. x = [] \<or> x = ''.'') (rev names) = rev names"
    using assms by (cases names rule: rev_cases) (simp_all add: dir_name_def)
  moreover have "names \<noteq> [] \<Longrightarrow> hd names \<noteq> ''.''" using assms by (cases names) (auto simp: dir_name_def)
  ultimately show ?thesis by (auto simp: trim_names_def Let_def)
qed

lemma spell_components:
  assumes "list_all dir_name names"
  shows "path_components (unix_spell names) = [slash] # names"
proof -
  have "filter (\<lambda>x. x \<noteq> [] \<and> x \<noteq> ''.'') names = names"
    using assms by (intro filter_True) (auto simp: list_all_iff dir_name_def)
  then show ?thesis using assms by (simp add: path_components_def spell_path_names Let_def)
qed

lemma spell_inj:
  "list_all dir_name ns \<Longrightarrow> list_all dir_name ms \<Longrightarrow>
   path_eq (unix_spell ns) (unix_spell ms) \<longleftrightarrow> unix_spell ns = unix_spell ms"
  unfolding path_eq_def by (metis spell_components list.inject)

lemma spell_names_rooted: "spell_names True names = unix_spell names"
  by (simp add: spell_names_def unix_spell_def)

lemma spell_parent:
  assumes "list_all dir_name (names @ [n])"
  shows "path_parent (unix_spell (names @ [n])) = Some (unix_spell names)"
  using assms trim_names_id [OF assms] trim_names_id [of names]
  by (simp add: path_parent_def spell_path_names Let_def spell_names_rooted)

lemma ancestors_of_spell:
  "list_all dir_name names \<Longrightarrow>
   ancestors_of True names = map (\<lambda>k. unix_spell (take k names)) (rev [0..<length names])"
proof (induction names rule: rev_induct)
  case Nil
  then show ?case by (simp add: ancestors_of.simps)
next
  case (snoc n ns)
  then have "ancestors_of True (ns @ [n]) = unix_spell ns # ancestors_of True ns"
    by (subst ancestors_of.simps) (simp add: trim_names_id spell_names_rooted Let_def)
  with snoc show ?case by simp
qed

lemma ancestors_spell:
  assumes "list_all dir_name names"
  shows "path_ancestors (unix_spell names)
       = map (\<lambda>k. unix_spell (take k names)) (rev [0..<Suc (length names)])"
proof -
  have "trim_names True (path_names (unix_spell names)) = names"
  proof (cases "names = []")
    case True
    then show ?thesis using spell_path_names [OF assms] by (simp add: trim_names_def)
  next
    case False
    then show ?thesis using trim_names_id [OF assms] spell_path_names [OF assms] by simp
  qed
  then show ?thesis using assms by (simp add: path_ancestors_def ancestors_of_spell)
qed

lemma find_map: "find P (map f xs) = map_option f (find (P \<circ> f) xs)"
  by (induction xs) simp_all

lemma find_last:
  "find P (rev [0..<n]) = Some k \<longleftrightarrow> k < n \<and> P k \<and> (\<forall>j. k < j \<longrightarrow> j < n \<longrightarrow> \<not> P j)"
proof (induction n)
  case (Suc n)
  show ?case
  proof (cases "P n")
    case True
    then show ?thesis by auto (metis lessI less_antisym)
  next
    case False
    with Suc show ?thesis by (auto simp: less_Suc_eq)
  qed
qed simp

text \<open>
  The checkout a directory belongs to is the nearest one: the root found is the deepest
  ancestor of the directory, itself included, that holds a \<^verbatim>\<open>.git\<close>; a checkout nested in
  another is never taken for the one around it.
\<close>

theorem git_root_is_nearest:
  assumes "list_all dir_name names" "\<not> h_is_file h (unix_spell names)"
  shows "discover_git_root h (unix_spell names) = Some root \<longleftrightarrow>
    (\<exists>k\<le>length names. root = unix_spell (take k names) \<and> h_exists h (path_join root ''.git'')
       \<and> (\<forall>j. k < j \<longrightarrow> j \<le> length names \<longrightarrow> \<not> h_exists h (path_join (unix_spell (take j names)) ''.git'')))"
proof -
  let ?P = "\<lambda>k. h_exists h (path_join (unix_spell (take k names)) ''.git'')"
  have "discover_git_root h (unix_spell names)
      = map_option (\<lambda>k. unix_spell (take k names)) (find ?P (rev [0..<Suc (length names)]))"
    unfolding discover_git_root_def Let_def ancestors_spell [OF assms(1)] find_map
    using assms(2) by (simp add: o_def)
  then show ?thesis using find_last [of ?P "Suc (length names)"] by (auto simp: less_Suc_eq_le)
qed


section \<open>Linked worktrees\<close>

lemma plain_dir: "list_all plain_name names \<Longrightarrow> list_all dir_name names"
  by (erule list.pred_mono_strong) (auto simp: plain_name_def dir_name_def)

lemma str_trim_space:
  assumes "\<not> utf8_cont c" "str_trim (c # s) = c # s" "\<not> char_is_whitespace (hd (utf8_chars (c # s)))"
  shows "str_trim (CHR 0x20 # c # s) = c # s"
proof -
  have u: "utf8_chars (CHR 0x20 # c # s) = '' '' # utf8_chars (c # s)"
    using utf8_chars_Cons [OF assms(1), of "CHR 0x20" s] by simp
  have ws: "char_is_whitespace '' ''" by (simp add: char_is_whitespace_def byte_of_def)
  have "dropWhile char_is_whitespace (utf8_chars (CHR 0x20 # c # s)) = utf8_chars (c # s)"
    unfolding u using ws assms(3) by (simp add: dropWhile_id del: utf8_chars.simps)
  moreover have "dropWhile char_is_whitespace (utf8_chars (c # s)) = utf8_chars (c # s)"
    using assms(3) by (intro dropWhile_id) simp
  ultimately show ?thesis using assms(2) by (simp add: str_trim_def del: utf8_chars.simps)
qed

definition one_line :: "string \<Rightarrow> bool" where
  "one_line x \<longleftrightarrow> lf \<notin> set x \<and> CHR 0x0D \<notin> set x"

definition worktree_marker :: "string list \<Rightarrow> string \<Rightarrow> string" where
  "worktree_marker names wt = ''gitdir: '' @ unix_spell (names @ [''.git'', ''worktrees'', wt]) @ [lf]"

lemma spell_first_char:
  assumes "list_all plain_name names"
  shows "hd (utf8_chars (unix_spell names)) = [slash]"
proof -
  have "join [slash] names = [] \<or> \<not> utf8_cont (hd (join [slash] names))"
    using assms by (induction "[slash]" names rule: join.induct) (auto simp: plain_name_def part_ok_def)
  then have "utf8_chars ([slash] @ join [slash] names) = utf8_chars [slash] @ utf8_chars (join [slash] names)"
    by (rule utf8_chars_append)
  moreover have "utf8_chars [slash] = [[slash]]" by simp
  ultimately show ?thesis by (simp add: unix_spell_def del: utf8_chars.simps)
qed

lemma marker_line:
  assumes "list_all plain_name ns"
  shows "str_trim (''gitdir: '' @ unix_spell ns) = ''gitdir: '' @ unix_spell ns"
proof (rule str_trim_id, rule disjI2, rule conjI)
  let ?s = "unix_spell ns"
  have "utf8_chars (''gitdir: '' @ ?s) = utf8_chars ''gitdir: '' @ utf8_chars ?s"
    by (rule utf8_chars_append) (simp add: unix_spell_def)
  moreover have "utf8_chars ''gitdir: '' = [''g'', ''i'', ''t'', ''d'', ''i'', ''r'', '':'', '' '']"
    by (simp add: utf8_cont_def byte_of_def)
  ultimately have u: "utf8_chars (''gitdir: '' @ ?s) = [''g'', ''i'', ''t'', ''d'', ''i'', ''r'', '':'', '' ''] @ utf8_chars ?s"
    by simp
  show "\<not> char_is_whitespace (hd (utf8_chars (''gitdir: '' @ ?s)))"
    unfolding u by (simp add: char_is_whitespace_def byte_of_def)
  have "\<not> char_is_whitespace (last (utf8_chars ?s))"
  proof (cases "ns = []")
    case False
    have "list_all part_ok ns" using assms by (rule list.pred_mono_strong) (simp add: plain_name_def)
    then show ?thesis using last_char_slashed [of ns] slashed_join [of ns] False by simp
  qed (simp add: unix_spell_def)
  then show "\<not> char_is_whitespace (last (utf8_chars (''gitdir: '' @ ?s)))"
    unfolding u by (simp add: unix_spell_def)
qed

lemma git_names: "plain_name ''.git''" "plain_name ''worktrees''" "plain_name ''.gitmodules''"
  by (simp_all add: plain_name_def part_ok_def rust_eval)

text \<open>
  A linked worktree is its principal checkout: a checkout whose \<^verbatim>\<open>.git\<close> is the file git
  writes for a worktree of another, still standing, repository has that repository's root.
\<close>

theorem worktree_is_principal:
  assumes "list_all plain_name names" "plain_name wt" "list_all one_line (wt # names)"
    and "h_is_file h (path_join root ''.git'')"
    and "h_read_to_string h (path_join root ''.git'') = Some (worktree_marker names wt)"
    and "h_exists h (path_join (unix_spell names) ''.git'')"
  shows "principal_repo_root h root = unix_spell names"
proof -
  let ?ns = "names @ [''.git'', ''worktrees'', wt]"
  have ns: "list_all plain_name ?ns" using assms(1,2) git_names by simp
  note dirs = plain_dir [OF ns]
  have chars: "c \<notin> set (''gitdir: '' @ unix_spell ?ns)" if "c = lf \<or> c = CHR 0x0D" for c
  proof -
    have "set (join [slash] ns) \<subseteq> insert slash (\<Union> (set ` set ns))" for ns
      by (induction "[slash]" ns rule: join.induct) auto
    then have "set (join [slash] ?ns) \<subseteq> insert slash (\<Union> (set ` set ?ns))" .
    then have "c \<notin> set (join [slash] ?ns)"
      using assms(3) that by (auto simp: lf_def slash_def one_line_def list_all_iff)
    then show ?thesis using that by (auto simp: unix_spell_def lf_def slash_def)
  qed
  have "str_lines (worktree_marker names wt) = [''gitdir: '' @ unix_spell ?ns]"
    using str_lines_line [of "''gitdir: '' @ unix_spell ?ns" "[]"] chars by (simp add: worktree_marker_def)
  then have first: "first_gitdir (str_lines (worktree_marker names wt)) = Some (CHR 0x20 # unix_spell ?ns)"
    by (simp add: marker_line [OF ns, simplified] strip_prefix_def)
  have trim: "str_trim (CHR 0x20 # unix_spell ?ns) = unix_spell ?ns"
    using str_trim_space [of slash "join [slash] ?ns"] unix_path_trim [OF unix_path_spell [OF ns]]
      spell_first_char [OF ns] by (simp add: unix_spell_def del: utf8_chars.simps)
  have comps: "rev (path_components (unix_spell ?ns)) = wt # ''worktrees'' # ''.git'' # rev ([slash] # names)"
    using spell_components [OF dirs] by simp
  have "path_parent (unix_spell ?ns) = Some (unix_spell (names @ [''.git'', ''worktrees'']))"
    using spell_parent [of "names @ [''.git'', ''worktrees'']" wt] dirs by simp
  moreover have "path_parent (unix_spell (names @ [''.git'', ''worktrees''])) = Some (unix_spell (names @ [''.git'']))"
    using spell_parent [of "names @ [''.git'']" "''worktrees''"] dirs by simp
  moreover have "path_parent (unix_spell (names @ [''.git''])) = Some (unix_spell names)"
    using spell_parent [of names "''.git''"] dirs by simp
  ultimately have parents: "Option.bind (Option.bind (path_parent (unix_spell ?ns)) path_parent) path_parent
      = Some (unix_spell names)" by simp
  show ?thesis
    using assms(4-6) comps parents
    by (simp add: principal_repo_root_def Let_def first trim) (simp add: unix_spell_def)
qed


section \<open>The verdict as a function of sets\<close>

text \<open>
  What \<^verbatim>\<open>realpath\<close> promises: where a \<^verbatim>\<open>.git\<close> stands, the directory has a canonical
  path, which is a list of names.
\<close>

definition canonical_host :: "host \<Rightarrow> bool" where
  "canonical_host h \<longleftrightarrow>
     (\<forall>p. h_exists h (path_join p ''.git'') \<longrightarrow>
        (\<exists>names. list_all dir_name names \<and> h_canonicalize h p = Some (unix_spell names)))"

definition proper_identity :: "workdir_identity \<Rightarrow> bool" where
  "proper_identity i \<longleftrightarrow>
     (case i of Resolved r \<Rightarrow> \<exists>names. list_all dir_name names \<and> r = unix_spell names | Unresolved _ \<Rightarrow> True)"

lemma principal_has_git:
  "h_exists h (path_join root ''.git'') \<Longrightarrow> h_exists h (path_join (principal_repo_root h root) ''.git'')"
  by (simp add: principal_repo_root_def Let_def split: option.split list.split)

lemma discovered_has_git:
  "discover_git_root h p = Some root \<Longrightarrow> h_exists h (path_join root ''.git'')"
  by (auto simp: discover_git_root_def Let_def find_Some_iff split: if_splits option.splits)

lemma normalize_proper:
  assumes "canonical_host h"
  shows "proper_identity (normalize_workdir h p b)"
proof -
  have "\<exists>names. list_all dir_name names \<and>
      h_canonicalize h (principal_repo_root h root) = Some (unix_spell names)"
    if "discover_git_root h q = Some root" for q root
    using assms principal_has_git [OF discovered_has_git [OF that]] by (simp add: canonical_host_def)
  then show ?thesis
    by (fastforce simp: normalize_workdir_def proper_identity_def Let_def split: option.split)
qed

lemma proper_eq:
  "proper_identity i \<Longrightarrow> proper_identity j \<Longrightarrow> identity_eq i j \<longleftrightarrow> i = j"
  by (cases i; cases j) (auto simp: proper_identity_def spell_inj)

definition window_baseline :: "string option \<Rightarrow> string option" where
  "window_baseline b =
     (case map_option str_trim b of Some t \<Rightarrow> if t = [] then None else Some t | None \<Rightarrow> None)"

definition in_baseline :: "host \<Rightarrow> string option \<Rightarrow> string \<Rightarrow> bool" where
  "in_baseline h b p = (case b of Some base \<Rightarrow> plausibly_within_scope h p base | None \<Rightarrow> False)"

definition foreign_ids :: "host \<Rightarrow> string option \<Rightarrow> string set \<Rightarrow> workdir_identity set" where
  "foreign_ids h b ps = (\<lambda>p. normalize_workdir h p b) ` {p \<in> ps. \<not> in_baseline h b p}"

definition foreign_roots :: "host \<Rightarrow> string option \<Rightarrow> string set \<Rightarrow> string set" where
  "foreign_roots h b ps = {r. Resolved r \<in> foreign_ids h b ps}"

definition loose_paths :: "host \<Rightarrow> string option \<Rightarrow> string set \<Rightarrow> string set" where
  "loose_paths h b ps =
     {p. Unresolved p \<in> foreign_ids h b ps
       \<and> \<not> (\<exists>r\<in>foreign_roots h b ps. plausibly_within_scope h p r)}"

text \<open>The reference: the verdict read off the sets of identities.\<close>

definition window_verdict ::
    "host \<Rightarrow> workdir_evidence set \<Rightarrow> string option \<Rightarrow> window_scope \<times> string option" where
  "window_verdict h evidence baseline0 =
     (let b = window_baseline baseline0;
          ps = {p. Explicit p \<in> evidence};
          roots = foreign_roots h b ps in
      if Opaque \<in> evidence then (Unattributed, None)
      else if 2 \<le> card roots then (Conflict, None)
      else if card roots = 1 \<and> (\<exists>p\<in>ps. in_baseline h b p) then
        (if (case b of Some base \<Rightarrow> is_resolved (normalize_workdir h base None) | None \<Rightarrow> False)
         then (Conflict, None) else (Unattributed, None))
      else if loose_paths h b ps \<noteq> {} then (Unattributed, None)
      else if roots = {} then (Baseline, None)
      else (Consistent, Some (the_elem roots)))"

lemma window_loop:
  assumes "canonical_host h" "foldl (window_step h b) (False, []) ps = (saw, found)"
  shows "saw = (\<exists>p\<in>set ps. in_baseline h b p)" "set found = foreign_ids h b (set ps)"
    "distinct found" "list_all proper_identity found"
proof -
  have "saw = (\<exists>p\<in>set ps. in_baseline h b p) \<and> set found = foreign_ids h b (set ps)
      \<and> distinct found \<and> list_all proper_identity found"
    using assms(2)
  proof (induction ps arbitrary: saw found rule: rev_induct)
    case Nil
    then show ?case by (simp add: foreign_ids_def)
  next
    case (snoc p ps)
    obtain s0 f0 where st: "foldl (window_step h b) (False, []) ps = (s0, f0)" by fastforce
    note IH = snoc.IH [OF st]
    have proper: "proper_identity (normalize_workdir h p b)" by (rule normalize_proper [OF assms(1)])
    have known: "list_ex (identity_eq (normalize_workdir h p b)) f0 \<longleftrightarrow> normalize_workdir h p b \<in> set f0"
      using IH proper by (auto simp: list_ex_iff list_all_iff proper_eq)
    have ids: "foreign_ids h b (set (ps @ [p])) = foreign_ids h b (set ps)
        \<union> (if in_baseline h b p then {} else {normalize_workdir h p b})"
      by (auto simp: foreign_ids_def)
    have step: "window_step h b (s0, f0) p = (saw, found)" using snoc.prems st by simp
    show ?case
    proof (cases "in_baseline h b p")
      case True
      with step have "saw" "found = f0" by (auto simp: window_step_def in_baseline_def)
      with IH ids True show ?thesis by simp
    next
      case False
      with step have "saw = s0"
        "found = (if normalize_workdir h p b \<in> set f0 then f0 else f0 @ [normalize_workdir h p b])"
        using known by (auto simp: window_step_def in_baseline_def Let_def split: option.splits)
      with IH ids False proper show ?thesis by auto
    qed
  qed
  then show "saw = (\<exists>p\<in>set ps. in_baseline h b p)" "set found = foreign_ids h b (set ps)"
    "distinct found" "list_all proper_identity found" by blast+
qed

lemma map_filter_set: "set (List.map_filter f xs) = {y. \<exists>x\<in>set xs. f x = Some y}"
  by (force simp: List.map_filter_def)

lemma resolved_filter:
  assumes "distinct found"
  shows "length (filter is_resolved found) = card {r. Resolved r \<in> set found}"
proof -
  have "set (filter is_resolved found) = Resolved ` {r. Resolved r \<in> set found}"
    by (auto elim: is_resolved.elims)
  moreover have "length (filter is_resolved found) = card (set (filter is_resolved found))"
    using distinct_card [OF distinct_filter [OF assms]] by (rule sym)
  ultimately show ?thesis by (simp only:) (simp add: card_image inj_on_def)
qed

lemma explicit_paths: "set (List.map_filter evidence_path ws) = {p. Explicit p \<in> set ws}"
  by (auto simp: map_filter_set elim: evidence_path.elims) (metis evidence_path.simps(1))

lemma window_scope_sets:
  assumes "canonical_host h"
  shows "effective_window_scope h ws b0 = window_verdict h (set ws) b0"
proof -
  define b where "b = window_baseline b0"
  define ps where "ps = List.map_filter evidence_path ws"
  have ps: "set ps = {p. Explicit p \<in> set ws}" by (simp add: ps_def explicit_paths)
  obtain saw found0 where loop: "foldl (window_step h b) (False, []) ps = (saw, found0)" by fastforce
  note L = window_loop [OF assms loop]
  define roots where "roots = List.map_filter resolved_root found0"
  have roots: "set roots = foreign_roots h b (set ps)"
    by (force simp: roots_def map_filter_set foreign_roots_def L(2) elim: resolved_root.elims)
  define found where "found = filter (\<lambda>i. \<not> absorbed_by h roots i) found0"
  have res: "{r. Resolved r \<in> set found} = foreign_roots h b (set ps)"
    by (auto simp: found_def absorbed_by_def foreign_roots_def L(2))
  have loose: "{p. Unresolved p \<in> set found} = loose_paths h b (set ps)"
    by (auto simp: found_def absorbed_by_def loose_paths_def L(2) list_ex_iff roots)
  have "distinct found" using L(3) by (simp add: found_def)
  then have len: "length (filter is_resolved found) = card (foreign_roots h b (set ps))"
    by (simp add: resolved_filter res)
  have unres: "list_ex (\<lambda>i. \<not> is_resolved i) found \<longleftrightarrow> loose_paths h b (set ps) \<noteq> {}"
    unfolding loose [symmetric] list_ex_iff by (force elim: is_resolved.elims(3))
  have rest: "(case found of [] \<Rightarrow> (Baseline, None) | i # _ \<Rightarrow> (Consistent, Some (scope_path i)))
      = (if foreign_roots h b (set ps) = {} then (Baseline, None)
         else (Consistent, Some (the_elem (foreign_roots h b (set ps)))))"
    if "loose_paths h b (set ps) = {}" "\<not> 2 \<le> card (foreign_roots h b (set ps))"
  proof (cases found)
    case Nil
    then have "foreign_roots h b (set ps) = {}" using res by auto
    then show ?thesis by (simp add: Nil)
  next
    case (Cons i found')
    have all: "\<forall>j\<in>set found. is_resolved j"
      using that(1) unres by (auto simp: list_ex_iff)
    then have "length found \<le> 1" using len that(2) by (simp add: filter_True)
    with Cons have "found = [i]" by simp
    moreover obtain r where "i = Resolved r" using all Cons by (cases i) auto
    ultimately have "foreign_roots h b (set ps) = {r}" using res by auto
    then show ?thesis using \<open>found = [i]\<close> \<open>i = Resolved r\<close> by simp
  qed
  have eq: "effective_window_scope h ws b0 =
    (if Opaque \<in> set ws then (Unattributed, None)
     else if 2 \<le> length (filter is_resolved found) then (Conflict, None)
     else if length (filter is_resolved found) = 1 \<and> saw then
       (if (case b of Some base \<Rightarrow> is_resolved (normalize_workdir h base None) | None \<Rightarrow> False)
        then (Conflict, None) else (Unattributed, None))
     else if list_ex (\<lambda>i. \<not> is_resolved i) found then (Unattributed, None)
     else (case found of [] \<Rightarrow> (Baseline, None) | i # _ \<Rightarrow> (Consistent, Some (scope_path i))))"
    unfolding effective_window_scope_def Let_def window_baseline_def [symmetric] b_def [symmetric]
      ps_def [symmetric] loop prod.case roots_def [symmetric] found_def [symmetric] by (rule refl)
  show ?thesis
    unfolding eq window_verdict_def Let_def b_def [symmetric] ps [symmetric] len unres L(1)
    by (intro if_cong refl rest) auto
qed


text \<open>
  C6: The verdict on a window is a function of the set of its evidence: whichever order the tool
  calls came in and however often each was repeated, it is what the identities named outside the
  baseline decide, and unreadable evidence alone decides against every attribution.
\<close>

theorem window_scope_reference:
  assumes "canonical_host h"
  shows "effective_window_scope h ws b = window_verdict h (set ws) b"
  using assms by (rule window_scope_sets)

text \<open>
  A window is attributed to a checkout only on proof: then every call named a readable
  directory outside the baseline, and each such directory either is in that very checkout on this
  host or no longer exists and plausibly lay inside it; and one of them does exist.
\<close>

theorem attribution_is_proved:
  assumes "canonical_host h" "effective_window_scope h ws b = (Consistent, Some root)"
  shows "Opaque \<notin> set ws
    \<and> (\<forall>p. Explicit p \<in> set ws \<longrightarrow> \<not> in_baseline h (window_baseline b) p
      \<and> (normalize_workdir h p (window_baseline b) = Resolved root
         \<or> (\<exists>q. normalize_workdir h p (window_baseline b) = Unresolved q \<and> plausibly_within_scope h q root)))
    \<and> (\<exists>p. Explicit p \<in> set ws \<and> normalize_workdir h p (window_baseline b) = Resolved root)"
proof -
  define B where "B = window_baseline b"
  define ps where "ps = {p. Explicit p \<in> set ws}"
  define roots where "roots = foreign_roots h B ps"
  have v: "window_verdict h (set ws) b = (Consistent, Some root)"
    using assms window_scope_sets by simp
  then have o: "Opaque \<notin> set ws" and c: "\<not> 2 \<le> card roots" and ne: "roots \<noteq> {}"
    and b: "\<not> (card roots = 1 \<and> (\<exists>p\<in>ps. in_baseline h B p))"
    and l: "loose_paths h B ps = {}" and r: "root = the_elem roots"
    unfolding window_verdict_def Let_def B_def [symmetric] ps_def [symmetric] roots_def [symmetric]
    by (auto split: if_splits)
  have "finite ps"
  proof -
    have "ps = set (List.map_filter evidence_path ws)" by (simp add: ps_def explicit_paths)
    then show ?thesis by simp
  qed
  then have "finite (foreign_ids h B ps)" by (simp add: foreign_ids_def)
  moreover have "Resolved ` roots \<subseteq> foreign_ids h B ps" by (auto simp: roots_def foreign_roots_def)
  ultimately have "finite (Resolved ` roots)" by (rule finite_subset [rotated])
  then have "finite roots" by (rule finite_imageD) (simp add: inj_on_def)
  with c ne have "card roots = 1" using card_0_eq by fastforce
  then have single: "roots = {root}" using r by (metis card_1_singletonE the_elem_eq)
  with b \<open>card roots = 1\<close> have out: "\<forall>p\<in>ps. \<not> in_baseline h B p" by blast
  have each: "\<not> in_baseline h (window_baseline b) p
      \<and> (normalize_workdir h p (window_baseline b) = Resolved root
         \<or> (\<exists>q. normalize_workdir h p (window_baseline b) = Unresolved q \<and> plausibly_within_scope h q root))"
    if "Explicit p \<in> set ws" for p
  proof -
    have p: "p \<in> ps" "\<not> in_baseline h B p" using that out by (auto simp: ps_def)
    then have id: "normalize_workdir h p B \<in> foreign_ids h B ps" by (auto simp: foreign_ids_def)
    show ?thesis
    proof (cases "normalize_workdir h p B")
      case (Resolved q)
      with id have "q \<in> roots" by (simp add: roots_def foreign_roots_def)
      then show ?thesis using Resolved p(2) single by (simp add: B_def)
    next
      case (Unresolved q)
      with id l have "\<exists>r\<in>roots. plausibly_within_scope h q r"
        by (auto simp: loose_paths_def roots_def)
      then show ?thesis using Unresolved p(2) single by (simp add: B_def)
    qed
  qed
  have "Resolved root \<in> foreign_ids h B ps" using single by (auto simp: roots_def foreign_roots_def)
  then have "\<exists>p. Explicit p \<in> set ws \<and> normalize_workdir h p (window_baseline b) = Resolved root"
    by (auto simp: foreign_ids_def ps_def B_def)
  with o each show ?thesis by blast
qed

section \<open>The layout evidence determines what is read\<close>

lemma le_bytes_length [simp]: "length (le_bytes_u64 n) = 8"
  by (simp add: le_bytes_u64_def)

lemma nul_split:
  "nul \<notin> set a \<Longrightarrow> nul \<notin> set b \<Longrightarrow> a @ nul # s = b @ nul # t \<Longrightarrow> a = b \<and> s = t"
proof (induction a arbitrary: b)
  case Nil
  then show ?case by (cases b) auto
next
  case (Cons c a)
  then show ?case by (cases b) auto
qed

definition declarations_body :: "host \<Rightarrow> string \<Rightarrow> string option option" where
  "declarations_body h path =
     map_option (\<lambda>scope. h_read h (path_join (submodule_declarations_root h scope) ''.gitmodules''))
       (host_path (trim_path path))"

text \<open>
  The layout evidence is a sound cache key: two hosts, or one host at two times, that give the
  same evidence for a recorded path resolve it to the same identity and read the same submodule
  declarations around it.
\<close>

theorem layout_evidence_determines:
  assumes "scope_layout_evidence h p = scope_layout_evidence h' p"
    and "nul \<notin> set (scope_path (normalize_workdir h p None))"
    and "nul \<notin> set (scope_path (normalize_workdir h' p None))"
  shows "normalize_workdir h p None = normalize_workdir h' p None
    \<and> declarations_body h p = declarations_body h' p"
proof -
  define tail where "tail g = (case host_path (trim_path p) of
          None \<Rightarrow> []
        | Some scope \<Rightarrow>
            (case h_read g (path_join (submodule_declarations_root g scope) ''.gitmodules'') of
               Some body \<Rightarrow> ''gitmodules'' @ [nul] @ le_bytes_u64 (length body) @ body
             | None \<Rightarrow> ''no-gitmodules'' @ [nul]))" for g
  define kind where "kind i = (case i of Resolved _ \<Rightarrow> ''resolved'' | Unresolved _ \<Rightarrow> ''unresolved'')"
    for i :: workdir_identity
  have shape: "scope_layout_evidence g p
      = kind (normalize_workdir g p None) @ nul # scope_path (normalize_workdir g p None) @ nul # tail g" for g
    by (cases "normalize_workdir g p None") (simp_all add: scope_layout_evidence_def tail_def kind_def)
  have clean: "nul \<notin> set (kind i)" for i
    by (cases i) (simp_all add: kind_def nul_def)
  have "kind (normalize_workdir h p None) = kind (normalize_workdir h' p None)
      \<and> scope_path (normalize_workdir h p None) @ nul # tail h = scope_path (normalize_workdir h' p None) @ nul # tail h'"
    using assms(1) unfolding shape by (intro nul_split clean)
  then have kinds: "kind (normalize_workdir h p None) = kind (normalize_workdir h' p None)"
    and "scope_path (normalize_workdir h p None) = scope_path (normalize_workdir h' p None) \<and> tail h = tail h'"
    using nul_split [OF assms(2,3)] by blast+
  then have "normalize_workdir h p None = normalize_workdir h' p None"
    by (cases "normalize_workdir h p None"; cases "normalize_workdir h' p None") (simp_all add: kind_def)
  moreover have "tail h = tail h'" using \<open>_ \<and> tail h = tail h'\<close> by blast
  then have "declarations_body h p = declarations_body h' p"
    by (auto simp: tail_def declarations_body_def append_eq_append_conv split: option.splits)
  ultimately show ?thesis by blast
qed

section \<open>Counting repositories\<close>

text \<open>
  The count depends on the order of the paths after all: of two relative paths of one length, the
  one visited first may absorb the other and not the other way round.
\<close>

definition bare_host :: host where
  "bare_host = \<lparr>h_exists = \<lambda>_. False, h_is_file = \<lambda>_. False, h_read_to_string = \<lambda>_. None,
     h_read = \<lambda>_. None, h_canonicalize = \<lambda>_. None\<rparr>"

lemmas scope_eval = normalize_workdir_def plausibly_within_scope_def declared_submodule_def
  bare_host_def rust_eval

lemma bare_facts:
  "trim_path ''./a'' = ''./a''" "trim_path ''a/b'' = ''a/b''"
  "normalize_workdir bare_host ''./a'' None = Unresolved ''./a''"
  "normalize_workdir bare_host ''a/b'' None = Unresolved ''a/b''"
  "plausibly_within_scope bare_host ''a/b'' ''./a''"
  "\<not> plausibly_within_scope bare_host ''./a'' ''a/b''"
  by (simp_all add: scope_eval)

lemma count_depends_on_order:
  "repository_count bare_host [''./a'', ''a/b''] = 1 \<and> repository_count bare_host [''a/b'', ''./a''] = 2"
  by (simp add: repository_count_def count_step_def absorb_step_def bare_facts)


section \<open>Concrete hosts\<close>

text \<open>A host with one checkout, \<^verbatim>\<open>/a\<close>, and one with a worktree of it at \<^verbatim>\<open>/w\<close>.\<close>

definition repo_host :: host where
  "repo_host = \<lparr>h_exists = \<lambda>p. p \<in> {''/a'', ''/a/.git'', ''/a/pkg''}, h_is_file = \<lambda>_. False,
     h_read_to_string = \<lambda>_. None, h_read = \<lambda>_. None, h_canonicalize = \<lambda>_. Some ''/a''\<rparr>"

definition worktree_host :: host where
  "worktree_host = repo_host\<lparr>h_is_file := \<lambda>p. p = ''/w/.git'',
     h_read_to_string := \<lambda>_. Some (worktree_marker [''a''] ''w'')\<rparr>"

lemma repo_canonical: "canonical_host repo_host"
  unfolding canonical_host_def
  by (intro allI impI exI [of _ "[''a'']"])
     (simp add: repo_host_def unix_spell_def slash_def dir_name_def)

lemmas path_eval = path_join_def path_rooted_def path_names_def path_ancestors_def trim_names_def
  ancestors_of.simps spell_names_def path_parent_def path_components_def path_eq_def discover_git_root_def

lemma repo_facts:
  "discover_git_root repo_host ''/a/pkg'' = Some ''/a''"
  "principal_repo_root repo_host ''/a'' = ''/a''"
  "resolve_candidate ''/a/pkg'' (Some ''/w'') = Some ''/a/pkg''"
  "resolve_candidate ''/a/old'' (Some ''/w'') = Some ''/a/old''"
  "resolve_candidate ''/a/old'' (Some ''/a'') = Some ''/a/old''"
  "resolve_candidate ''/w'' None = Some ''/w''" "resolve_candidate ''/a'' None = Some ''/a''"
  "host_path ''/a/pkg'' = Some ''/a/pkg''" "host_path ''/a/old'' = Some ''/a/old''"
  "host_path ''/w'' = Some ''/w''" "host_path ''/a'' = Some ''/a''"
  "lexically_within ''/a/old'' ''/w'' = False" "lexically_within ''/a/old'' ''/a'' = True"
  "trim_path ''/a'' = ''/a''" "trim_path ''/w'' = ''/w''" "str_trim ''/w'' = ''/w''"
  by (simp_all add: repo_host_def path_eval principal_repo_root_def rust_eval)

lemma repo_window:
  "effective_window_scope repo_host [Explicit ''/a/pkg'', Explicit ''/a/old''] (Some ''/w'') = (Consistent, Some ''/a'')"
proof -
  have ex: "h_exists repo_host ''/a/pkg''" "\<not> h_exists repo_host ''/a/old''" "\<not> h_exists repo_host ''/w''"
    "h_canonicalize repo_host ''/a'' = Some ''/a''" "h_read_to_string repo_host p = None" for p
    by (simp_all add: repo_host_def)
  have n: "normalize_workdir repo_host ''/a/pkg'' (Some ''/w'') = Resolved ''/a''"
    "normalize_workdir repo_host ''/a/old'' (Some ''/w'') = Unresolved ''/a/old''"
    "normalize_workdir repo_host ''/a/old'' (Some ''/a'') = Unresolved ''/a/old''"
    "normalize_workdir repo_host ''/w'' None = Unresolved ''/w''"
    by (simp_all add: normalize_workdir_def repo_facts ex)
  have p: "plausibly_within_scope repo_host ''/a/pkg'' ''/w'' = False"
    "plausibly_within_scope repo_host ''/a/old'' ''/w'' = False"
    "plausibly_within_scope repo_host ''/a/old'' ''/a'' = True"
    by (simp_all add: plausibly_within_scope_def workdir_within_scope_def n repo_facts
      declared_submodule_def ex Let_def)
  show ?thesis
    by (simp add: effective_window_scope_def window_step_def absorbed_by_def List.map_filter_def
      repo_facts n p)
qed

lemma window_scope_reference_witness:
  "window_verdict repo_host {Explicit ''/a/pkg'', Explicit ''/a/old''} (Some ''/w'') = (Consistent, Some ''/a'')"
  using window_scope_reference [OF repo_canonical, of "[Explicit ''/a/pkg'', Explicit ''/a/old'']" "Some ''/w''"]
  by (simp add: repo_window)

lemma attribution_is_proved_witness:
  "\<not> in_baseline repo_host (window_baseline (Some ''/w'')) ''/a/pkg''
   \<and> (\<exists>p. Explicit p \<in> set [Explicit ''/a/pkg'', Explicit ''/a/old'']
        \<and> normalize_workdir repo_host p (window_baseline (Some ''/w'')) = Resolved ''/a'')"
  using attribution_is_proved [OF repo_canonical repo_window] by simp

lemma git_root_is_nearest_witness:
  "discover_git_root repo_host (unix_spell [''a'', ''pkg'']) = Some (unix_spell [''a''])"
proof -
  have "list_all dir_name [''a'', ''pkg'']" "\<not> h_is_file repo_host (unix_spell [''a'', ''pkg''])"
    by (simp_all add: dir_name_def slash_def repo_host_def)
  from git_root_is_nearest [OF this, of "unix_spell [''a'']"] show ?thesis
    by (auto simp: repo_host_def unix_spell_def slash_def path_join_def path_rooted_def
      less_Suc_eq_0_disj le_Suc_eq intro!: exI [of _ 1])
qed

lemma worktree_is_principal_witness:
  "principal_repo_root worktree_host ''/w'' = ''/a''"
proof -
  have "list_all plain_name [''a'']" "plain_name ''w''" "list_all one_line [''w'', ''a'']"
    by (simp_all add: plain_name_def part_ok_def one_line_def lf_def rust_eval)
  moreover have "h_is_file worktree_host (path_join ''/w'' ''.git'')"
    "h_read_to_string worktree_host (path_join ''/w'' ''.git'') = Some (worktree_marker [''a''] ''w'')"
    "h_exists worktree_host (path_join (unix_spell [''a'']) ''.git'')"
    by (simp_all add: worktree_host_def repo_host_def path_join_def path_rooted_def unix_spell_def slash_def)
  ultimately have "principal_repo_root worktree_host ''/w'' = unix_spell [''a'']"
    by (rule worktree_is_principal)
  then show ?thesis by (simp add: unix_spell_def slash_def)
qed

lemma layout_evidence_determines_witness:
  "normalize_workdir bare_host ''/w'' None = normalize_workdir repo_host ''/w'' None"
proof -
  have n: "normalize_workdir bare_host ''/w'' None = Unresolved ''/w''"
    "normalize_workdir repo_host ''/w'' None = Unresolved ''/w''"
    by (simp_all add: normalize_workdir_def repo_facts bare_host_def repo_host_def)
  have "scope_layout_evidence bare_host ''/w'' = scope_layout_evidence repo_host ''/w''"
    by (simp add: scope_layout_evidence_def n repo_facts) (simp add: bare_host_def repo_host_def)
  then show ?thesis
    by (rule layout_evidence_determines [THEN conjunct1]) (simp_all add: n nul_def)
qed

end
