(* ===== verification/Scope_Script.thy ===== *)
theory Scope_Script
  imports Scope_Lexer Scope_Window Json
begin

text \<open>
  Working directories named by tool calls, from \<^verbatim>\<open>scope_evidence.rs\<close>: the arguments of a
  call read as JSON, or a script scanned for every \<^verbatim>\<open>workdir\<close> key and for every
  \<^verbatim>\<open>exec_command\<close> call. Positions are byte offsets into the script, as in the code; the text
  behind a position is \<^term>\<open>drop\<close>, the text before it \<^term>\<open>take\<close>. Two arguments stand for code
  elsewhere: \<open>alnum\<close>, the table of alphanumeric characters outside ASCII, and \<open>from_str\<close>, the
  JSON parser.
\<close>

section \<open>Characters and prefixes\<close>

definition ascii_alphanumeric :: "char \<Rightarrow> bool" where
  "ascii_alphanumeric c \<longleftrightarrow> ascii_alphabetic c \<or> is_ascii_digit c"

text \<open>The class \<^verbatim>\<open>[A-Za-z0-9_$]\<close> of the regular expressions.\<close>

definition word_byte :: "char \<Rightarrow> bool" where
  "word_byte c \<longleftrightarrow> ascii_alphanumeric c \<or> c = CHR ''_'' \<or> c = CHR ''$''"

definition is_alphanumeric :: "(string \<Rightarrow> bool) \<Rightarrow> string \<Rightarrow> bool" where
  "is_alphanumeric alnum ch =
     (case ch of [c] \<Rightarrow> ascii_alphanumeric c | _ \<Rightarrow> alnum ch)"

text \<open>\<^verbatim>\<open>starts_with([..])\<close> of ASCII characters, \<^verbatim>\<open>ends_with([..])\<close>, \<^verbatim>\<open>trim_end\<close>.\<close>

definition starts_in :: "string \<Rightarrow> string \<Rightarrow> bool" where
  "starts_in s cs \<longleftrightarrow> s \<noteq> [] \<and> hd s \<in> set cs"

definition ends_in :: "string \<Rightarrow> string \<Rightarrow> bool" where
  "ends_in s cs \<longleftrightarrow> s \<noteq> [] \<and> last s \<in> set cs"

definition str_trim_end :: "string \<Rightarrow> string" where
  "str_trim_end s = concat (rev (dropWhile char_is_whitespace (rev (utf8_chars s))))"

definition str_slice :: "string \<Rightarrow> span \<Rightarrow> string" where
  "str_slice s sp = take (snd sp - fst sp) (drop (fst sp) s)"

definition is_comment :: "string \<Rightarrow> bool" where
  "is_comment t \<longleftrightarrow> prefix [ch_slash, ch_slash] t \<or> prefix [ch_slash, ch_star] t"

lemma str_trim_start_shorter: "length (str_trim_start s) \<le> length s"
proof -
  have "length (concat (dropWhile P xs)) \<le> length (concat xs)" for P and xs :: "string list"
    by (induction xs) auto
  then show ?thesis unfolding str_trim_start_def by (metis concat_utf8_chars)
qed

lemma str_trim_end_shorter: "length (str_trim_end s) \<le> length s"
proof -
  have "length (concat (rev (dropWhile P xs))) \<le> length (concat (rev xs))" for P and xs :: "string list"
    by (induction xs) auto
  then show ?thesis unfolding str_trim_end_def by (metis concat_utf8_chars rev_rev_ident)
qed

section \<open>Comments and literals\<close>

function skip_comments :: "string \<Rightarrow> string option" where
  "skip_comments s =
     (let rest = str_trim_start s in
      if prefix [ch_slash, ch_slash] rest then
        (case dropWhile (\<lambda>c. c \<noteq> ch_newline) (drop 2 rest) of
           [] \<Rightarrow> Some []
         | _ # after_line \<Rightarrow> skip_comments after_line)
      else if prefix [ch_slash, ch_star] rest then
        (case str_find (drop 2 rest) [ch_star, ch_slash] of
           None \<Rightarrow> None
         | Some close \<Rightarrow> skip_comments (drop (close + 2) (drop 2 rest)))
      else Some rest)"
  by pat_completeness auto
termination
proof (relation "measure length", goal_cases)
  case (2 s rest x y)
  have "length (x # y) \<le> length (drop 2 rest)" by (metis 2(3) length_dropWhile_le)
  with 2 str_trim_start_shorter [of s] show ?case by simp
next
  case (3 s rest close)
  then show ?case using str_trim_start_shorter [of s] prefix_length_le [OF 3(3)] by simp
qed simp

declare skip_comments.simps [simp del]

definition escape_masks_path :: "string \<Rightarrow> string \<Rightarrow> bool" where
  "escape_masks_path escaped after =
     (let hex = (\<lambda>n. case str_get_prefix n after of
                   Some digits \<Rightarrow> list_all (\<lambda>c. length c = 1 \<and> is_ascii_hexdigit (hd c)) (utf8_chars digits)
                 | None \<Rightarrow> False) in
      if escaped = ''x'' then hex 2
      else if escaped = ''u'' then starts_in after ''{'' \<or> hex 4
      else (length escaped = 1 \<and> (is_ascii_digit (hd escaped) \<or> hd escaped \<in> set ''./:''
              \<or> hd escaped = ch_newline \<or> hd escaped = ch_return))
           \<or> code_point escaped = 8232 \<or> code_point escaped = 8233)"

record literal =
  li_body :: string
  li_end :: nat
  li_masked :: bool

text \<open>The loop of \<^verbatim>\<open>literal_body\<close> over the characters, \<open>off\<close> bytes in.\<close>

fun literal_from :: "char \<Rightarrow> string \<Rightarrow> bool \<Rightarrow> nat \<Rightarrow> string list \<Rightarrow> literal option" where
  "literal_from delimiter body masked off [] = None"
| "literal_from delimiter body masked off (c # cs) =
     (if c = [delimiter] then Some \<lparr>li_body = body, li_end = off + 1, li_masked = masked\<rparr>
      else if c \<noteq> [ch_backslash] then literal_from delimiter (body @ c) masked (off + length c) cs
      else (case cs of
              [] \<Rightarrow> None
            | e # es \<Rightarrow>
                if e = [ch_backslash] \<or> e = [delimiter]
                then literal_from delimiter (body @ e) masked (off + 1 + length e) es
                else literal_from delimiter (body @ [ch_backslash] @ e)
                  (masked \<or> escape_masks_path e (concat es)) (off + 1 + length e) es))"

definition literal_body :: "string \<Rightarrow> char \<Rightarrow> literal option" where
  "literal_body rest delimiter = literal_from delimiter [] False 0 (utf8_chars rest)"

definition value_ends_at :: "string \<Rightarrow> bool" where
  "value_ends_at rest =
     (case skip_comments rest of None \<Rightarrow> False | Some r \<Rightarrow> r = [] \<or> starts_in r '',})];'')"

definition names_no_directory :: "string \<Rightarrow> bool" where
  "names_no_directory v =
     (let unsigned = (if starts_in v ''-+'' then tl v else v);
          token = takeWhile (\<lambda>c. word_byte c \<or> c = CHR ''.'') unsigned;
          number = (token \<noteq> [] \<and> is_ascii_digit (hd token))
                   \<or> (case strip_prefix token ''.'' of
                        None \<Rightarrow> False | Some fraction \<Rightarrow> fraction \<noteq> [] \<and> is_ascii_digit (hd fraction));
          no_directory = token = [] \<or> number \<or> token = ''null'' \<or> token = ''undefined'' in
      no_directory \<and> value_ends_at (drop (length token) unsigned))"

section \<open>What stands before a position\<close>

function block_closing_from :: "string \<Rightarrow> nat \<Rightarrow> nat option" where
  "block_closing_from t from_at =
     (case str_find (drop from_at t) [ch_slash, ch_star] of
        None \<Rightarrow> None
      | Some at \<Rightarrow>
          (let open = from_at + at in
           case str_find (drop (open + 2) t) [ch_star, ch_slash] of
             None \<Rightarrow> None
           | Some n \<Rightarrow>
               (let close = open + 2 + n + 2 in
                if close = length t then Some open else block_closing_from t close)))"
  by pat_completeness auto
termination
proof (relation "measure (\<lambda>(t, from_at). length t - from_at)", goal_cases)
  case (2 t from_at at op n close)
  have "at + 2 \<le> length t - from_at" using str_find_bound [OF 2(1)] by simp
  with 2 show ?case by simp
qed simp

declare block_closing_from.simps [simp del]

definition block_comment_closing_at_end :: "string \<Rightarrow> nat option" where
  "block_comment_closing_at_end t = block_closing_from t 0"

lemma block_closing_bound: "block_closing_from t from_at = Some open \<Longrightarrow> open < length t"
proof (induction t from_at rule: block_closing_from.induct)
  case (1 t from_at)
  from "1.prems" obtain at where at: "str_find (drop from_at t) [ch_slash, ch_star] = Some at"
    by (subst (asm) block_closing_from.simps) (auto split: option.splits)
  from "1.prems" at obtain n where n: "str_find (drop (from_at + at + 2) t) [ch_star, ch_slash] = Some n"
    by (subst (asm) block_closing_from.simps) (auto simp: Let_def split: option.splits)
  show ?case
  proof (cases "from_at + at + 2 + n + 2 = length t")
    case True
    with "1.prems" at n show ?thesis
      by (subst (asm) block_closing_from.simps) (auto simp: Let_def)
  next
    case False
    with "1.prems" at n have "block_closing_from t (from_at + at + 2 + n + 2) = Some open"
      by (subst (asm) block_closing_from.simps) (simp add: Let_def)
    then show ?thesis using "1.IH" [OF at refl n refl False] by simp
  qed
qed

lemma str_rfind_bound: "str_rfind s p = Some i \<Longrightarrow> i + length p \<le> length s"
proof (induction s arbitrary: i)
  case (Cons c s)
  then show ?case
    using prefix_length_le [of p "c # s"] by (fastforce split: option.splits if_splits)
qed (simp split: if_splits)

function text_before_from :: "bool \<Rightarrow> string \<Rightarrow> string" where
  "text_before_from key_line0 rest0 =
     (let rest = str_trim_end rest0;
          key_line = (key_line0 \<and> ch_newline \<notin> set (drop (length rest) rest0)) in
      if suffix [ch_star, ch_slash] rest then
        (case block_comment_closing_at_end rest of
           Some open \<Rightarrow> text_before_from key_line (take open rest)
         | None \<Rightarrow> rest)
      else if key_line \<or> ends_in rest ''{,['' then rest
      else
        (let line_start = (case str_rfind rest [ch_newline] of Some n \<Rightarrow> n + 1 | None \<Rightarrow> 0) in
         case str_rfind (drop line_start rest) [ch_slash, ch_slash] of
           Some at_slash \<Rightarrow> text_before_from key_line (take (line_start + at_slash) rest)
         | None \<Rightarrow> rest))"
  by pat_completeness auto
termination
proof (relation "measure (\<lambda>(_, rest). length rest)", goal_cases)
  case (2 key_line0 rest0 rest key_line op)
  then show ?case
    using block_closing_bound [of rest 0 op] str_trim_end_shorter [of rest0]
    by (simp add: block_comment_closing_at_end_def)
next
  case (3 key_line0 rest0 rest key_line line_start at_slash)
  then show ?case using str_rfind_bound [OF 3(6)] str_trim_end_shorter [of rest0] by simp
qed simp

declare text_before_from.simps [simp del]

definition text_before :: "string \<Rightarrow> string" where
  "text_before t = text_before_from True t"

function code_before_from :: "string \<Rightarrow> span list \<Rightarrow> nat \<Rightarrow> string" where
  "code_before_from input inert end0 =
     (let e = length (str_trim_end (take end0 input));
          earlier = takeWhile (\<lambda>(a, _). a < e) inert in
      if earlier \<noteq> [] \<and> e \<le> snd (last earlier) \<and> is_comment (str_slice input (last earlier))
      then code_before_from input inert (fst (last earlier))
      else take e input)"
  by pat_completeness auto
termination
proof (relation "measure (\<lambda>(_, _, e). e)", goal_cases)
  case (2 input inert end0 e earlier)
  have "last earlier \<in> set earlier" using 2 by simp
  then have "fst (last earlier) < e" using 2(2) by (auto dest: set_takeWhileD split: prod.splits)
  moreover have "e \<le> length (take end0 input)" unfolding 2(1) by (rule str_trim_end_shorter)
  ultimately show ?case by simp
qed simp

declare code_before_from.simps [simp del]

definition code_before :: "string \<Rightarrow> nat \<Rightarrow> bool \<Rightarrow> span list \<Rightarrow> string" where
  "code_before input at in_text inert =
     (if in_text then text_before (take at input) else code_before_from input inert at)"

definition opens_property :: "string \<Rightarrow> nat \<Rightarrow> bool \<Rightarrow> span list \<Rightarrow> bool" where
  "opens_property input at in_text inert =
     (let code = code_before input at in_text inert in code = [] \<or> ends_in code ''{,'')"

definition computed_key :: "string \<Rightarrow> span \<Rightarrow> bool \<Rightarrow> span list \<Rightarrow> (nat \<times> string) option" where
  "computed_key input key in_text inert =
     (let code = code_before input (fst key) in_text inert in
      if \<not> ends_in code ''['' then None
      else case skip_comments (drop (snd key) input) of
        None \<Rightarrow> None
      | Some r \<Rightarrow> if starts_in r '']'' then Some (length code - 1, tl r) else None)"

text \<open>The remaining spans are passed on: those before the position are behind it for good.\<close>

function next_code :: "string \<Rightarrow> nat \<Rightarrow> span list \<Rightarrow> nat option" where
  "next_code input at0 inert =
     (let at = length input - length (str_trim_start (drop at0 input)) in
      case dropWhile (\<lambda>(a, _). a < at) inert of
        [] \<Rightarrow> Some at
      | sp # later \<Rightarrow>
          if fst sp \<noteq> at then Some at
          else
            (let t = str_slice input sp in
             if prefix [ch_slash, ch_star] t \<and> (length t < 4 \<or> \<not> suffix [ch_star, ch_slash] t) then None
             else if \<not> is_comment t then Some at
             else next_code input (snd sp) later))"
  by pat_completeness auto
termination
proof (relation "measure (\<lambda>(_, _, inert). length inert)", goal_cases)
  case (2 input at0 inert at sp later t)
  have "length (sp # later) \<le> length inert" by (metis 2(2) length_dropWhile_le)
  then show ?case by simp
qed simp

declare next_code.simps [simp del]


section \<open>Brackets\<close>

definition opens_bracket :: "char \<Rightarrow> bool" where
  "opens_bracket c \<longleftrightarrow> c \<in> set ''{[(''"

definition closes_bracket :: "char \<Rightarrow> bool" where
  "closes_bracket c \<longleftrightarrow> c \<in> set ''}])''"

text \<open>The loop of \<^verbatim>\<open>depth_at\<close>; \<open>spans\<close> are the ones from \<^verbatim>\<open>next\<close> on.\<close>

function depth_from :: "string \<Rightarrow> nat \<Rightarrow> span list \<Rightarrow> nat \<Rightarrow> nat \<Rightarrow> nat option" where
  "depth_from input at spans depth cursor =
     (if \<not> cursor < at then Some depth
      else if spans \<noteq> [] \<and> fst (hd spans) = cursor
      then depth_from input at (tl spans) depth (snd (hd spans))
      else if opens_bracket (input ! cursor) then depth_from input at spans (depth + 1) (cursor + 1)
      else if closes_bracket (input ! cursor) then
        (if depth = 0 \<or> depth - 1 = 0 then None
         else depth_from input at spans (depth - 1) (cursor + 1))
      else depth_from input at spans depth (cursor + 1))"
  by pat_completeness auto
termination
  by (relation "measures [\<lambda>(_, _, spans, _, _). length spans, \<lambda>(_, at, _, _, cursor). at - cursor]") auto

declare depth_from.simps [simp del]

definition depth_at :: "string \<Rightarrow> nat \<Rightarrow> nat \<Rightarrow> span list \<Rightarrow> nat \<Rightarrow> nat option" where
  "depth_at input from_at at inert depth =
     depth_from input at (dropWhile (\<lambda>(a, _). a < from_at) inert) depth from_at"

section \<open>Properties of an object literal\<close>

lemma first_char_nonempty: "t \<noteq> [] \<Longrightarrow> hd (utf8_chars t) \<noteq> []"
  by (cases t) auto

function name_len :: "(string \<Rightarrow> bool) \<Rightarrow> string \<Rightarrow> nat" where
  "name_len alnum t =
     (if t = [] then 0
      else
        (let c = hd (utf8_chars t) in
         if c = [ch_backslash] then
           (if prefix ''u{'' (tl t) then
              (case str_find (tl t) ''}'' of
                 Some close \<Rightarrow> 1 + (close + 1) + name_len alnum (drop (close + 1) (tl t))
               | None \<Rightarrow> length t)
            else 1 + name_len alnum (tl t))
         else if is_alphanumeric alnum c \<or> c = ''_'' \<or> c = ''$''
         then length c + name_len alnum (drop (length c) t)
         else 0))"
  by pat_completeness auto
termination
proof (relation "measure (\<lambda>(_, t). length t)", goal_cases)
  case (2 alnum t c close)
  have "length t > 0" using 2 by simp
  then show ?case by simp
next
  case (3 alnum t c)
  then show ?case by (cases t) simp_all
next
  case (4 alnum t c)
  then show ?case using first_char_nonempty [of t] by simp
qed simp

declare name_len.simps [simp del]

definition plain_property :: "(string \<Rightarrow> bool) \<Rightarrow> string \<Rightarrow> bool" where
  "plain_property alnum rest0 =
     (case skip_comments rest0 of
        None \<Rightarrow> False
      | Some rest \<Rightarrow>
          (let after = (\<lambda>after_key. case after_key of None \<Rightarrow> False
                | Some k \<Rightarrow> (case skip_comments k of None \<Rightarrow> False | Some r \<Rightarrow> starts_in r '':'')) in
           if rest = [] \<or> hd rest = CHR ''}'' then True
           else if hd rest = ch_dquote \<or> hd rest = ch_squote then
             after (map_option (\<lambda>l. drop (1 + li_end l) rest) (literal_body (tl rest) (hd rest)))
           else if hd rest = CHR ''['' then
             after (case skip_comments (tl rest) of
                None \<Rightarrow> None
              | Some key \<Rightarrow>
                  if key = [] \<or> \<not> is_quote (hd key) then None
                  else (case literal_body (tl key) (hd key) of
                      None \<Rightarrow> None
                    | Some l \<Rightarrow>
                        if hd key = ch_backtick \<and> str_contains (li_body l) ''${'' then None
                        else (case skip_comments (drop (1 + li_end l) key) of
                            None \<Rightarrow> None
                          | Some r \<Rightarrow> if starts_in r '']'' then Some (tl r) else None)))
           else if is_alphanumeric alnum (hd (utf8_chars rest)) \<or> starts_in rest (''_$'' @ [ch_backslash]) then
             (case skip_comments (drop (name_len alnum rest) rest) of
                None \<Rightarrow> False | Some a \<Rightarrow> starts_in a '':,}'')
           else False))"

text \<open>The loop of \<^verbatim>\<open>object_is_whole\<close>: the depth counts the byte at the position already.\<close>

definition depth_step :: "nat \<Rightarrow> char \<Rightarrow> nat" where
  "depth_step depth c =
     (if opens_bracket c then depth + 1 else if closes_bracket c then depth - 1 else depth)"

function object_from :: "(string \<Rightarrow> bool) \<Rightarrow> string \<Rightarrow> span list \<Rightarrow> nat \<Rightarrow> nat \<Rightarrow> bool" where
  "object_from alnum input spans depth0 at =
     (if \<not> at < length input then False
      else if spans \<noteq> [] \<and> fst (hd spans) = at
      then object_from alnum input (tl spans) depth0 (snd (hd spans))
      else
        (let depth = depth_step depth0 (input ! at) in
         if closes_bracket (input ! at) \<and> depth = 0 then True
         else if depth = 1 \<and> (input ! at = CHR ''{'' \<or> input ! at = CHR '','')
           \<and> \<not> plain_property alnum (drop (at + 1) input) then False
         else object_from alnum input spans depth (at + 1)))"
  by pat_completeness auto
termination
  by (relation "measures [\<lambda>(_, _, spans, _, _). length spans, \<lambda>(_, input, _, _, at). length input - at]") auto

declare object_from.simps [simp del]

definition object_is_whole :: "(string \<Rightarrow> bool) \<Rightarrow> string \<Rightarrow> nat \<Rightarrow> span list \<Rightarrow> bool" where
  "object_is_whole alnum input open inert =
     object_from alnum input (dropWhile (\<lambda>(a, _). a < open) inert) 0 open"

section \<open>Names in the script\<close>

text \<open>
  The matches of \<^verbatim>\<open>(?:^|[^A-Za-z0-9_$])(?P<name>...)\<close>, leftmost first and apart: a name
  stands at the very start of the script or behind a character of the class. Every byte of a
  character outside ASCII is outside the class too, so the character before a name is looked at
  through its last byte.
\<close>

definition name_at :: "string list \<Rightarrow> string \<Rightarrow> nat option" where
  "name_at names t = map_option length (find (\<lambda>n. n \<noteq> [] \<and> prefix n t) names)"

function names_from :: "string list \<Rightarrow> string \<Rightarrow> nat \<Rightarrow> span list" where
  "names_from names input at =
     (if \<not> at < length input then []
      else
        (case (if at = 0 then name_at names input else None) of
           Some n \<Rightarrow> if n = 0 then [] else (0, n) # names_from names input n
         | None \<Rightarrow>
             if \<not> word_byte (input ! at) then
               (case name_at names (drop (at + 1) input) of
                  Some n \<Rightarrow> (at + 1, at + 1 + n) # names_from names input (at + 1 + n)
                | None \<Rightarrow> names_from names input (at + 1))
             else names_from names input (at + 1)))"
  by pat_completeness auto
termination
  by (relation "measure (\<lambda>(_, input, at). length input - at)") (auto split: if_splits)

declare names_from.simps [simp del]

text \<open>A run of name characters and escapes: its length, and whether it holds an escape.\<close>

definition escape_len :: "string \<Rightarrow> nat option" where
  "escape_len t =
     (let hex = takeWhile is_ascii_hexdigit (drop 2 t) in
      if prefix ''u{'' t \<and> starts_in (drop (2 + length hex) t) ''}'' then Some (2 + length hex + 1)
      else if prefix [ch_return, ch_newline] t then Some 2
      else if t \<noteq> [] then Some (length (hd (utf8_chars t)))
      else None)"

function name_run :: "string \<Rightarrow> nat \<times> bool" where
  "name_run [] = (0, False)"
| "name_run (c # t) =
     (if word_byte c then (let (n, e) = name_run t in (1 + n, e))
      else if c = ch_backslash then
        (case escape_len t of
           None \<Rightarrow> (0, False)
         | Some m \<Rightarrow> (let (n, _) = name_run (drop m t) in (1 + m + n, True)))
      else (0, False))"
  by pat_completeness auto
termination by (relation "measure length") auto


function escaped_names_from :: "string \<Rightarrow> nat \<Rightarrow> span list" where
  "escaped_names_from input at =
     (if \<not> at < length input then []
      else if at = 0 \<and> snd (name_run input) \<and> fst (name_run input) \<noteq> 0
      then (0, fst (name_run input)) # escaped_names_from input (fst (name_run input))
      else if \<not> word_byte (input ! at) \<and> input ! at \<noteq> ch_backslash then
        (let (n, escapes) = name_run (drop (at + 1) input) in
         if escapes then (at + 1, at + 1 + n) # escaped_names_from input (at + 1 + n)
         else escaped_names_from input (at + 1))
      else escaped_names_from input (at + 1))"
  by pat_completeness auto
termination
  by (relation "measure (\<lambda>(input, at). length input - at)") auto

declare escaped_names_from.simps [simp del]

text \<open>\<^verbatim>\<open>char::from_u32\<close>, encoded.\<close>

definition char_from_u32 :: "nat \<Rightarrow> string option" where
  "char_from_u32 n =
     (if n < 128 then Some [char_of n]
      else if n < 2048 then Some [char_of (192 + n div 64), char_of (128 + n mod 64)]
      else if 55296 \<le> n \<and> n < 57344 then None
      else if n < 65536 then
        Some [char_of (224 + n div 4096), char_of (128 + n div 64 mod 64), char_of (128 + n mod 64)]
      else if n < 1114112 then
        Some [char_of (240 + n div 262144), char_of (128 + n div 4096 mod 64),
              char_of (128 + n div 64 mod 64), char_of (128 + n mod 64)]
      else None)"

definition hex_value :: "char \<Rightarrow> nat" where
  "hex_value c =
     (let b = byte_of c in if b \<le> 57 then b - 48 else if b \<le> 70 then b - 55 else b - 87)"

definition hex_char :: "string list \<Rightarrow> string option" where
  "hex_char digits =
     (if digits = [] \<or> \<not> list_all (\<lambda>c. length c = 1 \<and> is_ascii_hexdigit (hd c)) digits then None
      else char_from_u32 (foldl (\<lambda>n c. n * 16 + hex_value (hd c)) 0 digits))"

definition is_octal :: "string \<Rightarrow> bool" where
  "is_octal c \<longleftrightarrow> length c = 1 \<and> 48 \<le> byte_of (hd c) \<and> byte_of (hd c) \<le> 55"

definition octal_value :: "string \<Rightarrow> nat" where
  "octal_value c = byte_of (hd c) - 48"

text \<open>
  One escape of a name, from behind its backslash: nothing when it is invalid there, otherwise the
  text it stands for and the characters after it.
\<close>

definition decode_escape :: "char option \<Rightarrow> string list \<Rightarrow> (string \<times> string list) option" where
  "decode_escape quote cs =
     (case cs of
        [] \<Rightarrow> None
      | e # es \<Rightarrow>
          if e = ''u'' \<and> es \<noteq> [] \<and> hd es = ''{'' then
            (let digits = takeWhile (\<lambda>c. c \<noteq> ''}'') (tl es) in
             if length digits = length (tl es) then None
             else map_option (\<lambda>ch. (ch, drop (length digits + 1) (tl es))) (hex_char digits))
          else if e = ''u'' then
            (if length (concat (take 4 es)) = 4
             then map_option (\<lambda>ch. (ch, drop 4 es)) (hex_char (take 4 es)) else None)
          else if quote = None then None
          else if e = ''x'' then
            (if length (concat (take 2 es)) = 2
             then map_option (\<lambda>ch. (ch, drop 2 es)) (hex_char (take 2 es)) else None)
          else if is_octal e then
            (let digits = takeWhile is_octal (take (if octal_value e \<le> 3 then 2 else 1) es) in
             map_option (\<lambda>ch. (ch, drop (length digits) es))
               (char_from_u32 (foldl (\<lambda>n c. n * 8 + octal_value c) (octal_value e) digits)))
          else if e = [ch_return] then
            Some ([], if es \<noteq> [] \<and> hd es = [ch_newline] then tl es else es)
          else if e = [ch_newline] \<or> code_point e = 8232 \<or> code_point e = 8233 then Some ([], es)
          else if e = ''b'' then Some ([CHR 0x08], es)
          else if e = ''f'' then Some ([CHR 0x0C], es)
          else if e = ''n'' then Some ([ch_newline], es)
          else if e = ''r'' then Some ([ch_return], es)
          else if e = ''t'' then Some ([CHR 0x09], es)
          else if e = ''v'' then Some ([CHR 0x0B], es)
          else Some (e, es))"

lemma decode_escape_shorter: "decode_escape quote cs = Some (ch, rest) \<Longrightarrow> length rest < length cs"
  by (auto simp: decode_escape_def Let_def split: list.splits if_splits)

function escaped_name_from :: "char option \<Rightarrow> string \<Rightarrow> string list \<Rightarrow> string option" where
  "escaped_name_from quote name [] = Some name"
| "escaped_name_from quote name (c # cs) =
     (if c \<noteq> [ch_backslash] then escaped_name_from quote (name @ c) cs
      else (case decode_escape quote cs of
              None \<Rightarrow> None
            | Some (ch, rest) \<Rightarrow> escaped_name_from quote (name @ ch) rest))"
  by pat_completeness auto
termination
  by (relation "measure (\<lambda>(_, _, cs). length cs)") (auto dest: decode_escape_shorter)

definition escaped_name :: "string \<Rightarrow> char option \<Rightarrow> string option" where
  "escaped_name written quote = escaped_name_from quote [] (utf8_chars written)"

type_synonym workdir_key = "span \<times> char option"

definition escaped_workdir_keys :: "string \<Rightarrow> workdir_key list" where
  "escaped_workdir_keys input =
     List.map_filter
       (\<lambda>(a, b).
          let quote = (case byte_at input (a - 1) of
                None \<Rightarrow> None
              | Some q \<Rightarrow> if 0 < a \<and> is_quote q \<and> byte_at input b = Some q then Some q else None);
              width = (case quote of None \<Rightarrow> 0 | Some _ \<Rightarrow> 1) in
          if escaped_name (str_slice input (a, b)) quote = Some ''workdir''
          then Some ((a - width, b + width), quote) else None)
       (escaped_names_from input 0)"

section \<open>Calls of \<^verbatim>\<open>exec_command\<close>\<close>

record exec_arguments =
  ea_objects :: "nat list"
  ea_unseen :: bool

definition name_continues :: "string \<Rightarrow> bool" where
  "name_continues t \<longleftrightarrow> t \<noteq> [] \<and> (word_byte (hd t) \<or> hd t = ch_backslash)"

text \<open>The loop over the names; a comment that never closes ends it.\<close>

fun exec_calls :: "(string \<Rightarrow> bool) \<Rightarrow> string \<Rightarrow> span list \<Rightarrow> exec_arguments \<Rightarrow> span list \<Rightarrow> exec_arguments" where
  "exec_calls alnum input inert calls [] = calls"
| "exec_calls alnum input inert calls ((a, b) # names) =
     (if name_continues (drop b input) \<or> within inert a then exec_calls alnum input inert calls names
      else case next_code input b inert of
        None \<Rightarrow> calls\<lparr>ea_unseen := True\<rparr>
      | Some after_name \<Rightarrow>
          if \<not> starts_in (drop after_name input) ''('' then
            (let code = code_before input a False inert;
                 rest = drop after_name input in
             exec_calls alnum input inert
               (if ends_in code ''.'' \<or> prefix ''?.'' rest \<or> starts_in rest ''.:)]''
                then calls\<lparr>ea_unseen := True\<rparr> else calls) names)
          else (case next_code input (after_name + 1) inert of
              None \<Rightarrow> calls\<lparr>ea_unseen := True\<rparr>
            | Some open \<Rightarrow>
                (let argument = drop open input in
                 if starts_in argument ('')'' @ [ch_dquote, ch_squote, ch_backtick])
                 then exec_calls alnum input inert calls names
                 else if \<not> starts_in argument ''{''
                 then exec_calls alnum input inert (calls\<lparr>ea_unseen := True\<rparr>) names
                 else exec_calls alnum input inert
                   (calls\<lparr>ea_objects := ea_objects calls @ [open],
                          ea_unseen := ea_unseen calls \<or> \<not> object_is_whole alnum input open inert\<rparr>)
                   names)))"

definition exec_arguments :: "(string \<Rightarrow> bool) \<Rightarrow> string \<Rightarrow> span list \<Rightarrow> exec_arguments" where
  "exec_arguments alnum input inert =
     (if \<not> str_contains input ''exec_command'' then \<lparr>ea_objects = [], ea_unseen = False\<rparr>
      else exec_calls alnum input inert \<lparr>ea_objects = [], ea_unseen = False\<rparr>
        (names_from [''exec_command''] input 0))"

section \<open>Keys of a script\<close>

datatype site = Arguments | Script

definition call_property :: "string \<Rightarrow> site \<Rightarrow> nat \<Rightarrow> nat list \<Rightarrow> span list \<Rightarrow> bool" where
  "call_property input where_at at objects inert =
     (case where_at of
        Script \<Rightarrow> list_ex (\<lambda>open. open < at \<and> depth_at input open at inert 0 = Some 1) objects
      | Arguments \<Rightarrow>
          (let start = (case skip_comments input of
                 None \<Rightarrow> length input | Some rest \<Rightarrow> length input - length rest) in
           if starts_in (drop start input) ''{''
           then depth_at input start at inert 0 = Some 1
           else depth_at input start at inert 1 = Some 1))"

text \<open>What the value behind the key's colon is worth.\<close>

definition value_evidence ::
    "string \<Rightarrow> site \<Rightarrow> exec_arguments \<Rightarrow> span list \<Rightarrow> bool \<Rightarrow> nat \<Rightarrow> string \<Rightarrow> workdir_evidence list" where
  "value_evidence input where_at calls inert in_text start v =
     (if v \<noteq> [] \<and> is_quote (hd v) then
        (case literal_body (tl v) (hd v) of
           None \<Rightarrow> [Opaque]
         | Some l \<Rightarrow>
             if hd v = ch_backtick \<and> str_contains (li_body l) ''${'' then [Opaque]
             else if li_masked l \<or> \<not> value_ends_at (drop (1 + li_end l) v) then [Opaque]
             else
               (let body = str_trim (li_body l) in
                if body = [] then []
                else if \<not> in_text \<and> call_property input where_at start (ea_objects calls) inert
                then [Explicit body] else [Opaque]))
      else if names_no_directory v then [] else [Opaque])"

text \<open>The body of the loop over the keys.\<close>

definition key_evidence ::
    "string \<Rightarrow> site \<Rightarrow> exec_arguments \<Rightarrow> span list \<Rightarrow> workdir_key \<Rightarrow> workdir_evidence list" where
  "key_evidence input where_at calls inert k =
     (case k of (key, quote) \<Rightarrow>
      (let rest0 = drop (snd key) input; in_text = within inert (fst key) in
       if quote = None \<and> name_continues rest0 then []
       else
         (let computed = (if quote = None then None else computed_key input key in_text inert) in
          if computed = None \<and> quote = Some ch_backtick then []
          else
            (let (start, rest1) = (case computed of Some p \<Rightarrow> p | None \<Rightarrow> (fst key, rest0)) in
             if \<not> opens_property input start in_text inert then []
             else (case skip_comments rest1 of
                 None \<Rightarrow> [Opaque]
               | Some rest \<Rightarrow>
                   if \<not> starts_in rest '':'' then
                     (if quote = None \<and> starts_in rest '',}'' then [Opaque] else [])
                   else (case skip_comments (tl rest) of
                       None \<Rightarrow> [Opaque]
                     | Some v \<Rightarrow> value_evidence input where_at calls inert in_text start v))))))"

definition plain_workdir_keys :: "string \<Rightarrow> workdir_key list" where
  "plain_workdir_keys input =
     map (\<lambda>(a, b). ((a, b), case byte_at input a of
            Some q \<Rightarrow> if is_quote q then Some q else None | None \<Rightarrow> None))
       (names_from [[ch_dquote] @ ''workdir'' @ [ch_dquote], [ch_squote] @ ''workdir'' @ [ch_squote],
                    [ch_backtick] @ ''workdir'' @ [ch_backtick], ''workdir''] input 0)"

definition workdirs_in_literal :: "(string \<Rightarrow> bool) \<Rightarrow> string \<Rightarrow> site \<Rightarrow> workdir_evidence list" where
  "workdirs_in_literal alnum input where_at =
     (let keys = plain_workdir_keys input;
          keys' = (if ch_backslash \<in> set input
                   then sort_key (\<lambda>(key, _). fst key) (keys @ escaped_workdir_keys input) else keys);
          inert = inert_spans input;
          calls = exec_arguments alnum input inert in
      concat (map (key_evidence input where_at calls inert) keys')
      @ (if str_contains input ''exec_command'' \<and> ea_unseen calls then [Opaque] else []))"

section \<open>The evidence of one call\<close>

definition is_patch :: "string \<Rightarrow> bool" where
  "is_patch t \<longleftrightarrow> prefix ''*** Begin Patch'' (str_trim_start t)"

definition push_new :: "workdir_evidence list \<Rightarrow> workdir_evidence \<Rightarrow> workdir_evidence list" where
  "push_new found e = (if e \<in> set found then found else found @ [e])"

definition structured_evidence :: "json \<Rightarrow> workdir_evidence list" where
  "structured_evidence body =
     (case json_get body ''workdir'' of
        Some (JString w) \<Rightarrow> if str_trim w \<noteq> [] then [Explicit (str_trim w)] else []
      | None \<Rightarrow> []
      | Some JNull \<Rightarrow> []
      | Some (JNumber _) \<Rightarrow> []
      | Some _ \<Rightarrow> [Opaque])"

definition tool_call_workdirs ::
    "(string \<Rightarrow> bool) \<Rightarrow> (string \<Rightarrow> json option) \<Rightarrow> json \<Rightarrow> workdir_evidence list" where
  "tool_call_workdirs alnum from_str payload =
     (let patch_call = Option.bind (json_get payload ''name'') json_as_str = Some ''apply_patch'';
          script = (\<lambda>t. \<not> patch_call \<and> \<not> is_patch t);
          from_arguments =
            (case json_get payload ''arguments'' of
               None \<Rightarrow> []
             | Some arguments \<Rightarrow>
                 (case (case arguments of JObject _ \<Rightarrow> Some arguments
                          | JString raw \<Rightarrow> from_str raw | _ \<Rightarrow> None) of
                    Some (JObject m) \<Rightarrow> structured_evidence (JObject m)
                  | Some _ \<Rightarrow> []
                  | None \<Rightarrow>
                      (case arguments of
                         JString raw \<Rightarrow> if script raw then workdirs_in_literal alnum raw Arguments else []
                       | _ \<Rightarrow> [])));
          from_input =
            (case Option.bind (json_get payload ''input'') json_as_str of
               Some input \<Rightarrow> if script input then workdirs_in_literal alnum input Script else []
             | None \<Rightarrow> []) in
      foldl push_new [] (from_arguments @ from_input))"


section \<open>A quoted path is read back\<close>

definition quote_literal_char :: "char \<Rightarrow> string \<Rightarrow> string list" where
  "quote_literal_char d c = (if c = [d] \<or> c = [ch_backslash] then [[ch_backslash], c] else [c])"

definition quote_literal :: "char \<Rightarrow> string \<Rightarrow> string" where
  "quote_literal d p = concat (concat (map (quote_literal_char d) (utf8_chars p)))"

lemma literal_from_quoted:
  assumes "is_quote d"
  shows "literal_from d body masked off (concat (map (quote_literal_char d) cs) @ [d] # rest) =
    Some \<lparr>li_body = body @ concat cs,
          li_end = off + length (concat (concat (map (quote_literal_char d) cs))) + 1, li_masked = masked\<rparr>"
proof (induction cs arbitrary: body off)
  case Nil
  then show ?case by simp
next
  case (Cons c cs)
  have "d \<noteq> ch_backslash" using assms
    by (auto simp: is_quote_def ch_backslash_def ch_dquote_def ch_squote_def ch_backtick_def)
  then show ?case using Cons.IH by (auto simp: quote_literal_char_def)
qed

text \<open>
  A path written as a string literal with any of the three quotes, its backslashes and
  delimiters escaped, is read back unchanged, up to its closing quote and no further, and never
  counts as one whose structure an escape hides.
\<close>

theorem literal_roundtrip:
  assumes "is_quote d" "text_ok p" "text_ok rest"
  shows "literal_body (quote_literal d p @ d # rest) d =
    Some \<lparr>li_body = p, li_end = length (quote_literal d p) + 1, li_masked = False\<rparr>"
proof -
  have dq: "\<not> utf8_cont d" "\<not> utf8_cont ch_backslash"
    using assms(1) by (auto simp: is_quote_def ch_dquote_def ch_squote_def ch_backtick_def
      ch_backslash_def utf8_cont_def byte_of_def)
  have "list_all one_char (concat (map (quote_literal_char d) cs))" if "list_all one_char cs" for cs
    using that dq by (induction cs) (auto simp: quote_literal_char_def)
  then have "list_all one_char (concat (map (quote_literal_char d) (utf8_chars p)))"
    using assms(2) by (auto simp: text_ok_def intro: one_chars_of)
  then have chars: "utf8_chars (quote_literal d p) = concat (map (quote_literal_char d) (utf8_chars p))"
    by (simp add: quote_literal_def utf8_chars_concat)
  have "utf8_chars (quote_literal d p @ d # rest) = utf8_chars (quote_literal d p) @ utf8_chars (d # rest)"
    using dq(1) by (intro utf8_chars_append) simp
  also have "utf8_chars (d # rest) = [d] # utf8_chars rest"
    using utf8_chars_append [of rest "[d]"] assms(3) by (simp add: text_ok_def)
  finally have full: "utf8_chars (quote_literal d p @ d # rest) = utf8_chars (quote_literal d p) @ [d] # utf8_chars rest" .
  show ?thesis
    unfolding literal_body_def full chars
    using literal_from_quoted [OF assms(1), of "[]" False 0 "utf8_chars p" "utf8_chars rest"]
    by (simp add: quote_literal_def)
qed

section \<open>Where a readable path can come from\<close>

lemma names_from_prefix:
  "(a, b) \<in> set (names_from ns input at) \<Longrightarrow> \<exists>n\<in>set ns. prefix n (drop a input) \<and> b = a + length n"
proof (induction ns input at rule: names_from.induct)
  case (1 ns input at)
  have named: "\<exists>m\<in>set ns. prefix m t \<and> n = length m" if "name_at ns t = Some n" for n t
    using that by (auto simp: name_at_def find_Some_iff)
  show ?case
  proof (cases "at < length input")
    case False
    with "1.prems" show ?thesis by (simp add: names_from.simps)
  next
    case True
    show ?thesis
    proof (cases "if at = 0 then name_at ns input else None")
      case (Some n)
      then have n: "at = 0" "name_at ns input = Some n" by (auto split: if_splits)
      show ?thesis
      proof (cases "n = 0")
        case True
        with "1.prems" n show ?thesis by (subst (asm) names_from.simps) (auto split: if_splits)
      next
        case False
        with "1.prems" n \<open>at < length input\<close> have "(a, b) = (0, n) \<or> (a, b) \<in> set (names_from ns input n)"
          by (subst (asm) names_from.simps) simp
        then show ?thesis using named [OF n(2)] "1.IH"(4) [OF _ Some False] \<open>at < length input\<close> by auto
      qed
    next
      case None
      note IH = "1.IH"(1-3) [OF _ None]
      show ?thesis
      proof (cases "word_byte (input ! at)")
        case w: True
        with "1.prems" True None have "(a, b) \<in> set (names_from ns input (at + 1))"
          by (subst (asm) names_from.simps) simp
        then show ?thesis using IH(3) True w by simp
      next
        case w: False
        show ?thesis
        proof (cases "name_at ns (drop (at + 1) input)")
          case n: None
          with "1.prems" True None w have "(a, b) \<in> set (names_from ns input (at + 1))"
            by (subst (asm) names_from.simps) simp
          then show ?thesis using IH(1) True w n by simp
        next
          case (Some n)
          with "1.prems" True None w have
            "(a, b) = (at + 1, at + 1 + n) \<or> (a, b) \<in> set (names_from ns input (at + 1 + n))"
            by (subst (asm) names_from.simps) simp
          then show ?thesis using named [OF Some] IH(2) [OF _ w Some] True by auto
        qed
      qed
    qed
  qed
qed

text \<open>A live call that is passed the object literal at \<open>open\<close>: nothing but white space and
  comments stand between the name, the parenthesis and the brace.\<close>

definition live_call :: "string \<Rightarrow> span list \<Rightarrow> nat \<Rightarrow> bool" where
  "live_call input inert opn \<longleftrightarrow>
     (\<exists>a paren. prefix ''exec_command'' (drop a input) \<and> \<not> within inert a
        \<and> next_code input (a + 12) inert = Some paren \<and> starts_in (drop paren input) ''(''
        \<and> next_code input (paren + 1) inert = Some opn \<and> starts_in (drop opn input) ''{'')"

lemma exec_calls_objects:
  assumes "\<forall>(a, b)\<in>set names. prefix ''exec_command'' (drop a input) \<and> b = a + 12"
    and "opn \<in> set (ea_objects (exec_calls alnum input inert calls names))"
  shows "opn \<in> set (ea_objects calls) \<or> live_call input inert opn"
  using assms
proof (induction alnum input inert calls names rule: exec_calls.induct)
  case (2 alnum input inert calls a b names)
  have ab: "prefix ''exec_command'' (drop a input)" "b = a + 12"
    and rest: "\<forall>(a, b)\<in>set names. prefix ''exec_command'' (drop a input) \<and> b = a + 12"
    using "2.prems"(1) by auto
  show ?case
  proof (cases "name_continues (drop b input) \<or> within inert a")
    case True
    then show ?thesis using "2.IH"(1) [OF True rest] "2.prems"(2) by simp
  next
    case live: False
    show ?thesis
    proof (cases "next_code input b inert")
      case None
      with live "2.prems"(2) show ?thesis by simp
    next
      case paren: (Some paren)
      show ?thesis
      proof (cases "starts_in (drop paren input) ''(''")
        case False
        then show ?thesis using "2.IH"(2) [OF live paren False refl refl rest] "2.prems"(2) live paren
          by (auto simp: Let_def split: if_splits)
      next
        case True
        then have nn: "\<not> \<not> starts_in (drop paren input) ''(''" by simp
        show ?thesis
        proof (cases "next_code input (paren + 1) inert")
          case None
          with True live paren "2.prems"(2) show ?thesis by simp
        next
          case arg: (Some q)
          consider "starts_in (drop q input) ('')'' @ [ch_dquote, ch_squote, ch_backtick])"
            | "\<not> starts_in (drop q input) ('')'' @ [ch_dquote, ch_squote, ch_backtick])" "\<not> starts_in (drop q input) ''{''"
            | "\<not> starts_in (drop q input) ('')'' @ [ch_dquote, ch_squote, ch_backtick])" "starts_in (drop q input) ''{''"
            by blast
          then show ?thesis
          proof cases
            case 1
            then show ?thesis using "2.IH"(3) [OF live paren nn arg refl 1 rest] "2.prems"(2) live paren True arg
              by (simp add: Let_def)
          next
            case 2
            then show ?thesis using "2.IH"(4) [OF live paren nn arg refl 2 rest] "2.prems"(2) live paren True arg
              by (simp add: Let_def)
          next
            case 3
            then have "\<not> \<not> starts_in (drop q input) ''{''" by simp
            from "2.IH"(5) [OF live paren nn arg refl 3(1) this rest]
            have "opn \<in> set (ea_objects calls @ [q]) \<or> live_call input inert opn"
              using 3 "2.prems"(2) live paren True arg by (simp add: Let_def)
            moreover have "live_call input inert q"
              using ab live paren True arg 3(2) by (auto simp: live_call_def)
            ultimately show ?thesis by auto
          qed
        qed
      qed
    qed
  qed
qed simp

text \<open>
  The key \<^verbatim>\<open>workdir\<close>, bare or between two equal quotes, its letters possibly written as
  escapes.
\<close>

definition spells_workdir :: "string \<Rightarrow> span \<Rightarrow> char option \<Rightarrow> bool" where
  "spells_workdir input key quote \<longleftrightarrow>
     (case quote of
        None \<Rightarrow> escaped_name (str_slice input key) None = Some ''workdir''
      | Some q \<Rightarrow> is_quote q \<and> byte_at input (fst key) = Some q \<and> byte_at input (snd key - 1) = Some q
          \<and> escaped_name (str_slice input (fst key + 1, snd key - 1)) (Some q) = Some ''workdir'')"

text \<open>
  A text that goes on, apart from comments, with a colon and a whole string literal that spells
  \<open>p\<close> once trimmed, without an escape that could hide a part of the path.
\<close>

definition value_spells :: "string \<Rightarrow> string \<Rightarrow> bool" where
  "value_spells rest p \<longleftrightarrow>
     (\<exists>behind v l. skip_comments rest = Some (CHR '':'' # behind) \<and> skip_comments behind = Some v
        \<and> v \<noteq> [] \<and> is_quote (hd v) \<and> literal_body (tl v) (hd v) = Some l \<and> \<not> li_masked l
        \<and> value_ends_at (drop (1 + li_end l) v) \<and> p = str_trim (li_body l) \<and> p \<noteq> [])"

text \<open>
  The property that a key writes: where it starts, which is at the key or, for a quoted key in
  square brackets, at the bracket, and what follows it.
\<close>

definition key_property :: "string \<Rightarrow> span list \<Rightarrow> span \<Rightarrow> char option \<Rightarrow> nat \<Rightarrow> string \<Rightarrow> bool" where
  "key_property input inert key quote start rest \<longleftrightarrow>
     spells_workdir input key quote \<and> \<not> within inert (fst key) \<and> opens_property input start False inert
     \<and> (case computed_key input key False inert of
          Some at_bracket \<Rightarrow>
            if quote = None then start = fst key \<and> rest = drop (snd key) input else (start, rest) = at_bracket
        | None \<Rightarrow> quote \<noteq> Some ch_backtick \<and> start = fst key \<and> rest = drop (snd key) input)"

lemma value_evidence_explicit:
  "Explicit p \<in> set (value_evidence input w calls inert in_text start v) \<Longrightarrow>
   \<not> in_text \<and> call_property input w start (ea_objects calls) inert \<and> v \<noteq> [] \<and> is_quote (hd v)
   \<and> (\<exists>l. literal_body (tl v) (hd v) = Some l \<and> \<not> li_masked l \<and> value_ends_at (drop (1 + li_end l) v)
        \<and> p = str_trim (li_body l) \<and> p \<noteq> [])"
  by (auto simp: value_evidence_def Let_def split: if_splits option.splits)

lemma starts_in_colon: "starts_in r '':'' \<Longrightarrow> r = CHR '':'' # tl r"
  by (cases r) (simp_all add: starts_in_def)

lemma key_evidence_explicit:
  assumes "Explicit p \<in> set (key_evidence input w calls inert (key, quote))"
    and "spells_workdir input key quote"
  shows "\<exists>start rest. call_property input w start (ea_objects calls) inert
    \<and> key_property input inert key quote start rest \<and> value_spells rest p"
proof -
  let ?in_text = "within inert (fst key)"
  let ?computed = "if quote = None then None else computed_key input key ?in_text inert"
  obtain start rest where sr: "(case ?computed of Some p \<Rightarrow> p | None \<Rightarrow> (fst key, drop (snd key) input)) = (start, rest)"
    by (metis prod.exhaust)
  note ev = assms(1) [unfolded key_evidence_def Let_def prod.case sr]
  have e1: "\<not> (?computed = None \<and> quote = Some ch_backtick)" "opens_property input start ?in_text inert"
    using ev by (auto split: if_splits)
  with ev obtain r where r: "skip_comments rest = Some r" "starts_in r '':''"
    by (auto split: if_splits option.splits)
  with ev e1 obtain v where v: "skip_comments (tl r) = Some v"
    "Explicit p \<in> set (value_evidence input w calls inert ?in_text start v)"
    by (auto split: if_splits option.splits)
  note e = e1 r v
  note val = value_evidence_explicit [OF e(6)]
  have "value_spells rest p"
    unfolding value_spells_def using val e(3,5) starts_in_colon [OF e(4)]
    by (intro exI [of _ "tl r"] exI [of _ v]) auto
  moreover have "key_property input inert key quote start rest"
    unfolding key_property_def using val e(1,2) sr assms(2)
    by (auto split: option.splits if_splits)
  ultimately show ?thesis using val by blast
qed

lemma spelled_plainly: "escaped_name ''workdir'' q = Some ''workdir''"
  by (simp add: escaped_name_def ch_backslash_def rust_eval)

definition plain_spellings :: "string list" where
  "plain_spellings = [[ch_dquote] @ ''workdir'' @ [ch_dquote], [ch_squote] @ ''workdir'' @ [ch_squote],
     [ch_backtick] @ ''workdir'' @ [ch_backtick], ''workdir'']"

lemma plain_spellings_cases:
  assumes "n \<in> set plain_spellings"
  obtains q where "is_quote q" "n = [q] @ ''workdir'' @ [q]" | "n = ''workdir''"
proof -
  have "is_quote ch_dquote" "is_quote ch_squote" "is_quote ch_backtick" by (simp_all add: is_quote_def)
  with assms that show thesis unfolding plain_spellings_def by auto
qed

lemma plain_keys_spell:
  assumes "(key, quote) \<in> set (plain_workdir_keys input)"
  shows "spells_workdir input key quote"
proof -
  obtain a b where ab: "(a, b) \<in> set (names_from plain_spellings input 0)" "key = (a, b)"
    "quote = (case byte_at input a of Some q \<Rightarrow> if is_quote q then Some q else None | None \<Rightarrow> None)"
    using assms unfolding plain_workdir_keys_def plain_spellings_def [symmetric] by auto
  from names_from_prefix [OF ab(1)] obtain n t where n: "n \<in> set plain_spellings" "drop a input = n @ t" "b = a + length n"
    unfolding prefix_def by blast
  have byte: "byte_at input (a + k) = Some (n ! k)" if "k < length n" for k
  proof -
    have "a + k < length input" using arg_cong [OF n(2), of length] that by simp
    moreover have "input ! (a + k) = drop a input ! k" using calculation by simp
    ultimately show ?thesis using that by (simp add: byte_at_def n(2) nth_append)
  qed
  from n(1) show ?thesis
  proof (cases rule: plain_spellings_cases)
    case (1 q)
    then have "byte_at input a = Some q" "byte_at input (a + 8) = Some q" using byte [of 0] byte [of 8] by simp_all
    moreover have "str_slice input (a + 1, a + 8) = ''workdir''"
    proof -
      have "drop (a + 1) input = tl (drop a input)" by (simp add: tl_drop drop_Suc)
      then show ?thesis using n(2) 1(2) by (simp add: str_slice_def)
    qed
    moreover have "b = a + 9" using n(3) 1(2) by simp
    ultimately show ?thesis
      using 1(1) by (simp add: ab(2,3) spells_workdir_def spelled_plainly add.commute [of 8])
  next
    case 2
    then have "byte_at input a = Some (CHR ''w'')" using byte [of 0] by simp
    moreover have "\<not> is_quote (CHR ''w'')" by (simp add: is_quote_def ch_dquote_def ch_squote_def ch_backtick_def)
    moreover have "str_slice input (a, a + 7) = ''workdir''" using n(2) 2 by (simp add: str_slice_def)
    moreover have "b = a + 7" using n(3) 2 by simp
    ultimately show ?thesis by (simp add: ab(2,3) spells_workdir_def spelled_plainly)
  qed
qed

lemma escaped_keys_spell:
  assumes "(key, quote) \<in> set (escaped_workdir_keys input)"
  shows "spells_workdir input key quote"
proof -
  obtain a b where ab: "escaped_name (str_slice input (a, b)) quote = Some ''workdir''"
    "quote = (case byte_at input (a - 1) of None \<Rightarrow> None
       | Some q \<Rightarrow> if 0 < a \<and> is_quote q \<and> byte_at input b = Some q then Some q else None)"
    "key = (let width = (case quote of None \<Rightarrow> 0 | Some _ \<Rightarrow> 1) in (a - width, b + width))"
    using assms unfolding escaped_workdir_keys_def Let_def
    by (auto simp: List.map_filter_def split: if_splits)
  then show ?thesis
    by (cases quote) (auto simp: spells_workdir_def Let_def split: option.splits if_splits)
qed

text \<open>
  C7: A script names a directory only where a live call is passed one: a readable path in its
  evidence is the string literal behind the colon of a property \<^verbatim>\<open>workdir\<close>, and that property is
  written, outside every string, template and comment, at bracket depth one of the object literal
  that a live \<^verbatim>\<open>exec_command(\<close> is passed. A script without such a call never moves a window
  anywhere.
\<close>

theorem path_comes_from_live_call:
  assumes "Explicit p \<in> set (workdirs_in_literal alnum input Script)"
  shows "\<exists>opn key quote start rest. live_call input (inert_spans input) opn
    \<and> opn < start \<and> depth_at input opn start (inert_spans input) 0 = Some 1
    \<and> key_property input (inert_spans input) key quote start rest \<and> value_spells rest p"
proof -
  let ?inert = "inert_spans input"
  let ?calls = "exec_arguments alnum input ?inert"
  from assms obtain key quote where k: "Explicit p \<in> set (key_evidence input Script ?calls ?inert (key, quote))"
    "(key, quote) \<in> set (plain_workdir_keys input) \<union> set (escaped_workdir_keys input)"
    by (auto simp: workdirs_in_literal_def Let_def split: if_splits)
  have "spells_workdir input key quote" using k(2) plain_keys_spell escaped_keys_spell by blast
  from key_evidence_explicit [OF k(1) this] obtain start rest
    where start: "call_property input Script start (ea_objects ?calls) ?inert"
      "key_property input ?inert key quote start rest" "value_spells rest p" by blast
  then obtain opn where opn: "opn \<in> set (ea_objects ?calls)" "opn < start"
    "depth_at input opn start ?inert 0 = Some 1"
    by (auto simp: call_property_def list_ex_iff)
  have "\<forall>(a, b)\<in>set (names_from [''exec_command''] input 0). prefix ''exec_command'' (drop a input) \<and> b = a + 12"
    using names_from_prefix by fastforce
  with opn(1) have "live_call input ?inert opn"
    using exec_calls_objects [of "names_from [''exec_command''] input 0" input opn alnum ?inert]
    by (force simp: exec_arguments_def split: if_splits)
  with opn(2,3) start(2,3) show ?thesis by blast
qed


section \<open>One call, one window\<close>

lemma push_new_set: "set (foldl push_new acc es) = set acc \<union> set es"
  by (induction es arbitrary: acc) (auto simp: push_new_def)

lemma push_new_distinct: "distinct acc \<Longrightarrow> distinct (foldl push_new acc es)"
  by (induction es arbitrary: acc) (auto simp: push_new_def)

lemma tool_call_distinct: "distinct (tool_call_workdirs alnum from_str payload)"
  by (simp add: tool_call_workdirs_def Let_def push_new_distinct)

definition call_name :: "json \<Rightarrow> string option" where
  "call_name payload = Option.bind (json_get payload ''name'') json_as_str"

definition call_input :: "json \<Rightarrow> string option" where
  "call_input payload = Option.bind (json_get payload ''input'') json_as_str"

text \<open>A patch names files, never a directory, whatever code it carries.\<close>

lemma patch_names_nothing:
  assumes "call_name payload = Some ''apply_patch''"
    and "\<forall>raw. json_get payload ''arguments'' = Some (JString raw) \<longrightarrow> from_str raw = None"
    and "\<forall>m. json_get payload ''arguments'' \<noteq> Some (JObject m)"
  shows "tool_call_workdirs alnum from_str payload = []"
  using assms by (auto simp: tool_call_workdirs_def Let_def call_name_def split: option.splits json.splits)

text \<open>Arguments that parse are read structurally: only their own \<^verbatim>\<open>workdir\<close> counts.\<close>

lemma structured_arguments:
  assumes "json_get payload ''arguments'' = Some (JString raw)" "from_str raw = Some v"
    and "call_input payload = None"
  shows "tool_call_workdirs alnum from_str payload
       = (case v of JObject m \<Rightarrow> structured_evidence v | _ \<Rightarrow> [])"
proof -
  have "foldl push_new [] (structured_evidence w) = structured_evidence w" for w
    by (simp add: structured_evidence_def push_new_def split: option.split json.split)
  then show ?thesis using assms
    by (simp add: tool_call_workdirs_def Let_def call_input_def split: json.split)
qed

lemma script_evidence:
  assumes "call_name payload \<noteq> Some ''apply_patch''" "call_input payload = Some script" "\<not> is_patch script"
  shows "set (workdirs_in_literal alnum script Script) \<subseteq> set (tool_call_workdirs alnum from_str payload)"
  using assms by (simp add: tool_call_workdirs_def Let_def call_name_def call_input_def push_new_set)

text \<open>
  C5: From script to verdict: when a window is attributed to a checkout, no script run in it held a
  call whose arguments the scan could not see, and every directory any of its scripts named was
  named outside the baseline and is in that checkout, or is gone and plausibly lay inside it.
\<close>

theorem attribution_end_to_end:
  assumes "canonical_host h" "effective_window_scope h ws b = (Consistent, Some root)"
    and "set (tool_call_workdirs alnum from_str payload) \<subseteq> set ws"
    and "call_name payload \<noteq> Some ''apply_patch''" "call_input payload = Some script" "\<not> is_patch script"
  shows "\<not> (str_contains script ''exec_command'' \<and> ea_unseen (exec_arguments alnum script (inert_spans script)))
    \<and> (\<forall>p. Explicit p \<in> set (workdirs_in_literal alnum script Script) \<longrightarrow>
         \<not> in_baseline h (window_baseline b) p
         \<and> (normalize_workdir h p (window_baseline b) = Resolved root
            \<or> (\<exists>q. normalize_workdir h p (window_baseline b) = Unresolved q \<and> plausibly_within_scope h q root)))"
proof -
  have sub: "set (workdirs_in_literal alnum script Script) \<subseteq> set ws"
    using script_evidence [OF assms(4-6)] assms(3) by blast
  note att = attribution_is_proved [OF assms(1,2)]
  have "Opaque \<notin> set (workdirs_in_literal alnum script Script)" using sub att by blast
  then have "\<not> (str_contains script ''exec_command'' \<and> ea_unseen (exec_arguments alnum script (inert_spans script)))"
    by (auto simp: workdirs_in_literal_def Let_def split: if_splits)
  with sub att show ?thesis by blast
qed


section \<open>One script, evaluated\<close>

definition sample_script :: string where
  "sample_script = ''exec_command({workdir:'' @ [ch_dquote] @ ''/a/pkg'' @ [ch_dquote] @ ''})''"

abbreviation no_alnum :: "string \<Rightarrow> bool" where
  "no_alnum \<equiv> \<lambda>_. False"

lemma sample_lexed:
  "inert_spans sample_script = [(22, 30)]"
  "names_from [''exec_command''] sample_script 0 = [(0, 12)]"
  "plain_workdir_keys sample_script = [((14, 21), None)]"
  "str_contains sample_script ''exec_command''"
  "ch_backslash \<notin> set sample_script"
  by code_simp+

lemmas script_eval = sample_script_def ch_dquote_def ch_squote_def ch_backtick_def ch_slash_def ch_star_def
  ch_backslash_def ch_newline_def ch_return_def starts_in_def ends_in_def name_continues_def word_byte_def
  ascii_alphanumeric_def is_ascii_digit_def within_def spans_before_def is_quote_def is_comment_def
  str_slice_def str_trim_end_def opens_bracket_def closes_bracket_def rust_eval

lemma sample_call:
  "next_code sample_script 12 [(22, 30)] = Some 12" "next_code sample_script 13 [(22, 30)] = Some 13"
  "within [(22, 30)] 0 = False" "within [(22, 30)] 14 = False"
  "name_continues (drop 12 sample_script) = False" "name_continues (drop 21 sample_script) = False"
  "starts_in (drop 12 sample_script) ''(''" "starts_in (drop 13 sample_script) ''{''"
  "starts_in (drop 13 sample_script) ('')'' @ [ch_dquote, ch_squote, ch_backtick]) = False"
  by (simp_all add: next_code.simps script_eval)

lemma sample_object: "object_is_whole no_alnum sample_script 13 [(22, 30)]"
  by code_simp

lemma sample_depth: "depth_at sample_script 13 14 [(22, 30)] 0 = Some 1"
  by (simp add: depth_at_def depth_from.simps script_eval)

lemma sample_key:
  "opens_property sample_script 14 False [(22, 30)]"
  "starts_in (drop 21 sample_script) '':''"
  "drop 22 sample_script \<noteq> []" "is_quote (hd (drop 22 sample_script))"
  "hd (drop 22 sample_script) = ch_backtick \<longleftrightarrow> False"
  "str_trim ''/a/pkg'' = ''/a/pkg''"
  by (simp_all add: opens_property_def code_before_def code_before_from.simps script_eval)

lemma sample_value:
  "skip_comments (drop 21 sample_script) = Some (drop 21 sample_script)"
  "skip_comments (tl (drop 21 sample_script)) = Some (drop 22 sample_script)"
  "value_ends_at (drop 8 (drop 22 sample_script))"
  by (simp_all add: value_ends_at_def skip_comments.simps script_eval)

lemma sample_literal:
  "literal_body (tl (drop 22 sample_script)) (hd (drop 22 sample_script))
     = Some \<lparr>li_body = ''/a/pkg'', li_end = 7, li_masked = False\<rparr>"
  by (simp add: literal_body_def script_eval)

lemma sample_arguments:
  "exec_arguments no_alnum sample_script [(22, 30)] = \<lparr>ea_objects = [13], ea_unseen = False\<rparr>"
  using sample_call sample_object by (simp add: exec_arguments_def sample_lexed Let_def)

lemma sample_evidence:
  "workdirs_in_literal no_alnum sample_script Script = [Explicit ''/a/pkg'']"
proof -
  have "value_evidence sample_script Script \<lparr>ea_objects = [13], ea_unseen = False\<rparr> [(22, 30)] False 14
      (drop 22 sample_script) = [Explicit ''/a/pkg'']"
    using sample_key sample_literal sample_value sample_depth
    by (simp add: value_evidence_def call_property_def Let_def del: drop_drop)
  then show ?thesis
    by (simp add: workdirs_in_literal_def Let_def sample_lexed sample_arguments key_evidence_def
      sample_call sample_key sample_value del: drop_drop)
qed

lemma path_comes_from_live_call_witness:
  "\<exists>opn key quote start rest. live_call sample_script (inert_spans sample_script) opn
     \<and> opn < start \<and> depth_at sample_script opn start (inert_spans sample_script) 0 = Some 1
     \<and> key_property sample_script (inert_spans sample_script) key quote start rest
     \<and> value_spells rest ''/a/pkg''"
  using path_comes_from_live_call [of "''/a/pkg''" no_alnum sample_script] by (simp add: sample_evidence)

lemma literal_roundtrip_witness:
  "literal_body (quote_literal ch_dquote ''C:/it's'' @ ch_dquote # ''})'') ch_dquote
   = Some \<lparr>li_body = ''C:/it's'', li_end = 8, li_masked = False\<rparr>"
proof -
  have "quote_literal ch_dquote ''C:/it's'' = ''C:/it's''"
    by (simp add: quote_literal_def quote_literal_char_def script_eval)
  moreover have "is_quote ch_dquote" "text_ok ''C:/it's''" "text_ok ''})''"
    by (simp_all add: text_ok_def script_eval)
  ultimately show ?thesis using literal_roundtrip [of ch_dquote "''C:/it's''" "''})''"] by simp
qed

lemma attribution_end_to_end_witness:
  "normalize_workdir repo_host ''/a/pkg'' (window_baseline (Some ''/w'')) = Resolved ''/a''
   \<or> (\<exists>q. normalize_workdir repo_host ''/a/pkg'' (window_baseline (Some ''/w'')) = Unresolved q
        \<and> plausibly_within_scope repo_host q ''/a'')"
proof -
  define payload where "payload = JObject [(''input'', JString sample_script)]"
  have name: "call_name payload \<noteq> Some ''apply_patch''" and input: "call_input payload = Some sample_script"
    by (simp_all add: payload_def call_name_def call_input_def json_get_def json_as_str_def bt_get_def)
  have patch: "\<not> is_patch sample_script" by (simp add: is_patch_def str_trim_start_def script_eval)
  have "json_get payload ''arguments'' = None" by (simp add: payload_def json_get_def bt_get_def)
  then have "tool_call_workdirs no_alnum (\<lambda>_. None) payload = [Explicit ''/a/pkg'']"
    using name input patch
    by (simp add: tool_call_workdirs_def Let_def call_name_def call_input_def sample_evidence push_new_def)
  then have sub: "set (tool_call_workdirs no_alnum (\<lambda>_. None) payload)
      \<subseteq> set [Explicit ''/a/pkg'', Explicit ''/a/old'']" by simp
  show ?thesis
    using attribution_end_to_end [OF repo_canonical repo_window sub name input patch]
    by (simp add: sample_evidence)
qed

end
