(* ===== verification/Path_Guard.thy ===== *)
theory Path_Guard
  imports Scope_Window Line_Reader
begin

text \<open>
  Which paths may be read and written (\<^verbatim>\<open>crates/aicx-parser/src/sanitize.rs\<close>): the
  check for traversal, the directories of the user and of temporary files, the validation of paths
  and the capped reads behind it, and the names of agents and projects. The host is a Unix one and
  answers the questions the code asks: whether a path exists when links are followed, where it leads,
  whether it is a directory, and what an opened file holds. The user's directories, the current
  directory and executable and the environment variable are parameters.
\<close>

section \<open>The surroundings\<close>

record opened =
  op_len :: "nat option"
  op_bytes :: "string option"

record guard_host = host +
  h_is_dir :: "string \<Rightarrow> bool"
  h_open :: "string \<Rightarrow> opened option"

record user_env =
  ue_home_dir :: "string option"
  ue_cache_dir :: "string option"
  ue_data_dir :: "string option"
  ue_allow_tmp :: "string option"
  ue_is_test :: bool
  ue_current_exe :: "string option"
  ue_current_dir :: "string option"

datatype guard_error =
    TraversalSequence string
  | PathDoesNotExist string
  | CannotCanonicalize string
  | NoAllowedBases
  | OutsideForReading string
  | OutsideForWriting string
  | WouldCreateOutside string
  | NoCurrentDirectory
  | NoExistingAncestor string
  | NotADirectory string
  | FailedToOpen string
  | FailedToStat string
  | FailedToRead string
  | FileTooLarge string nat nat
  | StateFileTooLarge string nat nat
  | DirOutsideBases string
  | EscapesBase string

section \<open>Traversal and bases\<close>

definition nul :: char where "nul = CHR 0x00"

definition contains_traversal :: "string \<Rightarrow> bool" where
  "contains_traversal path \<longleftrightarrow>
     nul \<in> set path \<or> lf \<in> set path \<or> CHR 0x0D \<in> set path
     \<or> ''..'' \<in> set (split_where (\<lambda>c. c = slash \<or> c = backslash) path)
     \<or> ''..'' \<in> set (path_components path)"

text \<open>The loop keeps the first of equal directories.\<close>

definition push_base :: "string list \<Rightarrow> string \<Rightarrow> string list" where
  "push_base bases base = (if list_ex (\<lambda>existing. path_eq existing base) bases then bases else bases @ [base])"

definition option_list :: "'a option list \<Rightarrow> 'a list" where
  "option_list xs = List.map_filter (\<lambda>x. x) xs"

definition current_user_allowed_bases :: "user_env \<Rightarrow> guard_error + string list" where
  "current_user_allowed_bases env =
     (let bases = foldl push_base [] (option_list [ue_home_dir env, ue_cache_dir env, ue_data_dir env]) in
      if bases = [] then Inl NoAllowedBases else Inr bases)"

definition canonicalize_existing :: "('h host_scheme) \<Rightarrow> string \<Rightarrow> guard_error + string" where
  "canonicalize_existing h path =
     (case h_canonicalize h path of Some c \<Rightarrow> Inr c | None \<Rightarrow> Inl (CannotCanonicalize path))"

definition path_starts_with :: "string \<Rightarrow> string \<Rightarrow> bool" where
  "path_starts_with p base \<longleftrightarrow> prefix (path_components base) (path_components p)"

text \<open>\<^verbatim>\<open>file_name\<close>, and \<^verbatim>\<open>file_stem\<close>, its part before the last dot that is not its first character.\<close>

definition path_file_name :: "string \<Rightarrow> string option" where
  "path_file_name p =
     (case rev (path_components p) of
        [] \<Rightarrow> None
      | n # _ \<Rightarrow> if n = [slash] \<or> n = ''.'' \<or> n = ''..'' then None else Some n)"

definition rsplit_once :: "char \<Rightarrow> string \<Rightarrow> (string \<times> string) option" where
  "rsplit_once c s =
     (if c \<in> set s
      then Some (rev (tl (dropWhile (\<lambda>d. d \<noteq> c) (rev s))), rev (takeWhile (\<lambda>d. d \<noteq> c) (rev s)))
      else None)"

definition file_stem :: "string \<Rightarrow> string option" where
  "file_stem p =
     (case path_file_name p of
        None \<Rightarrow> None
      | Some n \<Rightarrow>
          (case rsplit_once (CHR ''.'') n of
             Some (before_dot, _) \<Rightarrow> Some (if before_dot = [] then n else before_dot)
           | None \<Rightarrow> Some n))"

definition is_cargo_test_exe_path :: "string \<Rightarrow> bool" where
  "is_cargo_test_exe_path path \<longleftrightarrow>
     ''deps'' \<in> set (path_components path)
     \<and> (case file_stem path of
          None \<Rightarrow> False
        | Some stem \<Rightarrow>
            (case rsplit_once (CHR ''-'') stem of
               None \<Rightarrow> False
             | Some (_, ending) \<Rightarrow> length ending \<ge> 8 \<and> list_all is_ascii_hexdigit ending))"

definition running_under_cargo_test_harness :: "user_env \<Rightarrow> bool" where
  "running_under_cargo_test_harness env =
     (case ue_current_exe env of Some exe \<Rightarrow> is_cargo_test_exe_path exe | None \<Rightarrow> False)"

definition temp_allowlist_enabled :: "user_env \<Rightarrow> bool" where
  "temp_allowlist_enabled env \<longleftrightarrow>
     ue_is_test env \<or> running_under_cargo_test_harness env \<or> ue_allow_tmp env = Some ''1''"

fun target_test_tmp :: "string list \<Rightarrow> bool" where
  "target_test_tmp (a # b # cs) = ((a = ''target'' \<and> b = ''test-tmp'') \<or> target_test_tmp (b # cs))"
| "target_test_tmp _ = False"

definition is_temp_allowlist_path :: "string \<Rightarrow> bool" where
  "is_temp_allowlist_path path \<longleftrightarrow>
     path_starts_with path ''/tmp'' \<or> path_starts_with path ''/var/folders''
     \<or> path_starts_with path ''/private/tmp'' \<or> path_starts_with path ''/private/var/folders''
     \<or> target_test_tmp (path_components path)"

definition path_is_temp_allowlisted :: "user_env \<Rightarrow> string \<Rightarrow> bool" where
  "path_is_temp_allowlisted env path \<longleftrightarrow> is_temp_allowlist_path path \<and> temp_allowlist_enabled env"

definition strip_verbatim_prefix :: "string \<Rightarrow> string" where
  "strip_verbatim_prefix p =
     (case strip_prefix p ([backslash, backslash] @ ''?'' @ [backslash] @ ''UNC'' @ [backslash]) of
        Some rest \<Rightarrow> [backslash, backslash] @ rest
      | None \<Rightarrow>
          (case strip_prefix p ([backslash, backslash] @ ''?'' @ [backslash]) of
             Some rest \<Rightarrow> rest
           | None \<Rightarrow> p))"

text \<open>\<^verbatim>\<open>base.canonicalize().unwrap_or(base)\<close>, then without the Windows prefix.\<close>

definition plain_base :: "'h host_scheme \<Rightarrow> string \<Rightarrow> string" where
  "plain_base h base = strip_verbatim_prefix (case h_canonicalize h base of Some c \<Rightarrow> c | None \<Rightarrow> base)"

definition is_under_allowed_base :: "user_env \<Rightarrow> 'h host_scheme \<Rightarrow> string \<Rightarrow> guard_error + bool" where
  "is_under_allowed_base env h path0 =
     (let path = strip_verbatim_prefix path0 in
      bind_res (current_user_allowed_bases env) (\<lambda>bases.
        if list_ex (\<lambda>base. path_starts_with path (plain_base h base)) bases then Inr True
        else if is_temp_allowlist_path path then Inr (temp_allowlist_enabled env)
        else Inr False))"

section \<open>Validation\<close>

definition validate_read_path :: "user_env \<Rightarrow> 'h host_scheme \<Rightarrow> string \<Rightarrow> guard_error + string" where
  "validate_read_path env h path =
     (if contains_traversal path then Inl (TraversalSequence path)
      else if \<not> h_exists h path then Inl (PathDoesNotExist path)
      else bind_res (canonicalize_existing h path) (\<lambda>canonical.
        bind_res (is_under_allowed_base env h canonical) (\<lambda>ok.
          if \<not> ok then Inl (OutsideForReading canonical) else Inr canonical)))"

definition validate_write_path :: "user_env \<Rightarrow> 'h host_scheme \<Rightarrow> string \<Rightarrow> guard_error + string" where
  "validate_write_path env h path =
     (if contains_traversal path then Inl (TraversalSequence path)
      else if h_exists h path then
        bind_res (canonicalize_existing h path) (\<lambda>canonical.
          bind_res (is_under_allowed_base env h canonical) (\<lambda>ok.
            if \<not> ok then Inl (OutsideForWriting canonical) else Inr canonical))
      else
        bind_res (if path_rooted path then Inr path
                  else case ue_current_dir env of None \<Rightarrow> Inl NoCurrentDirectory | Some d \<Rightarrow> Inr (path_join d path))
          (\<lambda>candidate.
        bind_res (case find (h_exists h) (path_ancestors candidate) of
                    None \<Rightarrow> Inl (NoExistingAncestor path)
                  | Some current \<Rightarrow> canonicalize_existing h current) (\<lambda>canonical_base.
        bind_res (is_under_allowed_base env h canonical_base) (\<lambda>ok.
          if \<not> ok then Inl (WouldCreateOutside path) else Inr path))))"

definition validate_dir_path :: "user_env \<Rightarrow> 'h guard_host_scheme \<Rightarrow> string \<Rightarrow> guard_error + string" where
  "validate_dir_path env h path =
     bind_res (validate_read_path env h path) (\<lambda>validated.
       if \<not> h_is_dir h validated then Inl (NotADirectory validated) else Inr validated)"

definition max_validated_file_bytes :: nat where
  "max_validated_file_bytes = 8 * 1024 * 1024"

definition max_state_json_bytes :: nat where
  "max_state_json_bytes = 128 * 1024 * 1024"

definition too_large_error :: "string \<Rightarrow> nat \<Rightarrow> nat \<Rightarrow> bool \<Rightarrow> guard_error" where
  "too_large_error path max_bytes actual_bytes is_state =
     (if is_state then StateFileTooLarge path max_bytes actual_bytes else FileTooLarge path max_bytes actual_bytes)"

text \<open>
  The length is asked of the opened file, and the read stops one byte behind the cap: the file may
  grow in between.
\<close>

definition read_to_string_with_cap ::
  "user_env \<Rightarrow> 'h guard_host_scheme \<Rightarrow> string \<Rightarrow> nat \<Rightarrow> bool \<Rightarrow> guard_error + string" where
  "read_to_string_with_cap env h path max_bytes is_state =
     bind_res (validate_read_path env h path) (\<lambda>validated.
       case h_open h validated of
         None \<Rightarrow> Inl (FailedToOpen validated)
       | Some f \<Rightarrow>
           (case op_len f of
              None \<Rightarrow> Inl (FailedToStat validated)
            | Some len \<Rightarrow>
                if len > max_bytes then Inl (too_large_error validated max_bytes len is_state)
                else (case op_bytes f of
                        None \<Rightarrow> Inl (FailedToRead validated)
                      | Some content \<Rightarrow>
                          (let bytes = take (max_bytes + 1) content in
                           if length bytes > max_bytes
                           then Inl (too_large_error validated max_bytes (length bytes) is_state)
                           else if utf8_valid bytes then Inr bytes else Inl (FailedToRead validated)))))"

definition read_to_string_validated :: "user_env \<Rightarrow> 'h guard_host_scheme \<Rightarrow> string \<Rightarrow> guard_error + string" where
  "read_to_string_validated env h path = read_to_string_with_cap env h path max_validated_file_bytes False"

definition read_state_json_validated :: "user_env \<Rightarrow> 'h guard_host_scheme \<Rightarrow> string \<Rightarrow> guard_error + string" where
  "read_state_json_validated env h path = read_to_string_with_cap env h path max_state_json_bytes True"

text \<open>The base a directory is under, and the path to open, rebuilt below it name by name.\<close>

definition matching_allowed_base :: "user_env \<Rightarrow> 'h host_scheme \<Rightarrow> string \<Rightarrow> guard_error + string" where
  "matching_allowed_base env h canonical =
     (let path = strip_verbatim_prefix canonical in
      bind_res (current_user_allowed_bases env) (\<lambda>bases.
        case find (\<lambda>b. path_starts_with path b) (map (plain_base h) bases) of
          Some base \<Rightarrow> Inr base
        | None \<Rightarrow>
            if is_temp_allowlist_path path \<and> temp_allowlist_enabled env
            then Inr (case path_parent path of Some p \<Rightarrow> p | None \<Rightarrow> path)
            else Inl (DirOutsideBases canonical)))"

definition dir_rebuilt_under_base :: "'h host_scheme \<Rightarrow> string \<Rightarrow> string \<Rightarrow> guard_error + string" where
  "dir_rebuilt_under_base h base0 candidate0 =
     bind_res (canonicalize_existing h base0) (\<lambda>base.
     bind_res (canonicalize_existing h candidate0) (\<lambda>candidate.
       if \<not> path_starts_with candidate base then Inl (EscapesBase candidate)
       else (let rel = drop (length (path_components base)) (path_components candidate) in
         fold_res (\<lambda>safe name.
             if name = ''.'' then Inr safe
             else if name = ''..'' \<or> name = [slash] then Inl (EscapesBase candidate)
             else Inr (path_join safe name)) base rel)))"

definition read_dir_validated :: "user_env \<Rightarrow> 'h guard_host_scheme \<Rightarrow> string \<Rightarrow> guard_error + string" where
  "read_dir_validated env h path =
     bind_res (validate_dir_path env h path) (\<lambda>validated.
     bind_res (matching_allowed_base env h validated) (\<lambda>base.
       dir_rebuilt_under_base h base validated))"

section \<open>Names\<close>

definition allowed_agents :: "string list" where
  "allowed_agents = [''claude'', ''codex'', ''gemini'', ''junie'', ''kimi'', ''codescribe'', ''operator-md'']"

definition safe_agent_name :: "string \<Rightarrow> string option" where
  "safe_agent_name name = (if name \<in> set allowed_agents then Some name else None)"

definition safe_project_name :: "string \<Rightarrow> string option" where
  "safe_project_name name =
     (if name = [] then None
      else if contains_traversal name \<or> slash \<in> set name \<or> backslash \<in> set name then None
      else Some name)"

section \<open>Joining names\<close>

definition plain_component :: "string \<Rightarrow> bool" where
  "plain_component n \<longleftrightarrow> n \<noteq> [] \<and> n \<noteq> ''.'' \<and> slash \<notin> set n"

lemma components_join:
  assumes "plain_component n"
  shows "path_components (path_join p n) = path_components p @ [n]"
proof -
  have n: "n \<noteq> []" "n \<noteq> ''.''" "slash \<notin> set n" "\<not> path_rooted n" "split_where (\<lambda>c. c = slash) n = [n]"
    using assms by (auto simp: plain_component_def path_rooted_def intro!: split_where_single) (cases n; simp)
  have names: "path_names (q @ slash # n) = path_names q @ [n]" if "q \<noteq> []" for q
    using that n(5) by (auto simp: path_names_def path_rooted_def split_where_append tl_append split: list.split)
  consider "p = []" | "p \<noteq> []" "last p \<noteq> slash" | q where "p = q @ [slash]" by (cases p rule: rev_cases) auto
  then show ?thesis
  proof cases
    case 1
    then show ?thesis using n by (simp add: path_join_def path_components_def path_names_def path_rooted_def)
  next
    case 2
    have "hd (path_names p @ [n]) = hd (path_names p)" by (simp add: path_names_def)
    with 2 n names [of p] show ?thesis
      by (simp add: path_join_def path_components_def path_rooted_def Let_def)
  next
    case 3
    show ?thesis
    proof (cases "q = []")
      case True
      with 3 n show ?thesis
        by (simp add: path_join_def path_components_def path_names_def path_rooted_def Let_def)
    next
      case False
      have "path_names (q @ [slash]) = path_names q @ [[]]"
        using False by (auto simp: path_names_def path_rooted_def split_where_append tl_append split: list.split)
      moreover have "path_names q \<noteq> []" by (simp add: path_names_def)
      ultimately show ?thesis
        using 3 n names [OF False] False by (simp add: path_join_def path_components_def path_rooted_def Let_def)
    qed
  qed
qed

lemma components_tail:
  assumes "path_components p = c # cs" "n \<in> set cs"
  shows "plain_component n"
proof -
  have "slash \<notin> set x" if "x \<in> set (path_names p)" for x
    using split_where_free that unfolding path_names_def by fast
  moreover have "n \<in> set (path_names p) \<and> n \<noteq> [] \<and> n \<noteq> ''.''"
  proof -
    let ?f = "filter (\<lambda>x. x \<noteq> [] \<and> x \<noteq> ''.'') (path_names p)"
    have "\<exists>pre. length pre \<le> 1 \<and> path_components p = pre @ ?f"
      by (rule exI [of _ "if path_rooted p then [[slash]] else if hd (path_names p) = ''.'' then [''.''] else []"])
         (simp add: path_components_def Let_def)
    then obtain pre where "length pre \<le> 1" "path_components p = pre @ ?f" by blast
    then have "set cs \<subseteq> set ?f"
      using assms(1) by (cases pre) (metis append_Nil set_subset_Cons, simp)
    then show ?thesis using assms(2) by auto
  qed
  ultimately show ?thesis by (simp add: plain_component_def)
qed

section \<open>What a validated path is\<close>

text \<open>
  A canonical path is permitted when it is at or below the canonical path of one of the user's
  directories, or is a temporary path and these are allowed.
\<close>

definition permitted :: "user_env \<Rightarrow> 'h host_scheme \<Rightarrow> string \<Rightarrow> bool" where
  "permitted env h v \<longleftrightarrow>
     (\<exists>base \<in> set (option_list [ue_home_dir env, ue_cache_dir env, ue_data_dir env]).
        path_starts_with (strip_verbatim_prefix v) (plain_base h base))
     \<or> (option_list [ue_home_dir env, ue_cache_dir env, ue_data_dir env] \<noteq> []
        \<and> path_is_temp_allowlisted env (strip_verbatim_prefix v))"

lemma push_base_set: "set (push_base bases b) \<subseteq> insert b (set bases)" "push_base bases b \<noteq> []"
  by (auto simp: push_base_def)

lemma fold_push_base:
  "set (foldl push_base bases bs) \<subseteq> set bases \<union> set bs \<and> (foldl push_base bases bs = [] \<longleftrightarrow> bases = [] \<and> bs = [])"
proof (induction bs arbitrary: bases)
  case (Cons b bs)
  from Cons.IH [of "push_base bases b"] push_base_set [of bases b] show ?case by auto
qed simp

lemma under_base_permitted:
  assumes "is_under_allowed_base env h v = Inr True"
  shows "permitted env h v"
proof -
  let ?all = "option_list [ue_home_dir env, ue_cache_dir env, ue_data_dir env]"
  have "set (foldl push_base [] ?all) \<subseteq> set ?all" "foldl push_base [] ?all = [] \<longleftrightarrow> ?all = []"
    using fold_push_base [of "[]" ?all] by simp_all
  with assms show ?thesis
    by (auto simp: is_under_allowed_base_def current_user_allowed_bases_def Let_def bind_res_def permitted_def
        path_is_temp_allowlisted_def list_ex_iff split: if_splits)
qed

lemma validate_read_sound:
  "validate_read_path env h path = Inr v \<Longrightarrow>
     \<not> contains_traversal path \<and> h_exists h path \<and> h_canonicalize h path = Some v \<and> permitted env h v"
  by (auto simp: validate_read_path_def bind_res_def canonicalize_existing_def under_base_permitted
      split: if_splits sum.splits option.splits)

lemma rebuilt_components:
  assumes "\<forall>n\<in>set rel. plain_component n"
    and "fold_res (\<lambda>safe name. if name = ''.'' then Inr safe
        else if name = ''..'' \<or> name = [slash] then Inl (EscapesBase c) else Inr (path_join safe name)) base rel = Inr d"
  shows "path_components d = path_components base @ rel"
  using assms
proof (induction rel arbitrary: base)
  case (Cons n rel)
  then have n: "plain_component n" by simp
  then have "n \<noteq> ''.''" by (simp add: plain_component_def)
  moreover from this Cons.prems(2) have "n \<noteq> ''..''" "n \<noteq> [slash]" by (auto split: if_splits)
  ultimately show ?case
    using Cons.IH [of "path_join base n"] Cons.prems components_join [OF n, of base] by (simp add: bind_res_def)
qed simp

lemma dir_rebuilt_sound:
  assumes "dir_rebuilt_under_base h base candidate = Inr d"
  shows "\<exists>b c. h_canonicalize h base = Some b \<and> h_canonicalize h candidate = Some c
    \<and> path_starts_with c b \<and> (path_components b \<noteq> [] \<longrightarrow> path_components d = path_components c)"
proof -
  obtain b c where bc: "h_canonicalize h base = Some b" "h_canonicalize h candidate = Some c" "path_starts_with c b"
    and rebuilt: "fold_res (\<lambda>safe name. if name = ''.'' then Inr safe
        else if name = ''..'' \<or> name = [slash] then Inl (EscapesBase c) else Inr (path_join safe name)) b
        (drop (length (path_components b)) (path_components c)) = Inr d"
    using assms by (auto simp: dir_rebuilt_under_base_def bind_res_def canonicalize_existing_def Let_def
        split: option.splits if_splits)
  have "path_components d = path_components c" if "path_components b \<noteq> []"
  proof -
    obtain rest where c: "path_components c = path_components b @ rest"
      using bc(3) by (auto simp: path_starts_with_def prefix_def)
    obtain x xs where b: "path_components b = x # xs" using \<open>path_components b \<noteq> []\<close> by (cases "path_components b") auto
    have "\<forall>n\<in>set rest. plain_component n"
      using components_tail [of c x "xs @ rest"] by (simp add: c b)
    from rebuilt_components [OF this] rebuilt show ?thesis by (simp add: c)
  qed
  with bc show ?thesis by blast
qed

text \<open>
  C22: What the validated reads open is permitted: a validated path is the canonical path of one
  without traversal and is permitted; a capped read returns the bytes of the file there, at most as
  many as the cap and well-formed UTF-8; a validated directory is a directory there and is opened
  under its own names below the canonical path of its base.
\<close>

theorem reads_confined:
  "(case validate_read_path env h path of
      Inl _ \<Rightarrow> True
    | Inr v \<Rightarrow> \<not> contains_traversal path \<and> h_canonicalize h path = Some v \<and> permitted env h v)
   \<and> (case read_to_string_with_cap env h path cap is_state of
      Inl _ \<Rightarrow> True
    | Inr content \<Rightarrow> length content \<le> cap \<and> utf8_valid content
        \<and> (\<exists>v f. validate_read_path env h path = Inr v \<and> h_open h v = Some f \<and> op_bytes f = Some content))
   \<and> (case read_dir_validated env h path of
      Inl _ \<Rightarrow> True
    | Inr d \<Rightarrow> (\<exists>v base b c. validate_read_path env h path = Inr v \<and> h_is_dir h v
        \<and> matching_allowed_base env h v = Inr base \<and> h_canonicalize h base = Some b \<and> h_canonicalize h v = Some c
        \<and> path_starts_with c b \<and> (if path_components b = [] then True else path_components d = path_components c)))"
proof (intro conjI, goal_cases)
  case 1
  then show ?case using validate_read_sound [of env h path] by (auto split: sum.split)
next
  case 2
  then show ?case
    by (auto simp: read_to_string_with_cap_def bind_res_def Let_def min_def split: sum.splits option.splits if_splits)
next
  case 3
  show ?case
  proof (cases "read_dir_validated env h path")
    case (Inr d)
    then obtain v base where v: "validate_read_path env h path = Inr v" "h_is_dir h v" "matching_allowed_base env h v = Inr base"
      and d: "dir_rebuilt_under_base h base v = Inr d"
      by (auto simp: read_dir_validated_def validate_dir_path_def bind_res_def split: sum.splits if_splits)
    from dir_rebuilt_sound [OF d] v Inr show ?thesis by auto
  qed simp
qed

section \<open>The ancestors of a path\<close>

text \<open>The components of a path from its names, and the names a spelled path can have.\<close>

definition comps :: "bool \<Rightarrow> string list \<Rightarrow> string list" where
  "comps rooted names =
     (if rooted then [[slash]] else if names \<noteq> [] \<and> hd names = ''.'' then [''.''] else [])
     @ filter (\<lambda>x. x \<noteq> [] \<and> x \<noteq> ''.'') names"

definition names_ok :: "bool \<Rightarrow> string list \<Rightarrow> bool" where
  "names_ok rooted names \<longleftrightarrow> (\<forall>x \<in> set names. slash \<notin> set x) \<and> (names \<noteq> [] \<longrightarrow> rooted \<or> hd names \<noteq> [])"

lemma components_comps: "path_components p = comps (path_rooted p) (path_names p)"
  by (simp add: path_components_def comps_def Let_def path_names_def)

lemma trim_prefix: "\<exists>rest. ps = rev (dropWhile (\<lambda>x. x = [] \<or> x = ''.'') (rev ps)) @ rest
    \<and> (\<forall>x \<in> set rest. x = [] \<or> x = ''.'')"
proof -
  let ?P = "\<lambda>x. x = [] \<or> x = ''.''"
  have "ps = rev (dropWhile ?P (rev ps)) @ rev (takeWhile ?P (rev ps))"
    by (metis rev_append rev_rev_ident takeWhile_dropWhile_id)
  moreover have "\<forall>x \<in> set (rev (takeWhile ?P (rev ps))). ?P x" by (auto dest: set_takeWhileD)
  ultimately show ?thesis by blast
qed

lemma trim_comps: "comps rooted (trim_names rooted ps) = comps rooted ps"
proof -
  obtain rest where r: "ps = rev (dropWhile (\<lambda>x. x = [] \<or> x = ''.'') (rev ps)) @ rest"
    "\<forall>x \<in> set rest. x = [] \<or> x = ''.''" using trim_prefix by blast
  define t where "t = rev (dropWhile (\<lambda>x. x = [] \<or> x = ''.'') (rev ps))"
  have "filter (\<lambda>x. x \<noteq> [] \<and> x \<noteq> ''.'') rest = []" using r(2) by (auto simp: filter_empty_conv)
  then show ?thesis
    using r(1) unfolding trim_names_def Let_def t_def [symmetric]
    by (cases "t = []") (auto simp: comps_def)
qed

lemma trim_ok: "names_ok rooted ps \<Longrightarrow> names_ok rooted (trim_names rooted ps)"
proof -
  assume ok: "names_ok rooted ps"
  obtain rest where r: "ps = rev (dropWhile (\<lambda>x. x = [] \<or> x = ''.'') (rev ps)) @ rest" using trim_prefix by blast
  define t where "t = rev (dropWhile (\<lambda>x. x = [] \<or> x = ''.'') (rev ps))"
  show ?thesis
    using ok r(1) unfolding trim_names_def Let_def t_def [symmetric]
    by (cases "t = []") (auto simp: names_ok_def slash_def)
qed

lemma spell_comps: "names_ok rooted ns \<Longrightarrow> path_components (spell_names rooted ns) = comps rooted ns"
proof (cases "ns = []")
  case True
  then show ?thesis
    by (cases rooted) (simp_all add: components_comps spell_names_def path_rooted_def path_names_def comps_def)
next
  case False
  assume ok: "names_ok rooted ns"
  then have split: "split_where (\<lambda>c. c = slash) (join [slash] ns) = ns"
    using False by (intro split_join) (auto simp: names_ok_def)
  show ?thesis
  proof (cases rooted)
    case True
    then show ?thesis
      by (simp add: components_comps spell_names_def path_rooted_def path_names_def split)
  next
    case unrooted: False
    obtain n ms where n: "ns = n # ms" using False by (cases ns) auto
    have "n \<noteq> []" "slash \<notin> set n" using ok n unrooted by (auto simp: names_ok_def)
    then have "\<not> path_rooted (join [slash] ns)"
      using n by (cases n; cases ms) (auto simp: path_rooted_def)
    then show ?thesis using unrooted by (simp add: components_comps spell_names_def path_names_def split)
  qed
qed

lemma butlast_comps:
  assumes "t \<noteq> []" shows "\<exists>rest. comps rooted t = comps rooted (butlast t) @ rest"
proof -
  obtain u x where t: "t = u @ [x]" using assms by (metis append_butlast_last_id)
  show ?thesis by (cases u) (auto simp: t comps_def)
qed

lemma butlast_ok: "names_ok rooted t \<Longrightarrow> names_ok rooted (butlast t)"
  by (cases t rule: rev_cases) (auto simp: names_ok_def hd_append)

text \<open>Every ancestor of a path is a front of its components, each of the one before it.\<close>

lemma ancestors_of_fronts:
  "names_ok rooted t \<Longrightarrow>
     sorted_wrt (\<lambda>a b. prefix (path_components b) (path_components a)) (ancestors_of rooted t)
     \<and> (\<forall>a \<in> set (ancestors_of rooted t). prefix (path_components a) (comps rooted t))"
proof (induction rooted t rule: ancestors_of.induct)
  case (1 rooted t)
  show ?case
  proof (cases "t = []")
    case True
    then show ?thesis by (simp add: ancestors_of.simps)
  next
    case False
    let ?u = "trim_names rooted (butlast t)"
    have ok: "names_ok rooted ?u" using "1.prems" by (intro trim_ok butlast_ok)
    have eq: "ancestors_of rooted t = spell_names rooted ?u # ancestors_of rooted ?u"
      using False by (subst ancestors_of.simps) (simp add: Let_def)
    have u: "path_components (spell_names rooted ?u) = comps rooted ?u" by (rule spell_comps [OF ok])
    have front: "prefix (comps rooted ?u) (comps rooted t)"
      unfolding trim_comps using butlast_comps [OF False] by (auto simp: prefix_def)
    from "1.IH" [OF False refl ok] show ?thesis
      unfolding eq using u front by (auto intro: prefix_order.trans)
  qed
qed

lemma path_names_ok: "names_ok (path_rooted p) (trim_names (path_rooted p) (path_names p))"
proof (cases "p = []")
  case True
  then show ?thesis by (simp add: path_names_def path_rooted_def trim_names_def names_ok_def)
next
  case False
  have "\<forall>x \<in> set (path_names p). slash \<notin> set x"
    using split_where_free unfolding path_names_def by fast
  moreover have "hd (path_names p) \<noteq> []" if "\<not> path_rooted p"
    using that False by (cases p) (auto simp: path_names_def path_rooted_def split: list.split)
  ultimately have "names_ok (path_rooted p) (path_names p)" by (auto simp: names_ok_def)
  then show ?thesis by (rule trim_ok)
qed

lemma path_ancestors_fronts:
  "sorted_wrt (\<lambda>a b. prefix (path_components b) (path_components a)) (path_ancestors p)"
  using ancestors_of_fronts [OF path_names_ok, of p] trim_comps
  by (auto simp: path_ancestors_def components_comps)

lemma nearest_front:
  assumes "find P (path_ancestors p) = Some a"
  shows "\<exists>rest. path_components p = path_components a @ rest" and "P a" "a \<in> set (path_ancestors p)"
    and "\<And>b. b \<in> set (path_ancestors p) \<Longrightarrow> P b \<Longrightarrow> prefix (path_components b) (path_components a)"
proof -
  obtain i where i: "i < length (path_ancestors p)" "P (path_ancestors p ! i)" "a = path_ancestors p ! i"
    "\<forall>j<i. \<not> P (path_ancestors p ! j)"
    using assms by (auto simp: find_Some_iff)
  note fronts = sorted_wrt_nth_less [OF path_ancestors_fronts [of p]]
  have "prefix (path_components a) (path_components p)"
  proof (cases i)
    case (Suc k)
    then show ?thesis using fronts [of 0 i] i(1,3) by (simp add: path_ancestors_def)
  qed (use i in \<open>simp add: path_ancestors_def\<close>)
  then show "\<exists>rest. path_components p = path_components a @ rest" by (auto simp: prefix_def)
  show "P a" "a \<in> set (path_ancestors p)" using i by simp_all
  fix b assume "b \<in> set (path_ancestors p)" "P b"
  then obtain j where j: "j < length (path_ancestors p)" "b = path_ancestors p ! j" by (metis in_set_conv_nth)
  with i(4) \<open>P b\<close> have "i \<le> j" by (metis not_less)
  then show "prefix (path_components b) (path_components a)"
    using fronts [of i j] i(3) j by (cases "i = j") auto
qed

text \<open>Where the parent directory stands in a joined path.\<close>

lemma dotdot_names: "''..'' \<in> set (path_components p) \<longleftrightarrow> ''..'' \<in> set (split_where (\<lambda>c. c = slash) p)"
proof (cases "path_rooted p")
  case True
  then obtain q where "p = slash # q" by (cases p) (auto simp: path_rooted_def)
  then show ?thesis by (auto simp: path_components_def path_names_def path_rooted_def slash_def)
next
  case False
  then show ?thesis by (auto simp: path_components_def path_names_def Let_def)
qed

lemma dotdot_join:
  "''..'' \<in> set (path_components (path_join p q)) \<Longrightarrow>
     ''..'' \<in> set (path_components p) \<or> ''..'' \<in> set (path_components q)"
proof -
  assume a: "''..'' \<in> set (path_components (path_join p q))"
  consider "path_rooted q \<or> p = []" | "\<not> path_rooted q" "p \<noteq> []" "last p \<noteq> slash"
    | x where "\<not> path_rooted q" "p = x @ [slash]" by (cases p rule: rev_cases) auto
  then show ?thesis
    using a unfolding dotdot_names
    by cases (auto simp: path_join_def split_where_append split: if_splits)
qed

text \<open>
  C23: What the validated writes accept is free of line ends, zero bytes and parent steps, by either
  separator. An existing path stands for its canonical path, which is permitted. A new path, below
  the current directory when it is relative, continues its nearest existing ancestor, whose canonical
  path is permitted, by further names; no parent step is among them, unless the current directory
  itself is spelled with one. (What the ancestor or the path is, a directory, a file or a link that
  leads nowhere, is not asked.)
\<close>

theorem writes_confined:
  "case validate_write_path env h path of
     Inl _ \<Rightarrow> True
   | Inr w \<Rightarrow> set path \<inter> {nul, lf, CHR 0x0D} = {}
       \<and> ''..'' \<notin> set (split_where (\<lambda>c. c = slash \<or> c = backslash) path)
       \<and> ''..'' \<notin> set (path_components path)
       \<and> (if h_exists h path then h_canonicalize h path = Some w \<and> permitted env h w
          else w = path \<and> (\<exists>candidate current v rest.
            (if path_rooted path then candidate = path \<and> ''..'' \<notin> set rest
             else (\<exists>cwd. ue_current_dir env = Some cwd \<and> candidate = path_join cwd path
               \<and> (''..'' \<in> set rest \<longrightarrow> ''..'' \<in> set (path_components cwd))))
            \<and> path_components candidate = path_components current @ rest
            \<and> h_exists h current \<and> h_canonicalize h current = Some v \<and> permitted env h v
            \<and> (\<forall>a \<in> set (path_ancestors candidate). h_exists h a \<longrightarrow>
                 prefix (path_components a) (path_components current))))"
proof (cases "validate_write_path env h path")
  case (Inr w)
  then have clean: "\<not> contains_traversal path" by (auto simp: validate_write_path_def split: if_splits)
  show ?thesis
  proof (cases "h_exists h path")
    case True
    with Inr clean show ?thesis
      by (auto simp: validate_write_path_def contains_traversal_def bind_res_def canonicalize_existing_def
          under_base_permitted split: if_splits sum.splits option.splits)
  next
    case False
    from Inr clean False obtain candidate current v where c: "w = path"
      "if path_rooted path then candidate = path
       else \<exists>cwd. ue_current_dir env = Some cwd \<and> candidate = path_join cwd path"
      "find (h_exists h) (path_ancestors candidate) = Some current" "h_canonicalize h current = Some v"
      "permitted env h v"
      by (auto simp: validate_write_path_def bind_res_def canonicalize_existing_def under_base_permitted
          split: if_splits sum.splits option.splits)
    note near = nearest_front [OF c(3)]
    obtain rest where rest: "path_components candidate = path_components current @ rest" using near(1) by blast
    have "''..'' \<in> set rest \<Longrightarrow> ''..'' \<in> set (path_components candidate)" by (simp add: rest)
    with c(2) have "if path_rooted path then candidate = path \<and> ''..'' \<notin> set rest
        else \<exists>cwd. ue_current_dir env = Some cwd \<and> candidate = path_join cwd path
          \<and> (''..'' \<in> set rest \<longrightarrow> ''..'' \<in> set (path_components cwd))"
      using clean dotdot_join by (auto simp: contains_traversal_def split: if_splits)
    with c rest near(2,4) clean False show ?thesis
      unfolding Inr sum.case if_not_P [OF False] contains_traversal_def by blast
  qed
qed simp

text \<open>A new state file below the home directory, two missing directories down.\<close>

definition guarded_env :: user_env where
  "guarded_env = \<lparr> ue_home_dir = Some ''/h'', ue_cache_dir = None, ue_data_dir = None, ue_allow_tmp = None,
     ue_is_test = False, ue_current_exe = None, ue_current_dir = None \<rparr>"

definition guarded_host :: host where
  "guarded_host = \<lparr> h_exists = (\<lambda>p. p = ''/h''), h_is_file = (\<lambda>_. False), h_read_to_string = (\<lambda>_. None),
     h_read = (\<lambda>_. None), h_canonicalize = (\<lambda>p. if p = ''/h'' then Some p else None) \<rparr>"

lemma guarded_accepts: "validate_write_path guarded_env guarded_host ''/h/a/b'' = Inr ''/h/a/b''"
  by (simp add: validate_write_path_def contains_traversal_def path_components_def path_eval
      slash_def backslash_def nul_def lf_def guarded_host_def canonicalize_existing_def bind_res_def
      is_under_allowed_base_def current_user_allowed_bases_def guarded_env_def option_list_def List.map_filter_def
      push_base_def plain_base_def path_starts_with_def strip_verbatim_prefix_def strip_prefix_def)

lemma writes_confined_witness:
  "validate_write_path guarded_env guarded_host ''/h/a/b'' = Inr ''/h/a/b''
    \<and> (\<exists>current v rest. path_components ''/h/a/b'' = path_components current @ rest \<and> ''..'' \<notin> set rest
        \<and> h_canonicalize guarded_host current = Some v \<and> permitted guarded_env guarded_host v)"
proof -
  have "\<not> h_exists guarded_host ''/h/a/b''" "path_rooted ''/h/a/b''"
    by (simp_all add: guarded_host_def path_rooted_def slash_def)
  then show ?thesis
    using writes_confined [where env = guarded_env and h = guarded_host and path = "''/h/a/b''"]
    unfolding guarded_accepts by auto
qed

section \<open>A link that leads nowhere\<close>

text \<open>
  Whether a new path is a link is not asked: a path that does not exist when links are followed is
  accepted below a permitted directory, and creating it creates what the link names.
\<close>

lemma dangling_link_accepted:
  assumes "\<not> contains_traversal path" "\<not> h_exists h path" "path_rooted path"
    and "find (h_exists h) (path_ancestors path) = Some dir" "h_canonicalize h dir = Some v"
    and "is_under_allowed_base env h v = Inr True"
  shows "validate_write_path env h path = Inr path"
  using assms by (simp add: validate_write_path_def bind_res_def canonicalize_existing_def)

section \<open>Message content\<close>

datatype content_warning = NullByteStripped nat | BidiOverride string nat | ZeroWidth string nat

definition is_bidi_override :: "string \<Rightarrow> bool" where
  "is_bidi_override ch \<longleftrightarrow>
     (let p = code_point ch in (8234 \<le> p \<and> p \<le> 8238) \<or> (8294 \<le> p \<and> p \<le> 8297))"

definition is_zero_width :: "string \<Rightarrow> bool" where
  "is_zero_width ch \<longleftrightarrow> (let p = code_point ch in (8203 \<le> p \<and> p \<le> 8205) \<or> p = 65279)"

text \<open>The output is copied from the input up to the first character that changes.\<close>

definition ensure_output :: "string option \<Rightarrow> string \<Rightarrow> nat \<Rightarrow> string" where
  "ensure_output output input offset = (case output of None \<Rightarrow> take offset input | Some out \<Rightarrow> out)"

fun sanitize_chars ::
  "string \<Rightarrow> nat \<Rightarrow> string list \<Rightarrow> string option \<Rightarrow> content_warning list \<Rightarrow> string option \<times> content_warning list" where
  "sanitize_chars input offset [] output warnings = (output, warnings)"
| "sanitize_chars input offset (ch # rest) output warnings =
     (if ch = [nul] then
        sanitize_chars input (offset + 1) rest (Some (ensure_output output input offset))
          (warnings @ [NullByteStripped offset])
      else if ch = [CHR 0x0D] then
        (case rest of
           next_ch # rest1 \<Rightarrow>
             if next_ch = [lf]
             then sanitize_chars input (offset + 2) rest1 (Some (ensure_output output input offset @ [lf])) warnings
             else sanitize_chars input (offset + 1) rest (Some (ensure_output output input offset @ [lf])) warnings
         | [] \<Rightarrow> (Some (ensure_output output input offset @ [lf]), warnings))
      else
        sanitize_chars input (offset + length ch) rest (map_option (\<lambda>out. out @ ch) output)
          (warnings @ (if is_bidi_override ch then [BidiOverride ch offset]
                       else if is_zero_width ch then [ZeroWidth ch offset] else [])))"

datatype 'a cow = Borrowed 'a | Owned 'a

definition sanitize_chunk_content :: "string \<Rightarrow> string cow \<times> content_warning list" where
  "sanitize_chunk_content input =
     (case sanitize_chars input 0 (utf8_chars input) None [] of
        (Some output, warnings) \<Rightarrow> (Owned output, warnings)
      | (None, warnings) \<Rightarrow> (Borrowed input, warnings))"

text \<open>The reference: no NUL, and every line ending as one line feed.\<close>

fun clean_chars :: "string list \<Rightarrow> string list" where
  "clean_chars [] = []"
| "clean_chars (ch # rest) =
     (if ch = [nul] then clean_chars rest
      else if ch = [CHR 0x0D] then
        [lf] # (case rest of
                  next_ch # rest1 \<Rightarrow> if next_ch = [lf] then clean_chars rest1 else clean_chars rest
                | [] \<Rightarrow> [])
      else ch # clean_chars rest)"

fun cow_text :: "'a cow \<Rightarrow> 'a" where
  "cow_text (Borrowed s) = s"
| "cow_text (Owned s) = s"

definition untouched :: "string list \<Rightarrow> bool" where
  "untouched chs \<longleftrightarrow> [nul] \<notin> set chs \<and> [CHR 0x0D] \<notin> set chs"

lemma ensure_output_Some [simp]: "ensure_output (Some out) input offset = out"
  by (simp add: ensure_output_def)

lemma sanitize_chars_owned:
  "fst (sanitize_chars input offset chs (Some out) ws) = Some (out @ concat (clean_chars chs))"
  by (induction input offset chs "Some out" ws arbitrary: out rule: sanitize_chars.induct)
     (auto split: list.split)

lemma sanitize_chars_change:
  "ch = [nul] \<or> ch = [CHR 0x0D] \<Longrightarrow>
   sanitize_chars input offset (ch # rest) output ws =
     sanitize_chars input offset (ch # rest) (Some (ensure_output output input offset)) ws"
  by (cases rest) (auto simp del: sanitize_chars.simps(2) simp add: sanitize_chars.simps(2) [of _ _ ch])

lemma sanitize_chars_borrowed:
  "offset = length (concat done_chs) \<Longrightarrow> input = concat (done_chs @ chs) \<Longrightarrow>
   fst (sanitize_chars input offset chs None ws) =
     (if untouched chs then None else Some (concat (done_chs @ clean_chars chs)))"
proof (induction chs arbitrary: offset done_chs ws)
  case (Cons ch rest)
  have done_part: "take offset input = concat done_chs" using Cons.prems by simp
  show ?case
  proof (cases "ch = [nul] \<or> ch = [CHR 0x0D]")
    case True
    then have "\<not> untouched (ch # rest)" by (auto simp: untouched_def)
    then show ?thesis
      using done_part
      by (subst sanitize_chars_change [OF True])
         (simp add: sanitize_chars_owned ensure_output_def del: clean_chars.simps sanitize_chars.simps)
  next
    case False
    with Cons.IH [of "offset + length ch" "done_chs @ [ch]"] Cons.prems show ?thesis
      by (auto simp: untouched_def)
  qed
qed (simp add: untouched_def)

lemma clean_untouched: "untouched chs \<Longrightarrow> clean_chars chs = chs"
  by (induction chs) (auto simp: untouched_def)

lemma clean_chars_set: "ch \<in> set (clean_chars chs) \<Longrightarrow> (ch = [lf] \<or> ch \<in> set chs) \<and> ch \<noteq> [nul] \<and> ch \<noteq> [CHR 0x0D]"
  by (induction chs rule: clean_chars.induct) (auto simp: lf_def nul_def split: if_splits list.splits)

text \<open>
  Cleaned content is the text without its NUL characters and with every line ending one line
  feed, each other character kept in place; it is the input itself, borrowed, exactly when there was
  nothing to change, and cleaning it again changes nothing.
\<close>

theorem content_cleaned:
  "cow_text (fst (sanitize_chunk_content input)) = concat (clean_chars (utf8_chars input))
   \<and> (fst (sanitize_chunk_content input) = Borrowed input \<longleftrightarrow> untouched (utf8_chars input))
   \<and> untouched (clean_chars (utf8_chars input))
   \<and> clean_chars (clean_chars (utf8_chars input)) = clean_chars (utf8_chars input)"
proof -
  have out: "fst (sanitize_chars input 0 (utf8_chars input) None []) =
      (if untouched (utf8_chars input) then None else Some (concat (clean_chars (utf8_chars input))))"
    using sanitize_chars_borrowed [of 0 "[]" input "utf8_chars input" "[]"] by simp
  have clean: "untouched (clean_chars (utf8_chars input))"
    using clean_chars_set by (fastforce simp: untouched_def)
  show ?thesis
  proof (cases "untouched (utf8_chars input)")
    case True
    with out clean_untouched [OF True] show ?thesis
      by (auto simp: sanitize_chunk_content_def split: prod.splits)
  next
    case False
    with out clean clean_untouched [OF clean] show ?thesis
      by (auto simp: sanitize_chunk_content_def split: prod.splits)
  qed
qed

end
