(* ===== verification/Seen_Hashes.thy ===== *)
theory Seen_Hashes
  imports Mmap_Dense Scope_Paths "HOL-Library.AList"
begin

text \<open>
  What an extraction run remembers (\<^verbatim>\<open>src/state.rs\<close> and \<^verbatim>\<open>src/state/migration.rs\<close>):
  the hashes seen per project, each set with its order of recency, the watermark of every source,
  and the history of runs. A \<^verbatim>\<open>HashMap\<close> is the list of its entries with distinct keys, in
  the order an iterator happens to yield them, which the language leaves open: what is proved of a
  map holds for every such order. BLAKE3 is a parameter, a function of the bytes it is fed. An
  instant is its nanoseconds since the epoch, leap seconds aside.
\<close>

section \<open>Hash maps\<close>

type_synonym ('k, 'v) hash_map = "('k \<times> 'v) list"

definition hm_wf :: "('k, 'v) hash_map \<Rightarrow> bool" where
  "hm_wf m \<longleftrightarrow> distinct (map fst m)"

definition hm_get :: "('k, 'v) hash_map \<Rightarrow> 'k \<Rightarrow> 'v option" where
  "hm_get m k = map_of m k"

definition hm_insert :: "'k \<Rightarrow> 'v \<Rightarrow> ('k, 'v) hash_map \<Rightarrow> ('k, 'v) hash_map" where
  "hm_insert = AList.update"

definition hm_remove :: "'k \<Rightarrow> ('k, 'v) hash_map \<Rightarrow> ('k, 'v) hash_map" where
  "hm_remove = AList.delete"

text \<open>\<^verbatim>\<open>m.entry(k).or_insert(d)\<close>, and what is then done to the value in place.\<close>

definition hm_entry :: "'k \<Rightarrow> 'v \<Rightarrow> ('v \<Rightarrow> 'v) \<Rightarrow> ('k, 'v) hash_map \<Rightarrow> ('k, 'v) hash_map" where
  "hm_entry k d f m = hm_insert k (f (case hm_get m k of Some v \<Rightarrow> v | None \<Rightarrow> d)) m"

lemma hm_get_empty [simp]: "hm_get [] k = None"
  by (simp add: hm_get_def)

lemma hm_get_insert [simp]: "hm_get (hm_insert k v m) = (hm_get m)(k \<mapsto> v)"
  by (simp add: hm_get_def hm_insert_def fun_eq_iff update_conv')

lemma hm_get_remove: "hm_get (hm_remove k m) l = (if l = k then None else hm_get m l)"
  by (simp add: hm_get_def hm_remove_def delete_conv')

lemma hm_get_entry [simp]:
  "hm_get (hm_entry k d f m) = (hm_get m)(k \<mapsto> f (case hm_get m k of Some v \<Rightarrow> v | None \<Rightarrow> d))"
  by (simp add: hm_entry_def)

lemma hm_wf_simps [simp]:
  "hm_wf []" "hm_wf m \<Longrightarrow> hm_wf (hm_insert k v m)" "hm_wf m \<Longrightarrow> hm_wf (hm_entry k d f m)"
  by (simp_all add: hm_wf_def hm_insert_def hm_entry_def distinct_update)

lemma hm_wf_remove: "hm_wf m \<Longrightarrow> hm_wf (hm_remove k m)"
  by (simp add: hm_wf_def hm_remove_def distinct_delete)

lemma hm_get_in: "hm_wf m \<Longrightarrow> hm_get m k = Some v \<longleftrightarrow> (k, v) \<in> set m"
  by (simp add: hm_wf_def hm_get_def map_of_eq_Some_iff)

section \<open>Seen hashes\<close>

record seen_hash_set =
  sh_order :: "string list"
  sh_set :: "string set"

definition seen_default :: seen_hash_set where
  "seen_default = \<lparr> sh_order = [], sh_set = {} \<rparr>"

definition seen_len :: "seen_hash_set \<Rightarrow> nat" where
  "seen_len s = card (sh_set s)"

definition seen_contains :: "seen_hash_set \<Rightarrow> string \<Rightarrow> bool" where
  "seen_contains s h \<longleftrightarrow> h \<in> sh_set s"

definition seen_insert :: "string \<Rightarrow> seen_hash_set \<Rightarrow> seen_hash_set" where
  "seen_insert h s =
     (let s1 = (if h \<in> sh_set s
                then s\<lparr>sh_set := sh_set s - {h}, sh_order := filter (\<lambda>e. e \<noteq> h) (sh_order s)\<rparr>
                else s) in
      s1\<lparr>sh_set := insert h (sh_set s1), sh_order := sh_order s1 @ [h]\<rparr>)"

definition seen_extend_from :: "seen_hash_set \<Rightarrow> seen_hash_set \<Rightarrow> seen_hash_set" where
  "seen_extend_from s other = fold seen_insert (sh_order other) s"

text \<open>The loop pops from the front while too many are left.\<close>

function prune_oldest :: "nat \<Rightarrow> seen_hash_set \<Rightarrow> seen_hash_set" where
  "prune_oldest limit s =
     (if seen_len s \<le> limit then s
      else (case sh_order s of
              [] \<Rightarrow> s
            | h # rest \<Rightarrow> prune_oldest limit (s\<lparr>sh_order := rest, sh_set := sh_set s - {h}\<rparr>)))"
  by pat_completeness auto
termination by (relation "measure (\<lambda>(limit, s). length (sh_order s))") auto

declare prune_oldest.simps [simp del]

text \<open>A set is stored as its order and read back by inserting one hash after another.\<close>

definition seen_serialize :: "seen_hash_set \<Rightarrow> string list" where
  "seen_serialize s = sh_order s"

definition seen_deserialize :: "string list \<Rightarrow> seen_hash_set" where
  "seen_deserialize hs = fold seen_insert hs seen_default"

definition seen_wf :: "seen_hash_set \<Rightarrow> bool" where
  "seen_wf s \<longleftrightarrow> distinct (sh_order s) \<and> sh_set s = set (sh_order s)"

lemma seen_wf_default [simp]: "seen_wf seen_default"
  by (simp add: seen_wf_def seen_default_def)

lemma seen_len_order: "seen_wf s \<Longrightarrow> seen_len s = length (sh_order s)"
  by (simp add: seen_wf_def seen_len_def distinct_card)

lemma seen_insert_set [simp]: "sh_set (seen_insert h s) = insert h (sh_set s)"
  by (auto simp: seen_insert_def Let_def)

lemma seen_insert_order:
  "seen_wf s \<Longrightarrow> sh_order (seen_insert h s) = filter (\<lambda>e. e \<noteq> h) (sh_order s) @ [h]"
  by (auto simp: seen_insert_def seen_wf_def intro!: filter_True [symmetric])

lemma seen_wf_insert [simp]: "seen_wf s \<Longrightarrow> seen_wf (seen_insert h s)"
  by (auto simp: seen_wf_def seen_insert_def Let_def)

lemma seen_fold_set [simp]: "sh_set (fold seen_insert hs s) = set hs \<union> sh_set s"
  by (induction hs arbitrary: s) auto

lemma seen_wf_fold [simp]: "seen_wf s \<Longrightarrow> seen_wf (fold seen_insert hs s)"
  by (induction hs arbitrary: s) auto

lemma seen_fold_fresh:
  "distinct hs \<Longrightarrow> set hs \<inter> sh_set s = {} \<Longrightarrow>
   fold seen_insert hs s = s\<lparr>sh_order := sh_order s @ hs, sh_set := sh_set s \<union> set hs\<rparr>"
  by (induction hs arbitrary: s) (auto simp: seen_insert_def)

lemma prune_oldest_newest:
  assumes "seen_wf s"
  shows "prune_oldest limit s =
    (let keep = drop (length (sh_order s) - limit) (sh_order s) in \<lparr> sh_order = keep, sh_set = set keep \<rparr>)"
  using assms
proof (induction "sh_order s" arbitrary: s)
  case Nil
  then show ?case
    by (subst prune_oldest.simps) (cases s, auto simp: seen_wf_def seen_len_def)
next
  case (Cons h hs)
  let ?s = "s\<lparr>sh_order := hs, sh_set := sh_set s - {h}\<rparr>"
  have wf: "seen_wf ?s" using Cons.hyps(2) [symmetric] Cons.prems by (auto simp: seen_wf_def)
  show ?case
  proof (cases "length (sh_order s) \<le> limit")
    case True
    then show ?thesis
      using Cons.prems by (subst prune_oldest.simps) (cases s, auto simp: seen_len_order seen_wf_def)
  next
    case False
    then have "prune_oldest limit s = prune_oldest limit ?s"
      using Cons.hyps(2) [symmetric] Cons.prems by (subst prune_oldest.simps) (simp add: seen_len_order)
    also have "\<dots> = (let keep = drop (length hs - limit) hs in \<lparr> sh_order = keep, sh_set = set keep \<rparr>)"
      using Cons.hyps(1) [of ?s] wf by simp
    finally show ?thesis
      using False Cons.hyps(2) [symmetric] by (simp add: Suc_diff_le)
  qed
qed

section \<open>Buckets\<close>

text \<open>\<^verbatim>\<open>migration::canonical_state_bucket\<close>.\<close>

definition canonical_state_bucket :: "string \<Rightarrow> string" where
  "canonical_state_bucket project =
     join ''/'' (map (\<lambda>part. to_ascii_lowercase (str_trim part)) (split_where (\<lambda>c. c = slash) project))"

text \<open>The characters of a text, as groups that can be joined and cut again.\<close>

definition char_groups :: "string list \<Rightarrow> bool" where
  "char_groups gs \<longleftrightarrow>
     list_all (\<lambda>g. g \<noteq> [] \<and> list_all utf8_cont (tl g)) gs \<and> list_all (\<lambda>g. \<not> utf8_cont (hd g)) (tl gs)"

lemma char_groups_Cons:
  "char_groups (g # gs) \<longleftrightarrow>
     g \<noteq> [] \<and> list_all utf8_cont (tl g) \<and> (gs = [] \<or> \<not> utf8_cont (hd (hd gs))) \<and> char_groups gs"
  by (cases gs) (auto simp: char_groups_def)

lemma char_groups_utf8: "char_groups (utf8_chars s)"
proof (induction s rule: utf8_chars.induct)
  case (2 c cs)
  show ?case
  proof (cases "dropWhile utf8_cont cs")
    case (Cons d ds)
    then have "\<not> utf8_cont d" using hd_dropWhile [of utf8_cont cs] by simp
    with 2 Cons show ?thesis
      by (auto simp: char_groups_Cons list_all_iff dest: set_takeWhileD simp del: dropWhile_eq_Cons_conv)
  next
    case Nil
    then show ?thesis
      by (auto simp: char_groups_def list_all_iff dest: set_takeWhileD simp del: dropWhile_eq_Nil_conv)
  qed
qed (simp add: char_groups_def)

lemma utf8_chars_groups: "char_groups gs \<Longrightarrow> utf8_chars (concat gs) = gs"
proof (induction gs)
  case (Cons g gs)
  have groups: "char_groups gs"
    using Cons.prems by (cases gs) (auto simp: char_groups_def)
  have start: "concat gs = [] \<or> \<not> utf8_cont (hd (concat gs))"
    using Cons.prems by (cases gs) (auto simp: char_groups_def)
  obtain c cs where g: "g = c # cs" and cs: "list_all utf8_cont cs"
    using Cons.prems by (cases g) (auto simp: char_groups_def)
  have "utf8_chars g = [g]"
    using cs by (simp add: g list_all_iff)
  then show ?case
    using utf8_chars_append [OF start, of g] Cons.IH [OF groups] by simp
qed simp

lemma char_groups_mid: "char_groups (a @ t @ b) \<Longrightarrow> char_groups t"
  by (cases a; cases t) (auto simp: char_groups_def)

definition trim_list :: "('a \<Rightarrow> bool) \<Rightarrow> 'a list \<Rightarrow> 'a list" where
  "trim_list P xs = rev (dropWhile P (rev (dropWhile P xs)))"

lemma trim_list_split: "\<exists>a b. xs = a @ trim_list P xs @ b"
proof -
  have "dropWhile P xs = trim_list P xs @ rev (takeWhile P (rev (dropWhile P xs)))"
    unfolding trim_list_def rev_append [symmetric] takeWhile_dropWhile_id by simp
  then show ?thesis by (metis takeWhile_dropWhile_id)
qed

lemma trim_list_ends: "trim_list P xs \<noteq> [] \<Longrightarrow> \<not> P (hd (trim_list P xs)) \<and> \<not> P (last (trim_list P xs))"
proof -
  assume nonempty: "trim_list P xs \<noteq> []"
  let ?d = "dropWhile P xs"
  have d: "?d = trim_list P xs @ rev (takeWhile P (rev ?d))"
    unfolding trim_list_def rev_append [symmetric] takeWhile_dropWhile_id by simp
  with nonempty have "?d \<noteq> []" "hd (trim_list P xs) = hd ?d"
    by (metis Nil_is_append_conv, metis hd_append2)
  moreover have "\<not> P (hd (dropWhile P (rev ?d)))"
    using nonempty by (intro hd_dropWhile) (auto simp: trim_list_def)
  ultimately show ?thesis
    using hd_dropWhile [of P xs] nonempty by (simp add: trim_list_def last_rev)
qed

lemma str_trim_list: "str_trim s = concat (trim_list char_is_whitespace (utf8_chars s))"
  by (simp add: str_trim_def trim_list_def)

lemma utf8_chars_trim: "utf8_chars (str_trim s) = trim_list char_is_whitespace (utf8_chars s)"
  unfolding str_trim_list
  using trim_list_split [of "utf8_chars s" char_is_whitespace] char_groups_utf8 [of s]
  by (intro utf8_chars_groups) (metis char_groups_mid)

lemma str_trim_idem [simp]: "str_trim (str_trim s) = str_trim s"
proof (cases "str_trim s = []")
  case False
  then have "trim_list char_is_whitespace (utf8_chars s) \<noteq> []"
    using utf8_chars_trim [of s] by (metis utf8_chars_eq_Nil)
  then show ?thesis
    using trim_list_ends by (intro str_trim_id) (auto simp: utf8_chars_trim)
next
  case True
  then show ?thesis by (simp only:) (simp add: str_trim_def)
qed

lemma set_str_trim: "set (str_trim s) \<subseteq> set s"
proof -
  obtain a b where "utf8_chars s = a @ trim_list char_is_whitespace (utf8_chars s) @ b"
    using trim_list_split by blast
  then have "s = concat a @ str_trim s @ concat b"
    unfolding str_trim_list by (metis concat_append concat_utf8_chars)
  then show ?thesis by (metis set_append Un_iff subsetI)
qed

text \<open>Lowercasing moves the letters A to Z only.\<close>

lemma lower_letters: "n < 26 \<Longrightarrow> byte_of (''abcdefghijklmnopqrstuvwxyz'' ! n) = n + 97"
proof -
  have "list_all (\<lambda>n. byte_of (''abcdefghijklmnopqrstuvwxyz'' ! n) = n + 97) [0..<26]" by code_simp
  then show "n < 26 \<Longrightarrow> ?thesis" by (simp add: list_all_iff)
qed

lemma ascii_lower_byte:
  "byte_of (ascii_lower c) = (if 65 \<le> byte_of c \<and> byte_of c \<le> 90 then byte_of c + 32 else byte_of c)"
  using lower_letters [of "byte_of c - 65"] by (auto simp: ascii_lower_def Let_def)

lemma byte_of_inject: "byte_of a = byte_of b \<longleftrightarrow> a = b"
  by (simp add: byte_of_def)

lemma utf8_cont_lower [simp]: "utf8_cont (ascii_lower c) = utf8_cont c"
  by (auto simp: utf8_cont_def ascii_lower_byte)

lemma ascii_lower_idem [simp]: "ascii_lower (ascii_lower c) = ascii_lower c"
  by (simp add: byte_of_inject [symmetric] ascii_lower_byte)

lemma ascii_lower_slash [simp]: "ascii_lower c = slash \<longleftrightarrow> c = slash"
  by (auto simp: byte_of_inject [symmetric] ascii_lower_byte slash_def byte_of_def [of "CHR 0x2F"])

lemma ascii_lower_cont: "utf8_cont c \<Longrightarrow> ascii_lower c = c"
  by (simp add: byte_of_inject [symmetric] ascii_lower_byte utf8_cont_def)

lemma lower_whitespace:
  assumes "g \<noteq> []" "list_all utf8_cont (tl g)"
  shows "char_is_whitespace (map ascii_lower g) = char_is_whitespace g"
proof -
  obtain c cs where g: "g = c # cs" and cs: "list_all utf8_cont cs"
    using assms by (cases g) auto
  have tail: "map ascii_lower cs = cs"
    using cs by (induction cs) (auto simp: ascii_lower_cont)
  have "code_point (map ascii_lower g) = code_point g \<or>
      (65 \<le> code_point g \<and> code_point g \<le> 90 \<and> code_point (map ascii_lower g) = code_point g + 32)"
  proof (cases "65 \<le> byte_of c \<and> byte_of c \<le> 90")
    case True
    then have byte: "byte_of (ascii_lower c) = byte_of c + 32" by (simp add: ascii_lower_byte)
    have "(byte_of c + 32) mod 32 = byte_of c mod 32" "(byte_of c + 32) mod 16 = byte_of c mod 16"
      "(byte_of c + 32) mod 8 = byte_of c mod 8"
      by (simp_all add: mod_add_eq [symmetric, of _ 32])
    with True show ?thesis
      unfolding g list.map tail
      by (cases cs; cases "tl cs"; cases "tl (tl cs)"; cases "tl (tl (tl cs))") (simp_all add: byte)
  next
    case False
    then have "ascii_lower c = c" by (simp add: byte_of_inject [symmetric] ascii_lower_byte)
    then show ?thesis by (simp add: g tail)
  qed
  moreover have "\<And>h. 65 \<le> code_point h \<Longrightarrow> code_point h \<le> 122 \<Longrightarrow> \<not> char_is_whitespace h"
    by (simp add: char_is_whitespace_def)
  ultimately show ?thesis
  proof (elim disjE)
    assume "code_point (map ascii_lower g) = code_point g"
    then show ?thesis by (simp add: char_is_whitespace_def)
  next
    assume "65 \<le> code_point g \<and> code_point g \<le> 90 \<and> code_point (map ascii_lower g) = code_point g + 32"
    then show ?thesis
      using \<open>\<And>h. 65 \<le> code_point h \<Longrightarrow> code_point h \<le> 122 \<Longrightarrow> \<not> char_is_whitespace h\<close> by simp
  qed
qed

lemma utf8_chars_lower: "utf8_chars (map ascii_lower s) = map (map ascii_lower) (utf8_chars s)"
proof -
  have "char_groups (map (map ascii_lower) gs)" if "char_groups gs" for gs
    using that
  proof (induction gs)
    case (Cons g gs)
    then show ?case
      by (cases gs) (auto simp: char_groups_Cons list_all_iff map_tl [symmetric] hd_map)
  qed (simp add: char_groups_def)
  from utf8_chars_groups [OF this [OF char_groups_utf8 [of s]]] show ?thesis
    by (simp add: map_concat [symmetric])
qed

lemma trim_lower: "str_trim (map ascii_lower s) = map ascii_lower (str_trim s)"
proof -
  have ws: "char_is_whitespace (map ascii_lower g) = char_is_whitespace g" if "g \<in> set (utf8_chars s)" for g
    using char_groups_utf8 [of s] that by (intro lower_whitespace) (auto simp: char_groups_def list_all_iff)
  have drop: "dropWhile char_is_whitespace (map (map ascii_lower) gs) = map (map ascii_lower) (dropWhile char_is_whitespace gs)"
    if "set gs \<subseteq> set (utf8_chars s)" for gs
    using that by (induction gs) (auto simp: ws)
  have sub: "set (dropWhile char_is_whitespace gs) \<subseteq> set (utf8_chars s)" if "set gs \<subseteq> set (utf8_chars s)" for gs
    using that by (auto dest: set_dropWhileD)
  show ?thesis
    by (simp add: str_trim_def utf8_chars_lower drop rev_map sub map_concat)
qed

lemma canonical_state_bucket_idem [simp]:
  "canonical_state_bucket (canonical_state_bucket p) = canonical_state_bucket p"
proof -
  let ?names = "map (\<lambda>part. to_ascii_lowercase (str_trim part)) (split_where (\<lambda>c. c = slash) p)"
  have "slash \<notin> set (to_ascii_lowercase (str_trim x))" if "x \<in> set (split_where (\<lambda>c. c = slash) p)" for x
  proof
    assume "slash \<in> set (to_ascii_lowercase (str_trim x))"
    then have "slash \<in> set x"
      using set_str_trim [of x] by (auto simp: to_ascii_lowercase_def) (metis ascii_lower_slash subsetD)
    then show False using split_where_free [OF that, of slash] by auto
  qed
  then have "split_where (\<lambda>c. c = slash) (join ''/'' ?names) = ?names"
    using split_join [of ?names] by (auto simp: slash_def)
  then show ?thesis
    by (simp add: canonical_state_bucket_def to_ascii_lowercase_def trim_lower comp_def)
qed

section \<open>Content hashes\<close>

text \<open>
  \<^verbatim>\<open>stable_hash_fields\<close>: an incremental hasher is the bytes it was fed; the first half of
  the digest is printed in hexadecimal.
\<close>

definition stable_hash_fields :: "(word8 list \<Rightarrow> word8 list) \<Rightarrow> word8 list list \<Rightarrow> string" where
  "stable_hash_fields blake3 parts =
     hex_of_digest (take 16 (blake3 (foldl (\<lambda>fed f. (fed @ le_bytes 8 (length f)) @ f) [] parts)))"

text \<open>\<^verbatim>\<open>i64::to_le_bytes\<close>, and division towards zero.\<close>

definition i64_le_bytes :: "int \<Rightarrow> word8 list" where
  "i64_le_bytes t = le_bytes 8 (nat (t mod 2 ^ 64))"

definition i64_div :: "int \<Rightarrow> int \<Rightarrow> int" where
  "i64_div a b = (if a < 0 then - ((- a) div b) else a div b)"

definition content_hash :: "(word8 list \<Rightarrow> word8 list) \<Rightarrow> string \<Rightarrow> int \<Rightarrow> string \<Rightarrow> string" where
  "content_hash blake3 agent timestamp message =
     stable_hash_fields blake3 [as_bytes agent, i64_le_bytes timestamp, as_bytes message]"

definition overlap_hash :: "(word8 list \<Rightarrow> word8 list) \<Rightarrow> int \<Rightarrow> string \<Rightarrow> string" where
  "overlap_hash blake3 timestamp message =
     (let bucket = i64_div timestamp 60 in
      stable_hash_fields blake3 [i64_le_bytes bucket, as_bytes message])"

section \<open>The state\<close>

record run_record =
  rn_timestamp :: int
  rn_entries_added :: usize
  rn_sources :: "string list"

record state_manager =
  last_processed :: "(string, int) hash_map"
  seen_hashes :: "(string, seen_hash_set) hash_map"
  runs :: "run_record list"
  hash_algorithm :: string

definition siphash13_algorithm :: string where
  "siphash13_algorithm = ''siphash13-v1''"

definition blake3_128_algorithm :: string where
  "blake3_128_algorithm = ''blake3-128-v2''"

definition state_default :: state_manager where
  "state_default =
     \<lparr> last_processed = [], seen_hashes = [], runs = [], hash_algorithm = blake3_128_algorithm \<rparr>"

definition is_new :: "state_manager \<Rightarrow> string \<Rightarrow> string \<Rightarrow> bool" where
  "is_new st project h =
     (case hm_get (seen_hashes st) (canonical_state_bucket project) of
        None \<Rightarrow> True
      | Some s \<Rightarrow> \<not> seen_contains s h)"

definition mark_seen :: "string \<Rightarrow> string \<Rightarrow> state_manager \<Rightarrow> state_manager" where
  "mark_seen project h st =
     st\<lparr>seen_hashes := hm_entry (canonical_state_bucket project) seen_default (seen_insert h) (seen_hashes st)\<rparr>"

definition get_watermark :: "state_manager \<Rightarrow> string \<Rightarrow> int option" where
  "get_watermark st source = hm_get (last_processed st) source"

text \<open>\<^verbatim>\<open>Iterator::max\<close> of instants.\<close>

definition newest :: "int list \<Rightarrow> int option" where
  "newest ts = (case ts of [] \<Rightarrow> None | t # rest \<Rightarrow> Some (fold max rest t))"

definition migrate_watermark_aliases ::
  "string \<Rightarrow> string list \<Rightarrow> state_manager \<Rightarrow> bool \<times> state_manager" where
  "migrate_watermark_aliases canonical aliases st =
     (if hm_get (last_processed st) canonical \<noteq> None then (False, st)
      else (case newest (List.map_filter (hm_get (last_processed st)) aliases) of
              Some ts \<Rightarrow> (True, st\<lparr>last_processed := hm_insert canonical ts (last_processed st)\<rparr>)
            | None \<Rightarrow> (False, st)))"

definition update_watermark :: "string \<Rightarrow> int \<Rightarrow> state_manager \<Rightarrow> state_manager" where
  "update_watermark source ts st =
     st\<lparr>last_processed := hm_entry source ts (\<lambda>old. if ts > old then ts else old) (last_processed st)\<rparr>"

definition record_run :: "int \<Rightarrow> usize \<Rightarrow> string list \<Rightarrow> state_manager \<Rightarrow> state_manager" where
  "record_run now entries sources st =
     st\<lparr>runs := runs st @ [\<lparr> rn_timestamp = now, rn_entries_added = entries, rn_sources = sources \<rparr>]\<rparr>"

definition default_max_hashes :: usize where
  "default_max_hashes = 50000"

definition prune_old_hashes :: "usize \<Rightarrow> state_manager \<Rightarrow> state_manager" where
  "prune_old_hashes max_per_project st =
     (let limit = (if max_per_project = 0 then default_max_hashes else max_per_project) in
      st\<lparr>seen_hashes := map (\<lambda>(k, s). (k, prune_oldest limit s)) (seen_hashes st)\<rparr>)"

definition reset_project :: "string \<Rightarrow> state_manager \<Rightarrow> state_manager" where
  "reset_project project st =
     st\<lparr>seen_hashes := hm_remove (canonical_state_bucket project) (seen_hashes st)\<rparr>"

definition reset_all :: "state_manager \<Rightarrow> state_manager" where
  "reset_all st = st\<lparr>seen_hashes := []\<rparr>"

definition total_hashes :: "state_manager \<Rightarrow> usize" where
  "total_hashes st = sum_list (map (\<lambda>(k, s). seen_len s) (seen_hashes st))"

section \<open>Migration of a loaded state\<close>

record migration_report =
  mr_hash_algorithm_changed :: bool
  mr_cleared_seen_hashes :: usize
  mr_lowercased_seen_hash_buckets :: usize
  mr_merged_seen_hash_buckets :: usize

definition report_default :: migration_report where
  "report_default = \<lparr> mr_hash_algorithm_changed = False, mr_cleared_seen_hashes = 0,
     mr_lowercased_seen_hash_buckets = 0, mr_merged_seen_hash_buckets = 0 \<rparr>"

definition is_legacy_siphash13_algorithm :: "string \<Rightarrow> bool" where
  "is_legacy_siphash13_algorithm a \<longleftrightarrow> str_trim a = siphash13_algorithm"

definition migrate_bucket ::
  "string \<times> seen_hash_set \<Rightarrow> (string, seen_hash_set) hash_map \<times> migration_report
   \<Rightarrow> (string, seen_hash_set) hash_map \<times> migration_report" where
  "migrate_bucket = (\<lambda>(bucket, hashes) (canonicalized, report).
     let canonical = canonical_state_bucket bucket;
         report1 = (if canonical \<noteq> bucket
                    then report\<lparr>mr_lowercased_seen_hash_buckets := mr_lowercased_seen_hash_buckets report + 1\<rparr>
                    else report);
         existed = hm_get canonicalized canonical \<noteq> None;
         canonicalized1 = hm_entry canonical seen_default (\<lambda>s. seen_extend_from s hashes) canonicalized;
         report2 = (if existed
                    then report1\<lparr>mr_merged_seen_hash_buckets := mr_merged_seen_hash_buckets report1 + 1\<rparr>
                    else report1) in
     (canonicalized1, report2))"

definition migrate_loaded_state :: "state_manager \<Rightarrow> state_manager \<times> migration_report" where
  "migrate_loaded_state st =
     (if str_trim (hash_algorithm st) \<noteq> blake3_128_algorithm
      then (st\<lparr>seen_hashes := [], hash_algorithm := blake3_128_algorithm\<rparr>,
            report_default\<lparr>mr_hash_algorithm_changed := True, mr_cleared_seen_hashes := total_hashes st\<rparr>)
      else (let (canonicalized, report) = fold migrate_bucket (seen_hashes st) ([], report_default) in
            (st\<lparr>seen_hashes := canonicalized\<rparr>, report)))"

section \<open>What the hashes tell apart\<close>

definition framed :: "word8 list list \<Rightarrow> word8 list" where
  "framed parts = concat (map (\<lambda>f. le_bytes 8 (length f) @ f) parts)"

lemma stable_hash_framed: "stable_hash_fields blake3 parts = hex_of_digest (take 16 (blake3 (framed parts)))"
proof -
  have "foldl (\<lambda>fed f. (fed @ le_bytes 8 (length f)) @ f) fed parts = fed @ framed parts" for fed
    by (induction parts arbitrary: fed) (simp_all add: framed_def)
  then show ?thesis by (simp add: stable_hash_fields_def)
qed

lemma le_bytes_inject: "m < 256 ^ w \<Longrightarrow> n < 256 ^ w \<Longrightarrow> le_bytes w m = le_bytes w n \<longleftrightarrow> m = n"
  by (metis le_value_bytes mod_less)

lemma framed_inject:
  assumes "list_all (\<lambda>f. length f < 2 ^ 64) xs" "list_all (\<lambda>f. length f < 2 ^ 64) ys"
    and "length xs = length ys" "framed xs = framed ys"
  shows "xs = ys"
  using assms(3,1,2,4)
proof (induction xs ys rule: list_induct2)
  case (Cons x xs y ys)
  have "le_bytes 8 (length x) = le_bytes 8 (length y)" "x @ framed xs = y @ framed ys"
    using Cons.prems(3) by (simp_all add: framed_def)
  moreover from this Cons.prems have "length x = length y"
    using le_bytes_inject [of "length x" 8 "length y"] by simp
  ultimately show ?case using Cons by simp
qed simp

lemma hex_digit_inject: "a < 16 \<Longrightarrow> b < 16 \<Longrightarrow> hex_digit a = hex_digit b \<longleftrightarrow> a = b"
proof -
  have "distinct ''0123456789abcdef''" by code_simp
  then show "a < 16 \<Longrightarrow> b < 16 \<Longrightarrow> ?thesis"
    by (simp add: hex_digit_def nth_eq_iff_index_eq del: nth_Cons_numeral)
qed

lemma hex_of_digest_inject: "hex_of_digest xs = hex_of_digest ys \<Longrightarrow> xs = ys"
proof (induction xs arbitrary: ys)
  case (Cons x xs)
  then obtain y ys' where ys: "ys = y # ys'"
    by (cases ys) (auto simp: hex_of_digest_def hex_byte_def)
  have "unat x < 256" "unat y < 256"
    using unsigned_less [of x] unsigned_less [of y] by simp_all
  moreover have "hex_digit (unat x div 16) = hex_digit (unat y div 16)"
    "hex_digit (unat x mod 16) = hex_digit (unat y mod 16)" "hex_of_digest xs = hex_of_digest ys'"
    using Cons.prems by (simp_all add: ys hex_of_digest_def hex_byte_def)
  ultimately show ?case
    using Cons.IH [of ys'] hex_digit_inject [of "unat x div 16" "unat y div 16"]
      hex_digit_inject [of "unat x mod 16" "unat y mod 16"]
    by (simp add: ys less_mult_imp_div_less) (metis div_mult_mod_eq word_unat_eq_iff)
qed (cases ys, auto simp: hex_of_digest_def hex_byte_def)

lemma as_bytes_inject: "as_bytes a = as_bytes b \<longleftrightarrow> a = b"
proof -
  have "inj (\<lambda>c. of_nat (byte_of c) :: word8)"
  proof (rule injI)
    fix a b assume "(of_nat (byte_of a) :: word8) = of_nat (byte_of b)"
    then have "unat (of_nat (byte_of a) :: word8) = unat (of_nat (byte_of b) :: word8)"
      by (rule arg_cong)
    then have "byte_of a mod 256 = byte_of b mod 256" by (simp add: unat_of_nat)
    moreover have "byte_of c < 256" for c by (simp add: byte_of_def)
    ultimately show "a = b" by (simp add: byte_of_inject)
  qed
  then show ?thesis by (simp add: as_bytes_def inj_map_eq_map)
qed

lemma length_as_bytes [simp]: "length (as_bytes s) = length s"
  by (simp add: as_bytes_def)

definition i64 :: "int \<Rightarrow> bool" where
  "i64 t \<longleftrightarrow> - (2 ^ 63) \<le> t \<and> t < 2 ^ 63"

lemma i64_bytes_inject: "i64 a \<Longrightarrow> i64 b \<Longrightarrow> i64_le_bytes a = i64_le_bytes b \<longleftrightarrow> a = b"
proof -
  assume "i64 a" "i64 b"
  have "nat (t mod 2 ^ 64) < 256 ^ 8" for t :: int
    by (simp add: nat_less_iff)
  then have "i64_le_bytes a = i64_le_bytes b \<longleftrightarrow> a mod 2 ^ 64 = b mod 2 ^ 64"
    by (simp add: i64_le_bytes_def le_bytes_inject eq_nat_nat_iff)
  also have "\<dots> \<longleftrightarrow> a = b"
  proof -
    have "t mod 2 ^ 64 = (if t < 0 then t + 2 ^ 64 else t)" if "i64 t" for t :: int
    proof (cases "t < 0")
      case True
      have "t mod 2 ^ 64 = (t + 2 ^ 64) mod 2 ^ 64" by simp
      also have "\<dots> = t + 2 ^ 64" using that True by (intro mod_pos_pos_trivial) (simp_all add: i64_def)
      finally show ?thesis using True by simp
    qed (use that in \<open>simp add: i64_def\<close>)
    then show ?thesis using \<open>i64 a\<close> \<open>i64 b\<close> by (auto simp: i64_def)
  qed
  finally show ?thesis .
qed

text \<open>The digest takes two different texts to the same sixteen bytes.\<close>

definition collides :: "(word8 list \<Rightarrow> word8 list) \<Rightarrow> word8 list list \<Rightarrow> word8 list list \<Rightarrow> bool" where
  "collides blake3 xs ys \<longleftrightarrow> framed xs \<noteq> framed ys \<and> take 16 (blake3 (framed xs)) = take 16 (blake3 (framed ys))"

lemma stable_hash_eq:
  assumes "list_all (\<lambda>f. length f < 2 ^ 64) xs" "list_all (\<lambda>f. length f < 2 ^ 64) ys" "length xs = length ys"
  shows "stable_hash_fields blake3 xs = stable_hash_fields blake3 ys \<longleftrightarrow> xs = ys \<or> collides blake3 xs ys"
  using framed_inject [OF assms] hex_of_digest_inject
  by (auto simp: stable_hash_framed collides_def)

lemma length_i64_bytes [simp]: "length (i64_le_bytes t) = 8"
  by (simp add: i64_le_bytes_def)

lemma content_hash_eq:
  assumes "i64 t" "i64 t'" "length a < 2 ^ 64" "length a' < 2 ^ 64" "length m < 2 ^ 64" "length m' < 2 ^ 64"
  shows "content_hash blake3 a t m = content_hash blake3 a' t' m' \<longleftrightarrow>
    (a = a' \<and> t = t' \<and> m = m')
    \<or> collides blake3 [as_bytes a, i64_le_bytes t, as_bytes m] [as_bytes a', i64_le_bytes t', as_bytes m']"
  unfolding content_hash_def using assms
  by (subst stable_hash_eq) (auto simp: as_bytes_inject i64_bytes_inject)

lemma i64_div60: "i64 t \<Longrightarrow> i64 (i64_div t 60)"
proof -
  assume "i64 t"
  have "0 \<le> u div 60 \<and> u div 60 \<le> u" if "0 \<le> u" for u :: int
    using that by presburger
  from this [of t] this [of "- t"] \<open>i64 t\<close> show ?thesis
    by (auto simp: i64_def i64_div_def)
qed

lemma overlap_hash_eq:
  assumes "i64 t" "i64 t'" "length m < 2 ^ 64" "length m' < 2 ^ 64"
  shows "overlap_hash blake3 t m = overlap_hash blake3 t' m' \<longleftrightarrow>
    (i64_div t 60 = i64_div t' 60 \<and> m = m')
    \<or> collides blake3 [i64_le_bytes (i64_div t 60), as_bytes m] [i64_le_bytes (i64_div t' 60), as_bytes m']"
  unfolding overlap_hash_def Let_def using assms i64_div60
  by (subst stable_hash_eq) (auto simp: as_bytes_inject i64_bytes_inject)

section \<open>Laws of the state\<close>

definition buckets_wf :: "(string, seen_hash_set) hash_map \<Rightarrow> bool" where
  "buckets_wf m \<longleftrightarrow> hm_wf m \<and> (\<forall>(k, s) \<in> set m. canonical_state_bucket k = k \<and> seen_wf s)"

definition state_wf :: "state_manager \<Rightarrow> bool" where
  "state_wf st \<longleftrightarrow> hm_wf (last_processed st) \<and> buckets_wf (seen_hashes st)"

text \<open>Whether a hash was seen in the bucket of a project.\<close>

definition seen_in :: "(string, seen_hash_set) hash_map \<Rightarrow> string \<Rightarrow> string \<Rightarrow> bool" where
  "seen_in m bucket h \<longleftrightarrow> (\<exists>s. hm_get m bucket = Some s \<and> h \<in> sh_set s)"

lemma is_new_seen_in: "is_new st project h \<longleftrightarrow> \<not> seen_in (seen_hashes st) (canonical_state_bucket project) h"
  by (auto simp: is_new_def seen_in_def seen_contains_def split: option.split)

lemma set_hm_insert: "set (hm_insert k v m) \<subseteq> insert (k, v) (set m)"
  unfolding hm_insert_def by (induction m) auto

lemma buckets_wf_entry:
  assumes "buckets_wf m" "canonical_state_bucket k = k" "\<And>s. seen_wf s \<Longrightarrow> seen_wf (f s)"
  shows "buckets_wf (hm_entry k seen_default f m)"
proof -
  have "seen_wf (case hm_get m k of Some v \<Rightarrow> v | None \<Rightarrow> seen_default)"
    using assms(1) by (auto simp: buckets_wf_def hm_get_in split: option.split)
  then show ?thesis
    using assms set_hm_insert [of k "f (case hm_get m k of Some v \<Rightarrow> v | None \<Rightarrow> seen_default)" m]
    by (fastforce simp: buckets_wf_def hm_entry_def)
qed

lemma seen_in_entry:
  "(\<And>s. sh_set (f s) = hs \<union> sh_set s) \<Longrightarrow>
   seen_in (hm_entry k seen_default f m) l h \<longleftrightarrow> seen_in m l h \<or> (l = k \<and> h \<in> hs)"
  by (auto simp: seen_in_def seen_default_def split: option.splits)

lemma is_new_mark_seen:
  "is_new (mark_seen p g st) q h \<longleftrightarrow>
     is_new st q h \<and> \<not> (canonical_state_bucket q = canonical_state_bucket p \<and> h = g)"
  by (auto simp: is_new_seen_in mark_seen_def seen_in_entry [where hs = "{g}"])

lemma state_wf_mark_seen: "state_wf st \<Longrightarrow> state_wf (mark_seen p h st)"
  by (simp add: state_wf_def mark_seen_def buckets_wf_entry)

lemma get_update_watermark:
  "get_watermark (update_watermark source ts st) other =
     (if other = source
      then Some (case get_watermark st source of Some old \<Rightarrow> max old ts | None \<Rightarrow> ts)
      else get_watermark st other)"
  by (auto simp: get_watermark_def update_watermark_def max_def split: option.split)

lemma newest_Max: "newest ts = (if ts = [] then None else Some (Max (set ts)))"
  by (cases ts) (simp_all add: newest_def Max.set_eq_fold [symmetric])

lemma set_map_filter: "set (List.map_filter f xs) = {y. \<exists>x\<in>set xs. f x = Some y}"
  by (induction xs) (auto simp: List.map_filter_simps split: option.split)

text \<open>The watermark carried over is the newest that any of the aliases has.\<close>

lemma get_migrated_watermark:
  "get_watermark (snd (migrate_watermark_aliases canonical aliases st)) source =
     (if source = canonical \<and> get_watermark st canonical = None
      then newest (List.map_filter (get_watermark st) aliases)
      else get_watermark st source)"
  by (auto simp: get_watermark_def [abs_def] migrate_watermark_aliases_def newest_Max split: option.split)

section \<open>Sequences of calls\<close>

datatype state_call =
    CallMarkSeen string string
  | CallUpdateWatermark string int
  | CallMigrateAliases string "string list"
  | CallRecordRun int usize "string list"
  | CallPrune usize
  | CallResetProject string
  | CallResetAll

fun run_call :: "state_call \<Rightarrow> state_manager \<Rightarrow> state_manager" where
  "run_call (CallMarkSeen p h) = mark_seen p h"
| "run_call (CallUpdateWatermark source ts) = update_watermark source ts"
| "run_call (CallMigrateAliases canonical aliases) = (\<lambda>st. snd (migrate_watermark_aliases canonical aliases st))"
| "run_call (CallRecordRun now n sources) = record_run now n sources"
| "run_call (CallPrune n) = prune_old_hashes n"
| "run_call (CallResetProject p) = reset_project p"
| "run_call CallResetAll = reset_all"

lemma seen_wf_prune: "seen_wf s \<Longrightarrow> seen_wf (prune_oldest limit s)"
  by (simp add: prune_oldest_newest Let_def) (simp add: seen_wf_def)

lemma buckets_wf_map:
  "buckets_wf m \<Longrightarrow> (\<And>s. seen_wf s \<Longrightarrow> seen_wf (f s)) \<Longrightarrow> buckets_wf (map (\<lambda>(k, s). (k, f s)) m)"
  by (auto simp: buckets_wf_def hm_wf_def comp_def case_prod_beta)

lemma buckets_wf_remove: "buckets_wf m \<Longrightarrow> buckets_wf (hm_remove k m)"
  unfolding buckets_wf_def using hm_wf_remove [of m k] by (auto simp: hm_remove_def delete_conv' AList.delete_eq)

lemma state_wf_call: "state_wf st \<Longrightarrow> state_wf (run_call c st)"
  by (cases c)
     (auto simp: state_wf_mark_seen, auto simp: state_wf_def update_watermark_def record_run_def
        migrate_watermark_aliases_def prune_old_hashes_def Let_def reset_project_def reset_all_def
        buckets_wf_remove buckets_wf_map seen_wf_prune buckets_wf_def [of "[]"] split: option.split)

lemma watermark_kept:
  "get_watermark (mark_seen p h st) = get_watermark st" "get_watermark (record_run now n sources st) = get_watermark st"
  "get_watermark (prune_old_hashes n st) = get_watermark st" "get_watermark (reset_project p st) = get_watermark st"
  "get_watermark (reset_all st) = get_watermark st"
  by (simp_all add: fun_eq_iff get_watermark_def mark_seen_def record_run_def prune_old_hashes_def
      reset_project_def reset_all_def Let_def)

lemma watermark_call:
  "get_watermark st source = Some t \<Longrightarrow> \<exists>t'\<ge>t. get_watermark (run_call c st) source = Some t'"
  by (cases c) (auto simp: get_update_watermark get_migrated_watermark watermark_kept)

text \<open>
  The set of seen hashes keeps its promises: its order lists its members once each; an inserted
  hash becomes the newest and nothing else moves; pruning keeps exactly the newest \<open>limit\<close>;
  merging keeps the members of both; and what is written is read back as it was.
\<close>

theorem seen_set_laws:
  assumes "seen_wf s" "seen_wf t"
  shows "seen_wf (seen_insert h s)
    \<and> seen_serialize (seen_insert h s) = filter (\<lambda>e. e \<noteq> h) (seen_serialize s) @ [h]
    \<and> seen_wf (prune_oldest limit s)
    \<and> seen_serialize (prune_oldest limit s) = drop (seen_len s - limit) (seen_serialize s)
    \<and> seen_wf (seen_extend_from s t)
    \<and> (\<forall>g. seen_contains (seen_extend_from s t) g \<longleftrightarrow> seen_contains s g \<or> seen_contains t g)
    \<and> seen_wf (seen_deserialize hs) \<and> (\<forall>g. seen_contains (seen_deserialize hs) g \<longleftrightarrow> g \<in> set hs)
    \<and> seen_deserialize (seen_serialize s) = s"
proof -
  have "seen_deserialize (seen_serialize s) = s"
    using assms(1) by (cases s) (simp add: seen_deserialize_def seen_serialize_def seen_fold_fresh seen_default_def seen_wf_def)
  moreover have "seen_wf (prune_oldest limit s)" using assms(1) by (rule seen_wf_prune)
  moreover have "seen_serialize (prune_oldest limit s) = drop (seen_len s - limit) (seen_serialize s)"
    using assms(1) by (simp add: seen_serialize_def prune_oldest_newest Let_def seen_len_order)
  ultimately show ?thesis using assms
    by (auto simp: seen_serialize_def seen_insert_order seen_extend_from_def seen_contains_def seen_wf_def [of t] seen_deserialize_def)
       (simp_all add: seen_default_def)
qed

text \<open>
  C20: Whatever calls are made on a state, its maps stay maps, every bucket is named canonically and
  holds a set that lists its members once each, and no watermark ever goes back or is lost.
\<close>

theorem state_calls_safe:
  assumes "state_wf st"
  shows "state_wf (fold run_call calls st)
    \<and> (\<forall>source. case get_watermark st source of None \<Rightarrow> True
         | Some t \<Rightarrow> (case get_watermark (fold run_call calls st) source of None \<Rightarrow> False | Some t' \<Rightarrow> t \<le> t'))"
proof -
  have "state_wf (fold run_call calls st)"
    using assms by (induction calls arbitrary: st) (simp_all add: state_wf_call)
  moreover have "\<exists>t'\<ge>t. get_watermark (fold run_call calls st) source = Some t'"
    if "get_watermark st source = Some t" for source t
    using that
  proof (induction calls arbitrary: st t)
    case (Cons c calls)
    from watermark_call [OF Cons.prems, of c] Cons.IH show ?case by (metis fold_simps(2) order_trans)
  qed simp
  ultimately show ?thesis by (fastforce split: option.split)
qed

section \<open>Laws of the migration\<close>

lemma migrate_bucket_map:
  "fst (migrate_bucket (bucket, s) (m, r)) = hm_entry (canonical_state_bucket bucket) seen_default (\<lambda>t. seen_extend_from t s) m"
  by (simp add: migrate_bucket_def Let_def)

lemma seen_extend_set: "seen_wf s \<Longrightarrow> sh_set (seen_extend_from t s) = sh_set s \<union> sh_set t"
  by (simp add: seen_extend_from_def seen_wf_def)

lemma migrate_fold:
  assumes "\<forall>(k, s) \<in> set buckets. seen_wf s" "buckets_wf m"
  shows "buckets_wf (fst (fold migrate_bucket buckets (m, r)))
    \<and> (\<forall>k h. seen_in (fst (fold migrate_bucket buckets (m, r))) k h \<longleftrightarrow>
        seen_in m k h \<or> (\<exists>(bucket, s) \<in> set buckets. canonical_state_bucket bucket = k \<and> h \<in> sh_set s))"
  using assms
proof (induction buckets arbitrary: m r)
  case (Cons b buckets)
  obtain bucket s where b: "b = (bucket, s)" by (cases b)
  obtain m' r' where step: "migrate_bucket b (m, r) = (m', r')" by (cases "migrate_bucket b (m, r)")
  then have m': "m' = hm_entry (canonical_state_bucket bucket) seen_default (\<lambda>t. seen_extend_from t s) m"
    using migrate_bucket_map [of bucket s m r] by (simp add: b)
  have wf: "seen_wf s" using Cons.prems by (simp add: b)
  have "buckets_wf m'"
    unfolding m' using Cons.prems(2) by (intro buckets_wf_entry) (simp_all add: seen_extend_from_def)
  moreover have "seen_in m' k h \<longleftrightarrow> seen_in m k h \<or> (k = canonical_state_bucket bucket \<and> h \<in> sh_set s)" for k h
    unfolding m' by (rule seen_in_entry) (rule seen_extend_set [OF wf])
  ultimately show ?case
    using Cons.IH [of m' r'] Cons.prems(1) step by (auto simp: b)
qed simp

text \<open>
  C21: A loaded state is well formed after its migration, and a hash is seen under a project exactly
  when the loaded state was written under the current algorithm and has the hash in some spelling of
  the project's bucket, whatever order the buckets are visited in; watermarks and runs are kept.
\<close>

theorem migration_unions_spellings:
  assumes "hm_wf (last_processed st)" "\<forall>s\<in>snd ` set (seen_hashes st). seen_wf s"
  shows "state_wf (fst (migrate_loaded_state st))
    \<and> (\<forall>project h. is_new (fst (migrate_loaded_state st)) project h \<longleftrightarrow>
        \<not> (str_trim (hash_algorithm st) = blake3_128_algorithm
           \<and> (\<exists>(bucket, s) \<in> set (seen_hashes st).
                canonical_state_bucket bucket = canonical_state_bucket project \<and> seen_contains s h)))
    \<and> last_processed (fst (migrate_loaded_state st)) = last_processed st
    \<and> runs (fst (migrate_loaded_state st)) = runs st
    \<and> str_trim (hash_algorithm (fst (migrate_loaded_state st))) = blake3_128_algorithm"
proof (cases "str_trim (hash_algorithm st) = blake3_128_algorithm")
  case True
  let ?m = "fst (fold migrate_bucket (seen_hashes st) ([], report_default))"
  have migrated: "fst (migrate_loaded_state st) = st\<lparr>seen_hashes := ?m\<rparr>"
    using True by (simp add: migrate_loaded_state_def case_prod_beta)
  have all: "\<forall>(k, s) \<in> set (seen_hashes st). seen_wf s" using assms(2) by auto
  have "buckets_wf []" by (simp add: buckets_wf_def)
  from migrate_fold [OF all this, of report_default] show ?thesis
    using assms(1) True unfolding migrated
    by (simp add: state_wf_def is_new_seen_in seen_contains_def) (auto simp: seen_in_def)
next
  case False
  have "str_trim blake3_128_algorithm = blake3_128_algorithm"
    by (simp add: blake3_128_algorithm_def str_trim_visible utf8_cont_def byte_of_def char_is_whitespace_def
        str_trim_id)
  with False assms show ?thesis
    by (simp add: migrate_loaded_state_def state_wf_def buckets_wf_def is_new_def)
qed

section \<open>What equal hashes mean\<close>

text \<open>
  Equal content hashes mean the same agent, second and message, and equal overlap hashes the
  same minute and message, unless BLAKE3 itself takes two texts to the same sixteen bytes: no way of
  cutting agent, time and message apart differently gives the same text.
\<close>

theorem hashes_separate:
  assumes "i64 t" "i64 t'" "length a < 2 ^ 64" "length a' < 2 ^ 64" "length m < 2 ^ 64" "length m' < 2 ^ 64"
  shows "(content_hash blake3 a t m = content_hash blake3 a' t' m' \<longleftrightarrow>
      (a = a' \<and> t = t' \<and> m = m')
      \<or> collides blake3 [as_bytes a, i64_le_bytes t, as_bytes m] [as_bytes a', i64_le_bytes t', as_bytes m'])
    \<and> (overlap_hash blake3 t m = overlap_hash blake3 t' m' \<longleftrightarrow>
      (i64_div t 60 = i64_div t' 60 \<and> m = m')
      \<or> collides blake3 [i64_le_bytes (i64_div t 60), as_bytes m] [i64_le_bytes (i64_div t' 60), as_bytes m'])"
  using content_hash_eq [OF assms] overlap_hash_eq [OF assms(1,2,5,6)] by blast

text \<open>The window of the overlap hash around the epoch is two minutes less a second.\<close>

lemma overlap_window_epoch: "\<bar>t\<bar> < 60 \<Longrightarrow> \<bar>t'\<bar> < 60 \<Longrightarrow> overlap_hash blake3 t m = overlap_hash blake3 t' m"
proof -
  have "i64_div u 60 = 0" if "\<bar>u\<bar> < 60" for u using that by (auto simp: i64_div_def)
  then show "\<bar>t\<bar> < 60 \<Longrightarrow> \<bar>t'\<bar> < 60 \<Longrightarrow> ?thesis" by (simp add: overlap_hash_def)
qed

section \<open>Witnesses\<close>

definition sample_seen :: seen_hash_set where
  "sample_seen = \<lparr> sh_order = [''h1'', ''h2''], sh_set = {''h1'', ''h2''} \<rparr>"

lemma sample_seen_wf [simp]: "seen_wf sample_seen"
  by (auto simp: seen_wf_def sample_seen_def)

definition sample_state :: state_manager where
  "sample_state = state_default\<lparr>last_processed := [(''codex:all'', 7)],
     seen_hashes := [(''Org/Repo'', sample_seen), (''org/repo'', seen_default)]\<rparr>"

lemma seen_set_laws_witness:
  "seen_serialize (seen_insert ''h1'' sample_seen) = [''h2'', ''h1'']
   \<and> seen_serialize (prune_oldest 1 sample_seen) = [''h2'']
   \<and> seen_deserialize [''h1'', ''h2''] = sample_seen"
proof -
  have sizes: "seen_len sample_seen = 2" "seen_serialize sample_seen = [''h1'', ''h2'']"
    by (simp_all add: seen_len_order seen_serialize_def) (simp_all add: sample_seen_def)
  from seen_set_laws [OF sample_seen_wf sample_seen_wf, of "''h1''" 1 "[]"] show ?thesis
    by (simp add: sizes)
qed

lemma state_calls_safe_witness:
  "get_watermark (fold run_call [CallUpdateWatermark ''codex:all'' 9, CallUpdateWatermark ''codex:all'' 8,
     CallMarkSeen ''A/B'' ''h'', CallPrune 0, CallResetAll] (state_default\<lparr>last_processed := [(''codex:all'', 7)]\<rparr>))
     ''codex:all'' = Some 9
   \<and> state_wf (fold run_call [CallUpdateWatermark ''codex:all'' 9, CallUpdateWatermark ''codex:all'' 8,
     CallMarkSeen ''A/B'' ''h'', CallPrune 0, CallResetAll] (state_default\<lparr>last_processed := [(''codex:all'', 7)]\<rparr>))"
proof -
  have "state_wf (state_default\<lparr>last_processed := [(''codex:all'', 7)]\<rparr>)"
    by (simp add: state_wf_def state_default_def buckets_wf_def hm_wf_def)
  from conjunct1 [OF state_calls_safe [OF this]] show ?thesis
    by (intro conjI) (simp add: get_update_watermark watermark_kept, simp add: get_watermark_def state_default_def hm_get_def)
qed

lemma migration_unions_spellings_witness:
  "\<not> is_new (fst (migrate_loaded_state sample_state)) ''ORG / repo'' ''h2''"
proof -
  have "hm_wf (last_processed sample_state)" "\<forall>s\<in>snd ` set (seen_hashes sample_state). seen_wf s"
    by (simp_all add: sample_state_def hm_wf_def)
  note laws = migration_unions_spellings [OF this]
  have bucket: "canonical_state_bucket ''Org/Repo'' = ''org/repo''" "canonical_state_bucket ''ORG / repo'' = ''org/repo''"
    by (simp_all add: canonical_state_bucket_def slash_def rust_eval)
  have "seen_contains sample_seen ''h2''" by (simp add: seen_contains_def sample_seen_def)
  moreover have "str_trim blake3_128_algorithm = blake3_128_algorithm"
    by (simp add: blake3_128_algorithm_def rust_eval)
  ultimately show ?thesis
    using laws by (auto simp: sample_state_def state_default_def bucket)
qed

lemma hashes_separate_witness:
  "content_hash (\<lambda>bs. rev bs) ''a'' 0 ''bc'' \<noteq> content_hash (\<lambda>bs. rev bs) ''ab'' 0 ''c''
   \<and> overlap_hash (\<lambda>bs. rev bs) 61 ''x'' = overlap_hash (\<lambda>bs. rev bs) 119 ''x''"
proof -
  have range: "i64 0" "i64 61" "i64 119" by (simp_all add: i64_def)
  have apart: "\<not> collides rev [as_bytes ''a'', i64_le_bytes 0, as_bytes ''bc''] [as_bytes ''ab'', i64_le_bytes 0, as_bytes ''c'']"
    by code_simp
  from hashes_separate [OF range(1,1), of "''a''" "''ab''" "''bc''" "''c''" rev] apart
    hashes_separate [OF range(2,3), of "''a''" "''a''" "''x''" "''x''" rev] show ?thesis
    by (simp add: i64_div_def)
qed

end
