(* ===== verification/Segmentation.thy ===== *)
theory Segmentation
  imports Path_Guard Seen_Hashes
begin

text \<open>
  Cutting timelines into segments that belong to one repository each
  (\<^verbatim>\<open>crates/aicx-parser/src/segmentation.rs\<close> and the types of \<^verbatim>\<open>timeline.rs\<close>): the
  evidence of a working directory, its tiers of trust, the cut of every session where the
  repository it works in changes, and the kind of a segment. The host's file system is the record
  of the scope evidence; what \<^verbatim>\<open>git remote get-url origin\<close> prints in a directory and the
  home directory are parameters. A timeline entry keeps the fields this code reads and carries the
  others along unread. The map of sessions is walked in the order it yields them, which is left open.
\<close>

section \<open>Types of the timeline\<close>

record 'x timeline_entry =
  te_timestamp :: int
  te_agent :: string
  te_session_id :: string
  te_role :: string
  te_message :: string
  te_cwd :: "string option"
  te_rest :: 'x

datatype segment_kind = KindConversations | KindPlans | KindReports | KindOther

definition kind_dir_name :: "segment_kind \<Rightarrow> string" where
  "kind_dir_name k =
     (case k of KindConversations \<Rightarrow> ''conversations'' | KindPlans \<Rightarrow> ''plans''
      | KindReports \<Rightarrow> ''reports'' | KindOther \<Rightarrow> ''other'')"

definition kind_parse :: "string \<Rightarrow> segment_kind option" where
  "kind_parse s =
     (let l = to_ascii_lowercase s in
      if l = ''conversations'' \<or> l = ''conversation'' then Some KindConversations
      else if l = ''plans'' \<or> l = ''plan'' then Some KindPlans
      else if l = ''reports'' \<or> l = ''report'' then Some KindReports
      else if l = ''other'' then Some KindOther
      else None)"

datatype source_tier = TierPrimary | TierSecondary | TierFallback | TierOpaque

definition tier_is_assertable :: "source_tier \<Rightarrow> bool" where
  "tier_is_assertable t \<longleftrightarrow> t = TierPrimary \<or> t = TierSecondary"

record repo_identity =
  ri_organization :: string
  ri_repository :: string

definition repo_slug :: "repo_identity \<Rightarrow> string" where
  "repo_slug r = ri_organization r @ ''/'' @ ri_repository r"

record 'x semantic_segment =
  sg_repo :: "repo_identity option"
  sg_source_tier :: "source_tier option"
  sg_kind :: segment_kind
  sg_agent :: string
  sg_session_id :: string
  sg_entries :: "'x timeline_entry list"

definition project_label :: "'x semantic_segment \<Rightarrow> string" where
  "project_label s = (case sg_repo s of Some r \<Rightarrow> repo_slug r | None \<Rightarrow> ''non-repository-contexts'')"

definition has_assertable_identity :: "'x semantic_segment \<Rightarrow> bool" where
  "has_assertable_identity s = (case sg_source_tier s of Some t \<Rightarrow> tier_is_assertable t | None \<Rightarrow> False)"

record tiered_identity =
  ti_identity :: repo_identity
  ti_tier :: source_tier

section \<open>Names of repositories\<close>

definition is_ascii_alphanumeric :: "char \<Rightarrow> bool" where
  "is_ascii_alphanumeric c \<longleftrightarrow> is_ascii_digit c \<or> ascii_alphabetic c"

definition looks_like_date_pattern :: "string \<Rightarrow> bool" where
  "looks_like_date_pattern v \<longleftrightarrow>
     (if length v = 10 then
        list_all is_ascii_digit (take 4 v)
        \<and> (v ! 4 = CHR ''-'' \<or> v ! 4 = CHR ''_'')
        \<and> list_all is_ascii_digit (take 2 (drop 5 v))
        \<and> v ! 7 = v ! 4
        \<and> list_all is_ascii_digit (take 2 (drop 8 v))
      else if length v = 9 then
        list_all is_ascii_digit (take 4 v) \<and> v ! 4 = CHR ''_'' \<and> list_all is_ascii_digit (take 4 (drop 5 v))
      else False)"

definition reserved_names :: "string list" where
  "reserved_names = [''.'', ''..'', ''...'', ''local'', ''tmp'', ''temp'', ''src'', ''app'', ''lib'',
     ''docs'', ''workspace'', ''workspaces'']"

text \<open>A character of these classes is one byte, and any byte of a longer one is in none of them.\<close>

definition is_probably_repo_name :: "string \<Rightarrow> bool" where
  "is_probably_repo_name v \<longleftrightarrow>
     (if v = [] \<or> length v > 64 then False
      else if \<not> is_ascii_alphanumeric (hd v) then False
      else if \<not> list_all (\<lambda>c. is_ascii_alphanumeric c \<or> c = CHR ''.'' \<or> c = CHR ''-'' \<or> c = CHR ''_'') (tl v) then False
      else if to_ascii_lowercase v \<in> set reserved_names then False
      else if length (filter (\<lambda>c. c = CHR ''.'') v) > chars_count v div 2 then False
      else \<not> looks_like_date_pattern v)"

definition local_repo_fallback :: "string \<Rightarrow> string" where
  "local_repo_fallback repository = (if is_probably_repo_name repository then repository else ''unknown'')"

text \<open>\<^verbatim>\<open>trim_end_matches(".git")\<close> takes the suffix off as often as it is there.\<close>

function trim_end_git :: "string \<Rightarrow> string" where
  "trim_end_git s = (if ends_with s ''.git'' then trim_end_git (take (length s - 4) s) else s)"
  by pat_completeness auto
termination
  by (relation "measure length") (auto simp: ends_with_def suffix_def)

declare trim_end_git.simps [simp del]

definition repo_identity_from_remote_path :: "string \<Rightarrow> repo_identity option" where
  "repo_identity_from_remote_path path =
     (case split_where (\<lambda>c. c = slash) path of
        org # repo # _ \<Rightarrow>
          (let organization = str_trim org; repository = trim_end_git (str_trim repo) in
           if is_probably_repo_name organization \<and> is_probably_repo_name repository
           then Some \<lparr> ri_organization = organization, ri_repository = repository \<rparr>
           else Some \<lparr> ri_organization = ''local'', ri_repository = local_repo_fallback repository \<rparr>)
      | _ \<Rightarrow> None)"

text \<open>\<^verbatim>\<open>split_whitespace\<close> on the characters of a text.\<close>

function whitespace_runs :: "string list \<Rightarrow> string list" where
  "whitespace_runs gs =
     (case dropWhile char_is_whitespace gs of
        [] \<Rightarrow> []
      | g # rest \<Rightarrow>
          concat (g # takeWhile (\<lambda>x. \<not> char_is_whitespace x) rest)
          # whitespace_runs (dropWhile (\<lambda>x. \<not> char_is_whitespace x) rest))"
  by pat_completeness auto
termination
proof (relation "measure length", goal_cases)
  case (2 gs g rest)
  have "length (dropWhile char_is_whitespace gs) \<le> length gs" by (rule length_dropWhile_le)
  moreover have "length (dropWhile (\<lambda>x. \<not> char_is_whitespace x) rest) \<le> length rest" by (rule length_dropWhile_le)
  ultimately show ?case using 2 by simp
qed simp

declare whitespace_runs.simps [simp del]

definition split_whitespace :: "string \<Rightarrow> string list" where
  "split_whitespace s = whitespace_runs (utf8_chars s)"

definition link_wrapping :: "char \<Rightarrow> bool" where
  "link_wrapping c \<longleftrightarrow> c \<in> set [CHR 0x22, CHR 0x27, CHR '','', CHR ''.'', CHR '')'', CHR ''('', CHR ''['', CHR '']'']"

definition trim_link :: "string \<Rightarrow> string" where
  "trim_link s = rev (dropWhile link_wrapping (rev (dropWhile link_wrapping s)))"

definition remote_prefixes :: "string list" where
  "remote_prefixes = [''https://github.com/'', ''http://github.com/'', ''https://gitlab.com/'',
     ''http://gitlab.com/'', ''git@github.com:'', ''git@gitlab.com:'']"

fun first_some :: "('a \<Rightarrow> 'b option) \<Rightarrow> 'a list \<Rightarrow> 'b option" where
  "first_some f [] = None"
| "first_some f (x # xs) = (case f x of Some y \<Rightarrow> Some y | None \<Rightarrow> first_some f xs)"

definition infer_repo_identity_from_remote_like :: "string \<Rightarrow> repo_identity option" where
  "infer_repo_identity_from_remote_like raw =
     first_some (\<lambda>token.
       let trimmed = trim_link token in
       first_some (\<lambda>prefix.
         case strip_prefix trimmed prefix of
           Some rest \<Rightarrow> repo_identity_from_remote_path rest
         | None \<Rightarrow> None) remote_prefixes)
     (split_whitespace raw)"

definition looks_like_weak_source_identifier :: "string \<Rightarrow> bool" where
  "looks_like_weak_source_identifier raw \<longleftrightarrow>
     (let trimmed = str_trim raw in
      length trimmed \<ge> 16 \<and> list_all is_ascii_hexdigit trimmed \<and> slash \<notin> set trimmed \<and> CHR '':'' \<notin> set trimmed)"

section \<open>Identity of a working directory\<close>

record environment =
  ev_host :: host
  ev_git_origin :: "string \<Rightarrow> string option"
  ev_home :: "string option"

definition infer_repo_identity_from_git_remote :: "environment \<Rightarrow> string \<Rightarrow> repo_identity option" where
  "infer_repo_identity_from_git_remote env repo_root =
     (case ev_git_origin env repo_root of
        None \<Rightarrow> None
      | Some remote \<Rightarrow> infer_repo_identity_from_remote_like (str_trim remote))"

definition layout_markers :: "string list" where
  "layout_markers = [''hosted'', ''repos'', ''repositories'', ''github'', ''git'']"

fun position :: "('a \<Rightarrow> bool) \<Rightarrow> 'a list \<Rightarrow> nat option" where
  "position P [] = None"
| "position P (x # xs) = (if P x then Some 0 else map_option Suc (position P xs))"

definition eq_ignore_ascii_case :: "string \<Rightarrow> string \<Rightarrow> bool" where
  "eq_ignore_ascii_case a b \<longleftrightarrow> to_ascii_lowercase a = to_ascii_lowercase b"

definition infer_repo_identity_from_known_layout :: "string \<Rightarrow> repo_identity option" where
  "infer_repo_identity_from_known_layout path =
     (let components = path_components path in
      first_some (\<lambda>marker.
        case position (\<lambda>c. eq_ignore_ascii_case c marker) components of
          None \<Rightarrow> None
        | Some marker_index \<Rightarrow>
            if length components > marker_index + 2 then
              (let organization = components ! (marker_index + 1);
                   repository = components ! (marker_index + 2) in
               if is_probably_repo_name organization \<and> is_probably_repo_name repository
               then Some \<lparr> ri_organization = organization, ri_repository = repository \<rparr> else None)
            else None)
        layout_markers)"

definition local_identity :: "string \<Rightarrow> repo_identity" where
  "local_identity name = \<lparr> ri_organization = ''local'', ri_repository = name \<rparr>"

definition infer_repo_identity_from_local_git :: "environment \<Rightarrow> string \<Rightarrow> repo_identity option" where
  "infer_repo_identity_from_local_git env path =
     (case discover_git_root (ev_host env) path of
        None \<Rightarrow> None
      | Some repo_root \<Rightarrow>
          (case infer_repo_identity_from_git_remote env repo_root of
             Some i \<Rightarrow> Some i
           | None \<Rightarrow>
               (case infer_repo_identity_from_known_layout repo_root of
                  Some i \<Rightarrow> Some i
                | None \<Rightarrow> map_option local_identity (path_file_name repo_root))))"

definition infer_repo_identity_from_path :: "environment \<Rightarrow> string \<Rightarrow> repo_identity option" where
  "infer_repo_identity_from_path env path =
     (case infer_repo_identity_from_local_git env path of
        Some i \<Rightarrow> Some i
      | None \<Rightarrow> infer_repo_identity_from_known_layout path)"

definition tiered :: "source_tier \<Rightarrow> repo_identity \<Rightarrow> tiered_identity" where
  "tiered t i = \<lparr> ti_identity = i, ti_tier = t \<rparr>"

definition infer_tiered_identity_from_path :: "environment \<Rightarrow> string \<Rightarrow> tiered_identity option" where
  "infer_tiered_identity_from_path env path =
     (let layout = map_option (tiered TierFallback) (infer_repo_identity_from_known_layout path) in
      case discover_git_root (ev_host env) path of
        None \<Rightarrow> layout
      | Some repo_root \<Rightarrow>
          (case infer_repo_identity_from_git_remote env repo_root of
             Some i \<Rightarrow> Some (tiered TierPrimary i)
           | None \<Rightarrow>
               (case infer_repo_identity_from_known_layout repo_root of
                  Some i \<Rightarrow> Some (tiered TierSecondary i)
                | None \<Rightarrow>
                    (case path_file_name repo_root of
                       Some name \<Rightarrow> Some (tiered TierSecondary (local_identity name))
                     | None \<Rightarrow> layout))))"

definition expand_home :: "environment \<Rightarrow> string \<Rightarrow> string" where
  "expand_home env raw =
     (case strip_prefix raw ''~/'' of
        Some rest \<Rightarrow> (case ev_home env of Some home \<Rightarrow> path_join home rest | None \<Rightarrow> raw)
      | None \<Rightarrow> raw)"

definition infer_tiered_identity_from_cwd :: "environment \<Rightarrow> string option \<Rightarrow> tiered_identity option" where
  "infer_tiered_identity_from_cwd env cwd =
     (case cwd of
        None \<Rightarrow> None
      | Some raw \<Rightarrow>
          (let c = str_trim raw in
           if c = [] \<or> looks_like_weak_source_identifier c then None
           else case infer_repo_identity_from_remote_like c of
             Some i \<Rightarrow> Some (tiered TierPrimary i)
           | None \<Rightarrow> infer_tiered_identity_from_path env (expand_home env c)))"

definition infer_tiered_identity_from_text :: "string \<Rightarrow> tiered_identity option" where
  "infer_tiered_identity_from_text text =
     map_option (tiered TierFallback) (infer_repo_identity_from_remote_like text)"

definition classify_cwd_tier :: "environment \<Rightarrow> string option \<Rightarrow> source_tier" where
  "classify_cwd_tier env cwd =
     (case cwd of
        None \<Rightarrow> TierOpaque
      | Some raw \<Rightarrow>
          (let trimmed = str_trim raw in
           if trimmed = [] then TierOpaque
           else if looks_like_weak_source_identifier trimmed then TierOpaque
           else (let path = expand_home env trimmed in
             if discover_git_root (ev_host env) path \<noteq> None then TierSecondary
             else if infer_repo_identity_from_known_layout path \<noteq> None then TierFallback
             else TierOpaque)))"

section \<open>Identity of an entry\<close>

type_synonym project_registry = "(string, string) hash_map"

definition registry_resolve :: "environment \<Rightarrow> project_registry \<Rightarrow> string \<Rightarrow> tiered_identity option" where
  "registry_resolve env registry project_hash =
     (case hm_get registry project_hash of
        None \<Rightarrow> None
      | Some root_path \<Rightarrow> map_option (tiered TierSecondary) (infer_repo_identity_from_path env root_path))"

definition infer_tiered_identity_from_entry ::
  "environment \<Rightarrow> project_registry \<Rightarrow> 'x timeline_entry \<Rightarrow> tiered_identity option" where
  "infer_tiered_identity_from_entry env registry entry =
     (case infer_tiered_identity_from_cwd env (te_cwd entry) of
        Some t \<Rightarrow> Some t
      | None \<Rightarrow>
          (case te_cwd entry of
             Some cwd \<Rightarrow> if looks_like_weak_source_identifier cwd then registry_resolve env registry cwd else None
           | None \<Rightarrow> None))"

definition infer_repo_identity_from_entry :: "environment \<Rightarrow> 'x timeline_entry \<Rightarrow> repo_identity option" where
  "infer_repo_identity_from_entry env entry =
     map_option ti_identity (infer_tiered_identity_from_entry env [] entry)"

datatype bucketing_source =
    BucketOperatorOverride | BucketCwdGitRemote | BucketCwdGitRoot | BucketKnownLayout
  | BucketFrontmatter | BucketContentMention | BucketUnclassified

record bucket_resolution =
  br_bucket :: string
  br_source :: bucketing_source
  br_identity :: "repo_identity option"

definition bucket_of :: "bucketing_source \<Rightarrow> tiered_identity \<Rightarrow> bucket_resolution" where
  "bucket_of src t = \<lparr> br_bucket = repo_slug (ti_identity t), br_source = src, br_identity = Some (ti_identity t) \<rparr>"

definition resolve_bucket :: "environment \<Rightarrow> project_registry \<Rightarrow> 'x timeline_entry \<Rightarrow> bucket_resolution" where
  "resolve_bucket env registry entry =
     (case infer_tiered_identity_from_cwd env (te_cwd entry) of
        Some t \<Rightarrow>
          bucket_of (case ti_tier t of
              TierPrimary \<Rightarrow> BucketCwdGitRemote
            | TierSecondary \<Rightarrow> BucketCwdGitRoot
            | TierFallback \<Rightarrow> BucketKnownLayout
            | TierOpaque \<Rightarrow> BucketUnclassified) t
      | None \<Rightarrow>
          (case (case te_cwd entry of
                   Some cwd \<Rightarrow> if looks_like_weak_source_identifier cwd then registry_resolve env registry cwd else None
                 | None \<Rightarrow> None) of
             Some t \<Rightarrow> bucket_of BucketKnownLayout t
           | None \<Rightarrow>
               (case infer_tiered_identity_from_text (te_message entry) of
                  Some t \<Rightarrow> bucket_of BucketContentMention t
                | None \<Rightarrow> \<lparr> br_bucket = ''unclassified'', br_source = BucketUnclassified, br_identity = None \<rparr>)))"

section \<open>The kind of a segment\<close>

definition count_signals :: "string list \<Rightarrow> string \<Rightarrow> nat" where
  "count_signals signals message =
     (let lower = to_ascii_lowercase message in length (filter (str_contains lower) signals))"

definition classify_plan_signal :: "string \<Rightarrow> nat" where
  "classify_plan_signal =
     count_signals [''goal:'', ''acceptance:'', ''test gate:'', ''- [ ]'', ''plan:'', ''migration plan'']"

definition classify_report_signal :: "string \<Rightarrow> nat" where
  "classify_report_signal =
     count_signals [''recovery report'', ''audit report'', ''coverage report'', ''status report'', ''summary'']"

text \<open>The sums are of \<^verbatim>\<open>u16\<close>: they wrap in a release build and panic in a debug build.\<close>

definition u16_sum :: "nat list \<Rightarrow> nat" where
  "u16_sum ns = foldl (\<lambda>a n. (a + n) mod 2 ^ 16) 0 ns"

definition classify_segment_kind :: "'x timeline_entry list \<Rightarrow> segment_kind" where
  "classify_segment_kind entries =
     (if entries = [] then KindOther
      else
        (let has_conversation = list_ex (\<lambda>e. te_role e = ''user'' \<or> te_role e = ''assistant'') entries;
             report_score = u16_sum (map (\<lambda>e. classify_report_signal (te_message e)) entries);
             plan_score = u16_sum (map (\<lambda>e. classify_plan_signal (te_message e)) entries) in
         if report_score \<ge> 2 \<and> report_score > plan_score \<and> \<not> has_conversation then KindReports
         else if plan_score \<ge> 2 \<and> plan_score \<ge> report_score then KindPlans
         else if has_conversation then KindConversations
         else if report_score > 0 then KindReports
         else KindOther))"

section \<open>Segments\<close>

definition build_segment ::
  "repo_identity option \<Rightarrow> source_tier option \<Rightarrow> string \<Rightarrow> string \<Rightarrow> 'x timeline_entry list \<Rightarrow> 'x semantic_segment" where
  "build_segment repo tier agent session_id entries =
     \<lparr> sg_repo = repo, sg_source_tier = tier, sg_kind = classify_segment_kind entries,
       sg_agent = agent, sg_session_id = session_id, sg_entries = entries \<rparr>"

text \<open>The loop over the entries of a session: what is current, and the segments pushed so far.\<close>

record 'x cutting =
  ct_tiered :: "tiered_identity option"
  ct_entries :: "'x timeline_entry list"
  ct_ordered :: "'x semantic_segment list"

definition push_segment :: "string \<Rightarrow> string \<Rightarrow> 'x cutting \<Rightarrow> 'x semantic_segment list" where
  "push_segment agent session_id c =
     ct_ordered c @ [build_segment (map_option ti_identity (ct_tiered c)) (map_option ti_tier (ct_tiered c))
                       agent session_id (ct_entries c)]"

definition cut_step ::
  "('x timeline_entry \<Rightarrow> tiered_identity option) \<Rightarrow> string \<Rightarrow> string \<Rightarrow> 'x timeline_entry \<Rightarrow> 'x cutting \<Rightarrow> 'x cutting" where
  "cut_step infer agent session_id entry c =
     (let explicit = infer entry;
          explicit_repo = map_option ti_identity explicit;
          current_repo = map_option ti_identity (ct_tiered c);
          split_for_first_truth = ct_entries c \<noteq> [] \<and> current_repo = None \<and> explicit_repo \<noteq> None;
          split_for_context_switch = ct_entries c \<noteq> []
            \<and> (case (explicit_repo, current_repo) of (Some next_repo, Some active_repo) \<Rightarrow> next_repo \<noteq> active_repo | _ \<Rightarrow> False);
          c1 = (if split_for_first_truth \<or> split_for_context_switch
                then c\<lparr>ct_ordered := push_segment agent session_id c, ct_tiered := None, ct_entries := []\<rparr> else c);
          c2 = (if ct_entries c1 = [] then c1\<lparr>ct_tiered := explicit\<rparr> else c1);
          c3 = (if ct_tiered c2 = None \<and> explicit \<noteq> None then c2\<lparr>ct_tiered := explicit\<rparr> else c2) in
      c3\<lparr>ct_entries := ct_entries c3 @ [entry]\<rparr>)"

definition cut_session ::
  "('x timeline_entry \<Rightarrow> tiered_identity option) \<Rightarrow> (string \<times> string) \<times> 'x timeline_entry list
   \<Rightarrow> 'x semantic_segment list \<Rightarrow> 'x semantic_segment list" where
  "cut_session infer = (\<lambda>((agent, session_id), session_entries) ordered.
     (let c = fold (cut_step infer agent session_id) (sort_key te_timestamp session_entries)
                \<lparr> ct_tiered = None, ct_entries = [], ct_ordered = ordered \<rparr> in
      if ct_entries c \<noteq> [] then push_segment agent session_id c else ct_ordered c))"

definition sessions_of :: "'x timeline_entry list \<Rightarrow> (string \<times> string, 'x timeline_entry list) hash_map" where
  "sessions_of entries =
     fold (\<lambda>e. hm_entry (te_agent e, te_session_id e) [] (\<lambda>es. es @ [e])) entries []"

text \<open>The first instant of a segment, then the agent, then the session, in the order of the tuples.\<close>

definition segment_key :: "'x semantic_segment \<Rightarrow> (nat \<times> int) \<times> string \<times> string" where
  "segment_key s =
     ((case sg_entries s of [] \<Rightarrow> (0, 0) | e # _ \<Rightarrow> (1, te_timestamp e)), sg_agent s, sg_session_id s)"

definition segments_over ::
  "('x timeline_entry \<Rightarrow> tiered_identity option) \<Rightarrow> (string \<times> string, 'x timeline_entry list) hash_map
   \<Rightarrow> 'x semantic_segment list" where
  "segments_over infer sessions = sort_key segment_key (fold (cut_session infer) sessions [])"

definition semantic_segments_with_registry ::
  "environment \<Rightarrow> project_registry \<Rightarrow> 'x timeline_entry list \<Rightarrow> 'x semantic_segment list" where
  "semantic_segments_with_registry env registry entries =
     segments_over (infer_tiered_identity_from_entry env registry) (sessions_of entries)"

section \<open>The cut as runs of one repository\<close>

text \<open>
  An entry continues the segment that another opened when nothing says where it ran, or when it
  ran in the same repository. The reference cuts a list greedily into such runs.
\<close>

definition continues :: "('e \<Rightarrow> tiered_identity option) \<Rightarrow> 'e \<Rightarrow> 'e \<Rightarrow> bool" where
  "continues infer x y \<longleftrightarrow>
     infer y = None \<or> map_option ti_identity (infer y) = map_option ti_identity (infer x)"

function repo_runs :: "('e \<Rightarrow> tiered_identity option) \<Rightarrow> 'e list \<Rightarrow> 'e list list" where
  "repo_runs infer [] = []"
| "repo_runs infer (x # es) =
     (x # takeWhile (continues infer x) es) # repo_runs infer (dropWhile (continues infer x) es)"
  by pat_completeness auto
termination
  by (relation "measure (\<lambda>(_, es). length es)") (auto simp: le_imp_less_Suc length_dropWhile_le)

definition run_segment ::
  "('x timeline_entry \<Rightarrow> tiered_identity option) \<Rightarrow> string \<times> string \<Rightarrow> 'x timeline_entry list \<Rightarrow> 'x semantic_segment" where
  "run_segment infer session es =
     build_segment (map_option ti_identity (infer (hd es))) (map_option ti_tier (infer (hd es)))
       (fst session) (snd session) es"

definition session_segments ::
  "('x timeline_entry \<Rightarrow> tiered_identity option) \<Rightarrow> (string \<times> string) \<times> 'x timeline_entry list \<Rightarrow> 'x semantic_segment list" where
  "session_segments infer = (\<lambda>(session, es). map (run_segment infer session) (repo_runs infer (sort_key te_timestamp es)))"

lemma cut_continues:
  assumes "continues infer x y" "ct_entries c = x # xs" "ct_tiered c = infer x"
  shows "cut_step infer a sid y c = c\<lparr>ct_entries := x # xs @ [y]\<rparr>"
  using assms by (cases c) (auto simp: cut_step_def continues_def Let_def split: option.split)

lemma cut_switches:
  assumes "\<not> continues infer x y" "ct_entries c = x # xs" "ct_tiered c = infer x"
  shows "cut_step infer a sid y c =
    \<lparr> ct_tiered = infer y, ct_entries = [y], ct_ordered = ct_ordered c @ [run_segment infer (a, sid) (x # xs)] \<rparr>"
  using assms
  by (cases c) (auto simp: cut_step_def continues_def Let_def push_segment_def run_segment_def split: option.split)

lemma cut_steps:
  assumes "ct_entries c = x # xs" "ct_tiered c = infer x"
  shows "let c' = fold (cut_step infer a sid) es c in
    ct_entries c' \<noteq> [] \<and>
    push_segment a sid c' = ct_ordered c @
      map (run_segment infer (a, sid))
        ((x # xs @ takeWhile (continues infer x) es) # repo_runs infer (dropWhile (continues infer x) es))"
  using assms
proof (induction es arbitrary: c x xs)
  case Nil
  then show ?case by (simp add: push_segment_def run_segment_def)
next
  case (Cons y es)
  show ?case
  proof (cases "continues infer x y")
    case True
    with Cons.IH [of "c\<lparr>ct_entries := x # xs @ [y]\<rparr>" x "xs @ [y]"] Cons.prems show ?thesis
      by (simp add: cut_continues)
  next
    case False
    with Cons.IH [of "cut_step infer a sid y c" y "[]"] Cons.prems show ?thesis
      by (simp add: cut_switches)
  qed
qed

lemma cut_session_runs: "cut_session infer s ordered = ordered @ session_segments infer s"
proof -
  obtain a sid es where s: "s = ((a, sid), es)" by (metis prod.collapse)
  show ?thesis
  proof (cases "sort_key te_timestamp es")
    case Nil
    then show ?thesis by (simp add: s cut_session_def session_segments_def Let_def)
  next
    case (Cons y rest)
    have first: "cut_step infer a sid y \<lparr>ct_tiered = None, ct_entries = [], ct_ordered = ordered\<rparr> =
        \<lparr>ct_tiered = infer y, ct_entries = [y], ct_ordered = ordered\<rparr>"
      by (simp add: cut_step_def Let_def)
    show ?thesis
      using cut_steps [of "\<lparr>ct_tiered = infer y, ct_entries = [y], ct_ordered = ordered\<rparr>" y "[]" infer a sid rest]
      by (simp add: s cut_session_def session_segments_def Let_def Cons first)
  qed
qed

lemma fold_cut_sessions:
  "fold (cut_session infer) sessions ordered = ordered @ concat (map (session_segments infer) sessions)"
  by (induction sessions arbitrary: ordered) (simp_all add: cut_session_runs)

section \<open>What a run is\<close>

lemma concat_repo_runs [simp]: "concat (repo_runs infer es) = es"
  by (induction infer es rule: repo_runs.induct) simp_all

lemma repo_runs_nonempty: "b \<in> set (repo_runs infer es) \<Longrightarrow> b \<noteq> []"
  by (induction infer es rule: repo_runs.induct) auto

lemma repo_runs_uniform: "b \<in> set (repo_runs infer es) \<Longrightarrow> y \<in> set b \<Longrightarrow> y = hd b \<or> continues infer (hd b) y"
  by (induction infer es rule: repo_runs.induct) (auto dest: set_takeWhileD)

lemma repo_runs_switch:
  "Suc i < length (repo_runs infer es) \<Longrightarrow>
   \<not> continues infer (hd (repo_runs infer es ! i)) (hd (repo_runs infer es ! Suc i))"
proof (induction infer es arbitrary: i rule: repo_runs.induct)
  case (2 infer x es)
  show ?case
  proof (cases i)
    case 0
    with 2 have "dropWhile (continues infer x) es \<noteq> []" by (auto simp del: dropWhile_eq_Nil_conv)
    then have "\<not> continues infer x (hd (dropWhile (continues infer x) es))" by (rule hd_dropWhile)
    with \<open>dropWhile (continues infer x) es \<noteq> []\<close> 0 show ?thesis
      by (cases "dropWhile (continues infer x) es") simp_all
  next
    case (Suc j)
    with 2 show ?thesis by simp
  qed
qed simp

lemma session_segments_fields:
  "seg \<in> set (session_segments infer (session, es)) \<Longrightarrow>
   sg_agent seg = fst session \<and> sg_session_id seg = snd session \<and> sg_entries seg \<noteq> []"
  using repo_runs_nonempty by (fastforce simp: session_segments_def run_segment_def build_segment_def)

lemma session_segments_entries: "concat (map sg_entries (session_segments infer (session, es))) = sort_key te_timestamp es"
proof -
  have "sg_entries \<circ> run_segment infer session = (\<lambda>b. b)"
    by (simp add: fun_eq_iff run_segment_def build_segment_def)
  then show ?thesis by (simp add: session_segments_def)
qed

section \<open>Grouping\<close>

abbreviation session_of :: "'x timeline_entry \<Rightarrow> string \<times> string" where
  "session_of e \<equiv> (te_agent e, te_session_id e)"

definition group_entry ::
  "'x timeline_entry \<Rightarrow> (string \<times> string, 'x timeline_entry list) hash_map
   \<Rightarrow> (string \<times> string, 'x timeline_entry list) hash_map" where
  "group_entry e = hm_entry (session_of e) [] (\<lambda>es. es @ [e])"

definition group_of :: "('k, 'v list) hash_map \<Rightarrow> 'k \<Rightarrow> 'v list" where
  "group_of m k = (case hm_get m k of None \<Rightarrow> [] | Some es \<Rightarrow> es)"

lemma group_of_entry: "group_of (group_entry e m) k = group_of m k @ (if session_of e = k then [e] else [])"
  by (simp add: group_of_def group_entry_def split: option.split)

lemma sessions_fold:
  assumes "hm_wf m"
  shows "hm_wf (fold group_entry entries m) \<and>
    (\<forall>k. group_of (fold group_entry entries m) k = group_of m k @ filter (\<lambda>e. session_of e = k) entries)"
  using assms
proof (induction entries arbitrary: m)
  case (Cons e entries)
  have "hm_wf (group_entry e m)" using Cons.prems by (simp add: group_entry_def)
  from Cons.IH [OF this] show ?case by (simp add: group_of_entry)
qed simp

lemma sessions_of_fold: "sessions_of entries = fold group_entry entries []"
  by (simp add: sessions_of_def group_entry_def [abs_def])

lemma sessions_of_wf: "hm_wf (sessions_of entries)"
  using sessions_fold [of "[]" entries] by (simp add: sessions_of_fold)

lemma group_of_empty [simp]: "group_of [] k = []"
  by (simp add: group_of_def)

lemma sessions_of_get: "group_of (sessions_of entries) k = filter (\<lambda>e. session_of e = k) entries"
  unfolding sessions_of_fold using sessions_fold [of "[]" entries] by (simp del: split_paired_All)

lemma segments_of_session:
  assumes "hm_wf sessions"
  shows "filter (\<lambda>s. (sg_agent s, sg_session_id s) = k) (concat (map (session_segments infer) sessions)) =
    session_segments infer (k, group_of sessions k)"
  using assms
proof (induction sessions)
  case Nil
  then show ?case by (simp add: session_segments_def)
next
  case (Cons g sessions)
  obtain l es where g: "g = (l, es)" by (cases g)
  have fresh: "map_of sessions l = None" and wf: "hm_wf sessions"
    using Cons.prems by (auto simp: g hm_wf_def map_of_eq_None_iff)
  have mine: "filter (\<lambda>s. (sg_agent s, sg_session_id s) = k) (session_segments infer (l, es)) =
      (if l = k then session_segments infer (l, es) else [])"
    using session_segments_fields [of _ infer l es] by (auto simp: filter_empty_conv filter_id_conv)
  have "group_of sessions l = []" using fresh by (simp add: group_of_def hm_get_def)
  moreover have "group_of (g # sessions) k = (if l = k then es else group_of sessions k)"
    by (simp add: g group_of_def hm_get_def)
  ultimately show ?case
    using Cons.IH [OF wf] mine by (auto simp: g session_segments_def)
qed

lemma sorted_heads:
  "sorted (map f (concat bs)) \<Longrightarrow> \<forall>b\<in>set bs. b \<noteq> [] \<Longrightarrow> sorted (map (\<lambda>b. f (hd b)) bs)"
proof (induction bs)
  case (Cons b bs)
  have "f (hd b) \<le> f (hd c)" if "c \<in> set bs" for c
  proof -
    have "hd b \<in> set b" "hd c \<in> set (concat bs)"
      using Cons.prems(2) that by (auto intro!: bexI [of _ c])
    then show ?thesis using Cons.prems(1) by (auto simp: sorted_append)
  qed
  with Cons show ?case by (auto simp: sorted_append)
qed simp

lemma session_segments_sorted: "sorted (map segment_key (session_segments infer (k, es)))"
proof -
  let ?runs = "repo_runs infer (sort_key te_timestamp es)"
  have heads: "sorted (map (\<lambda>b. te_timestamp (hd b)) ?runs)"
    using repo_runs_nonempty by (intro sorted_heads) auto
  have "segment_key (run_segment infer k b) = ((1, te_timestamp (hd b)), fst k, snd k)" if "b \<in> set ?runs" for b
    using repo_runs_nonempty [OF that]
    by (cases b) (simp_all add: segment_key_def run_segment_def build_segment_def)
  then have "map segment_key (session_segments infer (k, es)) =
      map (\<lambda>b. ((1, te_timestamp (hd b)), fst k, snd k)) ?runs"
    by (simp add: session_segments_def)
  then show ?thesis using heads
    by (auto simp: sorted_wrt_map less_eq_prod_def elim!: sorted_wrt_mono_rel [rotated])
qed

lemma segments_over_session:
  assumes "hm_wf sessions"
  shows "filter (\<lambda>s. (sg_agent s, sg_session_id s) = k) (segments_over infer sessions) =
    session_segments infer (k, group_of sessions k)"
  by (simp add: segments_over_def fold_cut_sessions filter_sort segments_of_session [OF assms]
      sort_key_id_if_sorted session_segments_sorted del: prod.inject)

lemma sort_key_by_filters:
  fixes f :: "'a \<Rightarrow> 'b::linorder"
  assumes "\<And>k. filter (\<lambda>x. f x = k) xs = filter (\<lambda>x. f x = k) ys"
  shows "sort_key f xs = sort_key f ys"
proof (rule properties_for_sort_key)
  have "count (mset xs) x = count (mset ys) x" for x
  proof -
    have "count (mset zs) x = count (mset (filter (\<lambda>z. f z = f x) zs)) x" for zs
      by simp
    then show ?thesis using assms [of "f x"] by metis
  qed
  then show "mset (sort_key f ys) = mset xs" by (simp add: multiset_eq_iff)
  show "filter (\<lambda>x. f k = f x) (sort_key f ys) = filter (\<lambda>x. f k = f x) xs" for k
    using assms [of "f k"] sort_key_stable [of f "f k" ys] by (simp add: eq_commute)
qed simp

text \<open>
  C19: The segments do not depend on the order in which the map of sessions is walked.
\<close>

theorem segments_order_independent:
  assumes "mset walked = mset (sessions_of entries)"
  shows "segments_over infer walked = segments_over infer (sessions_of entries)"
proof -
  let ?s = "sessions_of entries"
  have wf: "hm_wf ?s" by (rule sessions_of_wf)
  then have wf': "hm_wf walked"
    using assms by (simp add: hm_wf_def flip: mset_map distinct_count_atmost_1)
       (metis mset_map mset_eq_imp_distinct_iff)
  have same: "group_of walked k = group_of ?s k" for k
  proof -
    have "hm_get walked k = hm_get ?s k"
      using hm_get_in [OF wf, of k] hm_get_in [OF wf', of k] mset_eq_setD [OF assms] by (metis not_Some_eq)
    then show ?thesis by (simp add: group_of_def)
  qed
  have "filter (\<lambda>s. segment_key s = key) (concat (map (session_segments infer) walked)) =
      filter (\<lambda>s. segment_key s = key) (concat (map (session_segments infer) ?s))" for key
  proof -
    have part: "filter (\<lambda>s. segment_key s = key) ss =
        filter (\<lambda>s. segment_key s = key) (filter (\<lambda>s. (sg_agent s, sg_session_id s) = snd key) ss)" for ss
      by (auto simp: segment_key_def intro!: filter_cong)
    show ?thesis
      unfolding part [of "concat _"] segments_of_session [OF wf] segments_of_session [OF wf'] same ..
  qed
  from sort_key_by_filters [OF this] show ?thesis
    by (simp add: segments_over_def fold_cut_sessions)
qed

text \<open>
  C17: Segments lose, invent and reorder nothing: the segments of a session, read one after the
  other, hold the session's entries in time order; no segment is empty, and the segments come in the
  order of their first instant, agent and session.
\<close>

theorem segments_keep_sessions:
  shows "concat (map sg_entries (filter (\<lambda>s. (sg_agent s, sg_session_id s) = session)
        (semantic_segments_with_registry env registry entries)))
      = sort_key te_timestamp (filter (\<lambda>e. session_of e = session) entries)
    \<and> list_all (\<lambda>s. sg_entries s \<noteq> []) (semantic_segments_with_registry env registry entries)
    \<and> sorted (map segment_key (semantic_segments_with_registry env registry entries))"
proof -
  let ?infer = "infer_tiered_identity_from_entry env registry"
  let ?segs = "segments_over ?infer (sessions_of entries)"
  note mine = segments_over_session [OF sessions_of_wf]
  have "sg_entries s \<noteq> []" if "s \<in> set ?segs" for s
  proof -
    have "s \<in> set (filter (\<lambda>t. (sg_agent t, sg_session_id t) = (sg_agent s, sg_session_id s)) ?segs)"
      using that by simp
    then show ?thesis unfolding mine by (auto dest: session_segments_fields)
  qed
  then show ?thesis
    unfolding semantic_segments_with_registry_def mine
    by (simp add: session_segments_entries sessions_of_get list_all_iff)
       (simp add: segments_over_def)
qed

text \<open>
  C18: A segment's repository and tier are those its first entry's working directory gives; no later
  entry of it was in another repository; and the next segment of the session starts in a known
  repository that is not this one. What the messages say plays no part in it.
\<close>

theorem segment_repo_recorded:
  assumes "segs = filter (\<lambda>s. (sg_agent s, sg_session_id s) = session) (semantic_segments_with_registry env registry entries)"
    and "infer = infer_tiered_identity_from_entry env registry" and "i < length segs"
  shows "sg_repo (segs ! i) = map_option ti_identity (infer (hd (sg_entries (segs ! i))))
    \<and> sg_source_tier (segs ! i) = map_option ti_tier (infer (hd (sg_entries (segs ! i))))
    \<and> list_all (\<lambda>e. infer e = None \<or> map_option ti_identity (infer e) = sg_repo (segs ! i)) (sg_entries (segs ! i))
    \<and> (if Suc i < length segs
       then sg_repo (segs ! Suc i) \<noteq> None \<and> sg_repo (segs ! Suc i) \<noteq> sg_repo (segs ! i) else True)"
proof -
  let ?runs = "repo_runs infer (sort_key te_timestamp (filter (\<lambda>e. session_of e = session) entries))"
  have segs: "segs = map (run_segment infer session) ?runs"
    unfolding assms(1) semantic_segments_with_registry_def segments_over_session [OF sessions_of_wf]
    by (simp add: session_segments_def sessions_of_get assms(2))
  have run: "?runs ! i \<in> set ?runs" using assms(3) by (simp add: segs)
  have "infer y = None \<or> map_option ti_identity (infer y) = map_option ti_identity (infer (hd (?runs ! i)))"
    if "y \<in> set (?runs ! i)" for y
    using repo_runs_uniform [OF run that] by (auto simp: continues_def)
  moreover have "infer (hd (?runs ! Suc i)) \<noteq> None \<and>
      map_option ti_identity (infer (hd (?runs ! Suc i))) \<noteq> map_option ti_identity (infer (hd (?runs ! i)))"
    if "Suc i < length segs"
    using repo_runs_switch [of i infer] that by (simp add: segs continues_def)
  ultimately show ?thesis
    using assms(3) by (simp add: segs run_segment_def build_segment_def list_all_iff)
qed

text \<open>The score is kept in sixteen bits.\<close>

lemma u16_sum_mod: "u16_sum ns = sum_list ns mod 2 ^ 16"
proof -
  have "foldl (\<lambda>a n. (a + n) mod 2 ^ 16) (a mod 2 ^ 16) ns = (a + sum_list ns) mod 2 ^ 16" for a :: nat
  proof (induction ns arbitrary: a)
    case (Cons n ns)
    have "foldl (\<lambda>a n. (a + n) mod 2 ^ 16) (a mod 2 ^ 16) (n # ns)
        = foldl (\<lambda>a n. (a + n) mod 2 ^ 16) ((a + n) mod 2 ^ 16) ns"
      by (simp add: mod_add_left_eq)
    then show ?case by (simp only: Cons.IH) (simp add: add.assoc)
  qed simp
  from this [of 0] show ?thesis by (simp add: u16_sum_def)
qed

text \<open>A report of 32768 entries, each a status report with a summary, is no report.\<close>

lemma report_score_wraps:
  assumes "te_message e = ''status report summary''" "te_role e = ''system''"
  shows "classify_segment_kind (replicate 32768 e) = KindOther"
    and "classify_segment_kind (replicate 32767 e) = KindReports"
proof -
  have "to_ascii_lowercase ''status report summary'' = ''status report summary''"
    by (simp add: rust_eval)
  then have "classify_report_signal (te_message e) = 2" "classify_plan_signal (te_message e) = 0"
    by (simp_all add: assms classify_report_signal_def classify_plan_signal_def count_signals_def)
  then show "classify_segment_kind (replicate 32768 e) = KindOther"
    "classify_segment_kind (replicate 32767 e) = KindReports"
    using assms by (simp_all add: classify_segment_kind_def u16_sum_mod sum_list_replicate list_ex_iff)
qed

lemma kind_parse_dir_name: "kind_parse (kind_dir_name k) = Some k"
  by (cases k) (simp_all add: kind_parse_def kind_dir_name_def rust_eval)

section \<open>Witnesses\<close>

definition bare_environment :: environment where
  "bare_environment = \<lparr> ev_host = \<lparr> h_exists = (\<lambda>_. False), h_is_file = (\<lambda>_. False),
       h_read_to_string = (\<lambda>_. None), h_read = (\<lambda>_. None), h_canonicalize = (\<lambda>_. None) \<rparr>,
     ev_git_origin = (\<lambda>_. None), ev_home = None \<rparr>"

definition sample_entry :: "int \<Rightarrow> string \<Rightarrow> string \<Rightarrow> string option \<Rightarrow> unit timeline_entry" where
  "sample_entry t agent message cwd = \<lparr> te_timestamp = t, te_agent = agent, te_session_id = ''s'',
     te_role = ''user'', te_message = message, te_cwd = cwd, te_rest = () \<rparr>"

lemma bare_infer:
  "infer_tiered_identity_from_entry bare_environment [] (sample_entry t a m None) = None"
  "infer_tiered_identity_from_entry bare_environment [] (sample_entry t a m (Some ''/git/o/r'')) =
     Some (tiered TierFallback \<lparr> ri_organization = ''o'', ri_repository = ''r'' \<rparr>)"
proof -
  have none: "discover_git_root (ev_host bare_environment) p = None" for p
    by (auto simp: discover_git_root_def bare_environment_def find_None_iff split: option.split)
  have names: "is_probably_repo_name ''o''" "is_probably_repo_name ''r''"
    by (simp_all add: is_probably_repo_name_def is_ascii_alphanumeric_def ascii_alphabetic_def reserved_names_def
        looks_like_date_pattern_def rust_eval)
  have layout: "infer_repo_identity_from_known_layout ''/git/o/r'' = Some \<lparr> ri_organization = ''o'', ri_repository = ''r'' \<rparr>"
    by (simp add: infer_repo_identity_from_known_layout_def layout_markers_def path_components_def path_rooted_def
        path_names_def slash_def eq_ignore_ascii_case_def to_ascii_lowercase_def ascii_lower_def byte_of_def names)
  have spelled: "str_trim ''/git/o/r'' = ''/git/o/r''" "split_whitespace ''/git/o/r'' = [''/git/o/r'']"
    by (simp_all add: rust_eval split_whitespace_def whitespace_runs.simps)
  have remote: "infer_repo_identity_from_remote_like ''/git/o/r'' = None"
    by (simp add: infer_repo_identity_from_remote_like_def spelled trim_link_def link_wrapping_def remote_prefixes_def
        strip_prefix_def)
  show "infer_tiered_identity_from_entry bare_environment [] (sample_entry t a m None) = None"
    "infer_tiered_identity_from_entry bare_environment [] (sample_entry t a m (Some ''/git/o/r'')) =
     Some (tiered TierFallback \<lparr> ri_organization = ''o'', ri_repository = ''r'' \<rparr>)"
    by (simp_all add: infer_tiered_identity_from_entry_def infer_tiered_identity_from_cwd_def sample_entry_def
        looks_like_weak_source_identifier_def spelled remote infer_tiered_identity_from_path_def none layout
        expand_home_def strip_prefix_def)
qed

text \<open>A session that starts nowhere and moves into a checkout, and one of another agent.\<close>

definition sample_entries :: "unit timeline_entry list" where
  "sample_entries = [sample_entry 3 ''codex'' ''b'' (Some ''/git/o/r''), sample_entry 1 ''codex'' ''a'' None,
     sample_entry 2 ''claude'' ''c'' None]"

lemma sample_sessions:
  "sessions_of sample_entries =
     [((''codex'', ''s''), [sample_entry 3 ''codex'' ''b'' (Some ''/git/o/r''), sample_entry 1 ''codex'' ''a'' None]),
      ((''claude'', ''s''), [sample_entry 2 ''claude'' ''c'' None])]"
  by (simp add: sessions_of_def sample_entries_def sample_entry_def hm_entry_def hm_insert_def hm_get_def)

lemma segments_order_independent_witness:
  "segments_over (infer_tiered_identity_from_entry bare_environment []) (rev (sessions_of sample_entries)) =
     semantic_segments_with_registry bare_environment [] sample_entries"
  unfolding semantic_segments_with_registry_def
  by (rule segments_order_independent) simp

lemma sample_codex_segments:
  "filter (\<lambda>s. (sg_agent s, sg_session_id s) = (''codex'', ''s''))
     (semantic_segments_with_registry bare_environment [] sample_entries) =
   [build_segment None None ''codex'' ''s'' [sample_entry 1 ''codex'' ''a'' None],
    build_segment (Some \<lparr> ri_organization = ''o'', ri_repository = ''r'' \<rparr>) (Some TierFallback) ''codex'' ''s''
      [sample_entry 3 ''codex'' ''b'' (Some ''/git/o/r'')]]"
proof -
  have group: "group_of (sessions_of sample_entries) (''codex'', ''s'') =
      [sample_entry 3 ''codex'' ''b'' (Some ''/git/o/r''), sample_entry 1 ''codex'' ''a'' None]"
    by (simp add: sample_sessions group_of_def hm_get_def)
  have order: "sort_key te_timestamp [sample_entry 3 ''codex'' ''b'' (Some ''/git/o/r''), sample_entry 1 ''codex'' ''a'' None]
      = [sample_entry 1 ''codex'' ''a'' None, sample_entry 3 ''codex'' ''b'' (Some ''/git/o/r'')]"
    by (simp add: sample_entry_def)
  show ?thesis
    unfolding semantic_segments_with_registry_def segments_over_session [OF sessions_of_wf] group session_segments_def
      prod.case order
    by (simp add: continues_def bare_infer run_segment_def tiered_def)
qed

lemma segment_repo_recorded_witness:
  "map sg_repo (filter (\<lambda>s. (sg_agent s, sg_session_id s) = (''codex'', ''s''))
     (semantic_segments_with_registry bare_environment [] sample_entries)) ! 0 = None"
  using segment_repo_recorded [OF refl refl, of 0 "(''codex'', ''s'')" bare_environment "[]" sample_entries]
  unfolding sample_codex_segments by (simp add: bare_infer build_segment_def)

end
