(* ===== verification/Run_Dedup.thy ===== *)
theory Run_Dedup
  imports Segmentation
begin

text \<open>
  What an extraction run does with the remembered state (\<^verbatim>\<open>src/main.rs\<close>): the watermark
  keys of a composition of agents and the older keys it inherits from, which agents a watermark
  covers, the removal of entries seen before, in this run or an earlier one, and the update of the
  state at the end of a run. Progress callbacks and messages are left out.
\<close>

section \<open>Watermark keys\<close>

definition legacy_all_watermark_agents :: "string list" where
  "legacy_all_watermark_agents = [''claude'', ''codex'', ''gemini'', ''junie'', ''grok'', ''codescribe'']"

definition legacy_all_watermark_key :: string where
  "legacy_all_watermark_key = ''claude+codex+gemini+junie+grok+codescribe''"

definition all_watermark_agents :: "string list" where
  "all_watermark_agents = [''claude'', ''codex'', ''gemini'', ''junie'', ''grok'', ''kimi'', ''cursor'',
     ''copilot'', ''omp'', ''agy'', ''codescribe'']"

definition kimi_all_watermark_key :: string where
  "kimi_all_watermark_key = ''claude+codescribe+codex+gemini+grok+junie+kimi''"

definition cursor_all_watermark_key :: string where
  "cursor_all_watermark_key = ''claude+codescribe+codex+cursor+gemini+grok+junie+kimi''"

definition copilot_all_watermark_key :: string where
  "copilot_all_watermark_key = ''claude+codescribe+codex+copilot+cursor+gemini+grok+junie+kimi''"

definition omp_all_watermark_key :: string where
  "omp_all_watermark_key = ''claude+codescribe+codex+copilot+cursor+gemini+grok+junie+kimi+omp''"

definition normalized_source_key_parts :: "string list \<Rightarrow> string list" where
  "normalized_source_key_parts ps = sort (map to_ascii_lowercase ps)"

definition normalized_project_source_key :: "string list \<Rightarrow> string" where
  "normalized_project_source_key project =
     (if project = [] then ''all'' else join ''+'' (normalized_source_key_parts project))"

definition normalized_agent_source_key :: "string list \<Rightarrow> string" where
  "normalized_agent_source_key agents =
     (let normalized_agents = normalized_source_key_parts agents;
          legacy_all_agents = normalized_source_key_parts legacy_all_watermark_agents in
      if normalized_agents = legacy_all_agents then legacy_all_watermark_key
      else join ''+'' normalized_agents)"

definition extraction_source_key :: "string list \<Rightarrow> string list \<Rightarrow> string" where
  "extraction_source_key agents project =
     normalized_agent_source_key agents @ '':'' @ normalized_project_source_key project"

definition extraction_source_key_aliases :: "string list \<Rightarrow> string list \<Rightarrow> string list" where
  "extraction_source_key_aliases agents project =
     (let project_key = normalized_project_source_key project;
          requested = normalized_source_key_parts agents;
          under = (\<lambda>key. key @ '':'' @ project_key) in
      if requested = normalized_source_key_parts all_watermark_agents then
        map under [omp_all_watermark_key, copilot_all_watermark_key, cursor_all_watermark_key,
          kimi_all_watermark_key, legacy_all_watermark_key, ''claude+codex+gemini+junie+codescribe'',
          ''claude+codex+gemini'', ''claude+codex+gemini+junie'']
      else if requested = normalized_source_key_parts legacy_all_watermark_agents then
        map under [''claude+codex+gemini+junie+codescribe'', ''claude+codex+gemini+junie+grok+codescribe'',
          ''claude+codex+gemini'', ''claude+codex+gemini+junie'']
      else [])"

text \<open>The part before the first colon, cut at the plus signs.\<close>

definition agent_names_in_watermark_key :: "string \<Rightarrow> string set" where
  "agent_names_in_watermark_key key =
     set (split_where (\<lambda>c. c = CHR ''+'') (takeWhile (\<lambda>c. c \<noteq> CHR '':'') key))"

definition watermark_covered_agents :: "state_manager \<Rightarrow> string \<Rightarrow> string list \<Rightarrow> string set" where
  "watermark_covered_agents st source_key source_aliases =
     (if get_watermark st source_key \<noteq> None then agent_names_in_watermark_key source_key
      else (\<Union>a \<in> set (filter (\<lambda>a. get_watermark st a \<noteq> None) source_aliases). agent_names_in_watermark_key a))"

section \<open>Windows\<close>

definition all_time_cutoff :: int where
  "all_time_cutoff = 0"

text \<open>Hours as nanoseconds, clamped to between one and the largest \<^verbatim>\<open>i32\<close>.\<close>

definition lookback_cutoff :: "int \<Rightarrow> u64 \<Rightarrow> int" where
  "lookback_cutoff now hours =
     (if hours = 0 then all_time_cutoff
      else (let max_safe_hours = 2 ^ 31 - 1;
                hours_i64 = (if int hours < 2 ^ 63 then int hours else max_safe_hours);
                clamped = min max_safe_hours (max 1 hours_i64) in
            now - clamped * 3600 * 10 ^ 9))"

text \<open>
  The opening of \<^verbatim>\<open>run_extraction\<close>: coverage is read before the aliases are carried over;
  then every agent gets the watermark, or none when none covers it.
\<close>

definition run_watermark :: "string list \<Rightarrow> string list \<Rightarrow> bool \<Rightarrow> bool \<Rightarrow> state_manager
  \<Rightarrow> state_manager \<times> int option \<times> string set" where
  "run_watermark agents project full_rescan force st =
     (let source_key = extraction_source_key agents project;
          source_aliases = extraction_source_key_aliases agents project;
          covered = watermark_covered_agents st source_key source_aliases;
          st1 = snd (migrate_watermark_aliases source_key source_aliases st);
          watermark = (if full_rescan \<or> force then None else get_watermark st1 source_key) in
      (st1, watermark, covered))"

definition agent_watermark :: "int option \<Rightarrow> string set \<Rightarrow> string \<Rightarrow> int option" where
  "agent_watermark watermark covered agent =
     (let full_window_scan = (agent = ''copilot'' \<or> agent = ''omp'') in
      if watermark \<noteq> None \<and> (agent \<notin> covered \<or> full_window_scan) then None else watermark)"

section \<open>Removing what was seen\<close>

definition timestamp_secs :: "int \<Rightarrow> int" where
  "timestamp_secs t = t div 10 ^ 9"

definition exact_of :: "(word8 list \<Rightarrow> word8 list) \<Rightarrow> 'x timeline_entry \<Rightarrow> string" where
  "exact_of blake3 e = content_hash blake3 (te_agent e) (timestamp_secs (te_timestamp e)) (te_message e)"

definition overlap_of :: "(word8 list \<Rightarrow> word8 list) \<Rightarrow> 'x timeline_entry \<Rightarrow> string" where
  "overlap_of blake3 e = overlap_hash blake3 (timestamp_secs (te_timestamp e)) (te_message e)"

definition overlap_project :: "string \<Rightarrow> string" where
  "overlap_project label = ''_overlap:'' @ label"

text \<open>
  The loop over the entries of a segment: the state, the two sets of a rescan, and what is kept. A
  rescan enters the exact hash before it looks at the overlap hash; an incremental run marks both
  once neither was seen.
\<close>

record 'x dedup_loop =
  dl_state :: state_manager
  dl_exact :: "string set"
  dl_overlap :: "string set"
  dl_kept :: "'x timeline_entry list"

definition dedup_entry ::
  "(word8 list \<Rightarrow> word8 list) \<Rightarrow> bool \<Rightarrow> string \<Rightarrow> 'x timeline_entry \<Rightarrow> 'x dedup_loop \<Rightarrow> 'x dedup_loop" where
  "dedup_entry blake3 full_rescan label e d =
     (let exact = exact_of blake3 e; overlap = overlap_of blake3 e in
      if full_rescan then
        (if exact \<in> dl_exact d then d
         else (let d1 = d\<lparr>dl_exact := insert exact (dl_exact d)\<rparr> in
           if overlap \<in> dl_overlap d1 then d1
           else d1\<lparr>dl_overlap := insert overlap (dl_overlap d1), dl_kept := dl_kept d1 @ [e]\<rparr>))
      else if \<not> is_new (dl_state d) label exact then d
      else if \<not> is_new (dl_state d) (overlap_project label) overlap then d
      else d\<lparr>dl_state := mark_seen (overlap_project label) overlap (mark_seen label exact (dl_state d)),
             dl_kept := dl_kept d @ [e]\<rparr>)"

record 'x dedup_run =
  dr_state :: state_manager
  dr_exact :: "(string, string set) hash_map"
  dr_overlap :: "(string, string set) hash_map"
  dr_out :: "'x semantic_segment list"

text \<open>\<^verbatim>\<open>entry(key).or_default()\<close> is borrowed for the segment and holds what the loop leaves in it.\<close>

definition hm_bucket :: "(string, string set) hash_map \<Rightarrow> string \<Rightarrow> string set" where
  "hm_bucket m k = (case hm_get m k of None \<Rightarrow> {} | Some s \<Rightarrow> s)"

definition dedup_segment ::
  "(word8 list \<Rightarrow> word8 list) \<Rightarrow> bool \<Rightarrow> 'x semantic_segment \<Rightarrow> 'x dedup_run \<Rightarrow> 'x dedup_run" where
  "dedup_segment blake3 full_rescan seg r =
     (let label = project_label seg;
          d = fold (dedup_entry blake3 full_rescan label) (sg_entries seg)
                \<lparr> dl_state = dr_state r, dl_exact = hm_bucket (dr_exact r) label,
                  dl_overlap = hm_bucket (dr_overlap r) (overlap_project label), dl_kept = [] \<rparr> in
      \<lparr> dr_state = dl_state d,
        dr_exact = hm_insert label (dl_exact d) (dr_exact r),
        dr_overlap = hm_insert (overlap_project label) (dl_overlap d) (dr_overlap r),
        dr_out = dr_out r @ (if dl_kept d \<noteq> [] then [seg\<lparr>sg_entries := dl_kept d\<rparr>] else []) \<rparr>)"

definition dedup_segments_per_repo ::
  "(word8 list \<Rightarrow> word8 list) \<Rightarrow> 'x semantic_segment list \<Rightarrow> state_manager \<Rightarrow> bool
   \<Rightarrow> 'x semantic_segment list \<times> state_manager" where
  "dedup_segments_per_repo blake3 segments st full_rescan =
     (let r = fold (dedup_segment blake3 full_rescan) segments
                \<lparr> dr_state = st, dr_exact = [], dr_overlap = [], dr_out = [] \<rparr> in
      (dr_out r, dr_state r))"

section \<open>The end of a run\<close>

text \<open>
  The watermark moves to the newest extracted instant unless a session was skipped; survivors of a
  run that did not mark them on the way are marked; the run is recorded and the sets are cut.
\<close>

definition raw_extract_latest :: "usize \<Rightarrow> 'x timeline_entry list \<Rightarrow> int option" where
  "raw_extract_latest skipped_sessions entries =
     (if skipped_sessions = 0 then map_option te_timestamp (if entries = [] then None else Some (last entries)) else None)"

definition mark_survivor :: "(word8 list \<Rightarrow> word8 list) \<Rightarrow> string \<Rightarrow> 'x timeline_entry \<Rightarrow> state_manager \<Rightarrow> state_manager" where
  "mark_survivor blake3 label e st =
     mark_seen (overlap_project label) (overlap_of blake3 e) (mark_seen label (exact_of blake3 e) st)"

definition finish_run ::
  "(word8 list \<Rightarrow> word8 list) \<Rightarrow> string list \<Rightarrow> string list \<Rightarrow> bool \<Rightarrow> bool \<Rightarrow> int option \<Rightarrow> int
   \<Rightarrow> 'x semantic_segment list \<Rightarrow> state_manager \<Rightarrow> state_manager" where
  "finish_run blake3 agents project full_rescan force latest now segments st =
     (let st1 = (case latest of
                   Some ts \<Rightarrow> update_watermark (extraction_source_key agents project) ts st
                 | None \<Rightarrow> st);
          st2 = (if force \<or> full_rescan
                 then fold (\<lambda>seg. fold (mark_survivor blake3 (project_label seg)) (sg_entries seg)) segments st1
                 else st1);
          st3 = record_run now (length (concat (map sg_entries segments))) agents st2 in
      prune_old_hashes 50000 st3)"

section \<open>Admission by keys\<close>

text \<open>
  The reference: every entry has a set of keys; it is admitted when none of them was taken, and
  then takes them all. Segments keep what is admitted of them, and empty ones go.
\<close>

fun admit :: "('e \<Rightarrow> 'k set) \<Rightarrow> 'k set \<Rightarrow> 'e list \<Rightarrow> 'e list" where
  "admit keys taken [] = []"
| "admit keys taken (e # es) =
     (if keys e \<inter> taken = {} then e # admit keys (taken \<union> keys e) es else admit keys taken es)"

definition taken_after :: "('e \<Rightarrow> 'k set) \<Rightarrow> 'k set \<Rightarrow> 'e list \<Rightarrow> 'k set" where
  "taken_after keys taken es = taken \<union> (\<Union>e \<in> set (admit keys taken es). keys e)"

fun admit_segments ::
  "(string \<Rightarrow> 'x timeline_entry \<Rightarrow> 'k set) \<Rightarrow> 'k set \<Rightarrow> 'x semantic_segment list \<Rightarrow> 'x semantic_segment list" where
  "admit_segments keys taken [] = []"
| "admit_segments keys taken (seg # segs) =
     (let es = sg_entries seg; kept = admit (keys (project_label seg)) taken es in
      (if kept \<noteq> [] then [seg\<lparr>sg_entries := kept\<rparr>] else [])
      @ admit_segments keys (taken_after (keys (project_label seg)) taken es) segs)"

text \<open>Entries with the label of their segment.\<close>

definition labelled :: "'x semantic_segment list \<Rightarrow> (string \<times> 'x timeline_entry) list" where
  "labelled segs = concat (map (\<lambda>s. map (Pair (project_label s)) (sg_entries s)) segs)"

lemma taken_after_Nil [simp]: "taken_after keys taken [] = taken"
  by (simp add: taken_after_def)

lemma taken_after_Cons:
  "taken_after keys taken (e # es) =
     (if keys e \<inter> taken = {} then taken_after keys (taken \<union> keys e) es else taken_after keys taken es)"
  by (auto simp: taken_after_def)

lemma admit_append: "admit keys taken (xs @ ys) = admit keys taken xs @ admit keys (taken_after keys taken xs) ys"
  by (induction xs arbitrary: taken) (simp_all add: taken_after_Cons)

lemma taken_after_append: "taken_after keys taken (xs @ ys) = taken_after keys (taken_after keys taken xs) ys"
  by (induction xs arbitrary: taken) (simp_all add: taken_after_Cons)

lemma admit_map: "admit keys taken (map f es) = map f (admit (keys \<circ> f) taken es)"
  by (induction es arbitrary: taken) simp_all

lemma taken_after_map: "taken_after keys taken (map f es) = taken_after (keys \<circ> f) taken es"
  by (simp add: taken_after_def admit_map)

lemma admit_set: "set (admit keys taken es) \<subseteq> set es"
  by (induction es arbitrary: taken) auto

lemma labelled_Cons: "labelled (s # segs) = map (Pair (project_label s)) (sg_entries s) @ labelled segs"
  by (simp add: labelled_def)

lemma labelled_admitted:
  "labelled (admit_segments keys taken segs) = admit (\<lambda>(l, e). keys l e) taken (labelled segs)"
proof (induction segs arbitrary: taken)
  case (Cons seg segs)
  have "(\<lambda>(l, e). keys l e) \<circ> Pair (project_label seg) = keys (project_label seg)"
    by (simp add: fun_eq_iff)
  with Cons show ?case
    by (auto simp: labelled_Cons admit_append admit_map taken_after_map Let_def)
       (auto simp: labelled_def project_label_def)
qed (simp add: labelled_def)

text \<open>Renaming the keys without confusing two that are compared changes nothing.\<close>

lemma admit_cong_keys:
  assumes "\<And>x y. x \<in> set es \<Longrightarrow> y \<in> set es \<Longrightarrow> keys x \<inter> keys y = {} \<longleftrightarrow> keys' x \<inter> keys' y = {}"
    and "\<And>x. x \<in> set es \<Longrightarrow> keys x \<inter> taken = {} \<longleftrightarrow> keys' x \<inter> taken' = {}"
  shows "admit keys taken es = admit keys' taken' es"
  using assms
proof (induction es arbitrary: taken taken')
  case (Cons e es)
  show ?case
  proof (cases "keys e \<inter> taken = {}")
    case True
    have "keys x \<inter> (taken \<union> keys e) = {} \<longleftrightarrow> keys' x \<inter> (taken' \<union> keys' e) = {}" if "x \<in> set es" for x
      using Cons.prems(1) [of x e] Cons.prems(2) [of x] that by (simp add: Int_Un_distrib)
    with Cons True show ?thesis by simp
  next
    case False
    with Cons show ?thesis by simp
  qed
qed simp

text \<open>When sharing a key is an equivalence, the first of each class is admitted.\<close>

fun firsts :: "('e \<Rightarrow> 'f) \<Rightarrow> 'e list \<Rightarrow> 'e list" where
  "firsts f [] = []"
| "firsts f (x # xs) = x # firsts f (filter (\<lambda>y. f y \<noteq> f x) xs)"

lemma admit_firsts:
  assumes "\<And>x y. x \<in> set es \<Longrightarrow> y \<in> set es \<Longrightarrow> keys x \<inter> keys y = {} \<longleftrightarrow> f x \<noteq> f y"
  shows "admit keys taken es = firsts f (filter (\<lambda>x. keys x \<inter> taken = {}) es)"
  using assms
proof (induction es arbitrary: taken)
  case (Cons e es)
  have "filter (\<lambda>x. keys x \<inter> (taken \<union> keys e) = {}) es = filter (\<lambda>y. f y \<noteq> f e) (filter (\<lambda>x. keys x \<inter> taken = {}) es)"
    using Cons.prems by (auto simp: Int_Un_distrib intro!: filter_cong)
  with Cons show ?case by simp
qed simp

section \<open>The loops admit by keys\<close>

definition seen_keys :: "state_manager \<Rightarrow> (string \<times> string) set" where
  "seen_keys st = {(bucket, h). seen_in (seen_hashes st) bucket h}"

definition state_keys :: "(word8 list \<Rightarrow> word8 list) \<Rightarrow> string \<Rightarrow> 'x timeline_entry \<Rightarrow> (string \<times> string) set" where
  "state_keys blake3 label e =
     {(canonical_state_bucket label, exact_of blake3 e),
      (canonical_state_bucket (overlap_project label), overlap_of blake3 e)}"

lemma is_new_keys: "is_new st p h \<longleftrightarrow> (canonical_state_bucket p, h) \<notin> seen_keys st"
  by (simp add: is_new_seen_in seen_keys_def)

lemma seen_keys_mark: "seen_keys (mark_seen p h st) = insert (canonical_state_bucket p, h) (seen_keys st)"
  by (auto simp: seen_keys_def mark_seen_def seen_in_entry [where hs = "{h}"])

lemma seen_keys_survivor: "seen_keys (mark_survivor blake3 label e st) = seen_keys st \<union> state_keys blake3 label e"
  by (auto simp: mark_survivor_def seen_keys_mark state_keys_def)

lemma dedup_entry_incremental:
  "dedup_entry blake3 False label e d =
     (if state_keys blake3 label e \<inter> seen_keys (dl_state d) = {}
      then d\<lparr>dl_state := mark_survivor blake3 label e (dl_state d), dl_kept := dl_kept d @ [e]\<rparr> else d)"
  by (auto simp: dedup_entry_def Let_def is_new_keys state_keys_def mark_survivor_def)

lemma dedup_entries_incremental:
  "let d' = fold (dedup_entry blake3 False label) es d;
       kept = admit (state_keys blake3 label) (seen_keys (dl_state d)) es in
   dl_kept d' = dl_kept d @ kept \<and> dl_state d' = fold (mark_survivor blake3 label) kept (dl_state d)"
proof (induction es arbitrary: d)
  case (Cons e es)
  from Cons.IH [of "dedup_entry blake3 False label e d"] show ?case
    by (auto simp: dedup_entry_incremental Let_def seen_keys_survivor)
qed simp

lemma seen_keys_survivors:
  "seen_keys (fold (mark_survivor blake3 label) es st) = seen_keys st \<union> (\<Union>e\<in>set es. state_keys blake3 label e)"
  by (induction es arbitrary: st) (auto simp: seen_keys_survivor)

definition mark_segments :: "(word8 list \<Rightarrow> word8 list) \<Rightarrow> 'x semantic_segment list \<Rightarrow> state_manager \<Rightarrow> state_manager" where
  "mark_segments blake3 = fold (\<lambda>seg. fold (mark_survivor blake3 (project_label seg)) (sg_entries seg))"

lemma project_label_entries [simp]: "project_label (seg\<lparr>sg_entries := es\<rparr>) = project_label seg"
  by (simp add: project_label_def)

lemma dedup_fold_incremental:
  "let r' = fold (dedup_segment blake3 False) segs r;
       out = admit_segments (state_keys blake3) (seen_keys (dr_state r)) segs in
   dr_out r' = dr_out r @ out \<and> dr_state r' = mark_segments blake3 out (dr_state r)"
proof (induction segs arbitrary: r)
  case (Cons seg segs)
  let ?label = "project_label seg"
  let ?d = "\<lparr>dl_state = dr_state r, dl_exact = hm_bucket (dr_exact r) ?label,
      dl_overlap = hm_bucket (dr_overlap r) (overlap_project ?label), dl_kept = []\<rparr>"
  have step: "dr_out (dedup_segment blake3 False seg r) = dr_out r @
        (let kept = admit (state_keys blake3 ?label) (seen_keys (dr_state r)) (sg_entries seg) in
         if kept \<noteq> [] then [seg\<lparr>sg_entries := kept\<rparr>] else [])"
    "dr_state (dedup_segment blake3 False seg r) =
        fold (mark_survivor blake3 ?label) (admit (state_keys blake3 ?label) (seen_keys (dr_state r)) (sg_entries seg)) (dr_state r)"
    using dedup_entries_incremental [of blake3 ?label "sg_entries seg" ?d]
    by (simp_all add: dedup_segment_def Let_def)
  from Cons.IH [of "dedup_segment blake3 False seg r"] show ?case
    by (auto simp: step Let_def seen_keys_survivors taken_after_def mark_segments_def)
qed (simp add: mark_segments_def)

lemma incremental_refines:
  "fst (dedup_segments_per_repo blake3 segs st False) = admit_segments (state_keys blake3) (seen_keys st) segs
   \<and> snd (dedup_segments_per_repo blake3 segs st False) = mark_segments blake3 (fst (dedup_segments_per_repo blake3 segs st False)) st
   \<and> seen_keys (snd (dedup_segments_per_repo blake3 segs st False)) =
       seen_keys st \<union> (\<Union>(label, e) \<in> set (labelled (fst (dedup_segments_per_repo blake3 segs st False))). state_keys blake3 label e)"
proof -
  have marked: "seen_keys (mark_segments blake3 out st) = seen_keys st \<union> (\<Union>(label, e) \<in> set (labelled out). state_keys blake3 label e)" for out st
    by (induction out arbitrary: st) (auto simp: mark_segments_def seen_keys_survivors labelled_def)
  show ?thesis
    using dedup_fold_incremental [of blake3 segs "\<lparr>dr_state = st, dr_exact = [], dr_overlap = [], dr_out = []\<rparr>"]
    by (simp add: dedup_segments_per_repo_def Let_def marked)
qed

text \<open>
  C13: An incremental run keeps exactly the entries the reference admits by the buckets and hashes
  the state has seen, each in its segment and in order; its new state is the old one with the kept
  entries marked, and so has seen exactly their keys more.
\<close>

theorem incremental_refines_admission:
  shows "fst (dedup_segments_per_repo blake3 segs st False) = admit_segments (state_keys blake3) (seen_keys st) segs
    \<and> snd (dedup_segments_per_repo blake3 segs st False) = mark_segments blake3 (fst (dedup_segments_per_repo blake3 segs st False)) st
    \<and> seen_keys (snd (dedup_segments_per_repo blake3 segs st False)) =
        seen_keys st \<union> (\<Union>(label, e) \<in> set (labelled (fst (dedup_segments_per_repo blake3 segs st False))). state_keys blake3 label e)"
  by (rule incremental_refines)

section \<open>Running again\<close>

lemma taken_after_hit:
  assumes "x \<in> set es" "\<And>e. keys e \<noteq> {}"
  shows "keys x \<inter> taken_after keys taken es \<noteq> {}"
  using assms(1)
proof (induction es arbitrary: taken)
  case (Cons e es)
  have grows: "t \<subseteq> taken_after keys t es" for t by (auto simp: taken_after_def)
  show ?case
  proof (cases "x = e")
    case True
    show ?thesis
    proof (cases "keys e \<inter> taken = {}")
      case free: True
      have "keys e \<subseteq> taken_after keys (taken \<union> keys e) es" using grows [of "taken \<union> keys e"] by blast
      with free True assms(2) [of e] show ?thesis by (simp add: taken_after_Cons Int_absorb2)
    next
      case False
      with True grows [of taken] show ?thesis by (simp add: taken_after_Cons) blast
    qed
  next
    case False
    with Cons show ?thesis by (simp add: taken_after_Cons)
  qed
qed simp

lemma admit_none: "(\<And>x. x \<in> set es \<Longrightarrow> keys x \<inter> taken \<noteq> {}) \<Longrightarrow> admit keys taken es = []"
  by (induction es) auto

lemma admit_segments_none:
  "(\<And>l e. (l, e) \<in> set (labelled segs) \<Longrightarrow> keys l e \<inter> taken \<noteq> {}) \<Longrightarrow> admit_segments keys taken segs = []"
proof (induction segs)
  case (Cons seg segs)
  have "admit (keys (project_label seg)) taken (sg_entries seg) = []"
    using Cons.prems by (intro admit_none) (auto simp: labelled_Cons)
  moreover from this have "taken_after (keys (project_label seg)) taken (sg_entries seg) = taken"
    by (simp add: taken_after_def)
  ultimately show ?case using Cons by (simp add: Let_def labelled_Cons)
qed simp

lemma prune_oldest_small: "seen_len s \<le> limit \<Longrightarrow> prune_oldest limit s = s"
  by (simp add: prune_oldest.simps)

lemma seen_keys_finish:
  assumes "list_all (\<lambda>(_, s). seen_len s \<le> 50000) (seen_hashes st)"
  shows "seen_keys (finish_run blake3 agents project False False latest now segs st) = seen_keys st"
proof -
  have "map (\<lambda>(k, s). (k, prune_oldest 50000 s)) (seen_hashes st) = seen_hashes st"
    using assms by (intro map_idI) (auto simp: list_all_iff prune_oldest_small)
  then show ?thesis
    by (simp add: finish_run_def Let_def prune_old_hashes_def record_run_def update_watermark_def seen_keys_def
        split: option.split)
qed

text \<open>
  C15: When no bucket outgrows its limit, an incremental run that follows another over the same
  segments keeps nothing, and leaves the state as the first run saved it.
\<close>

theorem rerun_keeps_nothing:
  assumes "dedup_segments_per_repo blake3 segs st False = (kept, st1)"
    and "list_all (\<lambda>(_, s). seen_len s \<le> 50000) (seen_hashes st1)"
    and "st2 = finish_run blake3 agents project False False latest now kept st1"
  shows "dedup_segments_per_repo blake3 segs st2 False = ([], st2)"
proof -
  note ref = incremental_refines
  have out: "kept = admit_segments (state_keys blake3) (seen_keys st) segs"
    "seen_keys st1 = seen_keys st \<union> (\<Union>(label, e) \<in> set (labelled kept). state_keys blake3 label e)"
    using ref [of blake3 segs st] assms(1) by auto
  have "seen_keys st2 = taken_after (\<lambda>(l, e). state_keys blake3 l e) (seen_keys st) (labelled segs)"
    unfolding assms(3) seen_keys_finish [OF assms(2)] out(2) taken_after_def labelled_admitted [symmetric] out(1) ..
  then have "state_keys blake3 l e \<inter> seen_keys st2 \<noteq> {}" if "(l, e) \<in> set (labelled segs)" for l e
    using taken_after_hit [OF that, of "\<lambda>(l, e). state_keys blake3 l e"] by (auto simp: state_keys_def)
  then have "admit_segments (state_keys blake3) (seen_keys st2) segs = []" by (rule admit_segments_none)
  then show ?thesis
    using ref [of blake3 segs st2] by (simp add: prod_eq_iff mark_segments_def)
qed

section \<open>A rescan\<close>

definition rescan_keys ::
  "(word8 list \<Rightarrow> word8 list) \<Rightarrow> string \<Rightarrow> 'x timeline_entry \<Rightarrow> (string \<times> string + string \<times> string) set" where
  "rescan_keys blake3 label e = {Inl (label, exact_of blake3 e), Inr (label, overlap_of blake3 e)}"

text \<open>Among these entries an exact hash never meets two overlap hashes.\<close>

definition exact_decides :: "(word8 list \<Rightarrow> word8 list) \<Rightarrow> (string \<times> 'x timeline_entry) set \<Rightarrow> bool" where
  "exact_decides blake3 items \<longleftrightarrow>
     (\<forall>(l, e) \<in> items. \<forall>(l', e') \<in> items. exact_of blake3 e = exact_of blake3 e' \<longrightarrow> overlap_of blake3 e = overlap_of blake3 e')"

text \<open>
  How the sets of a rescan stand to the keys taken: it has seen their hashes, and exact hashes
  besides, of entries whose overlap hash was seen.
\<close>

definition tracks :: "(word8 list \<Rightarrow> word8 list) \<Rightarrow> (string \<times> 'x timeline_entry) set \<Rightarrow>
    (string \<times> string + string \<times> string) set \<Rightarrow> string \<Rightarrow> string set \<Rightarrow> string set \<Rightarrow> bool" where
  "tracks blake3 items taken l exact overlap \<longleftrightarrow>
     (\<forall>h. h \<in> overlap \<longleftrightarrow> Inr (l, h) \<in> taken)
     \<and> (\<forall>h. Inl (l, h) \<in> taken \<longrightarrow> h \<in> exact)
     \<and> (\<forall>h\<in>exact. Inl (l, h) \<in> taken
          \<or> (\<exists>e. (l, e) \<in> items \<and> exact_of blake3 e = h \<and> Inr (l, overlap_of blake3 e) \<in> taken))"

lemma rescan_entry:
  assumes "exact_decides blake3 items" "(l, e) \<in> items"
    and "tracks blake3 items taken l (dl_exact d) (dl_overlap d)"
  defines "d' \<equiv> dedup_entry blake3 True l e d"
  shows "dl_state d' = dl_state d \<and>
    (if rescan_keys blake3 l e \<inter> taken = {}
     then dl_kept d' = dl_kept d @ [e] \<and> tracks blake3 items (taken \<union> rescan_keys blake3 l e) l (dl_exact d') (dl_overlap d')
     else dl_kept d' = dl_kept d \<and> tracks blake3 items taken l (dl_exact d') (dl_overlap d'))"
proof (cases "exact_of blake3 e \<in> dl_exact d")
  case True
  have "rescan_keys blake3 l e \<inter> taken \<noteq> {}"
  proof (cases "Inl (l, exact_of blake3 e) \<in> taken")
    case False
    then obtain e' where "(l, e') \<in> items" "exact_of blake3 e' = exact_of blake3 e" "Inr (l, overlap_of blake3 e') \<in> taken"
      using assms(3) True by (auto simp: tracks_def)
    moreover from this have "overlap_of blake3 e' = overlap_of blake3 e"
      using assms(1,2) by (fastforce simp: exact_decides_def)
    ultimately show ?thesis by (auto simp: rescan_keys_def)
  qed (simp add: rescan_keys_def)
  with True assms(3) show ?thesis by (simp add: d'_def dedup_entry_def)
next
  case False
  then have unseen: "Inl (l, exact_of blake3 e) \<notin> taken" using assms(3) by (auto simp: tracks_def)
  show ?thesis
  proof (cases "overlap_of blake3 e \<in> dl_overlap d")
    case True
    then have hit: "Inr (l, overlap_of blake3 e) \<in> taken" using assms(3) by (simp add: tracks_def)
    have "tracks blake3 items taken l (insert (exact_of blake3 e) (dl_exact d)) (dl_overlap d)"
      using assms(2,3) hit by (auto simp: tracks_def)
    with True False hit show ?thesis by (simp add: d'_def dedup_entry_def rescan_keys_def Let_def)
  next
    case fresh: False
    then have "Inr (l, overlap_of blake3 e) \<notin> taken" using assms(3) by (simp add: tracks_def)
    moreover have "tracks blake3 items (taken \<union> rescan_keys blake3 l e) l
        (insert (exact_of blake3 e) (dl_exact d)) (insert (overlap_of blake3 e) (dl_overlap d))"
      using assms(3) by (auto simp: tracks_def rescan_keys_def)
    ultimately show ?thesis
      using False fresh unseen by (simp add: d'_def dedup_entry_def rescan_keys_def Let_def)
  qed
qed

lemma tracks_other:
  "l' \<noteq> l \<Longrightarrow> tracks blake3 items taken l' X O1 \<Longrightarrow> tracks blake3 items (taken \<union> rescan_keys blake3 l e) l' X O1"
  by (simp add: tracks_def rescan_keys_def)

lemma rescan_entries:
  assumes "exact_decides blake3 items" "\<forall>e\<in>set es. (l, e) \<in> items"
    and "tracks blake3 items taken l (dl_exact d) (dl_overlap d)"
  shows "let d' = fold (dedup_entry blake3 True l) es d in
    dl_state d' = dl_state d \<and> dl_kept d' = dl_kept d @ admit (rescan_keys blake3 l) taken es
    \<and> tracks blake3 items (taken_after (rescan_keys blake3 l) taken es) l (dl_exact d') (dl_overlap d')"
  using assms(2,3)
proof (induction es arbitrary: d taken)
  case (Cons e es)
  note step = rescan_entry [OF assms(1), of l e taken d]
  show ?case
  proof (cases "rescan_keys blake3 l e \<inter> taken = {}")
    case True
    with Cons.IH [of "taken \<union> rescan_keys blake3 l e" "dedup_entry blake3 True l e d"] Cons.prems step show ?thesis
      by (simp add: Let_def taken_after_Cons)
  next
    case False
    with Cons.IH [of taken "dedup_entry blake3 True l e d"] Cons.prems step show ?thesis
      by (simp add: Let_def taken_after_Cons)
  qed
qed simp

lemma tracks_others:
  assumes "l' \<noteq> l" "tracks blake3 items taken l' X O1"
  shows "tracks blake3 items (taken_after (rescan_keys blake3 l) taken es) l' X O1"
  using assms(2)
proof (induction es arbitrary: taken)
  case (Cons e es)
  then show ?case using Cons.IH [OF tracks_other [OF assms(1) Cons.prems, of e]] by (simp add: taken_after_Cons)
qed simp

lemma overlap_project_inject [simp]: "overlap_project a = overlap_project b \<longleftrightarrow> a = b"
  by (simp add: overlap_project_def)

lemma hm_bucket_insert [simp]: "hm_bucket (hm_insert k s m) l = (if l = k then s else hm_bucket m l)"
  by (simp add: hm_bucket_def)

lemma rescan_fold:
  assumes "exact_decides blake3 items" "set (labelled segs) \<subseteq> items"
    and "\<forall>l. tracks blake3 items taken l (hm_bucket (dr_exact r) l) (hm_bucket (dr_overlap r) (overlap_project l))"
  shows "let r' = fold (dedup_segment blake3 True) segs r in
    dr_state r' = dr_state r \<and> dr_out r' = dr_out r @ admit_segments (rescan_keys blake3) taken segs"
  using assms(2,3)
proof (induction segs arbitrary: r taken)
  case (Cons seg segs)
  let ?l = "project_label seg" and ?es = "sg_entries seg"
  let ?d = "\<lparr>dl_state = dr_state r, dl_exact = hm_bucket (dr_exact r) ?l,
      dl_overlap = hm_bucket (dr_overlap r) (overlap_project ?l), dl_kept = []\<rparr>"
  let ?taken = "taken_after (rescan_keys blake3 ?l) taken ?es"
  let ?r = "dedup_segment blake3 True seg r"
  have items: "\<forall>e\<in>set ?es. (?l, e) \<in> items" using Cons.prems(1) by (auto simp: labelled_Cons)
  note loop = rescan_entries [OF assms(1) items, of taken ?d]
  have "tracks blake3 items taken ?l (dl_exact ?d) (dl_overlap ?d)" using Cons.prems(2) by simp
  note loop = loop [OF this]
  have "tracks blake3 items ?taken l (hm_bucket (dr_exact ?r) l) (hm_bucket (dr_overlap ?r) (overlap_project l))" for l
  proof (cases "l = ?l")
    case True
    with loop show ?thesis by (simp add: dedup_segment_def Let_def)
  next
    case False
    with Cons.prems(2) show ?thesis by (simp add: dedup_segment_def Let_def tracks_others)
  qed
  with Cons.IH [of ?taken ?r] Cons.prems(1) loop show ?case
    by (simp add: labelled_Cons dedup_segment_def Let_def)
qed simp

lemma rescan_admits:
  assumes "exact_decides blake3 (set (labelled segs))"
  shows "dedup_segments_per_repo blake3 segs st True = (admit_segments (rescan_keys blake3) {} segs, st)"
  using rescan_fold [OF assms subset_refl, of "{}" "\<lparr>dr_state = st, dr_exact = [], dr_overlap = [], dr_out = []\<rparr>"]
  by (simp add: dedup_segments_per_repo_def Let_def tracks_def hm_bucket_def)

lemma hit_taken_after:
  "k \<inter> taken_after keys taken es = {} \<longleftrightarrow> k \<inter> taken = {} \<and> (\<forall>x\<in>set (admit keys taken es). k \<inter> keys x = {})"
  by (auto simp: taken_after_def)

lemma admit_segments_cong:
  assumes "\<And>l e l' e'. (l, e) \<in> set (labelled segs) \<Longrightarrow> (l', e') \<in> set (labelled segs) \<Longrightarrow>
      keys l e \<inter> keys l' e' = {} \<longleftrightarrow> keys' l e \<inter> keys' l' e' = {}"
    and "\<And>l e. (l, e) \<in> set (labelled segs) \<Longrightarrow> keys l e \<inter> taken = {} \<longleftrightarrow> keys' l e \<inter> taken' = {}"
  shows "admit_segments keys taken segs = admit_segments keys' taken' segs"
  using assms
proof (induction segs arbitrary: taken taken')
  case (Cons seg segs)
  let ?l = "project_label seg" and ?es = "sg_entries seg"
  have kept: "admit (keys ?l) taken ?es = admit (keys' ?l) taken' ?es"
    using Cons.prems by (intro admit_cong_keys) (auto simp: labelled_Cons)
  have "keys l e \<inter> taken_after (keys ?l) taken ?es = {} \<longleftrightarrow> keys' l e \<inter> taken_after (keys' ?l) taken' ?es = {}"
    if "(l, e) \<in> set (labelled segs)" for l e
  proof -
    have "keys l e \<inter> keys ?l x = {} \<longleftrightarrow> keys' l e \<inter> keys' ?l x = {}" if "x \<in> set (admit (keys ?l) taken ?es)" for x
      using Cons.prems(1) [of l e ?l x] \<open>(l, e) \<in> set (labelled segs)\<close> admit_set [of "keys ?l" taken ?es] that
      by (auto simp: labelled_Cons)
    moreover have "keys l e \<inter> taken = {} \<longleftrightarrow> keys' l e \<inter> taken' = {}"
      using Cons.prems(2) [of l e] that by (simp add: labelled_Cons)
    ultimately show ?thesis unfolding hit_taken_after kept [symmetric] by blast
  qed
  from Cons.IH [OF _ this] Cons.prems(1) show ?case by (simp add: Let_def kept labelled_Cons)
qed simp

text \<open>
  The hashes of these entries tell them apart as they should, and no two labels, nor a label and
  the overlap bucket of another, are spelled into one bucket.
\<close>

definition no_collisions :: "(word8 list \<Rightarrow> word8 list) \<Rightarrow> 'x semantic_segment list \<Rightarrow> bool" where
  "no_collisions blake3 segs \<longleftrightarrow>
     (\<forall>(l, e) \<in> set (labelled segs). \<forall>(l', e') \<in> set (labelled segs).
        (exact_of blake3 e = exact_of blake3 e' \<longrightarrow>
           timestamp_secs (te_timestamp e) = timestamp_secs (te_timestamp e') \<and> te_message e = te_message e')
        \<and> (overlap_of blake3 e = overlap_of blake3 e' \<longrightarrow>
           i64_div (timestamp_secs (te_timestamp e)) 60 = i64_div (timestamp_secs (te_timestamp e')) 60
           \<and> te_message e = te_message e'))"

definition buckets_apart :: "'x semantic_segment list \<Rightarrow> bool" where
  "buckets_apart segs \<longleftrightarrow>
     (let labels = project_label ` set segs in
      inj_on canonical_state_bucket (labels \<union> overlap_project ` labels) \<and> labels \<inter> overlap_project ` labels = {})"

text \<open>What makes two entries the same prompt: the repository, the minute and the message.\<close>

definition prompt_of :: "string \<times> 'x timeline_entry \<Rightarrow> string \<times> int \<times> string" where
  "prompt_of = (\<lambda>(label, e). (label, i64_div (timestamp_secs (te_timestamp e)) 60, te_message e))"

lemma overlap_of_cong:
  "i64_div (timestamp_secs (te_timestamp e)) 60 = i64_div (timestamp_secs (te_timestamp e')) 60 \<Longrightarrow>
   te_message e = te_message e' \<Longrightarrow> overlap_of blake3 e = overlap_of blake3 e'"
  by (simp add: overlap_of_def overlap_hash_def)

lemma labelled_label: "(l, e) \<in> set (labelled segs) \<Longrightarrow> l \<in> project_label ` set segs"
  by (auto simp: labelled_def)

lemma rescan_keys_prompt:
  assumes "no_collisions blake3 segs" "x \<in> set (labelled segs)" "y \<in> set (labelled segs)"
  shows "(case x of (l, e) \<Rightarrow> rescan_keys blake3 l e) \<inter> (case y of (l, e) \<Rightarrow> rescan_keys blake3 l e) = {} \<longleftrightarrow>
    prompt_of x \<noteq> prompt_of y"
proof -
  obtain l e l' e' where xy: "x = (l, e)" "y = (l', e')" by (metis prod.exhaust)
  from assms show ?thesis
    using overlap_of_cong [of e e' blake3]
    by (fastforce simp: xy rescan_keys_def prompt_of_def no_collisions_def)
qed

lemma state_keys_rescan:
  assumes "buckets_apart segs" "(l, e) \<in> set (labelled segs)" "(l', e') \<in> set (labelled segs)"
  shows "state_keys blake3 l e \<inter> state_keys blake3 l' e' = {} \<longleftrightarrow> rescan_keys blake3 l e \<inter> rescan_keys blake3 l' e' = {}"
proof -
  let ?all = "project_label ` set segs \<union> overlap_project ` project_label ` set segs"
  have inj: "inj_on canonical_state_bucket ?all" and apart: "l \<noteq> overlap_project l'" "l' \<noteq> overlap_project l"
    using assms labelled_label [OF assms(2)] labelled_label [OF assms(3)] by (auto simp: buckets_apart_def Let_def)
  have eq: "canonical_state_bucket a = canonical_state_bucket b \<longleftrightarrow> a = b" if "a \<in> ?all" "b \<in> ?all" for a b
    using inj that by (auto dest: inj_onD)
  have "l \<in> ?all" "l' \<in> ?all" "overlap_project l \<in> ?all" "overlap_project l' \<in> ?all"
    using labelled_label [OF assms(2)] labelled_label [OF assms(3)] by auto
  note eqs = eq [OF this(1,2)] eq [OF this(1,4)] eq [OF this(3,2)] eq [OF this(3,4)]
    eq [OF this(2,1)] eq [OF this(4,1)] eq [OF this(2,3)] eq [OF this(4,3)]
  show ?thesis using apart by (auto simp: state_keys_def rescan_keys_def eqs)
qed

text \<open>
  C14: From a state that has seen nothing, an incremental run and a rescan keep the same: of the
  entries of a repository that fall in one minute with one message, whatever agents sent them, the
  first. The hashes are those of BLAKE3 without a collision among the entries, and no two labels
  are spelled into one bucket.
\<close>

theorem fresh_runs_keep_firsts:
  assumes "no_collisions blake3 segs" "buckets_apart segs" "seen_keys st = {}"
  shows "fst (dedup_segments_per_repo blake3 segs st False) = fst (dedup_segments_per_repo blake3 segs st' True)
    \<and> labelled (fst (dedup_segments_per_repo blake3 segs st' True)) = firsts prompt_of (labelled segs)
    \<and> snd (dedup_segments_per_repo blake3 segs st' True) = st'"
proof -
  have "overlap_of blake3 e = overlap_of blake3 e'"
    if "(l, e) \<in> set (labelled segs)" "(l', e') \<in> set (labelled segs)" "exact_of blake3 e = exact_of blake3 e'" for l e l' e'
    using assms(1) that by (intro overlap_of_cong) (fastforce simp: no_collisions_def)+
  then have "exact_decides blake3 (set (labelled segs))" by (auto simp: exact_decides_def)
  note rescan = rescan_admits [OF this]
  have "admit_segments (state_keys blake3) {} segs = admit_segments (rescan_keys blake3) {} segs"
    using state_keys_rescan [OF assms(2)] by (intro admit_segments_cong) auto
  moreover have "labelled (admit_segments (rescan_keys blake3) {} segs) = firsts prompt_of (labelled segs)"
    unfolding labelled_admitted
    by (subst admit_firsts [where f = prompt_of]) (simp_all only: rescan_keys_prompt [OF assms(1)] refl Int_empty_right simp_thms, simp)
  ultimately show ?thesis
    using incremental_refines [of blake3 segs st] by (simp add: assms(3) rescan)
qed

text \<open>
  Where two labels are spelled into one bucket the two ways part: a rescan looks under the label as
  it is and keeps a prompt once for each spelling, an incremental run keeps it once.
\<close>

lemma rescan_splits_spellings:
  assumes "project_label a \<noteq> project_label b"
    and "canonical_state_bucket (project_label a) = canonical_state_bucket (project_label b)"
    and "sg_entries a = [e]" "sg_entries b = [e]" "seen_keys st = {}"
  shows "fst (dedup_segments_per_repo blake3 [a, b] st True) = [a, b]"
    and "fst (dedup_segments_per_repo blake3 [a, b] st False) = [a]"
proof -
  have "exact_decides blake3 (set (labelled [a, b]))"
    using assms(3,4) by (auto simp: exact_decides_def labelled_def)
  moreover have "a\<lparr>sg_entries := [e]\<rparr> = a" "b\<lparr>sg_entries := [e]\<rparr> = b"
    using assms(3,4) by (simp_all flip: assms(3,4))
  moreover have "rescan_keys blake3 (project_label a) e \<inter> rescan_keys blake3 (project_label b) e = {}"
    using assms(1) by (auto simp: rescan_keys_def)
  ultimately show "fst (dedup_segments_per_repo blake3 [a, b] st True) = [a, b]"
    "fst (dedup_segments_per_repo blake3 [a, b] st False) = [a]"
    using assms(2-5) by (simp_all add: rescan_admits incremental_refines taken_after_def Let_def Int_commute)
       (simp add: state_keys_def)
qed

section \<open>Watermarks\<close>

lemma newest_Some: "newest ts = Some t \<longleftrightarrow> t \<in> set ts \<and> (\<forall>u \<in> set ts. u \<le> t)"
  by (simp add: newest_Max Max_eq_iff)

lemma agent_watermark_Some:
  "agent_watermark w covered a = Some t \<longleftrightarrow> w = Some t \<and> a \<in> covered \<and> a \<noteq> ''copilot'' \<and> a \<noteq> ''omp''"
  by (auto simp: agent_watermark_def Let_def)

lemma run_watermark_parts:
  assumes "run_watermark agents project full_rescan force st = (st1, watermark, covered)"
  defines "key \<equiv> extraction_source_key agents project" and "aliases \<equiv> extraction_source_key_aliases agents project"
  shows "st1 = snd (migrate_watermark_aliases key aliases st)"
    and "watermark = (if full_rescan \<or> force then None else get_watermark st1 key)"
    and "covered = watermark_covered_agents st key aliases"
  using assms by (auto simp: run_watermark_def Let_def)

text \<open>
  C16: Exactly when an agent scans from an instant: the run is neither a rescan nor forced, the
  agent is neither copilot nor omp, and either the composition's own key names the agent and
  recorded the instant, or the composition has no watermark, some older key that has one names the
  agent, and the instant is the newest that any older key recorded. An agent no recorded key names
  never skips anything; with several older keys the instant may come from one that does not name it.
\<close>

theorem watermark_names_agent:
  "case run_watermark agents project full_rescan force st of (st1, watermark, covered) \<Rightarrow>
     agent_watermark watermark covered agent = Some t \<longleftrightarrow>
       \<not> full_rescan \<and> \<not> force \<and> agent \<notin> {''copilot'', ''omp''}
       \<and> (let key = extraction_source_key agents project; aliases = set (extraction_source_key_aliases agents project)
           in case get_watermark st key of
                Some own \<Rightarrow> t = own \<and> agent \<in> agent_names_in_watermark_key key
              | None \<Rightarrow> (\<exists>a \<in> aliases. get_watermark st a \<noteq> None \<and> agent \<in> agent_names_in_watermark_key a)
                  \<and> (\<exists>a \<in> aliases. get_watermark st a = Some t)
                  \<and> (\<forall>a \<in> aliases. \<forall>u. get_watermark st a = Some u \<longrightarrow> u \<le> t))"
proof -
  let ?key = "extraction_source_key agents project" and ?aliases = "extraction_source_key_aliases agents project"
  obtain st1 w c where run: "run_watermark agents project full_rescan force st = (st1, w, c)"
    by (metis prod.exhaust)
  note parts = run_watermark_parts [OF run]
  show ?thesis
  proof (cases "get_watermark st ?key")
    case (Some own)
    then show ?thesis
      unfolding run prod.case agent_watermark_Some parts
      by (auto simp: get_migrated_watermark watermark_covered_agents_def)
  next
    case None
    have newest: "newest (List.map_filter (get_watermark st) ?aliases) = Some t \<longleftrightarrow>
        (\<exists>a \<in> set ?aliases. get_watermark st a = Some t)
        \<and> (\<forall>a \<in> set ?aliases. \<forall>u. get_watermark st a = Some u \<longrightarrow> u \<le> t)"
      unfolding newest_Some set_map_filter by auto
    with None show ?thesis
      unfolding run prod.case agent_watermark_Some parts
      by (simp add: get_migrated_watermark watermark_covered_agents_def Let_def newest) blast
  qed
qed

text \<open>
  With two older watermarks the newer instant is combined with the agents of both: an agent that
  only the older key names scans from the newer instant.
\<close>

definition two_watermarks :: state_manager where
  "two_watermarks = state_default\<lparr>last_processed :=
     [(kimi_all_watermark_key @ '':all'', 50), (legacy_all_watermark_key @ '':all'', 100)]\<rparr>"

lemma all_agents_key:
  "extraction_source_key all_watermark_agents [] =
     ''agy+claude+codescribe+codex+copilot+cursor+gemini+grok+junie+kimi+omp:all''"
  by (simp add: extraction_source_key_def normalized_agent_source_key_def normalized_source_key_parts_def
      all_watermark_agents_def legacy_all_watermark_agents_def normalized_project_source_key_def rust_eval)

lemma all_agents_aliases:
  "extraction_source_key_aliases all_watermark_agents [] = map (\<lambda>key. key @ '':all'')
     [omp_all_watermark_key, copilot_all_watermark_key, cursor_all_watermark_key, kimi_all_watermark_key,
      legacy_all_watermark_key, ''claude+codex+gemini+junie+codescribe'', ''claude+codex+gemini'',
      ''claude+codex+gemini+junie'']"
  by (simp add: extraction_source_key_aliases_def normalized_project_source_key_def Let_def)

lemmas watermark_eval = all_agents_key all_agents_aliases get_watermark_def hm_get_def hm_insert_def
  omp_all_watermark_key_def copilot_all_watermark_key_def cursor_all_watermark_key_def kimi_all_watermark_key_def
  legacy_all_watermark_key_def agent_names_in_watermark_key_def watermark_covered_agents_def
  migrate_watermark_aliases_def newest_def List.map_filter_simps

lemma watermark_overclaims:
  "case run_watermark all_watermark_agents [] False False two_watermarks of (_, watermark, covered) \<Rightarrow>
     agent_watermark watermark covered ''kimi'' = Some 100"
  "get_watermark two_watermarks key = Some 100 \<Longrightarrow> ''kimi'' \<notin> agent_names_in_watermark_key key"
proof -
  show "get_watermark two_watermarks key = Some 100 \<Longrightarrow> ''kimi'' \<notin> agent_names_in_watermark_key key"
    by (auto simp: two_watermarks_def get_watermark_def hm_get_def legacy_all_watermark_key_def
        agent_names_in_watermark_key_def split: if_splits)
  show "case run_watermark all_watermark_agents [] False False two_watermarks of (_, watermark, covered) \<Rightarrow>
     agent_watermark watermark covered ''kimi'' = Some 100"
    by (simp add: run_watermark_def Let_def agent_watermark_def two_watermarks_def watermark_eval)
qed

section \<open>Witnesses\<close>

definition broadcast :: "unit semantic_segment list" where
  "broadcast =
     [build_segment (Some \<lparr> ri_organization = ''o'', ri_repository = ''r'' \<rparr>) None ''codex'' ''s'' [sample_entry 61000000000 ''codex'' ''go'' None],
      build_segment (Some \<lparr> ri_organization = ''o'', ri_repository = ''r'' \<rparr>) None ''claude'' ''t'' [sample_entry 62000000000 ''claude'' ''go'' None]]"

lemma broadcast_label [simp]: "project_label (build_segment (Some \<lparr> ri_organization = ''o'', ri_repository = ''r'' \<rparr>) t a s es) = ''o/r''"
  by (simp add: project_label_def build_segment_def repo_slug_def)

lemma broadcast_labelled:
  "labelled broadcast = [(''o/r'', sample_entry 61000000000 ''codex'' ''go'' None), (''o/r'', sample_entry 62000000000 ''claude'' ''go'' None)]"
  by (simp add: labelled_def broadcast_def) (simp add: build_segment_def)

text \<open>A digest that is its input already tells first fields of different lengths apart.\<close>

lemma plain_digest_apart:
  assumes "length x < 2 ^ 64" "length y < 2 ^ 64" "length x \<noteq> length y"
  shows "stable_hash_fields (\<lambda>b. b) (x # xs) \<noteq> stable_hash_fields (\<lambda>b. b) (y # ys)"
proof
  assume "stable_hash_fields (\<lambda>b. b) (x # xs) = stable_hash_fields (\<lambda>b. b) (y # ys)"
  then have "take 16 (framed (x # xs)) = take 16 (framed (y # ys))"
    by (simp add: stable_hash_framed hex_of_digest_inject)
  then have "take 8 (take 16 (framed (x # xs))) = take 8 (take 16 (framed (y # ys)))" by (rule arg_cong)
  then have "le_bytes 8 (length x) = le_bytes 8 (length y)" by (simp add: framed_def)
  with assms show False by (simp add: le_bytes_inject)
qed

lemma broadcast_no_collisions: "no_collisions (\<lambda>b. b) broadcast"
  using plain_digest_apart [of "as_bytes ''codex''" "as_bytes ''claude''"]
    plain_digest_apart [of "as_bytes ''claude''" "as_bytes ''codex''"]
  by (simp add: no_collisions_def broadcast_labelled exact_of_def content_hash_def sample_entry_def timestamp_secs_def i64_div_def)

lemma broadcast_buckets:
  "canonical_state_bucket ''o/r'' = ''o/r''" "canonical_state_bucket ''_overlap:o/r'' = ''_overlap:o/r''"
  by (simp_all add: canonical_state_bucket_def slash_def rust_eval)

lemma broadcast_apart: "buckets_apart broadcast"
  by (simp add: buckets_apart_def broadcast_def overlap_project_def broadcast_buckets)

lemma fresh_runs_keep_firsts_witness:
  "labelled (fst (dedup_segments_per_repo (\<lambda>b. b) broadcast state_default True)) =
     [(''o/r'', sample_entry 61000000000 ''codex'' ''go'' None)]"
proof -
  have "seen_keys state_default = {}" by (simp add: seen_keys_def seen_in_def state_default_def)
  from fresh_runs_keep_firsts [OF broadcast_no_collisions broadcast_apart this, of state_default] show ?thesis
    by (simp add: broadcast_labelled prompt_of_def) (simp add: sample_entry_def timestamp_secs_def i64_div_def)
qed

lemma mark_segments_labelled: "mark_segments blake3 segs st = fold (\<lambda>(l, e). mark_survivor blake3 l e) (labelled segs) st"
  by (induction segs arbitrary: st) (simp_all add: mark_segments_def labelled_def fold_map comp_def)

lemma broadcast_kept:
  "labelled (fst (dedup_segments_per_repo (\<lambda>b. b) broadcast state_default False)) =
     [(''o/r'', sample_entry 61000000000 ''codex'' ''go'' None)]"
proof -
  have "overlap_of (\<lambda>b. b) (sample_entry 62000000000 ''claude'' ''go'' None) = overlap_of (\<lambda>b. b) (sample_entry 61000000000 ''codex'' ''go'' None)"
    by (rule overlap_of_cong) (simp_all add: sample_entry_def timestamp_secs_def i64_div_def)
  moreover have "seen_keys state_default = {}" by (simp add: seen_keys_def seen_in_def state_default_def)
  ultimately show ?thesis
    by (simp add: incremental_refines labelled_admitted broadcast_labelled state_keys_def)
qed

lemma rerun_keeps_nothing_witness:
  "let (kept, st1) = dedup_segments_per_repo (\<lambda>b. b) broadcast state_default False;
       st2 = finish_run (\<lambda>b. b) [''codex''] [] False False (Some 5) 6 kept st1 in
   kept \<noteq> [] \<and> dedup_segments_per_repo (\<lambda>b. b) broadcast st2 False = ([], st2)"
proof -
  obtain kept st1 where first: "dedup_segments_per_repo (\<lambda>b. b) broadcast state_default False = (kept, st1)"
    by (metis prod.exhaust)
  have kept: "labelled kept = [(''o/r'', sample_entry 61000000000 ''codex'' ''go'' None)]"
    using broadcast_kept by (simp add: first)
  have "st1 = mark_survivor (\<lambda>b. b) ''o/r'' (sample_entry 61000000000 ''codex'' ''go'' None) state_default"
    using incremental_refines [of "\<lambda>b. b" broadcast state_default] by (simp add: first mark_segments_labelled kept)
  then have "list_all (\<lambda>(_, s). seen_len s \<le> 50000) (seen_hashes st1)"
    by (simp add: mark_survivor_def mark_seen_def overlap_project_def broadcast_buckets state_default_def hm_entry_def
        hm_insert_def hm_get_def seen_default_def seen_insert_def seen_len_def)
  from rerun_keeps_nothing [OF first this refl] kept show ?thesis by (auto simp: first labelled_def)
qed

lemma watermark_names_agent_witness:
  "case run_watermark all_watermark_agents [] False False two_watermarks of (_, watermark, covered) \<Rightarrow>
     agent_watermark watermark covered ''kimi'' = Some 100 \<and> agent_watermark watermark covered ''agy'' = None"
proof -
  let ?keys = "set (extraction_source_key_aliases all_watermark_agents [])"
  obtain st1 w c where run: "run_watermark all_watermark_agents [] False False two_watermarks = (st1, w, c)"
    by (metis prod.exhaust)
  have own: "extraction_source_key all_watermark_agents [] \<noteq> kimi_all_watermark_key @ '':all''"
    "extraction_source_key all_watermark_agents [] \<noteq> legacy_all_watermark_key @ '':all''"
    by (simp_all add: watermark_eval)
  have recorded: "get_watermark two_watermarks a =
      (if a = kimi_all_watermark_key @ '':all'' then Some 50
       else if a = legacy_all_watermark_key @ '':all'' then Some 100 else None)" for a
    by (simp add: two_watermarks_def get_watermark_def hm_get_def)
  have keys: "kimi_all_watermark_key @ '':all'' \<in> ?keys" "legacy_all_watermark_key @ '':all'' \<in> ?keys"
    by (simp_all add: all_agents_aliases)
  have differ: "kimi_all_watermark_key @ '':all'' \<noteq> legacy_all_watermark_key @ '':all''"
    by (simp add: kimi_all_watermark_key_def legacy_all_watermark_key_def)
  have "''kimi'' \<in> agent_names_in_watermark_key (kimi_all_watermark_key @ '':all'')"
    by (simp add: agent_names_in_watermark_key_def kimi_all_watermark_key_def)
  then have "agent_watermark w c ''kimi'' = Some 100"
    using watermark_names_agent [where agents = all_watermark_agents and project = "[]" and full_rescan = False
        and force = False and st = two_watermarks and agent = "''kimi''" and t = 100]
      keys differ by (auto simp: run own recorded Let_def)
  moreover have "''agy'' \<notin> agent_names_in_watermark_key (kimi_all_watermark_key @ '':all'')"
    "''agy'' \<notin> agent_names_in_watermark_key (legacy_all_watermark_key @ '':all'')"
    by (simp_all add: agent_names_in_watermark_key_def kimi_all_watermark_key_def legacy_all_watermark_key_def)
  then have "agent_watermark w c ''agy'' \<noteq> Some t" for t
    using watermark_names_agent [where agents = all_watermark_agents and project = "[]" and full_rescan = False
        and force = False and st = two_watermarks and agent = "''agy''" and t = t]
    by (auto simp: run own recorded Let_def split: if_splits)
  ultimately show ?thesis by (simp add: run) (metis option.exhaust)
qed

end
