(* ===== verification/Self_Echo.thy ===== *)
theory Self_Echo
  imports Path_Guard
begin

text \<open>
  Which messages are the tool's own traffic (\<^verbatim>\<open>is_self_echo\<close> of
  \<^verbatim>\<open>crates/aicx-parser/src/sanitize.rs\<close>): the patterns, those an operator adds in the
  configuration, the lines between the marks of a read block, and the majority of lines; and the
  normal form of a query. Lowercasing beyond ASCII and Unicode decomposition are tables the standard
  library and a crate hold, and reading TOML is a crate's: they are parameters.
\<close>

section \<open>Patterns\<close>

definition stable_self_echo_patterns :: "string list" where
  "stable_self_echo_patterns = [''aicx_search'', ''aicx_read'', ''aicx_rank'', ''aicx_refs'', ''aicx_store'',
     ''/api/search/fuzzy'', ''/api/search/semantic'', ''/api/search/cross'', ''/api/health'',
     ''/api/regenerate'', ''/api/status'']"

definition dquote :: char where "dquote = CHR 0x22"

definition mcp_jsonrpc_catch_all :: string where
  "mcp_jsonrpc_catch_all = [dquote] @ ''jsonrpc'' @ [dquote] @ '':'' @ [dquote] @ ''2.0'' @ [dquote]"

definition retired_cli_subcommands :: "string list" where
  "retired_cli_subcommands = [''rank'', ''gemini'', ''junie'']"

definition cli_subcommand_names :: "string list" where
  "cli_subcommand_names = [''all'', ''claims'', ''catalog'', ''clarify'', ''claude'', ''codex'', ''config'',
     ''completions'', ''continuity'', ''conversations'', ''corpus'', ''dashboard'', ''dashboard-serve'',
     ''doctor'', ''eval'', ''extract'', ''health'', ''index'', ''ingest'', ''init'', ''intents'', ''list'',
     ''migrate'', ''migrate-intent-schema'', ''open'', ''overlay'', ''read'', ''refs'', ''reports'',
     ''reports-extractor'', ''results'', ''search'', ''serve'', ''session'', ''sessions'', ''sources'',
     ''state'', ''steer'', ''store'', ''tail'', ''utterances'', ''warmup'', ''wizard'']"

definition build_self_echo_patterns :: "string list \<Rightarrow> string list" where
  "build_self_echo_patterns extra =
     stable_self_echo_patterns @ [mcp_jsonrpc_catch_all]
     @ map (\<lambda>name. ''aicx '' @ name) (cli_subcommand_names @ retired_cli_subcommands)
     @ filter (\<lambda>p. p \<noteq> []) (map str_trim extra)"

text \<open>
  The configuration file; \<open>toml\<close> gives the patterns of the extraction section, if there is one,
  of a text it can read.
\<close>

definition load_extra_self_echo_patterns ::
  "user_env \<Rightarrow> 'h guard_host_scheme \<Rightarrow> (string \<Rightarrow> string list option option) \<Rightarrow> string option \<Rightarrow> string option
   \<Rightarrow> string list" where
  "load_extra_self_echo_patterns env h toml aicx_home home =
     (case (case aicx_home of Some b \<Rightarrow> Some b | None \<Rightarrow> map_option (\<lambda>d. path_join d ''.aicx'') home) of
        None \<Rightarrow> []
      | Some base \<Rightarrow>
          (case read_to_string_validated env h (path_join base ''config.toml'') of
             Inl _ \<Rightarrow> []
           | Inr raw \<Rightarrow>
               (case toml raw of
                  None \<Rightarrow> []
                | Some section \<Rightarrow>
                    filter (\<lambda>p. p \<noteq> []) (map str_trim (case section of None \<Rightarrow> [] | Some ps \<Rightarrow> ps)))))"

definition active_self_echo_patterns :: "(string \<Rightarrow> string) \<Rightarrow> string list \<Rightarrow> string list" where
  "active_self_echo_patterns to_lowercase extra = map to_lowercase (build_self_echo_patterns extra)"

section \<open>Messages\<close>

text \<open>The marks around a read block, in the corner brackets U+3010 and U+3011.\<close>

definition aicx_read_begin :: string where
  "aicx_read_begin = [CHR 0xE3, CHR 0x80, CHR 0x90] @ ''aicx:read'' @ [CHR 0xE3, CHR 0x80, CHR 0x91]"

definition aicx_read_end :: string where
  "aicx_read_end = [CHR 0xE3, CHR 0x80, CHR 0x90] @ ''/aicx:read'' @ [CHR 0xE3, CHR 0x80, CHR 0x91]"

definition matches_pattern :: "(string \<Rightarrow> string) \<Rightarrow> string list \<Rightarrow> string \<Rightarrow> bool" where
  "matches_pattern to_lowercase patterns line \<longleftrightarrow> list_ex (str_contains (to_lowercase line)) patterns"

text \<open>The loop: how many lines were echo, and whether a block is open.\<close>

definition echo_step ::
  "(string \<Rightarrow> string) \<Rightarrow> string list \<Rightarrow> string \<Rightarrow> nat \<times> bool \<Rightarrow> nat \<times> bool" where
  "echo_step to_lowercase patterns line = (\<lambda>(echo_lines, inside).
     if str_contains line aicx_read_begin then (echo_lines + 1, True)
     else if str_contains line aicx_read_end then (echo_lines + 1, False)
     else if inside then (echo_lines + 1, inside)
     else if matches_pattern to_lowercase patterns line then (echo_lines + 1, inside)
     else (echo_lines, inside))"

definition message_lines :: "string \<Rightarrow> string list" where
  "message_lines message = filter (\<lambda>l. l \<noteq> []) (map str_trim (str_lines message))"

definition is_self_echo :: "(string \<Rightarrow> string) \<Rightarrow> string list \<Rightarrow> string \<Rightarrow> bool" where
  "is_self_echo to_lowercase patterns message =
     (let ls = message_lines message in
      if ls = [] then False
      else (let (echo_lines, _) = fold (echo_step to_lowercase patterns) ls (0, False) in
            echo_lines > 0 \<and> echo_lines * 2 > length ls))"

definition filter_self_echo :: "(string \<Rightarrow> string) \<Rightarrow> string list \<Rightarrow> ('e \<Rightarrow> string) \<Rightarrow> 'e list \<Rightarrow> 'e list" where
  "filter_self_echo to_lowercase patterns get_message entries =
     filter (\<lambda>e. \<not> is_self_echo to_lowercase patterns (get_message e)) entries"

section \<open>Queries\<close>

text \<open>
  Characters are their texts. \<open>nfd\<close> decomposes, \<open>lower\<close> is
  \<^verbatim>\<open>char::to_lowercase\<close>, and the Polish letter U+0142 becomes an l.
\<close>

definition l_with_stroke :: string where
  "l_with_stroke = [CHR 0xC5, CHR 0x82]"

definition normalize_query ::
  "(string \<Rightarrow> string list) \<Rightarrow> (string \<Rightarrow> bool) \<Rightarrow> (string \<Rightarrow> string list) \<Rightarrow> string \<Rightarrow> string" where
  "normalize_query nfd is_combining_mark lower s =
     concat (map (\<lambda>ch. if ch = l_with_stroke then ''l'' else ch)
       (concat (map lower (filter (\<lambda>ch. \<not> is_combining_mark ch) (nfd s)))))"

section \<open>Where a line is echo\<close>

text \<open>
  A block is open at a line when an earlier line opens one and no line since closes it; a line that
  holds both marks opens.
\<close>

definition opens :: "string \<Rightarrow> bool" where
  "opens l \<longleftrightarrow> str_contains l aicx_read_begin"

definition closes :: "string \<Rightarrow> bool" where
  "closes l \<longleftrightarrow> \<not> opens l \<and> str_contains l aicx_read_end"

definition block_open :: "string list \<Rightarrow> nat \<Rightarrow> bool" where
  "block_open ls i \<longleftrightarrow> (\<exists>j<i. opens (ls ! j) \<and> (\<forall>k\<in>{j<..<i}. \<not> closes (ls ! k)))"

definition echo_at :: "(string \<Rightarrow> string) \<Rightarrow> string list \<Rightarrow> string list \<Rightarrow> nat \<Rightarrow> bool" where
  "echo_at to_lowercase patterns ls i \<longleftrightarrow>
     opens (ls ! i) \<or> closes (ls ! i) \<or> block_open ls i \<or> matches_pattern to_lowercase patterns (ls ! i)"

lemma block_open_Suc: "block_open ls (Suc i) \<longleftrightarrow> opens (ls ! i) \<or> (block_open ls i \<and> \<not> closes (ls ! i))"
proof -
  have "block_open ls (Suc i) \<longleftrightarrow> opens (ls ! i) \<or> (\<exists>j<i. opens (ls ! j) \<and> (\<forall>k\<in>{j<..<Suc i}. \<not> closes (ls ! k)))"
  proof
    assume "opens (ls ! i) \<or> (\<exists>j<i. opens (ls ! j) \<and> (\<forall>k\<in>{j<..<Suc i}. \<not> closes (ls ! k)))"
    moreover have "{i<..<Suc i} = {}" by auto
    ultimately show "block_open ls (Suc i)" unfolding block_open_def by (metis empty_iff less_Suc_eq)
  qed (auto simp: block_open_def less_Suc_eq)
  moreover have split: "(\<forall>k\<in>{j<..<Suc i}. P k) \<longleftrightarrow> P i \<and> (\<forall>k\<in>{j<..<i}. P k)" if "j < i" for j P
    using that by (auto simp: less_Suc_eq)
  moreover have "(\<exists>j<i. opens (ls ! j) \<and> (\<forall>k\<in>{j<..<Suc i}. \<not> closes (ls ! k))) \<longleftrightarrow> block_open ls i \<and> \<not> closes (ls ! i)"
    by (simp add: block_open_def split cong: conj_cong) blast
  ultimately show ?thesis by blast
qed

lemma block_open_append: "i \<le> length ls \<Longrightarrow> block_open (ls @ ms) i = block_open ls i"
  by (auto simp: block_open_def nth_append)

lemma echo_fold:
  "fold (echo_step to_lowercase patterns) ls (0, False) =
     (card {i. i < length ls \<and> echo_at to_lowercase patterns ls i}, block_open ls (length ls))"
proof (induction ls rule: rev_induct)
  case (snoc l ls)
  let ?old = "{i. i < length ls \<and> echo_at to_lowercase patterns ls i}"
  have same: "echo_at to_lowercase patterns (ls @ [l]) i = echo_at to_lowercase patterns ls i" if "i < length ls" for i
    using that by (simp add: echo_at_def nth_append block_open_append)
  have here: "echo_at to_lowercase patterns (ls @ [l]) (length ls) \<longleftrightarrow>
      opens l \<or> closes l \<or> block_open ls (length ls) \<or> matches_pattern to_lowercase patterns l"
    by (simp add: echo_at_def block_open_append)
  have "{i. i < length (ls @ [l]) \<and> echo_at to_lowercase patterns (ls @ [l]) i} =
      ?old \<union> (if echo_at to_lowercase patterns (ls @ [l]) (length ls) then {length ls} else {})"
    using same by (auto simp: less_Suc_eq)
  then have "card {i. i < length (ls @ [l]) \<and> echo_at to_lowercase patterns (ls @ [l]) i} =
      card ?old + (if echo_at to_lowercase patterns (ls @ [l]) (length ls) then 1 else 0)"
    by simp
  with snoc here show ?case
    by (auto simp: echo_step_def opens_def closes_def block_open_Suc block_open_append)
qed (simp add: block_open_def)

text \<open>
  A message is self-echo exactly when more than half of its lines that are not blank are echo:
  they carry a mark, stand in an open block, or contain a pattern when lowercased.
\<close>

theorem self_echo_majority:
  "is_self_echo to_lowercase patterns message \<longleftrightarrow>
     2 * card {i. i < length (message_lines message) \<and> echo_at to_lowercase patterns (message_lines message) i}
       > length (message_lines message)"
  by (auto simp: is_self_echo_def echo_fold Let_def)

text \<open>A pattern is found inside a longer word, so plain prose about the tool is echo.\<close>

lemma prose_is_echo:
  "is_self_echo to_ascii_lowercase (active_self_echo_patterns to_ascii_lowercase []) ''aicx reads slowly''"
proof -
  have ls: "message_lines ''aicx reads slowly'' = [''aicx reads slowly'']"
    by (simp add: message_lines_def str_lines.simps rust_eval lf_def)
  have "to_ascii_lowercase ''aicx reads slowly'' = ''aicx reads slowly''" "to_ascii_lowercase ''aicx read'' = ''aicx read''"
    by (simp_all add: rust_eval)
  moreover have "''aicx read'' \<in> set (build_self_echo_patterns [])"
    by (simp add: build_self_echo_patterns_def cli_subcommand_names_def)
  ultimately have "matches_pattern to_ascii_lowercase (active_self_echo_patterns to_ascii_lowercase []) ''aicx reads slowly''"
    by (auto simp: matches_pattern_def active_self_echo_patterns_def list_ex_iff intro!: bexI [of _ "''aicx read''"])
  then show ?thesis
    by (simp add: is_self_echo_def ls echo_step_def)
qed

end
