(* ===== verification/State_Store.thy ===== *)
theory State_Store
  imports Path_Guard Seen_Hashes Json
begin

text \<open>
  How the state of the runs is kept on disk (\<^verbatim>\<open>src/state.rs\<close> and
  \<^verbatim>\<open>src/legacy_archive/atomic_write.rs\<close>): its JSON form as the derived serializers
  give and take it, the older form with numbers for hashes, the atomic write through a temporary file,
  saving with a rolling backup, and loading with recovery from it. The disk is a map from paths to
  contents, without links; every operation on it may succeed, fail, or be the last before a crash,
  which a list of events decides. A rename is atomic. JSON text and the text of an instant are the
  crates' business: functions that read what they wrote.
\<close>

section \<open>The text of a state\<close>

text \<open>
  \<open>js_read\<close> gives the values of a text in the order they stand in it, keys that repeat
  included.
\<close>

record codec =
  js_print :: "json \<Rightarrow> string"
  js_read :: "string \<Rightarrow> json option"
  ts_show :: "int \<Rightarrow> string"
  ts_read :: "string \<Rightarrow> int option"

definition encode_run :: "codec \<Rightarrow> run_record \<Rightarrow> json" where
  "encode_run c r = JObject
     [(''timestamp'', JString (ts_show c (rn_timestamp r))),
      (''entries_added'', JNumber (NumPos (rn_entries_added r))),
      (''sources'', JArray (map JString (rn_sources r)))]"

definition encode_state :: "codec \<Rightarrow> state_manager \<Rightarrow> json" where
  "encode_state c st = JObject
     [(''last_processed'', JObject (map (\<lambda>(k, t). (k, JString (ts_show c t))) (last_processed st))),
      (''seen_hashes'', JObject (map (\<lambda>(k, s). (k, JArray (map JString (seen_serialize s)))) (seen_hashes st))),
      (''runs'', JArray (map (encode_run c) (runs st))),
      (''hash_algorithm'', JString (hash_algorithm st))]"

text \<open>
  The value of a field of an object: a field that is named twice is an error. An array stands for
  the fields in their order. A missing field is None.
\<close>

definition struct_field :: "string list \<Rightarrow> string \<Rightarrow> json \<Rightarrow> json option option" where
  "struct_field names name v =
     (case v of
        JObject fs \<Rightarrow>
          (case filter (\<lambda>(k, _). k = name) fs of
             [] \<Rightarrow> Some None
           | [(_, x)] \<Rightarrow> Some (Some x)
           | _ \<Rightarrow> None)
      | JArray xs \<Rightarrow>
          (if length xs > length names then None
           else Some (map_of (zip names xs) name))
      | _ \<Rightarrow> None)"

definition required :: "string list \<Rightarrow> string \<Rightarrow> (json \<Rightarrow> 'a option) \<Rightarrow> json \<Rightarrow> 'a option" where
  "required names name decode v =
     (case struct_field names name v of Some (Some x) \<Rightarrow> decode x | _ \<Rightarrow> None)"

definition defaulted :: "string list \<Rightarrow> string \<Rightarrow> 'a \<Rightarrow> (json \<Rightarrow> 'a option) \<Rightarrow> json \<Rightarrow> 'a option" where
  "defaulted names name dflt decode v =
     (case struct_field names name v of None \<Rightarrow> None | Some None \<Rightarrow> Some dflt | Some (Some x) \<Rightarrow> decode x)"

fun those_map :: "('a \<Rightarrow> 'b option) \<Rightarrow> 'a list \<Rightarrow> 'b list option" where
  "those_map f [] = Some []"
| "those_map f (x # xs) =
     (case f x of None \<Rightarrow> None | Some y \<Rightarrow> map_option ((#) y) (those_map f xs))"

definition decode_string :: "json \<Rightarrow> string option" where
  "decode_string v = (case v of JString s \<Rightarrow> Some s | _ \<Rightarrow> None)"

definition decode_vec :: "(json \<Rightarrow> 'a option) \<Rightarrow> json \<Rightarrow> 'a list option" where
  "decode_vec f v = (case v of JArray xs \<Rightarrow> those_map f xs | _ \<Rightarrow> None)"

definition decode_u64 :: "json \<Rightarrow> nat option" where
  "decode_u64 v = (case v of JNumber (NumPos n) \<Rightarrow> if n < 2 ^ 64 then Some n else None | _ \<Rightarrow> None)"

text \<open>Of keys that repeat in a map the last one counts.\<close>

definition decode_map :: "(json \<Rightarrow> 'a option) \<Rightarrow> json \<Rightarrow> (string, 'a) hash_map option" where
  "decode_map f v =
     (case v of
        JObject fs \<Rightarrow>
          map_option (\<lambda>es. fold (\<lambda>(k, x). hm_insert k x) es [])
            (those_map (\<lambda>(k, x). map_option (Pair k) (f x)) fs)
      | _ \<Rightarrow> None)"

definition decode_ts :: "codec \<Rightarrow> json \<Rightarrow> int option" where
  "decode_ts c v = Option.bind (decode_string v) (ts_read c)"

definition run_fields :: "string list" where
  "run_fields = [''timestamp'', ''entries_added'', ''sources'']"

definition decode_run :: "codec \<Rightarrow> json \<Rightarrow> run_record option" where
  "decode_run c v =
     Option.bind (required run_fields ''timestamp'' (decode_ts c) v) (\<lambda>t.
     Option.bind (required run_fields ''entries_added'' decode_u64 v) (\<lambda>n.
     Option.bind (required run_fields ''sources'' (decode_vec decode_string) v) (\<lambda>s.
       Some \<lparr> rn_timestamp = t, rn_entries_added = n, rn_sources = s \<rparr>)))"

definition state_fields :: "string list" where
  "state_fields = [''last_processed'', ''seen_hashes'', ''runs'', ''hash_algorithm'']"

definition decode_seen :: "json \<Rightarrow> seen_hash_set option" where
  "decode_seen v = map_option seen_deserialize (decode_vec decode_string v)"

definition decode_state :: "codec \<Rightarrow> json \<Rightarrow> state_manager option" where
  "decode_state c v =
     Option.bind (required state_fields ''last_processed'' (decode_map (decode_ts c)) v) (\<lambda>lp.
     Option.bind (required state_fields ''seen_hashes'' (decode_map decode_seen) v) (\<lambda>sh.
     Option.bind (required state_fields ''runs'' (decode_vec (decode_run c)) v) (\<lambda>rs.
     Option.bind (defaulted state_fields ''hash_algorithm'' [] decode_string v) (\<lambda>a.
       Some \<lparr> last_processed = lp, seen_hashes = sh, runs = rs, hash_algorithm = a \<rparr>))))"

section \<open>The older form\<close>

text \<open>A \<^verbatim>\<open>Value\<close> keeps the last of repeated keys, sorted by key.\<close>

fun as_value :: "json \<Rightarrow> json" where
  "as_value (JArray xs) = JArray (map as_value xs)"
| "as_value (JObject fs) = JObject (fold (\<lambda>(k, x). bt_insert k x) (map (\<lambda>(k, x). (k, as_value x)) fs) [])"
| "as_value v = v"

definition is_legacy_siphash_state_value :: "json \<Rightarrow> bool" where
  "is_legacy_siphash_state_value v =
     (case Option.bind (json_get v ''hash_algorithm'') json_as_str of
        Some a \<Rightarrow> is_legacy_siphash13_algorithm a
      | None \<Rightarrow> False)"

definition decode_legacy_seen :: "json \<Rightarrow> seen_hash_set option" where
  "decode_legacy_seen v =
     map_option (\<lambda>hs. fold (\<lambda>h. seen_insert (show_nat h)) hs seen_default) (decode_vec decode_u64 v)"

definition decode_legacy_state :: "codec \<Rightarrow> json \<Rightarrow> state_manager option" where
  "decode_legacy_state c v =
     Option.bind (defaulted state_fields ''last_processed'' [] (decode_map (decode_ts c)) v) (\<lambda>lp.
     Option.bind (defaulted state_fields ''seen_hashes'' [] (decode_map decode_legacy_seen) v) (\<lambda>sh.
     Option.bind (defaulted state_fields ''runs'' [] (decode_vec (decode_run c)) v) (\<lambda>rs.
     Option.bind (required state_fields ''hash_algorithm'' decode_string v) (\<lambda>a.
       Some \<lparr> last_processed = lp, seen_hashes = sh, runs = rs, hash_algorithm = a \<rparr>))))"

text \<open>The state and whether it was of the older form; then its migration.\<close>

definition deserialize_current_or_legacy :: "codec \<Rightarrow> string \<Rightarrow> (state_manager \<times> bool) option" where
  "deserialize_current_or_legacy c contents =
     (case Option.bind (js_read c contents) (decode_state c) of
        Some st \<Rightarrow> Some (st, False)
      | None \<Rightarrow>
          (case map_option as_value (js_read c contents) of
             None \<Rightarrow> None
           | Some v \<Rightarrow>
               if \<not> is_legacy_siphash_state_value v then None
               else map_option (\<lambda>st. (st, True)) (decode_legacy_state c v)))"

definition deserialize_and_migrate :: "codec \<Rightarrow> string \<Rightarrow> state_manager option" where
  "deserialize_and_migrate c contents =
     map_option (\<lambda>(st, _). fst (migrate_loaded_state st)) (deserialize_current_or_legacy c contents)"

section \<open>A disk that may fail\<close>

type_synonym disk = "string \<rightharpoonup> string"

text \<open>
  What happens to the next operation: it succeeds; it fails after writing some bytes; the machine
  stops before it, or after it with that many bytes written. Without further events all goes well.
\<close>

datatype io_event = EvOk | EvFail nat | EvCrashBefore | EvCrashAfter nat

datatype 'a io_outcome = IoOk 'a | IoErr | IoCrash

type_synonym 'a io = "io_event list \<Rightarrow> disk \<Rightarrow> 'a io_outcome \<times> io_event list \<times> disk"

definition io_return :: "'a \<Rightarrow> 'a io" where
  "io_return x = (\<lambda>evs d. (IoOk x, evs, d))"

definition io_fail :: "'a io" where
  "io_fail = (\<lambda>evs d. (IoErr, evs, d))"

definition io_bind :: "'a io \<Rightarrow> ('a \<Rightarrow> 'b io) \<Rightarrow> 'b io" where
  "io_bind m k = (\<lambda>evs d. case m evs d of
     (IoOk x, evs', d') \<Rightarrow> k x evs' d'
   | (IoErr, evs', d') \<Rightarrow> (IoErr, evs', d')
   | (IoCrash, evs', d') \<Rightarrow> (IoCrash, evs', d'))"

text \<open>\<^verbatim>\<open>if let Err(err) = m { cleanup; return Err(err) }\<close>.\<close>

definition io_cleanup :: "'a io \<Rightarrow> unit io \<Rightarrow> 'a io" where
  "io_cleanup m cleanup = (\<lambda>evs d. case m evs d of
     (IoErr, evs', d') \<Rightarrow>
       (case cleanup evs' d' of
          (IoCrash, evs'', d'') \<Rightarrow> (IoCrash, evs'', d'')
        | (_, evs'', d'') \<Rightarrow> (IoErr, evs'', d''))
   | r \<Rightarrow> r)"

text \<open>
  An operation given by what it does to the disk, if it can, and what it leaves when it stops after
  some bytes.
\<close>

definition io_op :: "(disk \<Rightarrow> ('a \<times> disk) option) \<Rightarrow> (nat \<Rightarrow> disk \<Rightarrow> disk) \<Rightarrow> 'a io" where
  "io_op action partly = (\<lambda>evs d.
     case (case evs of [] \<Rightarrow> EvOk | e # _ \<Rightarrow> e) of
       EvOk \<Rightarrow> (case action d of Some (x, d') \<Rightarrow> (IoOk x, tl evs, d') | None \<Rightarrow> (IoErr, tl evs, d))
     | EvFail n \<Rightarrow> (IoErr, tl evs, partly n d)
     | EvCrashBefore \<Rightarrow> (IoCrash, tl evs, d)
     | EvCrashAfter n \<Rightarrow>
         (IoCrash, tl evs, (case action d of Some (_, d') \<Rightarrow> if n = 0 then d' else partly n d | None \<Rightarrow> d)))"

definition io_create_new :: "string \<Rightarrow> unit io" where
  "io_create_new p = io_op (\<lambda>d. if d p = None then Some ((), d(p \<mapsto> [])) else None) (\<lambda>_ d. d)"

definition io_write_all :: "string \<Rightarrow> string \<Rightarrow> unit io" where
  "io_write_all p content = io_op (\<lambda>d. Some ((), d(p \<mapsto> content))) (\<lambda>n d. d(p \<mapsto> take n content))"

definition io_sync :: "unit io" where
  "io_sync = io_op (\<lambda>d. Some ((), d)) (\<lambda>_ d. d)"

text \<open>Directories are no part of the disk; making them may fail.\<close>

definition io_create_dirs :: "string \<Rightarrow> unit io" where
  "io_create_dirs p = io_op (\<lambda>d. Some ((), d)) (\<lambda>_ d. d)"

definition io_rename :: "string \<Rightarrow> string \<Rightarrow> unit io" where
  "io_rename a b = io_op (\<lambda>d. case d a of Some content \<Rightarrow> Some ((), (d(a := None))(b \<mapsto> content)) | None \<Rightarrow> None) (\<lambda>_ d. d)"

definition io_remove :: "string \<Rightarrow> unit io" where
  "io_remove p = io_op (\<lambda>d. if d p = None then None else Some ((), d(p := None))) (\<lambda>_ d. d)"

text \<open>Opening and reading a file: None when there is none, an error when that fails otherwise.\<close>

definition io_read :: "string \<Rightarrow> string option io" where
  "io_read p = io_op (\<lambda>d. Some (d p, d)) (\<lambda>_ d. d)"

section \<open>Atomic writes\<close>

text \<open>
  The temporary file beside the target carries the process, the instant and a counter in its name.
  These are given with the target that is written.
\<close>

type_synonym temp_ids = "string \<Rightarrow> nat \<times> nat \<times> nat"

definition tempfile_name :: "temp_ids \<Rightarrow> string \<Rightarrow> string" where
  "tempfile_name ids file_name =
     (case ids file_name of (pid, nanos, counter) \<Rightarrow>
        ''.'' @ file_name @ ''.tmp.'' @ show_nat pid @ ''.'' @ show_nat nanos @ ''.'' @ show_nat counter)"

definition discard_tempfile :: "string \<Rightarrow> unit io" where
  "discard_tempfile tmp = (\<lambda>evs d. case io_remove tmp evs d of
     (IoErr, evs', d') \<Rightarrow> (IoOk (), evs', d') | r \<Rightarrow> r)"

definition stage_tempfile :: "temp_ids \<Rightarrow> string \<Rightarrow> string \<Rightarrow> string io" where
  "stage_tempfile ids target content =
     (case path_parent target of
        None \<Rightarrow> io_fail
      | Some parent \<Rightarrow>
          io_bind (if parent \<noteq> [] then io_create_dirs parent else io_return ()) (\<lambda>_.
          case path_file_name target of
            None \<Rightarrow> io_fail
          | Some file_name \<Rightarrow>
              (let tmp = path_join parent (tempfile_name ids file_name) in
               io_bind
                 (io_cleanup
                   (io_bind (io_create_new tmp) (\<lambda>_. io_bind (io_write_all tmp content) (\<lambda>_. io_sync)))
                   (discard_tempfile tmp))
                 (\<lambda>_. io_return tmp))))"

definition commit_tempfile :: "string \<Rightarrow> string \<Rightarrow> unit io" where
  "commit_tempfile tmp target = io_rename tmp target"

text \<open>The sync of the directory at the end is best effort and changes nothing here.\<close>

definition atomic_write :: "temp_ids \<Rightarrow> string \<Rightarrow> string \<Rightarrow> unit io" where
  "atomic_write ids target content =
     io_bind (stage_tempfile ids target content) (\<lambda>tmp.
       io_cleanup (commit_tempfile tmp target) (discard_tempfile tmp))"

section \<open>Saving and loading\<close>

definition with_file_name :: "string \<Rightarrow> string \<Rightarrow> string" where
  "with_file_name p name =
     (case (path_file_name p, path_parent p) of
        (Some _, Some parent) \<Rightarrow> path_join parent name
      | _ \<Rightarrow> path_join p name)"

definition state_path_for :: "string \<Rightarrow> string" where
  "state_path_for home = path_join home ''state.json''"

definition backup_path :: "string \<Rightarrow> string" where
  "backup_path path = with_file_name path ''state.json.bak''"

definition state_text :: "codec \<Rightarrow> state_manager \<Rightarrow> string" where
  "state_text c st = js_print c (encode_state c st)"

definition save_to_path_with_writer ::
  "codec \<Rightarrow> (string \<Rightarrow> string \<Rightarrow> unit io) \<Rightarrow> string \<Rightarrow> state_manager \<Rightarrow> unit io" where
  "save_to_path_with_writer c write_atomic path st =
     io_bind (case path_parent path of Some parent \<Rightarrow> io_create_dirs parent | None \<Rightarrow> io_return ()) (\<lambda>_.
      let json = state_text c st in
      io_bind (io_read path) (\<lambda>previous.
      io_bind (case previous of Some old \<Rightarrow> write_atomic (backup_path path) old | None \<Rightarrow> io_return ()) (\<lambda>_.
        write_atomic path json)))"

definition save_to_path :: "codec \<Rightarrow> temp_ids \<Rightarrow> string \<Rightarrow> state_manager \<Rightarrow> unit io" where
  "save_to_path c ids = save_to_path_with_writer c (atomic_write ids)"

text \<open>The files of a disk, seen by the guard: they are at their canonical paths.\<close>

definition disk_host :: "guard_host \<Rightarrow> disk \<Rightarrow> guard_host" where
  "disk_host h d = h\<lparr>
     h_exists := (\<lambda>p. d p \<noteq> None \<or> h_exists h p),
     h_canonicalize := (\<lambda>p. if d p \<noteq> None then Some p else h_canonicalize h p),
     h_open := (\<lambda>p. map_option (\<lambda>content. \<lparr> op_len = Some (length content), op_bytes = Some content \<rparr>) (d p)) \<rparr>"

text \<open>
  \<^verbatim>\<open>read_state_json_validated\<close> of \<^verbatim>\<open>state.rs\<close>; the operation itself may fail.
\<close>

definition read_state_json :: "user_env \<Rightarrow> guard_host \<Rightarrow> string \<Rightarrow> string io" where
  "read_state_json env h path =
     io_op (\<lambda>d.
       case validate_read_path env (disk_host h d) path of
         Inl _ \<Rightarrow> None
       | Inr validated \<Rightarrow>
           (case h_open (disk_host h d) validated of
              None \<Rightarrow> None
            | Some f \<Rightarrow>
                (case (op_len f, op_bytes f) of
                   (Some len, Some content) \<Rightarrow>
                     if len > max_state_json_bytes then None
                     else (let bytes = take (max_state_json_bytes + 1) content in
                       if length bytes > max_state_json_bytes then None
                       else if utf8_valid bytes then Some (bytes, d) else None)
                 | _ \<Rightarrow> None)))
       (\<lambda>_ d. d)"

definition io_exists :: "guard_host \<Rightarrow> string \<Rightarrow> bool io" where
  "io_exists h p = (\<lambda>evs d. (IoOk (h_exists (disk_host h d) p), evs, d))"

definition save_recovered_backup_to_primary ::
  "codec \<Rightarrow> temp_ids \<Rightarrow> string \<Rightarrow> state_manager \<Rightarrow> unit io" where
  "save_recovered_backup_to_primary c ids path st =
     io_bind (case path_parent path of Some parent \<Rightarrow> io_create_dirs parent | None \<Rightarrow> io_return ()) (\<lambda>_.
       atomic_write ids path (state_text c st))"

definition load_from_path :: "codec \<Rightarrow> user_env \<Rightarrow> guard_host \<Rightarrow> temp_ids \<Rightarrow> string \<Rightarrow> state_manager io" where
  "load_from_path c env h ids path =
     io_bind (io_exists h path) (\<lambda>exists.
       if \<not> exists then io_return state_default
       else io_bind (read_state_json env h path) (\<lambda>contents.
         case deserialize_and_migrate c contents of
           Some st \<Rightarrow> io_return st
         | None \<Rightarrow>
             io_bind (io_exists h (backup_path path)) (\<lambda>backup_exists.
               if \<not> backup_exists then io_fail
               else io_bind (read_state_json env h (backup_path path)) (\<lambda>backup.
                 case deserialize_and_migrate c backup of
                   None \<Rightarrow> io_fail
                 | Some recovered \<Rightarrow>
                     io_bind (save_recovered_backup_to_primary c ids path recovered) (\<lambda>_. io_return recovered)))))"

section \<open>Names beside a target\<close>

lemma file_name_among:
  assumes "path_file_name p = Some n"
  shows "n \<in> set (path_names p) \<and> n \<noteq> [] \<and> n \<noteq> ''.'' \<and> n \<noteq> ''..''"
proof -
  obtain cs where c: "path_components p = cs @ [n]" and n: "n \<noteq> [slash]" "n \<noteq> ''.''" "n \<noteq> ''..''"
    using assms by (auto simp: path_file_name_def split: list.splits if_splits)
  let ?f = "filter (\<lambda>x. x \<noteq> [] \<and> x \<noteq> ''.'') (path_names p)"
  have "n \<in> set (path_components p)" using c by simp
  then have "n \<in> set ?f" using n by (simp add: path_components_def Let_def split: if_splits)
  then show ?thesis using n by simp
qed

lemma components_plain: "path_file_name p = Some n \<Longrightarrow> plain_component n"
  using file_name_among [of p n] split_where_free
  unfolding plain_component_def path_names_def by fast

lemma file_name_parent: "path_file_name p = Some n \<Longrightarrow> path_parent p \<noteq> None"
  using file_name_among [of p n] by (auto simp: path_parent_def trim_names_def Let_def dropWhile_eq_Nil_conv)

lemma file_name_join:
  "plain_component n \<Longrightarrow> n \<noteq> ''..'' \<Longrightarrow> path_file_name (path_join p n) = Some n"
  by (auto simp: path_file_name_def components_join plain_component_def)

lemma show_nat_slash [simp]: "slash \<notin> set (show_nat n)"
proof (induction n rule: show_nat.induct)
  case (1 n)
  have "hex_digit k \<noteq> slash" if "k < 10" for k
    using that by (auto simp: hex_digit_def slash_def less_Suc_eq numeral_eq_Suc)
  then show ?case using 1 by (subst show_nat.simps) (auto dest: sym)
qed

lemma tempfile_name_plain:
  "plain_component n \<Longrightarrow> plain_component (tempfile_name ids n) \<and> tempfile_name ids n \<noteq> ''..''"
  by (auto simp: tempfile_name_def plain_component_def split: prod.split) (simp_all add: slash_def)

lemma tempfile_name_longer: "length n < length (tempfile_name ids n)"
  by (simp add: tempfile_name_def split: prod.split)

definition temp_of :: "temp_ids \<Rightarrow> string \<Rightarrow> string option" where
  "temp_of ids target =
     (case (path_parent target, path_file_name target) of
        (Some parent, Some n) \<Rightarrow> Some (path_join parent (tempfile_name ids n))
      | _ \<Rightarrow> None)"

lemma temp_of_name:
  "temp_of ids target = Some tmp \<Longrightarrow>
   \<exists>n. path_file_name target = Some n \<and> path_file_name tmp = Some (tempfile_name ids n)"
  using components_plain tempfile_name_plain
  by (fastforce simp: temp_of_def file_name_join split: option.splits)

section \<open>What an atomic write leaves\<close>

definition leaves :: "string set \<Rightarrow> disk \<Rightarrow> disk \<Rightarrow> bool" where
  "leaves ps d d' \<longleftrightarrow> (\<forall>p. p \<notin> ps \<longrightarrow> d' p = d p)"

lemmas io_eval = io_bind_def io_return_def io_fail_def io_cleanup_def io_op_def io_create_new_def io_write_all_def
  io_sync_def io_create_dirs_def io_rename_def io_remove_def io_read_def io_exists_def discard_tempfile_def
  commit_tempfile_def

lemma io_same:
  assumes "io_op (\<lambda>d. Some (x d, d)) (\<lambda>_ d. d) evs d = (r, evs', d')"
  shows "d' = d \<and> (case r of IoOk y \<Rightarrow> y = x d | _ \<Rightarrow> True)"
  using assms by (auto simp: io_op_def split: list.splits io_event.splits if_splits)
text \<open>
  Staging, over the events: the target is untouched, and only the temporary file, which was not there,
  may be left.
\<close>

lemma stage_outcome:
  assumes "stage_tempfile ids target content evs d = (r, evs', d')"
  shows "(case r of
            IoOk tmp \<Rightarrow> temp_of ids target = Some tmp \<and> d tmp = None \<and> d' = d(tmp \<mapsto> content)
          | _ \<Rightarrow> leaves (set_option (temp_of ids target)) d d')"
proof (cases "path_parent target")
  case None
  then show ?thesis using assms by (auto simp: stage_tempfile_def io_eval leaves_def)
next
  case (Some parent)
  show ?thesis
  proof (cases "path_file_name target")
    case None
    then show ?thesis using assms Some
      by (auto simp: stage_tempfile_def io_eval leaves_def split: list.splits io_event.splits if_splits)
  next
    case (Some n)
    with \<open>path_parent target = Some parent\<close> show ?thesis using assms
      by (auto simp: stage_tempfile_def temp_of_def io_eval leaves_def Let_def
          split: list.splits io_event.splits if_splits option.splits)
  qed
qed
lemma atomic_write_outcome:
  assumes "atomic_write ids target content evs d = (r, evs', d')"
  shows "(case r of
            IoOk _ \<Rightarrow> d' = d(target \<mapsto> content)
          | IoErr \<Rightarrow> leaves (set_option (temp_of ids target)) d d'
          | IoCrash \<Rightarrow> leaves (set_option (temp_of ids target)) d d' \<or> d' = d(target \<mapsto> content))"
proof -
  obtain r1 evs1 d1 where st: "stage_tempfile ids target content evs d = (r1, evs1, d1)"
    by (cases "stage_tempfile ids target content evs d")
  note out = stage_outcome [OF st]
  show ?thesis
  proof (cases r1)
    case (IoOk tmp)
    with out have "temp_of ids target = Some tmp" "d tmp = None" "d1 = d(tmp \<mapsto> content)" by auto
    moreover have "d(tmp := None) = d" using \<open>d tmp = None\<close> by (rule fun_upd_idem)
    ultimately show ?thesis using assms st IoOk
      by (auto simp: atomic_write_def io_eval leaves_def fun_upd_twist split: list.splits io_event.splits if_splits)
  qed (use assms st out in \<open>auto simp: atomic_write_def io_bind_def\<close>)
qed

lemma atomic_write_quiet:
  assumes "path_parent target \<noteq> None" "temp_of ids target = Some tmp" "d tmp = None" 
  shows "atomic_write ids target content [] d = (IoOk (), [], d(target \<mapsto> content))"
  using assms fun_upd_idem [of d tmp None]
  by (auto simp: atomic_write_def stage_tempfile_def temp_of_def io_eval Let_def fun_upd_twist split: option.splits)
section \<open>What a save leaves\<close>

lemma state_file_name: "path_file_name (state_path_for home) = Some ''state.json''"
  unfolding state_path_for_def by (rule file_name_join) (simp_all add: plain_component_def slash_def)

lemma backup_file_name: "path_file_name path = Some n \<Longrightarrow> path_file_name (backup_path path) = Some ''state.json.bak''"
  using file_name_parent [of path n]
  by (auto simp: backup_path_def with_file_name_def plain_component_def slash_def intro!: file_name_join)

text \<open>
  A save over a writer that leaves its temporary files in \<open>temps\<close>: what it ends in when it
  succeeds, and the disks on which it did not come to its end, where the primary is as it was.
\<close>

definition save_temps :: "(string \<Rightarrow> string set) \<Rightarrow> string \<Rightarrow> string set" where
  "save_temps temps path = temps path \<union> temps (backup_path path)"

definition saved :: "string \<Rightarrow> string \<Rightarrow> disk \<Rightarrow> disk" where
  "saved path content d =
     (case d path of None \<Rightarrow> d | Some old \<Rightarrow> d(backup_path path \<mapsto> old))(path \<mapsto> content)"

definition unsaved :: "(string \<Rightarrow> string set) \<Rightarrow> string \<Rightarrow> disk \<Rightarrow> disk \<Rightarrow> bool" where
  "unsaved temps path d d' \<longleftrightarrow>
     leaves (insert (backup_path path) (save_temps temps path)) d d'
     \<and> (d' (backup_path path) = d (backup_path path) \<or> d' (backup_path path) = d path)"

lemma unsaved_refl [simp]: "unsaved temps path d d"
  by (simp add: unsaved_def leaves_def)

text \<open>
  \<^verbatim>\<open>save_to_path_with_writer\<close> takes the write as an argument. What it needs of it: a write
  that succeeds replaces the target, one that fails leaves it, a crash gives the one or the other, and
  but for temporary files beside the target nothing else changes.
\<close>

locale atomic_writer =
  fixes put :: "string \<Rightarrow> string \<Rightarrow> unit io" and temps :: "string \<Rightarrow> string set"
  assumes write_outcome: "put target content evs d = (r, evs', d') \<Longrightarrow>
      (case r of
         IoOk _ \<Rightarrow> d' = d(target \<mapsto> content)
       | IoErr \<Rightarrow> leaves (temps target) d d'
       | IoCrash \<Rightarrow> leaves (temps target) d d' \<or> d' = d(target \<mapsto> content))"
    and temps_beside: "path_file_name target = Some n \<Longrightarrow> t \<in> temps target \<Longrightarrow>
      path_file_name t \<noteq> Some ''state.json'' \<and> path_file_name t \<noteq> Some ''state.json.bak''"
begin

lemma temps_apart:
  assumes "path_file_name path = Some ''state.json''"
  shows "path \<notin> save_temps temps path" "backup_path path \<notin> save_temps temps path" "backup_path path \<noteq> path"
proof -
  have "path_file_name t \<noteq> Some ''state.json'' \<and> path_file_name t \<noteq> Some ''state.json.bak''"
    if "t \<in> save_temps temps path" for t
    using that temps_beside [OF assms] temps_beside [OF backup_file_name [OF assms]] unfolding save_temps_def by blast
  then show "path \<notin> save_temps temps path" "backup_path path \<notin> save_temps temps path"
    using assms backup_file_name [OF assms] by blast+
  show "backup_path path \<noteq> path" using assms backup_file_name [OF assms] by auto
qed

lemma primary_kept:
  "path_file_name path = Some ''state.json'' \<Longrightarrow> unsaved temps path d d' \<Longrightarrow> d' path = d path"
  using temps_apart(1,3) [of path] by (simp add: unsaved_def leaves_def)

lemma backup_step:
  assumes p: "path_file_name path = Some ''state.json''"
    and step: "(case d path of Some old \<Rightarrow> put (backup_path path) old | None \<Rightarrow> io_return ()) evs d = (r, evs', d')"
  shows "(case r of IoOk _ \<Rightarrow> d' = (case d path of None \<Rightarrow> d | Some old \<Rightarrow> d(backup_path path \<mapsto> old))
                 | _ \<Rightarrow> unsaved temps path d d')"
proof (cases "d path")
  case None
  then show ?thesis using step by (auto simp: io_return_def)
next
  case (Some old)
  note apart = temps_apart [OF p]
  have "put (backup_path path) old evs d = (r, evs', d')" using step Some by simp
  from write_outcome [OF this] show ?thesis
    using Some apart by (auto simp: unsaved_def leaves_def save_temps_def split: io_outcome.splits)
qed

lemma primary_step:
  assumes p: "path_file_name path = Some ''state.json''"
    and d1: "d1 = (case d path of None \<Rightarrow> d | Some old \<Rightarrow> d(backup_path path \<mapsto> old))"
    and step: "put path content evs d1 = (r, evs', d')"
  shows "(case r of IoOk _ \<Rightarrow> d' = saved path content d
                 | IoErr \<Rightarrow> unsaved temps path d d'
                 | IoCrash \<Rightarrow> unsaved temps path d d' \<or> d' = saved path content d)"
proof -
  note apart = temps_apart [OF p]
  have "unsaved temps path d d'" if "leaves (temps path) d1 d'"
    using that apart d1 by (auto simp: unsaved_def leaves_def save_temps_def split: option.splits)
  then show ?thesis
    using write_outcome [OF step] d1 by (auto simp: saved_def split: io_outcome.splits)
qed

lemma save_outcome:
  assumes p: "path_file_name path = Some ''state.json''"
    and run: "save_to_path_with_writer c put path st evs d = (r, evs', d')"
  shows "(case r of IoOk _ \<Rightarrow> d' = saved path (state_text c st) d
                 | IoErr \<Rightarrow> unsaved temps path d d'
                 | IoCrash \<Rightarrow> unsaved temps path d d' \<or> d' = saved path (state_text c st) d)"
proof -
  obtain parent where parent: "path_parent path = Some parent" using file_name_parent [OF p] by auto
  obtain r0 evs0 d0 where dirs: "io_create_dirs parent evs d = (r0, evs0, d0)"
    by (cases "io_create_dirs parent evs d")
  obtain r1 evs1 d1 where old: "io_read path evs0 d = (r1, evs1, d1)" by (cases "io_read path evs0 d")
  have d0: "d0 = d" using dirs io_same [of "\<lambda>_. ()"] unfolding io_create_dirs_def by blast
  have d1: "d1 = d \<and> (case r1 of IoOk y \<Rightarrow> y = d path | _ \<Rightarrow> True)"
    using old unfolding io_read_def by (rule io_same)
  let ?backup = "case d path of Some old \<Rightarrow> put (backup_path path) old | None \<Rightarrow> io_return ()"
  obtain r2 evs2 d2 where mid: "?backup evs1 d = (r2, evs2, d2)" by (cases "?backup evs1 d")
  note bs = backup_step [OF p mid]
  obtain r3 evs3 d3 where fin: "put path (state_text c st) evs2 d2 = (r3, evs3, d3)"
    by (cases "put path (state_text c st) evs2 d2")
  show ?thesis
  proof (cases "r2")
    case (IoOk u)
    then have "d2 = (case d path of None \<Rightarrow> d | Some old \<Rightarrow> d(backup_path path \<mapsto> old))" using bs by simp
    from primary_step [OF p this fin] show ?thesis
      using run parent dirs d0 old d1 mid fin IoOk
      by (auto simp: save_to_path_with_writer_def io_bind_def split: io_outcome.splits)
  qed (use run parent dirs d0 old d1 mid bs in
        \<open>auto simp: save_to_path_with_writer_def io_bind_def split: io_outcome.splits\<close>)
qed

end

text \<open>The writer of the program keeps the contract.\<close>

definition temps_of :: "temp_ids \<Rightarrow> string \<Rightarrow> string set" where
  "temps_of ids target = set_option (temp_of ids target)"

interpretation aw: atomic_writer "atomic_write ids" "temps_of ids" for ids
proof
  fix target content evs d r evs' d'
  assume "atomic_write ids target content evs d = (r, evs', d')"
  then show "case r of
      IoOk _ \<Rightarrow> d' = d(target \<mapsto> content)
    | IoErr \<Rightarrow> leaves (temps_of ids target) d d'
    | IoCrash \<Rightarrow> leaves (temps_of ids target) d d' \<or> d' = d(target \<mapsto> content)"
    unfolding temps_of_def by (rule atomic_write_outcome)
next
  fix target n t
  assume t: "t \<in> temps_of ids target"
  have "tempfile_name ids m \<noteq> ''state.json'' \<and> tempfile_name ids m \<noteq> ''state.json.bak''" for m
    by (simp add: tempfile_name_def split: prod.split)
  moreover obtain m where "path_file_name t = Some (tempfile_name ids m)"
    using t by (auto simp: temps_of_def dest!: temp_of_name)
  ultimately show "path_file_name t \<noteq> Some ''state.json'' \<and> path_file_name t \<noteq> Some ''state.json.bak''" by simp
qed

lemmas save_to_path_outcome = aw.save_outcome [folded save_to_path_def]

text \<open>
  C11: A save of the state, whatever operation of it fails or is interrupted by a crash, ends in one of
  two disks. When it succeeds the primary file holds the new state, the backup what the primary held
  before, and nothing else changed. When it fails the primary is untouched, the backup is untouched or
  a copy of the primary, and only the two temporary files may be left behind. A crash gives the one or
  the other.
\<close>

theorem save_crash_consistent:
  "case save_to_path c ids (state_path_for home) st evs d of (r, _, d') \<Rightarrow>
     (case r of
        IoOk _ \<Rightarrow> d' = saved (state_path_for home) (state_text c st) d
      | IoErr \<Rightarrow> unsaved (temps_of ids) (state_path_for home) d d'
      | IoCrash \<Rightarrow> unsaved (temps_of ids) (state_path_for home) d d' \<or> d' = saved (state_path_for home) (state_text c st) d)"
  using save_to_path_outcome [OF state_file_name [of home]]
  by (cases "save_to_path c ids (state_path_for home) st evs d") fastforce

section \<open>Reading a state back\<close>

lemma seen_roundtrip: "seen_wf s \<Longrightarrow> seen_deserialize (seen_serialize s) = s"
  by (cases s) (simp add: seen_wf_def seen_deserialize_def seen_serialize_def seen_fold_fresh seen_default_def)

lemma hm_insert_fresh: "k \<notin> fst ` set m \<Longrightarrow> hm_insert k v m = m @ [(k, v)]"
  unfolding hm_insert_def by (induction m) auto

lemma fold_hm_insert:
  "distinct (map fst (m @ es)) \<Longrightarrow> fold (\<lambda>(k, x). hm_insert k x) es m = m @ es"
proof (induction es arbitrary: m)
  case (Cons e es)
  obtain k v where e: "e = (k, v)" by (cases e)
  have "hm_insert k v m = m @ [e]" using Cons.prems e by (simp add: hm_insert_fresh)
  then show ?case using Cons.IH [of "m @ [e]"] Cons.prems e by simp
qed simp

lemma those_map_map: "(\<And>x. x \<in> set xs \<Longrightarrow> f (g x) = Some (h x)) \<Longrightarrow> those_map f (map g xs) = Some (map h xs)"
  by (induction xs) auto

lemma decode_map_entries:
  assumes "hm_wf m" "\<And>k v. (k, v) \<in> set m \<Longrightarrow> f (g v) = Some v"
  shows "decode_map f (JObject (map (\<lambda>(k, v). (k, g v)) m)) = Some m"
proof -
  have "those_map (\<lambda>(k, x). map_option (Pair k) (f x)) (map (\<lambda>(k, v). (k, g v)) m) = Some (map id m)"
    using assms(2) by (intro those_map_map) auto
  then show ?thesis
    using fold_hm_insert [of "[]" m] assms(1) by (simp add: decode_map_def hm_wf_def)
qed

lemma struct_field_object:
  "struct_field names name (JObject fs) =
     (case filter (\<lambda>(k, _). k = name) fs of [] \<Rightarrow> Some None | [(_, x)] \<Rightarrow> Some (Some x) | _ \<Rightarrow> None)"
  by (simp add: struct_field_def)

definition run_storable :: "codec \<Rightarrow> run_record \<Rightarrow> bool" where
  "run_storable c r \<longleftrightarrow>
     rn_entries_added r < 2 ^ 64 \<and> ts_read c (ts_show c (rn_timestamp r)) = Some (rn_timestamp r)"

text \<open>What the crates promise about the text of one state, and the width of its numbers.\<close>

definition state_storable :: "codec \<Rightarrow> state_manager \<Rightarrow> bool" where
  "state_storable c st \<longleftrightarrow>
     state_wf st \<and> str_trim (hash_algorithm st) = blake3_128_algorithm
     \<and> list_all (run_storable c) (runs st)
     \<and> list_all (\<lambda>(_, t). ts_read c (ts_show c t) = Some t) (last_processed st)
     \<and> js_read c (state_text c st) = Some (encode_state c st)
     \<and> length (state_text c st) \<le> max_state_json_bytes \<and> utf8_valid (state_text c st)"

lemma decode_encode_run: "run_storable c r \<Longrightarrow> decode_run c (encode_run c r) = Some r"
  using those_map_map [of "rn_sources r" decode_string JString id]
  by (simp add: decode_run_def encode_run_def required_def struct_field_object decode_ts_def decode_string_def
      decode_u64_def decode_vec_def run_storable_def)

lemma decode_encode_state:
  assumes "state_storable c st"
  shows "decode_state c (encode_state c st) = Some st"
proof -
  have ok: "hm_wf (last_processed st)" "hm_wf (seen_hashes st)" "\<And>k s. (k, s) \<in> set (seen_hashes st) \<Longrightarrow> seen_wf s"
    "\<And>r. r \<in> set (runs st) \<Longrightarrow> run_storable c r"
    "\<And>k t. (k, t) \<in> set (last_processed st) \<Longrightarrow> ts_read c (ts_show c t) = Some t"
    using assms by (auto simp: state_storable_def state_wf_def buckets_wf_def list_all_iff)
  have lp: "decode_map (decode_ts c) (JObject (map (\<lambda>(k, t). (k, JString (ts_show c t))) (last_processed st))) = Some (last_processed st)"
    using ok by (intro decode_map_entries) (auto simp: decode_ts_def decode_string_def)
  have "decode_seen (JArray (map JString (seen_serialize s))) = Some s" if "seen_wf s" for s
    using those_map_map [of "seen_serialize s" decode_string JString id] seen_roundtrip [OF that]
    by (simp add: decode_seen_def decode_vec_def decode_string_def)
  then have sh: "decode_map decode_seen (JObject (map (\<lambda>(k, s). (k, JArray (map JString (seen_serialize s)))) (seen_hashes st))) = Some (seen_hashes st)"
    using ok by (intro decode_map_entries) auto
  have rs: "decode_vec (decode_run c) (JArray (map (encode_run c) (runs st))) = Some (runs st)"
    using those_map_map [of "runs st" "decode_run c" "encode_run c" id] ok(4) by (simp add: decode_vec_def decode_encode_run)
  show ?thesis
    using lp sh rs
    by (simp add: decode_state_def encode_state_def required_def defaulted_def struct_field_object decode_string_def)
qed

lemma migrate_buckets_wf:
  "buckets_wf (a @ m) \<Longrightarrow> fst (fold migrate_bucket m (a, report)) = a @ m"
proof (induction m arbitrary: a report)
  case (Cons e m)
  obtain k s where e: "e = (k, s)" by (cases e)
  have "canonical_state_bucket k = k" "seen_wf s" "k \<notin> fst ` set a"
    using Cons.prems e by (auto simp: buckets_wf_def hm_wf_def)
  moreover from this have "seen_extend_from seen_default s = s"
    using seen_roundtrip [of s] by (simp add: seen_extend_from_def seen_deserialize_def seen_serialize_def)
  moreover have "hm_get a k = None" using \<open>k \<notin> fst ` set a\<close> by (simp add: hm_get_def map_of_eq_None_iff)
  ultimately have "\<exists>report'. migrate_bucket e (a, report) = (a @ [e], report')"
    using e by (simp add: migrate_bucket_def hm_entry_def hm_insert_fresh)
  then show ?case using Cons.IH [of "a @ [e]"] Cons.prems by auto
qed simp

lemma migrate_storable: "state_storable c st \<Longrightarrow> fst (migrate_loaded_state st) = st"
  using migrate_buckets_wf [of "[]" "seen_hashes st" report_default]
  by (auto simp: state_storable_def state_wf_def migrate_loaded_state_def split: prod.split)

lemma deserialize_state_text: "state_storable c st \<Longrightarrow> deserialize_and_migrate c (state_text c st) = Some st"
  using decode_encode_state [of c st] migrate_storable [of c st]
  by (simp add: deserialize_and_migrate_def deserialize_current_or_legacy_def state_storable_def)

section \<open>Saving, then loading\<close>

text \<open>The guard lets the file pass wherever the disk has it.\<close>

definition guard_admits :: "user_env \<Rightarrow> guard_host \<Rightarrow> string \<Rightarrow> bool" where
  "guard_admits env h path \<longleftrightarrow>
     (\<forall>d. d path \<noteq> None \<longrightarrow> validate_read_path env (disk_host h d) path = Inr path)"

definition state_readable :: "string \<Rightarrow> bool" where
  "state_readable content \<longleftrightarrow> length content \<le> max_state_json_bytes \<and> utf8_valid content"

lemma read_state_quiet:
  assumes "guard_admits env h path" "d path = Some content" "state_readable content"
  shows "read_state_json env h path [] d = (IoOk content, [], d)"
proof -
  have "validate_read_path env (disk_host h d) path = Inr path"
    using assms by (simp add: guard_admits_def)
  moreover have "h_open (disk_host h d) path = Some \<lparr> op_len = Some (length content), op_bytes = Some content \<rparr>"
    using assms by (simp add: disk_host_def)
  ultimately show ?thesis using assms(3) by (simp add: read_state_json_def io_op_def state_readable_def)
qed

lemma io_bind_ok: "m evs d = (IoOk x, evs', d') \<Longrightarrow> io_bind m k evs d = k x evs' d'"
  by (simp add: io_bind_def)

lemma exists_quiet: "d path \<noteq> None \<Longrightarrow> io_exists h path [] d = (IoOk True, [], d)"
  by (simp add: io_exists_def disk_host_def)

lemma load_state:
  assumes "guard_admits env h path" "state_storable c st" "d path = Some (state_text c st)"
  shows "load_from_path c env h ids path [] d = (IoOk st, [], d)"
proof -
  have "read_state_json env h path [] d = (IoOk (state_text c st), [], d)"
    using assms by (intro read_state_quiet) (auto simp: state_storable_def state_readable_def)
  then show ?thesis
    using exists_quiet [of d path h] assms(3) deserialize_state_text [OF assms(2)]
    by (simp add: load_from_path_def io_bind_def io_return_def)
qed

text \<open>
  C10: A state file survives every save. Whatever happens to the operations of the save, a later load
  on the disk it leaves returns, without touching the disk, exactly the new state when the save
  succeeded, exactly the old one when it failed, and one of the two when the machine stopped.
\<close>

theorem load_after_save:
  assumes "guard_admits env h (state_path_for home)" "state_storable c old" "state_storable c new"
    and "d (state_path_for home) = Some (state_text c old)"
  shows "case save_to_path c ids (state_path_for home) new evs d of (r, _, d') \<Rightarrow>
           load_from_path c env h ids' (state_path_for home) [] d'
             \<in> (\<lambda>st. (IoOk st, [], d')) ` (case r of IoOk _ \<Rightarrow> {new} | IoErr \<Rightarrow> {old} | IoCrash \<Rightarrow> {old, new})"
proof -
  let ?p = "state_path_for home"
  obtain r evs' d' where run: "save_to_path c ids ?p new evs d = (r, evs', d')"
    by (cases "save_to_path c ids ?p new evs d")
  have keep: "d' ?p = d ?p" if "unsaved (temps_of ids) ?p d d'"
    by (rule aw.primary_kept [OF state_file_name that])
  have "d' ?p = Some (state_text c new)" if "d' = saved ?p (state_text c new) d"
    using that by (simp add: saved_def)
  then show ?thesis
    using save_to_path_outcome [OF state_file_name run] keep run assms load_state [OF assms(1)]
    by (cases r) auto
qed

text \<open>
  C12: A primary file that cannot be parsed is never reset silently. With a backup that parses, loading
  returns the state of the backup and writes it back to the primary; without one, or with one that does
  not parse either, it fails and leaves the disk as it is.
\<close>

theorem load_recovers_backup:
  assumes "guard_admits env h (state_path_for home)" "guard_admits env h (backup_path (state_path_for home))"
    and "d (state_path_for home) = Some broken" "state_readable broken" "deserialize_and_migrate c broken = None"
    and "d (backup_path (state_path_for home)) = backup" "pred_option state_readable backup"
    and "\<not> h_exists h (backup_path (state_path_for home))"
    and "temp_of ids (state_path_for home) = Some tmp" "d tmp = None"
  shows "load_from_path c env h ids (state_path_for home) [] d =
           (case Option.bind backup (deserialize_and_migrate c) of
              Some st \<Rightarrow> (IoOk st, [], d(state_path_for home \<mapsto> state_text c st))
            | None \<Rightarrow> (IoErr, [], d))"
proof -
  let ?p = "state_path_for home"
  have first: "read_state_json env h ?p [] d = (IoOk broken, [], d)"
    using assms by (intro read_state_quiet)
  have heal: "save_recovered_backup_to_primary c ids ?p st [] d = (IoOk (), [], d(?p \<mapsto> state_text c st))" for st
    using atomic_write_quiet [of ?p ids tmp d] file_name_parent [OF state_file_name, of home] assms(9,10)
    by (auto simp: save_recovered_backup_to_primary_def io_bind_def io_create_dirs_def io_op_def)
  show ?thesis
  proof (cases backup)
    case None
    then have "io_exists h (backup_path ?p) [] d = (IoOk False, [], d)"
      using assms by (simp add: io_exists_def disk_host_def)
    then show ?thesis using None first exists_quiet [of d ?p h] assms
      by (simp add: load_from_path_def io_bind_def io_fail_def)
  next
    case (Some b)
    then have "read_state_json env h (backup_path ?p) [] d = (IoOk b, [], d)"
      using assms by (intro read_state_quiet) auto
    then show ?thesis
      using Some first exists_quiet [of d ?p h] exists_quiet [of d "backup_path ?p" h] assms heal
      by (simp add: load_from_path_def io_bind_def io_fail_def io_return_def split: option.split)
  qed
qed

section \<open>On concrete inputs\<close>

definition epoch_text :: string where
  "epoch_text = ''1970-01-01T00:00:00Z''"

definition first_state :: state_manager where
  "first_state = state_default"

definition second_state :: state_manager where
  "second_state = state_default\<lparr>last_processed := [(''claude'', 0)]\<rparr>"

definition state_json :: "(string \<times> json) list \<Rightarrow> json" where
  "state_json watermarks = JObject
     [(''last_processed'', JObject watermarks), (''seen_hashes'', JObject []), (''runs'', JArray []),
      (''hash_algorithm'', JString blake3_128_algorithm)]"

definition sample_codec :: codec where
  "sample_codec = \<lparr>
     js_print = (\<lambda>v. if v = state_json [] then ''first'' else ''second''),
     js_read = (\<lambda>s. if s = ''first'' then Some (state_json [])
                    else if s = ''second'' then Some (state_json [(''claude'', JString epoch_text)]) else None),
     ts_show = (\<lambda>_. epoch_text), ts_read = (\<lambda>s. if s = epoch_text then Some 0 else None) \<rparr>"

lemma sample_texts: "state_text sample_codec first_state = ''first''" "state_text sample_codec second_state = ''second''"
  by (simp_all add: state_text_def sample_codec_def encode_state_def first_state_def second_state_def state_default_def
      state_json_def)

lemma sample_text_facts:
  "utf8_valid ''first''" "utf8_valid ''second''" "str_trim blake3_128_algorithm = blake3_128_algorithm"
  by (simp add: byte_of_def, simp add: byte_of_def, simp add: blake3_128_algorithm_def rust_eval)

lemma sample_encoded:
  "encode_state sample_codec first_state = state_json []"
  "encode_state sample_codec second_state = state_json [(''claude'', JString epoch_text)]"
  by (simp_all add: encode_state_def sample_codec_def state_json_def first_state_def second_state_def state_default_def)

lemma sample_codec_reads:
  "js_read sample_codec ''first'' = Some (state_json [])"
  "js_read sample_codec ''second'' = Some (state_json [(''claude'', JString epoch_text)])"
  "ts_read sample_codec (ts_show sample_codec 0) = Some 0"
  by (simp_all add: sample_codec_def)

lemma sample_size: "length ''first'' \<le> max_state_json_bytes" "length ''second'' \<le> max_state_json_bytes"
  by (simp_all add: max_state_json_bytes_def)

lemma sample_states:
  "state_wf first_state" "state_wf second_state" "runs first_state = []" "runs second_state = []"
  "hash_algorithm first_state = blake3_128_algorithm" "hash_algorithm second_state = blake3_128_algorithm"
  "last_processed first_state = []" "last_processed second_state = [(''claude'', 0)]"
  by (simp_all add: first_state_def second_state_def state_default_def state_wf_def buckets_wf_def hm_wf_def)

lemma sample_storable: "state_storable sample_codec first_state" "state_storable sample_codec second_state"
  unfolding state_storable_def sample_texts sample_encoded sample_states
  by (simp_all only: sample_text_facts sample_codec_reads sample_size sample_states list.pred_inject prod.case simp_thms)

definition sample_env :: user_env where
  "sample_env = \<lparr> ue_home_dir = Some ''/h'', ue_cache_dir = None, ue_data_dir = None, ue_allow_tmp = None,
     ue_is_test = False, ue_current_exe = None, ue_current_dir = None \<rparr>"

definition sample_host :: guard_host where
  "sample_host = \<lparr> h_exists = (\<lambda>p. p = ''/h''), h_is_file = (\<lambda>_. False), h_read_to_string = (\<lambda>_. None),
     h_read = (\<lambda>_. None), h_canonicalize = (\<lambda>p. if p = ''/h'' then Some p else None),
     h_is_dir = (\<lambda>p. p = ''/h''), h_open = (\<lambda>_. None) \<rparr>"

lemma sample_paths:
  "state_path_for ''/h'' = ''/h/state.json''" "backup_path ''/h/state.json'' = ''/h/state.json.bak''"
  by (simp_all add: state_path_for_def backup_path_def with_file_name_def path_file_name_def path_eval path_parent_def
      path_components_def slash_def)

lemma sample_admits:
  "guard_admits sample_env sample_host ''/h/state.json''" "guard_admits sample_env sample_host ''/h/state.json.bak''"
  by (simp_all add: guard_admits_def validate_read_path_def contains_traversal_def path_components_def path_eval
      slash_def backslash_def nul_def lf_def disk_host_def sample_host_def canonicalize_existing_def bind_res_def
      is_under_allowed_base_def current_user_allowed_bases_def sample_env_def option_list_def List.map_filter_def
      push_base_def plain_base_def path_starts_with_def strip_verbatim_prefix_def strip_prefix_def)

lemma load_after_save_witness:
  "case save_to_path sample_codec (\<lambda>_. (1, 2, 3)) ''/h/state.json'' second_state [EvOk, EvOk, EvOk, EvFail 3]
          [''/h/state.json'' \<mapsto> ''first''] of (r, _, d') \<Rightarrow>
     load_from_path sample_codec sample_env sample_host (\<lambda>_. (1, 2, 4)) ''/h/state.json'' [] d'
       \<in> (\<lambda>st. (IoOk st, [], d')) ` (case r of IoOk _ \<Rightarrow> {second_state} | IoErr \<Rightarrow> {first_state}
                                         | IoCrash \<Rightarrow> {first_state, second_state})"
  using load_after_save [where env = sample_env and h = sample_host and home = "''/h''" and c = sample_codec
      and old = first_state and new = second_state and d = "[''/h/state.json'' \<mapsto> ''first'']"
      and ids = "\<lambda>_. (1, 2, 3)" and evs = "[EvOk, EvOk, EvOk, EvFail 3]" and ids' = "\<lambda>_. (1, 2, 4)"]
  by (simp only: sample_paths sample_admits sample_storable sample_texts fun_upd_same simp_thms)

lemma load_recovers_backup_witness:
  "\<exists>tmp. load_from_path sample_codec sample_env sample_host (\<lambda>_. (1, 2, 3)) ''/h/state.json'' []
     [''/h/state.json'' \<mapsto> ''torn'', ''/h/state.json.bak'' \<mapsto> ''second''] =
   (IoOk second_state, [], [''/h/state.json'' \<mapsto> ''second'', ''/h/state.json.bak'' \<mapsto> ''second''])
   \<and> temp_of (\<lambda>_. (1, 2, 3)) ''/h/state.json'' = Some tmp"
proof -
  let ?d = "[''/h/state.json'' \<mapsto> ''torn'', ''/h/state.json.bak'' \<mapsto> ''second'']"
  have torn: "state_readable ''torn''" "deserialize_and_migrate sample_codec ''torn'' = None"
    by (simp add: state_readable_def max_state_json_bytes_def byte_of_def,
        simp add: deserialize_and_migrate_def deserialize_current_or_legacy_def sample_codec_def)
  have readable: "state_readable ''second''"
    by (simp only: state_readable_def sample_text_facts sample_size simp_thms)
  obtain tmp where tmp: "temp_of (\<lambda>_. (1, 2, 3)) ''/h/state.json'' = Some tmp"
    using state_file_name [of "''/h''"] file_name_parent [OF state_file_name, of "''/h''"]
    by (auto simp: temp_of_def sample_paths)
  have "tmp \<notin> {''/h/state.json'', ''/h/state.json.bak''}"
    using aw.temps_apart(1,2) [OF state_file_name, of "''/h''" "\<lambda>_. (1, 2, 3)"] tmp
    by (auto simp: save_temps_def temps_of_def sample_paths)
  then have "?d tmp = None" by simp
  from load_recovers_backup [of sample_env sample_host "''/h''" ?d "''torn''" sample_codec "Some ''second''"
      "\<lambda>_. (1, 2, 3)" tmp] this tmp torn readable
  have "load_from_path sample_codec sample_env sample_host (\<lambda>_. (1, 2, 3)) ''/h/state.json'' [] ?d =
          (IoOk second_state, [], ?d(''/h/state.json'' \<mapsto> ''second''))"
    using deserialize_state_text [OF sample_storable(2)]
    by (simp add: sample_paths sample_admits sample_texts) (simp add: sample_host_def)
  then show ?thesis using tmp by (auto simp: fun_upd_twist)
qed

text \<open>
  A temporary file of the same name that was there before makes the write fail, and the cleanup removes
  it, though this write did not create it.
\<close>

lemma write_removes_foreign_temp:
  assumes "temp_of ids target = Some tmp" "d tmp \<noteq> None"
  shows "atomic_write ids target content [] d = (IoErr, [], d(tmp := None))"
  using assms
  by (auto simp: atomic_write_def stage_tempfile_def temp_of_def io_eval Let_def split: option.splits)

end
