(* ===== verification/Spec2Isabelle.thy ===== *)
theory Spec2Isabelle
  imports Engine Hybrid Lock_Holder Progress Scope_Script Run_Dedup Self_Echo State_Store
begin

text \<open>
  \<^bold>\<open>The parser kernel, the hybrid retrieval and the extraction state of aicx.\<close>

  aicx reads the session logs of coding agents (Codex, Claude, Gemini and others) and turns them
  into one typed model that search, extraction and continuity are built on. The kernel,
  \<^verbatim>\<open>crates/aicx-parser/src/engine\<close>, is a pipeline: an explicit source handle, a bounded read,
  a provider adapter's classification, exhaustive validation, and a canonical projection. Nothing is
  projected from a source unless every raw unit is accounted for. What the kernel lets through is
  cut into chunks and indexed twice, lexically and by embeddings; \<^verbatim>\<open>crates/aicx-retrieve\<close>
  builds, publishes, validates and queries the pair. Between the two stands an extraction run: it
  scans the sources behind a watermark, cuts the entries into segments by repository, drops what an
  earlier run has seen, and saves what it saw in one state file. This development models the three,
  operation by operation, and proves what their stages promise.

  \<^bold>\<open>Theories.\<close>
  \<^item> \<^verbatim>\<open>Prelude\<close>: counters with their widths (\<^verbatim>\<open>u64\<close> as \<^typ>\<open>nat\<close> with checked,
    saturating and wrapping addition), results as sums with \<^verbatim>\<open>?\<close> as \<open>bind_res\<close>, loops with
    early return as \<open>fold_res\<close> and \<open>each_res\<close>, sets that refuse duplicates.
  \<^item> \<^verbatim>\<open>Rust_Text\<close>: strings as UTF-8 bytes, trimming, the debug format, decimal and
    hexadecimal rendering.
  \<^item> \<^verbatim>\<open>Ordered_Map\<close>: \<^verbatim>\<open>BTreeMap\<close> as its sorted entries; the interface \<open>tally_store\<close>
    and its interpretation \<open>bt\<close>, on which the ledgers rest.
  \<^item> \<^verbatim>\<open>Source\<close> (\<^verbatim>\<open>source.rs\<close>): agents, artifacts, source handles.
  \<^item> \<^verbatim>\<open>Sha256\<close> (\<^verbatim>\<open>identity.rs\<close>, from \<^verbatim>\<open>sha256_hex\<close> on): the digest as the code
    computes it and as FIPS 180-4 defines it; the interface \<open>chunked_digest\<close> and its interpretation.
  \<^item> \<^verbatim>\<open>Identity\<close> (\<^verbatim>\<open>identity.rs\<close>): package and frame identities, evidence event ids.
  \<^item> \<^verbatim>\<open>Evidence\<close>, \<^verbatim>\<open>Model\<close> (\<^verbatim>\<open>model.rs\<close>): the session model; scope verdicts as a
    join, the interface \<open>join_fold\<close> and its interpretation \<open>scope\<close>.
  \<^item> \<^verbatim>\<open>Coverage\<close> (\<^verbatim>\<open>coverage.rs\<close>): the ledger of consumed and skipped units.
  \<^item> \<^verbatim>\<open>Frames\<close> (\<^verbatim>\<open>frames_rules.rs\<close>, \<^verbatim>\<open>frames.rs\<close>): what a transport frame means;
    the shell frames and shell actions that \<^verbatim>\<open>adapters/codex.rs\<close> builds.
  \<^item> \<^verbatim>\<open>Refusal\<close> (\<^verbatim>\<open>refusal.rs\<close>): refusals and their evidence.
  \<^item> \<^verbatim>\<open>Reader\<close> (\<^verbatim>\<open>reader.rs\<close>): artifacts cut into bounded, hashed, numbered units.
  \<^item> \<^verbatim>\<open>Validate\<close> (\<^verbatim>\<open>validate.rs\<close>): the invariants of reports, models and parses.
  \<^item> \<^verbatim>\<open>Canonical\<close> (\<^verbatim>\<open>canonical.rs\<close>): the normative projection and the fingerprint.
  \<^item> \<^verbatim>\<open>Engine\<close> (\<^verbatim>\<open>engine/mod.rs\<close>, \<^verbatim>\<open>adapters/mod.rs\<close>): one parse, end to end.

  Scope evidence (\<^verbatim>\<open>scope_evidence.rs\<close>, in which repository a turn ran):
  \<^item> \<^verbatim>\<open>Scope_Paths\<close>: recorded paths of any platform, joined, collapsed and compared as
    text; on Unix, walking and prefixes of name lists.
  \<^item> \<^verbatim>\<open>Scope_Records\<close>: the discriminators of a record cut off by the cap, and
    \<^verbatim>\<open>.gitmodules\<close>.
  \<^item> \<^verbatim>\<open>Scope_Window\<close>: identities on a host, membership, the number of repositories, the
    verdict on a window and its reference on sets, the cache key; \<^verbatim>\<open>discover_git_root\<close> of
    \<^verbatim>\<open>segmentation.rs\<close>.
  \<^item> \<^verbatim>\<open>Scope_Lexer\<close>, \<^verbatim>\<open>Scope_Script\<close>: the lexer of model-written JavaScript, its
    \<^verbatim>\<open>workdir\<close> keys and \<^verbatim>\<open>exec_command\<close> calls, and the evidence of one tool call.

  Retrieval (\<^verbatim>\<open>crates/aicx-retrieve/src\<close>):
  \<^item> \<^verbatim>\<open>Float32\<close>: IEEE binary32 with the operations scoring uses, correctly rounded to nearest
    even; \<^verbatim>\<open>Json\<close>: JSON values with \<^verbatim>\<open>serde_json\<close>'s equality.
  \<^item> \<^verbatim>\<open>Retrieve_Types\<close> (\<^verbatim>\<open>types.rs\<close>, \<^verbatim>\<open>error.rs\<close>): chunks, hits, outcomes;
    \<^verbatim>\<open>Manifest\<close> (\<^verbatim>\<open>manifest.rs\<close>); \<^verbatim>\<open>Rrf\<close> (\<^verbatim>\<open>fusion_rrf.rs\<close>).
  \<^item> \<^verbatim>\<open>Line_Reader\<close> (\<^verbatim>\<open>read_line_capped\<close> of \<^verbatim>\<open>sanitize.rs\<close>); \<^verbatim>\<open>Brute_Force\<close>
    (\<^verbatim>\<open>adapter_brute_force.rs\<close>): the in-memory dense index and its file.
  \<^item> \<^verbatim>\<open>Top_K\<close>: a bounded heap keeps the best; \<^verbatim>\<open>Mmap_Dense\<close>
    (\<^verbatim>\<open>adapter_mmap.rs\<close>): the mapped dense index, refined to a list of chunks.
  \<^item> \<^verbatim>\<open>Refill\<close>: the window-doubling loops of the query, the interfaces
    \<open>ranked_source\<close> and \<open>filtered_source\<close> of a leg; interpreted on both dense indexes.
  \<^item> \<^verbatim>\<open>Hybrid\<close> (\<^verbatim>\<open>orchestrator.rs\<close>): generations and queries over both legs.

  Running it:
  \<^item> \<^verbatim>\<open>Lock_System\<close>, \<^verbatim>\<open>Lock_Holder\<close> (\<^verbatim>\<open>src/locks.rs\<close>): processes and threads
    taking one lock file, with the failures before and after the system lock is granted, as a step
    relation over an operating system's lock (the interface \<open>owned_locks\<close>, interpreted on
    process-owned and handle-owned tables); the record of the holder and the wait for it.
  \<^item> \<^verbatim>\<open>Float64\<close>, \<^verbatim>\<open>Progress\<close> (\<^verbatim>\<open>aicx-progress-contracts\<close>,
    \<^verbatim>\<open>aicx-monitor/src/progress.rs\<close>): the progress stream, its snapshot, rates and monitor.

  Extraction runs:
  \<^item> \<^verbatim>\<open>Path_Guard\<close>, \<^verbatim>\<open>Self_Echo\<close> (\<^verbatim>\<open>sanitize.rs\<close>): which
    paths may be read and written, capped reads, cleaned content; messages that are the tool's own
    output.
  \<^item> \<^verbatim>\<open>Segmentation\<close> (\<^verbatim>\<open>segmentation.rs\<close>, \<^verbatim>\<open>timeline.rs\<close>): the
    repository of an entry with its tier of trust, and the cut of sessions into segments.
  \<^item> \<^verbatim>\<open>Seen_Hashes\<close> (\<^verbatim>\<open>src/state.rs\<close>, \<^verbatim>\<open>src/state/migration.rs\<close>):
    hashes seen per project, watermarks, the history of runs, and the migration of older states.
  \<^item> \<^verbatim>\<open>State_Store\<close> (\<^verbatim>\<open>src/state.rs\<close>,
    \<^verbatim>\<open>src/legacy_archive/atomic_write.rs\<close>): the JSON form of the state, its save with a
    backup and its load with recovery, over a disk on which every operation may fail or be the last;
    the interface \<open>atomic_writer\<close>, interpreted on the program's atomic write.
  \<^item> \<^verbatim>\<open>Run_Dedup\<close> (\<^verbatim>\<open>src/main.rs\<close>): watermark keys and their coverage,
    deduplication of a run and its end.

  \<^bold>\<open>How the model corresponds to the code.\<close> A struct is a record with prefixed fields, an enum a
  datatype with the source's variants, an associated function a definition named after it. A method
  that mutates returns the changed value. Every early return of the source is an \<open>Inl\<close> branch in
  the same order, with the message the code gives. Loops over collections are folds over lists with
  the loop's variables as their state; sets whose order is not observed are sets, maps whose
  serialization or equality is observed are sorted lists.

  \<^bold>\<open>Parameters.\<close> What the code calls and does not define is an argument: the table of printable
  characters behind the debug format (\<open>printable\<close>), chrono's RFC 3339 parser (\<open>rfc3339\<close>), the
  file system (\<open>fs\<close>), the JSON encoder (\<open>to_vec\<close>), and the adapter of the parse, about which the
  end-to-end property assumes nothing. Costs are \<^verbatim>\<open>f64\<close>, modelled by sign, mantissa and
  exponent with infinities and NaN, which is all the validator looks at. For retrieval: the lexical
  adapter (a record of operations), the serializers of rows, headers and metadata records (with what
  a property needs of them as a hypothesis: writing and reading back give the value), BLAKE3, the
  clock and fresh ids, and the order an unstable comparison leaves rows with NaN scores in. For scope
  evidence: the host's file system, a record of questions, of which the verdict needs that
  \<^verbatim>\<open>realpath\<close> gives names (\<open>canonical_host\<close>); the JSON parser; the table of
  alphanumeric characters outside ASCII. The host is a Unix one and paths are UTF-8. For extraction
  runs: the user's directories and environment, the answer of \<^verbatim>\<open>git\<close> about a remote, the
  printing and reading of JSON and of instants (with what a property needs of one state's text as
  \<open>state_storable\<close>), Unicode lower case and decomposition, and the iteration order of hash maps.

  \<^bold>\<open>What the lemmas show.\<close> Each validator function has a lemma, \<open>..._ok\<close>, that says exactly
  when it succeeds; the properties are stated over these. Invariants of loops go through
  \<open>fold_res_invariant\<close>, \<open>insert_pair_loop\<close> and the interfaces above. The digest is followed
  from an absorption invariant to equality with the standard. The fold of segments keeps the invariant
  \<open>fold_inv\<close>, from which the fingerprint's independence of the host follows.

  In retrieval, byte layout, validation and scan are followed to the list of chunks the file holds
  (\<open>mmap_holds\<close>), against which queries and appends are stated as refinements; refills are proved
  once over \<open>ranked_source\<close> and carried to the hybrid query.

  \<^bold>\<open>Bounds.\<close> No fuel is used: every function here terminates structurally or by a length
  measure, except the refill loop, a partial function that is proved to return. Lengths of lists and strings are natural numbers; where the code adds 64-bit counts the
  width is written out, and the few theorems that need it ask for lists that fit in memory.

  Scope evidence is followed from the bytes of a script to the verdict: the lexer's spans are in
  order, a readable path comes from a live call only, the verdict is a function of sets of
  identities, and an attribution rests on every call of the window.

  The state of extraction is followed from its calls to the disk: any sequence of calls keeps it
  well formed, what is saved loads again whatever fails in between, deduplication refines the
  admission of entries by keys, and it is said exactly when an agent scans from a watermark. Three
  behaviours that comments promise do not hold and are lemmas with an example: an agent may scan from
  an instant recorded under a key that does not name it (\<open>watermark_overclaims\<close>), a rescan may
  keep duplicates (\<open>rescan_splits_spellings\<close>), and the classifier alone makes operator speech
  of an echo that Codex ran (\<open>agent_echo_promoted\<close>).

  \<^bold>\<open>Not modelled.\<close> Provider adapters (decoding of their JSON; of Codex only what becomes of
  shell records is modelled), the Tantivy adapter, the
  manifest file, catalogues (directories, SQLite), the chunker, ranking, intents and other views made
  of regular expressions and text heuristics, embeddings, and the front ends; serialization of the
  types other than the state; links, directories and permissions of the file system.
\<close>

end
